(* ===== verification/Prelude.thy ===== *)
theory Prelude
  imports Main "HOL-Library.Word"
begin

text \<open>
  Shared vocabulary of the development: machine integers, byte strings, the ways a C run can
  stop before returning (\<open>halt\<close>), sequencing of fallible steps (\<open>rbind\<close>), the memory
  primitives \<open>memcmp\<close>, \<open>memcpy\<close> and \<open>memset\<close> over byte lists, byte order
  conversions, and the contract \<open>comparator\<close> of the three-way comparison functions which the
  containers of the program are parameterised with.
\<close>

unbundle bit_operations_syntax

named_theorems run_simps \<open>equations that push a computation through \<open>rbind\<close>\<close>
named_theorems wf_intros \<open>introduction rules for the well-formedness invariants\<close>

section \<open>Machine integers and byte strings\<close>

type_synonym u8 = "8 word"
type_synonym u16 = "16 word"
type_synonym u32 = "32 word"
type_synonym bytes = "u8 list"

section \<open>Runs that stop early\<close>

text \<open>
  \<open>LogErr msg\<close> is a call of \<open>BPRD_LOG_ERR\<close>: \<open>logger_log\<close> ends the whole process
  with \<open>exit(1)\<close> after logging at priority \<open>LOG_ERR\<close>. The other constructors are a failed
  \<open>assert\<close> and the undefined behaviour the sources can run into. A function that can stop
  this way returns \<open>halt + 'a\<close>.
\<close>

datatype halt = LogErr string | AssertFail | NullDeref | DivByZero | OutOfBounds

definition rbind :: "'e + 'a \<Rightarrow> ('a \<Rightarrow> 'e + 'b) \<Rightarrow> 'e + 'b" where
  "rbind m f = (case m of Inl e \<Rightarrow> Inl e | Inr x \<Rightarrow> f x)"

lemma rbind_simps [simp, run_simps]:
  "rbind (Inl e) f = Inl e"
  "rbind (Inr x) f = f x"
  by (simp_all add: rbind_def)

lemma rbind_Inr_iff: "rbind m f = Inr y \<longleftrightarrow> (\<exists>x. m = Inr x \<and> f x = Inr y)"
  by (cases m) simp_all

lemma rbind_InrE [elim]:
  assumes "rbind m f = Inr y"
  obtains x where "m = Inr x" and "f x = Inr y"
  using assms by (auto simp: rbind_Inr_iff)

lemma rbind_cong [fundef_cong]:
  "m = m' \<Longrightarrow> (\<And>x. m' = Inr x \<Longrightarrow> f x = f' x) \<Longrightarrow> rbind m f = rbind m' f'"
  by (cases m') simp_all

text \<open>A step that may also make the function return early: \<open>Inr (Inl r)\<close> is \<open>return r\<close>.\<close>

definition ebind :: "'e + ('r + 'a) \<Rightarrow> ('a \<Rightarrow> 'e + ('r + 'b)) \<Rightarrow> 'e + ('r + 'b)" where
  "ebind m f = rbind m (\<lambda>x. case x of Inl r \<Rightarrow> Inr (Inl r) | Inr y \<Rightarrow> f y)"

lemma ebind_simps [simp, run_simps]:
  "ebind (Inl e) f = Inl e"
  "ebind (Inr (Inl r)) f = Inr (Inl r)"
  "ebind (Inr (Inr x)) f = f x"
  by (simp_all add: ebind_def)

lemma ebind_cases:
  obtains (halt) e where "m = Inl e" "ebind m f = Inl e"
  | (ret) r where "m = Inr (Inl r)" "ebind m f = Inr (Inl r)"
  | (go) x where "m = Inr (Inr x)" "ebind m f = f x"
proof (cases m)
  case (Inr x)
  with ret go show ?thesis by (cases x) simp_all
qed (use halt in simp)

lemma ebind_ok_iff: "ebind m f = Inr (Inr y) \<longleftrightarrow> (\<exists>x. m = Inr (Inr x) \<and> f x = Inr (Inr y))"
  by (cases rule: ebind_cases[of m f]) auto

lemma ebind_retE:
  assumes "ebind m f = Inr (Inl r)"
  obtains "m = Inr (Inl r)" | x where "m = Inr (Inr x)" and "f x = Inr (Inl r)"
  using assms by (cases rule: ebind_cases[of m f]) auto

text \<open>A pointer that may be \<open>NULL\<close> is an option; reading through it can fault.\<close>

definition deref :: "'a option \<Rightarrow> halt + 'a" where
  "deref p = (case p of None \<Rightarrow> Inl NullDeref | Some x \<Rightarrow> Inr x)"

lemma deref_simps [simp, run_simps]:
  "deref None = Inl NullDeref"
  "deref (Some x) = Inr x"
  by (simp_all add: deref_def)

lemma deref_Inr_iff [simp]: "deref p = Inr x \<longleftrightarrow> p = Some x"
  by (cases p) simp_all

text \<open>A step for each element of a list, in order.\<close>

fun each :: "('a \<Rightarrow> 's \<Rightarrow> halt + 's) \<Rightarrow> 'a list \<Rightarrow> 's \<Rightarrow> halt + 's" where
  "each f [] s = Inr s"
| "each f (x # xs) s = rbind (f x s) (each f xs)"

section \<open>Memory primitives\<close>

text \<open>
  The sign of \<open>memcmp\<close> on two blocks: bytes are compared as unsigned values, the first
  difference decides. C compares blocks of one length; a shorter list comes first here.
\<close>

fun memcmp :: "bytes \<Rightarrow> bytes \<Rightarrow> int" where
  "memcmp [] [] = 0"
| "memcmp [] (y # ys) = -1"
| "memcmp (x # xs) [] = 1"
| "memcmp (x # xs) (y # ys) = (if x < y then -1 else if y < x then 1 else memcmp xs ys)"

text \<open>\<open>put_bytes off src dst\<close> overwrites \<open>dst\<close> from offset \<open>off\<close>; \<open>memcpy\<close> is the
  same with the bound of the destination checked.\<close>

definition put_bytes :: "nat \<Rightarrow> 'a list \<Rightarrow> 'a list \<Rightarrow> 'a list" where
  "put_bytes off src dst = take off dst @ src @ drop (off + length src) dst"

definition memcpy :: "bytes \<Rightarrow> nat \<Rightarrow> bytes \<Rightarrow> halt + bytes" where
  "memcpy dst off src =
     (if off + length src \<le> length dst then Inr (put_bytes off src dst) else Inl OutOfBounds)"

definition sub_bytes :: "nat \<Rightarrow> nat \<Rightarrow> 'a list \<Rightarrow> 'a list" where
  "sub_bytes off n xs = take n (drop off xs)"

lemma length_sub_bytes [simp]:
  "off + n \<le> length xs \<Longrightarrow> length (sub_bytes off n xs) = n"
  by (simp add: sub_bytes_def)

lemma length_put_bytes [simp]:
  "off + length src \<le> length dst \<Longrightarrow> length (put_bytes off src dst) = length dst"
  by (simp add: put_bytes_def)

lemma sub_put_bytes_same [simp]:
  "off + length src \<le> length dst \<Longrightarrow> n = length src \<Longrightarrow>
     sub_bytes off n (put_bytes off src dst) = src"
  by (simp add: put_bytes_def sub_bytes_def)

lemma nth_put_bytes_before [simp]:
  "i < off \<Longrightarrow> off \<le> length dst \<Longrightarrow> put_bytes off src dst ! i = dst ! i"
  by (simp add: put_bytes_def nth_append)

lemma sub_bytes_append:
  "length pre = off \<Longrightarrow> length xs = n \<Longrightarrow> sub_bytes off n (pre @ xs @ post) = xs"
  by (simp add: sub_bytes_def)

text \<open>A write at the end of a filled range extends it; a write outside a range leaves it alone.\<close>

lemma sub_put_extend:
  "a + n + length src \<le> length dst \<Longrightarrow>
     sub_bytes a (n + length src) (put_bytes (a + n) src dst) = sub_bytes a n dst @ src"
  by (simp add: sub_bytes_def put_bytes_def drop_take take_add)

lemma sub_put_before: "a + n \<le> off \<Longrightarrow> off \<le> length dst \<Longrightarrow> sub_bytes a n (put_bytes off src dst) = sub_bytes a n dst"
  by (auto simp: sub_bytes_def put_bytes_def drop_take min_def)

lemma sub_put_after:
  "off + length src \<le> a \<Longrightarrow> off + length src \<le> length dst \<Longrightarrow> sub_bytes a n (put_bytes off src dst) = sub_bytes a n dst"
  by (simp add: sub_bytes_def put_bytes_def)

lemma memcpy_length: "memcpy dst off src = Inr dst' \<Longrightarrow> length dst' = length dst"
  by (auto simp: memcpy_def split: if_splits)

section \<open>Byte order\<close>

definition hi8 :: "u16 \<Rightarrow> u8" where "hi8 w = ucast (drop_bit 8 w)"
definition lo8 :: "u16 \<Rightarrow> u8" where "lo8 w = ucast (w AND 255)"
definition mk16 :: "u8 \<Rightarrow> u8 \<Rightarrow> u16" where "mk16 h l = push_bit 8 (ucast h) + ucast l"

lemma unat_u8: "unat (w :: u8) < 256"
  by (rule unsigned_less [THEN less_le_trans]) simp

lemma unat_u16: "unat (w :: u16) < 65536"
  by (rule unsigned_less [THEN less_le_trans]) simp

lemma unat_u32: "unat (w :: u32) < 4294967296"
  by (rule unsigned_less [THEN less_le_trans]) simp

lemma unat_ucast_u8_u16 [simp]: "unat (ucast (b :: u8) :: u16) = unat b"
proof -
  have "unat b < 65536" using unat_u8[of b] by linarith
  then show ?thesis by (simp add: unsigned_ucast_eq take_bit_eq_mod)
qed

lemma unat_hi8: "unat (hi8 w) = unat w div 256"
proof -
  have "unat w div 256 < 256" using unat_u16[of w] by (simp add: less_mult_imp_div_less)
  then show ?thesis
    by (simp add: hi8_def unsigned_ucast_eq unsigned_drop_bit_eq drop_bit_eq_div unat_div_distrib
        take_bit_eq_mod)
qed

lemma unat_lo8: "unat (lo8 w) = unat w mod 256"
proof -
  have "w AND 255 = take_bit 8 w"
    by (simp add: take_bit_eq_mask mask_eq_exp_minus_1)
  then show ?thesis
    by (simp add: lo8_def unsigned_ucast_eq unat_mod_distrib take_bit_eq_mod)
qed

lemma unat_mk16: "unat (mk16 h l) = 256 * unat h + unat l"
proof -
  have h: "unat h < 256" and l: "unat l < 256" by (rule unat_u8)+
  have "unat (push_bit 8 (ucast h :: u16)) = (256 * unat h) mod 65536"
    by (simp add: push_bit_eq_mult unat_word_ariths mult.commute)
  then show ?thesis
    using h l by (simp add: mk16_def unat_word_ariths)
qed

lemma mk16_hi8_lo8 [simp]: "mk16 (hi8 w) (lo8 w) = w"
  by (rule word_unat_eq_iff [THEN iffD2]) (simp add: unat_mk16 unat_hi8 unat_lo8)

lemma hi8_mk16 [simp]: "hi8 (mk16 h l) = h"
  using unat_u8[of l]
  by (intro word_unat_eq_iff [THEN iffD2]) (simp add: unat_mk16 unat_hi8)

lemma lo8_mk16 [simp]: "lo8 (mk16 h l) = l"
  using unat_u8[of l]
  by (intro word_unat_eq_iff [THEN iffD2]) (simp add: unat_mk16 unat_lo8)

section \<open>Three-way comparison\<close>

text \<open>
  The contract of a comparison function in C: its sign is a total preorder. The containers
  (\<open>lib/common/avl.c\<close>, \<open>src/list.c\<close>) are parameterised with such a function and rely on
  nothing else about the keys.
\<close>

locale comparator =
  fixes cmp :: "'k \<Rightarrow> 'k \<Rightarrow> int"
  assumes cmp_antisym: "sgn (cmp x y) = - sgn (cmp y x)"
    and cmp_trans: "cmp x y \<le> 0 \<Longrightarrow> cmp y z \<le> 0 \<Longrightarrow> cmp x z \<le> 0"
begin

lemma cmp_refl [simp]: "cmp x x = 0"
proof -
  have "sgn (cmp x x) = 0" using cmp_antisym[of x x] by simp
  then show ?thesis by (simp add: sgn_0_0)
qed

lemma cmp_pos_iff: "0 < cmp x y \<longleftrightarrow> cmp y x < 0"
  using cmp_antisym[of x y] by (auto simp: sgn_if split: if_splits)

lemma cmp_nonneg_iff: "0 \<le> cmp x y \<longleftrightarrow> cmp y x \<le> 0"
  using cmp_antisym[of x y] by (auto simp: sgn_if split: if_splits)

lemma cmp_zero_iff: "cmp x y = 0 \<longleftrightarrow> cmp y x = 0"
  using cmp_antisym[of x y] by (auto simp: sgn_if split: if_splits)

lemma cmp_less_le_trans: "cmp x y < 0 \<Longrightarrow> cmp y z \<le> 0 \<Longrightarrow> cmp x z < 0"
  using cmp_trans[of y z x] cmp_pos_iff[of y x] cmp_nonneg_iff[of x z] by linarith

lemma cmp_le_less_trans: "cmp x y \<le> 0 \<Longrightarrow> cmp y z < 0 \<Longrightarrow> cmp x z < 0"
  using cmp_trans[of z x y] cmp_pos_iff[of z y] cmp_nonneg_iff[of x z] by linarith

lemma cmp_eq_left: "cmp x y = 0 \<Longrightarrow> sgn (cmp x z) = sgn (cmp y z)"
  using cmp_trans[of x y z] cmp_trans[of y x z] cmp_le_less_trans[of x y z]
    cmp_le_less_trans[of y x z] cmp_zero_iff[of x y]
  by (simp add: sgn_if) linarith

end

lemma memcmp_refl [simp]: "memcmp xs xs = 0"
  by (induction xs) auto

lemma memcmp_zero_iff: "memcmp xs ys = 0 \<longleftrightarrow> xs = ys"
  by (induction xs ys rule: memcmp.induct) auto

lemma memcmp_swap: "memcmp xs ys = - memcmp ys xs"
  by (induction xs ys rule: memcmp.induct) auto

lemma memcmp_trans: "memcmp xs ys \<le> 0 \<Longrightarrow> memcmp ys zs \<le> 0 \<Longrightarrow> memcmp xs zs \<le> 0"
proof (induction xs ys arbitrary: zs rule: memcmp.induct)
  case (2 y ys)
  then show ?case by (cases zs) auto
next
  case (4 x xs y ys)
  then show ?case by (cases zs) (auto split: if_splits)
qed auto

interpretation mem: comparator memcmp
proof unfold_locales
  fix xs ys show "sgn (memcmp xs ys) = - sgn (memcmp ys xs)"
    by (subst memcmp_swap) simp
qed (rule memcmp_trans)

end
