(* ===== verification/Netaddr.thy ===== *)
theory Netaddr
  imports Prelude
begin

text \<open>
  \<open>lib/common/netaddr.c\<close> and \<open>netaddr.h\<close>: network addresses of the four families the
  library knows, their binary, socket and text forms, comparison and subnet tests.

  A \<open>struct netaddr\<close> is a record whose address field holds the 16 bytes of the C array. The
  union \<open>netaddr_socket\<close> is the 128 bytes of \<open>struct sockaddr_storage\<close>, with the field
  offsets of Linux: family at 0 (host order, little endian), port at 2 (network order), an IPv4
  address at 4, an IPv6 address at 8. \<open>AF_INET\<close>, \<open>AF_INET6\<close> and \<open>AF_MAX\<close> have the values of
  the Linux C library of the release named in the README. \<open>inet_pton\<close> and \<open>inet_ntop\<close> are
  functions of the network library of the system: they are arguments of the definitions that
  call them.
\<close>

section \<open>Address families\<close>

abbreviation AF_INET :: "'a::len word" where "AF_INET \<equiv> 2"
abbreviation AF_INET6 :: "'a::len word" where "AF_INET6 \<equiv> 10"
abbreviation AF_MAX :: "'a::len word" where "AF_MAX \<equiv> 41"
abbreviation AF_MAC48 :: "'a::len word" where "AF_MAC48 \<equiv> 42"
abbreviation AF_EUI64 :: "'a::len word" where "AF_EUI64 \<equiv> 43"

record netaddr =
  na_addr :: bytes
  na_type :: u8
  na_prefix_len :: u8

definition netaddr_wf :: "netaddr \<Rightarrow> bool" where
  "netaddr_wf a \<longleftrightarrow> length (na_addr a) = 16"

text \<open>The address structure of an IPv4 host.\<close>

definition ipv4 :: "bytes \<Rightarrow> netaddr" where
  "ipv4 b = \<lparr>na_addr = b @ replicate 12 0, na_type = AF_INET, na_prefix_len = 32\<rparr>"

lemma ipv4_inject [simp]: "ipv4 b = ipv4 b' \<longleftrightarrow> b = b'"
  by (simp add: ipv4_def)

lemma ipv4_sel [simp]:
  "na_addr (ipv4 b) = b @ replicate 12 0" "na_type (ipv4 b) = AF_INET" "na_prefix_len (ipv4 b) = 32"
  by (simp_all add: ipv4_def)

type_synonym netaddr_socket = bytes

definition sockaddr_storage_size :: nat where "sockaddr_storage_size = 128"

definition sa_family :: "netaddr_socket \<Rightarrow> u16" where
  "sa_family s = mk16 (s ! 1) (s ! 0)"

definition set_sa_family :: "u16 \<Rightarrow> netaddr_socket \<Rightarrow> netaddr_socket" where
  "set_sa_family f s = put_bytes 0 [lo8 f, hi8 f] s"

definition sin_port :: "netaddr_socket \<Rightarrow> u16" where
  "sin_port s = mk16 (s ! 2) (s ! 3)"

definition set_sin_port :: "u16 \<Rightarrow> netaddr_socket \<Rightarrow> netaddr_socket" where
  "set_sin_port p s = put_bytes 2 [hi8 p, lo8 p] s"

definition sin_addr :: "netaddr_socket \<Rightarrow> bytes" where "sin_addr s = sub_bytes 4 4 s"
definition sin6_addr :: "netaddr_socket \<Rightarrow> bytes" where "sin6_addr s = sub_bytes 8 16 s"

section \<open>Binary form\<close>

definition netaddr_from_binary :: "netaddr \<Rightarrow> bytes \<Rightarrow> nat \<Rightarrow> u8 \<Rightarrow> int \<times> netaddr" where
  "netaddr_from_binary dst binary len addr_type =
     (let dst = dst\<lparr>na_addr := replicate 16 0\<rparr>;
          read = (\<lambda>n plen. dst\<lparr>na_addr := put_bytes 0 (take n binary) (na_addr dst),
                                na_prefix_len := plen\<rparr>);
          finish = (\<lambda>d. (0, d\<lparr>na_type := addr_type\<rparr>))
      in if addr_type = AF_INET \<and> 4 \<le> len then finish (read 4 32)
         else if addr_type = AF_INET6 \<and> 16 \<le> len then finish (read 16 128)
         else if addr_type = AF_MAC48 \<and> 6 \<le> len then finish (read 6 48)
         else if addr_type = AF_EUI64 \<and> 8 \<le> len then finish (read 8 64)
         else (-1, dst))"

definition netaddr_to_binary :: "bytes \<Rightarrow> netaddr \<Rightarrow> nat \<Rightarrow> int \<times> bytes" where
  "netaddr_to_binary dst src len =
     (let copy = (\<lambda>n. (0, put_bytes 0 (take n (na_addr src)) dst))
      in if na_type src = AF_INET \<and> 4 \<le> len then copy 4
         else if na_type src = AF_INET6 \<and> 16 \<le> len then copy 16
         else if na_type src = AF_MAC48 \<and> 6 \<le> len then copy 6
         else if na_type src = AF_EUI64 \<and> 8 \<le> len then copy 8
         else (-1, dst))"

section \<open>Socket form\<close>

definition netaddr_from_socket :: "netaddr \<Rightarrow> netaddr_socket \<Rightarrow> int \<times> netaddr" where
  "netaddr_from_socket dst src =
     (let dst = dst\<lparr>na_addr := replicate 16 0\<rparr>;
          finish = (\<lambda>a plen. (0, dst\<lparr>na_addr := put_bytes 0 a (na_addr dst), na_prefix_len := plen,
                                     na_type := ucast (sa_family src)\<rparr>))
      in if sa_family src = AF_INET then finish (sin_addr src) 32
         else if sa_family src = AF_INET6 then finish (sin6_addr src) 128
         else (-1, dst))"

definition netaddr_to_socket :: "netaddr_socket \<Rightarrow> netaddr \<Rightarrow> int \<times> netaddr_socket" where
  "netaddr_to_socket dst src =
     (let dst = set_sa_family (ucast (na_type src)) dst
      in if na_type src = AF_INET
         then (0, set_sa_family (ucast (na_type src)) (put_bytes 4 (take 4 (na_addr src)) dst))
         else if na_type src = AF_INET6
         then (0, set_sa_family (ucast (na_type src)) (put_bytes 8 (take 16 (na_addr src)) dst))
         else (-1, dst))"

definition netaddr_socket_init :: "netaddr \<Rightarrow> u16 \<Rightarrow> int \<times> netaddr_socket" where
  "netaddr_socket_init addr port =
     (let combined = replicate sockaddr_storage_size 0
      in if na_type addr = AF_INET
         then (0, set_sa_family (ucast (na_type addr))
                    (set_sin_port port (put_bytes 4 (take 4 (na_addr addr)) combined)))
         else if na_type addr = AF_INET6
         then (0, set_sa_family (ucast (na_type addr))
                    (set_sin_port port (put_bytes 8 (take 16 (na_addr addr)) combined)))
         else (-1, combined))"

definition netaddr_socket_get_port :: "netaddr_socket \<Rightarrow> u16" where
  "netaddr_socket_get_port sock =
     (if sa_family sock = AF_INET then sin_port sock
      else if sa_family sock = AF_INET6 then sin_port sock
      else 0)"

section \<open>Comparison\<close>

definition netaddr_bytes :: "netaddr \<Rightarrow> bytes" where
  "netaddr_bytes a = na_addr a @ [na_type a, na_prefix_len a]"

definition netaddr_cmp :: "netaddr \<Rightarrow> netaddr \<Rightarrow> int" where
  "netaddr_cmp a1 a2 = memcmp (netaddr_bytes a1) (netaddr_bytes a2)"

definition netaddr_avlcmp :: "netaddr \<Rightarrow> netaddr \<Rightarrow> int" where
  "netaddr_avlcmp k1 k2 = netaddr_cmp k1 k2"

definition netaddr_socket_cmp :: "netaddr_socket \<Rightarrow> netaddr_socket \<Rightarrow> int" where
  "netaddr_socket_cmp s1 s2 = memcmp s1 s2"

definition netaddr_cmp_to_socket :: "netaddr \<Rightarrow> netaddr_socket \<Rightarrow> int" where
  "netaddr_cmp_to_socket a1 a2 =
     (let result = uint (na_type a1) - uint (sa_family a2)
      in if result \<noteq> 0 then result
         else
           let result =
             (if na_type a1 = AF_INET then memcmp (take 4 (na_addr a1)) (sin_addr a2)
              else if na_type a1 = AF_INET6 then memcmp (take 16 (na_addr a1)) (sin6_addr a2)
              else result)
           in if result \<noteq> 0 then result
              else uint (na_prefix_len a1) - (if na_type a1 = AF_INET then 32 else 128))"

definition netaddr_isequal_binary :: "netaddr \<Rightarrow> bytes \<Rightarrow> nat \<Rightarrow> u16 \<Rightarrow> u8 \<Rightarrow> bool" where
  "netaddr_isequal_binary addr bin len af prefix_len =
     (if ucast (na_type addr) \<noteq> af \<or> na_prefix_len addr \<noteq> prefix_len then False
      else if af = AF_INET \<and> len = 4 then memcmp (take 4 (na_addr addr)) (take 4 bin) = 0
      else if af = AF_INET6 \<and> len = 16 then memcmp (take 16 (na_addr addr)) (take 16 bin) = 0
      else if af = AF_MAC48 \<and> len = 6 then memcmp (take 6 (na_addr addr)) (take 6 bin) = 0
      else if af = AF_EUI64 \<and> len = 8 then memcmp (take 8 (na_addr addr)) (take 8 bin) = 0
      else False)"

definition netaddr_get_maxprefix :: "netaddr \<Rightarrow> u8" where
  "netaddr_get_maxprefix addr =
     (if na_type addr = AF_INET then 32
      else if na_type addr = AF_INET6 then 128
      else if na_type addr = AF_MAC48 then 48
      else if na_type addr = AF_EUI64 then 64
      else 0)"

section \<open>Subnets\<close>

definition binary_is_in_subnet :: "netaddr \<Rightarrow> bytes \<Rightarrow> bool" where
  "binary_is_in_subnet subnet bin =
     (let byte_length = unat (na_prefix_len subnet) div 8;
          bit_length = unat (na_prefix_len subnet) mod 8
      in if memcmp (take byte_length (na_addr subnet)) (take byte_length bin) \<noteq> 0 then False
         else if bit_length \<noteq> 0
         then drop_bit (8 - bit_length) (na_addr subnet ! byte_length)
                = drop_bit (8 - bit_length) (bin ! byte_length)
         else True)"

definition netaddr_binary_is_in_subnet :: "netaddr \<Rightarrow> bytes \<Rightarrow> nat \<Rightarrow> u8 \<Rightarrow> bool" where
  "netaddr_binary_is_in_subnet subnet bin len af_family =
     (if na_type subnet \<noteq> af_family \<or> unat (netaddr_get_maxprefix subnet) \<noteq> len * 8 then False
      else binary_is_in_subnet subnet bin)"

definition netaddr_is_in_subnet :: "netaddr \<Rightarrow> netaddr \<Rightarrow> bool" where
  "netaddr_is_in_subnet subnet addr =
     (if na_type subnet \<noteq> na_type addr \<or> na_prefix_len addr < na_prefix_len subnet then False
      else binary_is_in_subnet subnet (na_addr addr))"

section \<open>The comparison is a total order on addresses\<close>

lemma netaddr_bytes_eq_iff: "netaddr_bytes a = netaddr_bytes b \<longleftrightarrow> a = b"
  by (cases a; cases b) (auto simp: netaddr_bytes_def)

lemma netaddr_cmp_zero_iff [simp]: "netaddr_cmp a b = 0 \<longleftrightarrow> a = b"
  by (simp add: netaddr_cmp_def memcmp_zero_iff netaddr_bytes_eq_iff)

interpretation naddr: comparator netaddr_cmp
proof unfold_locales
  fix x y show "sgn (netaddr_cmp x y) = - sgn (netaddr_cmp y x)"
    unfolding netaddr_cmp_def by (rule mem.cmp_antisym)
next
  fix x y z assume "netaddr_cmp x y \<le> 0" "netaddr_cmp y z \<le> 0"
  then show "netaddr_cmp x z \<le> 0" unfolding netaddr_cmp_def by (rule mem.cmp_trans)
qed

section \<open>Round trips\<close>

text \<open>The number of address bytes of a family, and its full prefix length.\<close>

definition family_bytes :: "u8 \<Rightarrow> nat option" where
  "family_bytes f =
     (if f = AF_INET then Some 4 else if f = AF_INET6 then Some 16
      else if f = AF_MAC48 then Some 6 else if f = AF_EUI64 then Some 8 else None)"

lemma family_bytes_Some_iff:
  "family_bytes f = Some n \<longleftrightarrow>
     f = AF_INET \<and> n = 4 \<or> f = AF_INET6 \<and> n = 16 \<or> f = AF_MAC48 \<and> n = 6 \<or> f = AF_EUI64 \<and> n = 8"
  by (auto simp: family_bytes_def)

lemma netaddr_from_binary_ok:
  assumes "family_bytes f = Some n" and "n \<le> len" and "n \<le> length b"
  shows "netaddr_from_binary dst b len f =
           (0, \<lparr>na_addr = take n b @ replicate (16 - n) 0, na_type = f, na_prefix_len = of_nat (8 * n)\<rparr>)"
  using assms
  by (auto simp: family_bytes_Some_iff netaddr_from_binary_def Let_def put_bytes_def
      min_absorb2 min_absorb1)

lemma netaddr_from_binary_fail:
  "family_bytes f = None \<or> (\<exists>n. family_bytes f = Some n \<and> len < n) \<Longrightarrow>
     netaddr_from_binary dst b len f = (-1, dst\<lparr>na_addr := replicate 16 0\<rparr>)"
  by (auto simp: family_bytes_def netaddr_from_binary_def Let_def split: if_splits)

lemma netaddr_to_binary_ok:
  assumes "family_bytes (na_type a) = Some n" and "n \<le> len"
  shows "netaddr_to_binary dst a len = (0, put_bytes 0 (take n (na_addr a)) dst)"
  using assms by (auto simp: family_bytes_Some_iff netaddr_to_binary_def Let_def)

text \<open>The bytes of a socket address built by \<open>netaddr_socket_init\<close>.\<close>

definition socket_image :: "u16 \<Rightarrow> u16 \<Rightarrow> nat \<Rightarrow> bytes \<Rightarrow> netaddr_socket" where
  "socket_image f p off x =
     lo8 f # hi8 f # hi8 p # lo8 p # replicate (off - 4) 0 @ x @ replicate (128 - off - length x) 0"

lemma netaddr_socket_bytes:
  assumes "4 \<le> off" and "off + length x \<le> 128"
  shows "set_sa_family f (set_sin_port p (put_bytes off x (replicate sockaddr_storage_size 0))) =
    socket_image f p off x"
  using assms
  by (simp add: set_sa_family_def set_sin_port_def put_bytes_def sockaddr_storage_size_def
      min_absorb1 min_absorb2 drop_replicate take_replicate numeral_2_eq_2 socket_image_def)

lemma socket_image_family [simp]: "sa_family (socket_image f p off x) = f"
  by (simp add: sa_family_def socket_image_def)

lemma socket_image_port:
  "f = AF_INET \<or> f = AF_INET6 \<Longrightarrow> netaddr_socket_get_port (socket_image f p off x) = p"
  unfolding netaddr_socket_get_port_def socket_image_family
  by (auto simp: sin_port_def socket_image_def)

lemma socket_image_length:
  "4 \<le> off \<Longrightarrow> off + length x \<le> 128 \<Longrightarrow> length (socket_image f p off x) = sockaddr_storage_size"
  by (simp add: socket_image_def sockaddr_storage_size_def)

lemma netaddr_from_socket_v4:
  assumes "length x = 4"
  shows "netaddr_from_socket d (socket_image AF_INET p 4 x) =
    (0, \<lparr>na_addr = x @ replicate 12 0, na_type = AF_INET, na_prefix_len = 32\<rparr>)"
proof -
  have "sin_addr (socket_image AF_INET p 4 x) = x"
    using assms by (simp add: sin_addr_def socket_image_def sub_bytes_def)
  then show ?thesis
    using assms by (simp add: netaddr_from_socket_def put_bytes_def Let_def)
qed

lemma netaddr_from_socket_v6:
  assumes "length x = 16"
  shows "netaddr_from_socket d (socket_image AF_INET6 p 8 x) =
    (0, \<lparr>na_addr = x, na_type = AF_INET6, na_prefix_len = 128\<rparr>)"
proof -
  have "sin6_addr (socket_image AF_INET6 p 8 x) = x"
    using assms by (simp add: sin6_addr_def socket_image_def sub_bytes_def)
  then show ?thesis
    using assms by (simp add: netaddr_from_socket_def put_bytes_def Let_def)
qed

section \<open>Subnet membership, bit by bit\<close>

text \<open>The bits of an address, most significant bit of the first byte first.\<close>

definition byte_bits :: "u8 \<Rightarrow> bool list" where
  "byte_bits b = map (\<lambda>i. bit b (7 - i)) [0..<8]"

definition addr_bits :: "bytes \<Rightarrow> bool list" where
  "addr_bits bs = concat (map byte_bits bs)"

lemma length_byte_bits [simp]: "length (byte_bits b) = 8"
  by (simp add: byte_bits_def)

lemma addr_bits_simps [simp]:
  "addr_bits [] = []"
  "addr_bits (b # bs) = byte_bits b @ addr_bits bs"
  by (simp_all add: addr_bits_def)

lemma take_byte_bits_eq_iff:
  assumes "k \<le> 8"
  shows "take k (byte_bits a) = take k (byte_bits b) \<longleftrightarrow> drop_bit (8 - k) a = drop_bit (8 - k) b"
proof -
  have "take k (byte_bits a) = take k (byte_bits b) \<longleftrightarrow> (\<forall>i<k. bit a (7 - i) = bit b (7 - i))"
    using assms by (auto simp: byte_bits_def list_eq_iff_nth_eq)
  also have "\<dots> \<longleftrightarrow> (\<forall>j. 8 - k \<le> j \<and> j < 8 \<longrightarrow> bit a j = bit b j)"
  proof safe
    fix j assume *: "\<forall>i<k. bit a (7 - i) = bit b (7 - i)" and j: "8 - k \<le> j" "j < 8"
    { assume "bit a j" with *[rule_format, of "7 - j"] j assms show "bit b j" by auto }
    { assume "bit b j" with *[rule_format, of "7 - j"] j assms show "bit a j" by auto }
  next
    fix i assume *: "\<forall>j. 8 - k \<le> j \<and> j < 8 \<longrightarrow> bit a j = bit b j" and i: "i < k"
    from i assms have "8 - k \<le> 7 - i" by arith
    then have "bit a (7 - i) = bit b (7 - i)" using * by simp
    then show "bit a (7 - i) \<Longrightarrow> bit b (7 - i)" "bit b (7 - i) \<Longrightarrow> bit a (7 - i)" by simp_all
  qed
  also have "\<dots> \<longleftrightarrow> drop_bit (8 - k) a = drop_bit (8 - k) b"
  proof
    assume *: "\<forall>j. 8 - k \<le> j \<and> j < 8 \<longrightarrow> bit a j = bit b j"
    show "drop_bit (8 - k) a = drop_bit (8 - k) b"
    proof (rule bit_eqI)
      fix n
      show "bit (drop_bit (8 - k) a) n = bit (drop_bit (8 - k) b) n"
        using *[rule_format, of "8 - k + n"] 
        by (cases "8 - k + n < 8") (auto simp: bit_drop_bit_eq add.commute not_less dest: bit_imp_le_length)
    qed
  next
    assume *: "drop_bit (8 - k) a = drop_bit (8 - k) b"
    show "\<forall>j. 8 - k \<le> j \<and> j < 8 \<longrightarrow> bit a j = bit b j"
    proof safe
      fix j assume j: "8 - k \<le> j"
      have "bit (drop_bit (8 - k) a) (j - (8 - k)) = bit (drop_bit (8 - k) b) (j - (8 - k))"
        using * by simp
      then have "bit a j = bit b j" using j by (simp add: bit_drop_bit_eq)
      then show "bit a j \<Longrightarrow> bit b j" "bit b j \<Longrightarrow> bit a j" by simp_all
    qed
  qed
  finally show ?thesis .
qed

lemma byte_bits_inj [simp]: "byte_bits a = byte_bits b \<longleftrightarrow> a = b"
  using take_byte_bits_eq_iff[of 8 a b] by simp

text \<open>Comparing whole bytes and then the remaining high bits compares the first \<open>p\<close> bits.\<close>

lemma take_addr_bits_eq_iff:
  assumes "p \<le> 8 * length xs" and "p \<le> 8 * length ys"
  shows "take p (addr_bits xs) = take p (addr_bits ys) \<longleftrightarrow>
    take (p div 8) xs = take (p div 8) ys \<and>
    (p mod 8 \<noteq> 0 \<longrightarrow>
      drop_bit (8 - p mod 8) (xs ! (p div 8)) = drop_bit (8 - p mod 8) (ys ! (p div 8)))"
  using assms
proof (induction xs arbitrary: ys p)
  case Nil
  then show ?case by simp
next
  case (Cons x xs)
  show ?case
  proof (cases "p < 8")
    case True
    with Cons.prems show ?thesis
      by (cases ys) (auto simp: take_byte_bits_eq_iff)
  next
    case False
    then obtain q where q: "p = q + 8" by (metis add.commute le_Suc_ex not_less)
    have d: "(q + 8) div 8 = Suc (q div 8)" "(q + 8) mod 8 = q mod 8" by simp_all
    show ?thesis
    proof (cases ys)
      case Nil
      with Cons.prems q show ?thesis by simp
    next
      case (Cons y zs)
      have "q \<le> 8 * length xs" "q \<le> 8 * length zs" using Cons.prems q Cons by simp_all
      from Cons.IH[OF this] show ?thesis
        unfolding q Cons d by auto
    qed
  qed
qed

lemma binary_is_in_subnet_iff_bits:
  assumes "unat (na_prefix_len subnet) \<le> 8 * length (na_addr subnet)"
    and "unat (na_prefix_len subnet) \<le> 8 * length bin"
  shows "binary_is_in_subnet subnet bin \<longleftrightarrow>
    take (unat (na_prefix_len subnet)) (addr_bits (na_addr subnet)) =
    take (unat (na_prefix_len subnet)) (addr_bits bin)"
  using take_addr_bits_eq_iff[OF assms]
  by (auto simp: binary_is_in_subnet_def Let_def memcmp_zero_iff)
section \<open>Properties\<close>

text \<open>Reading \<open>n\<close> binary bytes of a known family into a \<open>netaddr\<close> succeeds, gives a well
  formed address of that family with the full prefix length, and writing it back restores exactly
  those bytes and leaves the rest of the destination alone.\<close>

theorem netaddr_binary_roundtrip:
  assumes "family_bytes f = Some n" and "n \<le> len" and "n \<le> length b"
    and "n \<le> len'" and "n \<le> length dst"
  shows "\<exists>a. netaddr_from_binary d b len f = (0, a) \<and> netaddr_wf a \<and> na_type a = f \<and>
    na_prefix_len a = netaddr_get_maxprefix a \<and>
    netaddr_to_binary dst a len' = (0, take n b @ drop n dst)"
proof -
  let ?a = "\<lparr>na_addr = take n b @ replicate (16 - n) 0, na_type = f, na_prefix_len = of_nat (8 * n)\<rparr>"
  have "netaddr_from_binary d b len f = (0, ?a)"
    using assms(1-3) by (rule netaddr_from_binary_ok)
  moreover have "netaddr_to_binary dst ?a len' = (0, take n b @ drop n dst)"
    using assms by (simp add: netaddr_to_binary_ok put_bytes_def min_absorb2)
  moreover have "netaddr_wf ?a" "of_nat (8 * n) = netaddr_get_maxprefix ?a"
    using assms by (auto simp: netaddr_wf_def family_bytes_Some_iff netaddr_get_maxprefix_def)
  ultimately show ?thesis by auto
qed

theorem netaddr_binary_roundtrip_witness:
  "family_bytes 2 = Some 4 \<and>
   (\<exists>a. netaddr_from_binary \<lparr>na_addr = [], na_type = 0, na_prefix_len = 0\<rparr> [10, 0, 0, 1] 4 2 = (0, a)
     \<and> netaddr_wf a \<and> na_type a = 2 \<and> na_prefix_len a = netaddr_get_maxprefix a
     \<and> netaddr_to_binary [7, 7, 7, 7, 9] a 4 = (0, [10, 0, 0, 1, 9]))"
  using netaddr_binary_roundtrip[of 2 4 4 "[10, 0, 0, 1]" 4 "[7, 7, 7, 7, 9]"
      "\<lparr>na_addr = [], na_type = 0, na_prefix_len = 0\<rparr>"]
  by (simp add: family_bytes_def)

text \<open>Initialising a socket address from an IPv4 or IPv6 \<open>netaddr\<close> of full prefix length and a
  port, and reading it back, restores the address and the port.\<close>

theorem netaddr_socket_roundtrip:
  assumes "netaddr_wf a" and "na_prefix_len a = netaddr_get_maxprefix a"
    and "na_type a = AF_INET \<and> drop 4 (na_addr a) = replicate 12 0 \<or> na_type a = AF_INET6"
  shows "\<exists>s. netaddr_socket_init a port = (0, s) \<and> length s = sockaddr_storage_size \<and>
    netaddr_from_socket d s = (0, a) \<and> netaddr_socket_get_port s = port"
proof -
  from assms(3) show ?thesis
  proof
    assume t: "na_type a = AF_INET \<and> drop 4 (na_addr a) = replicate 12 0"
    let ?x = "take 4 (na_addr a)"
    have "a = \<lparr>na_addr = ?x @ replicate 12 0, na_type = AF_INET, na_prefix_len = 32\<rparr>"
      using t assms(2) append_take_drop_id[of 4 "na_addr a"]
      by (cases a) (simp add: netaddr_get_maxprefix_def)
    then have "netaddr_from_socket d (socket_image AF_INET port 4 ?x) = (0, a)"
      using assms(1) by (simp add: netaddr_from_socket_v4 netaddr_wf_def)
    moreover have "netaddr_socket_init a port = (0, socket_image AF_INET port 4 ?x)"
      using t assms(1) by (simp add: netaddr_socket_init_def netaddr_socket_bytes netaddr_wf_def)
    ultimately show ?thesis
      using assms(1) by (simp add: socket_image_port socket_image_length netaddr_wf_def)
  next
    assume t: "na_type a = AF_INET6"
    have "a = \<lparr>na_addr = na_addr a, na_type = AF_INET6, na_prefix_len = 128\<rparr>"
      using t assms(2) by (cases a) (simp add: netaddr_get_maxprefix_def)
    then have "netaddr_from_socket d (socket_image AF_INET6 port 8 (na_addr a)) = (0, a)"
      using assms(1) by (metis netaddr_from_socket_v6 netaddr_wf_def)
    moreover have "netaddr_socket_init a port = (0, socket_image AF_INET6 port 8 (na_addr a))"
      using t assms(1) by (simp add: netaddr_socket_init_def netaddr_socket_bytes netaddr_wf_def)
    ultimately show ?thesis
      using assms(1) by (simp add: socket_image_port socket_image_length netaddr_wf_def)
  qed
qed

theorem netaddr_socket_roundtrip_witness:
  "\<exists>s. netaddr_socket_init \<lparr>na_addr = [192, 168, 0, 104] @ replicate 12 0, na_type = 2, na_prefix_len = 32\<rparr> 269
       = (0, s) \<and> length s = sockaddr_storage_size \<and>
     netaddr_from_socket \<lparr>na_addr = [], na_type = 0, na_prefix_len = 0\<rparr> s =
       (0, \<lparr>na_addr = [192, 168, 0, 104] @ replicate 12 0, na_type = 2, na_prefix_len = 32\<rparr>) \<and>
     netaddr_socket_get_port s = 269"
  by (rule netaddr_socket_roundtrip)
    (simp_all add: netaddr_wf_def netaddr_get_maxprefix_def del: replicate.simps)

text \<open>C40: An address is in a subnet with a prefix of at most 128 bits exactly when it is of the same family,
  its prefix is not shorter than the subnet's, and its first \<open>prefix_len\<close> bits are those of the subnet,
  whether these make whole bytes or not.\<close>

theorem netaddr_in_subnet_bits:
  assumes "netaddr_wf subnet" and "netaddr_wf a" and "unat (na_prefix_len subnet) \<le> 128"
  shows "netaddr_is_in_subnet subnet a \<longleftrightarrow>
    na_type a = na_type subnet \<and> na_prefix_len subnet \<le> na_prefix_len a \<and>
    take (unat (na_prefix_len subnet)) (addr_bits (na_addr subnet)) =
    take (unat (na_prefix_len subnet)) (addr_bits (na_addr a))"
  using assms by (auto simp: netaddr_is_in_subnet_def binary_is_in_subnet_iff_bits netaddr_wf_def not_less)

theorem netaddr_in_subnet_bits_witness:
  "netaddr_is_in_subnet \<lparr>na_addr = [10, 32] @ replicate 14 0, na_type = 2, na_prefix_len = 11\<rparr>
     \<lparr>na_addr = [10, 63] @ replicate 14 9, na_type = 2, na_prefix_len = 32\<rparr> \<longleftrightarrow>
   take 11 (addr_bits ([10, 32] @ replicate 14 0)) = take 11 (addr_bits ([10, 63] @ replicate 14 9))"
  using netaddr_in_subnet_bits
    [of "\<lparr>na_addr = [10, 32] @ replicate 14 0, na_type = 2, na_prefix_len = 11\<rparr>"
        "\<lparr>na_addr = [10, 63] @ replicate 14 9, na_type = 2, na_prefix_len = 32\<rparr>"]
  by (simp add: netaddr_wf_def del: replicate.simps)

end
