(* ===== verification/CString.thy ===== *)
theory CString
  imports Prelude
begin

text \<open>
  \<open>lib/common/string.c\<close>: the string helpers of the library. A C string is the characters before
  its terminator; a buffer is the whole array, terminator included. \<open>strscpy\<close> and \<open>strscat\<close> work
  on buffers (their pointers may be \<open>NULL\<close>), \<open>str_trim\<close> on the string its pointer designates.
\<close>

abbreviation NUL :: char where "NUL \<equiv> CHR 0x00"

definition isspace :: "char \<Rightarrow> bool" where
  "isspace c \<longleftrightarrow> c \<in> set [CHR 0x20, CHR 0x09, CHR 0x0A, CHR 0x0B, CHR 0x0C, CHR 0x0D]"

text \<open>The string stored in a buffer, and the buffer semantics of the C library's \<open>strncpy\<close>.\<close>

definition c_str :: "string \<Rightarrow> string" where
  "c_str buf = takeWhile (\<lambda>c. c \<noteq> NUL) buf"

definition strncpy :: "string \<Rightarrow> string \<Rightarrow> nat \<Rightarrow> string" where
  "strncpy dest src n = put_bytes 0 (take n (c_str src @ replicate n NUL)) dest"

text \<open>\<open>snprintf\<close> of a formatted text \<open>s\<close> into a buffer of \<open>sz\<close> bytes: the length \<open>s\<close> would need, and
  the string stored.\<close>

definition snprintf :: "nat \<Rightarrow> string \<Rightarrow> int \<times> string" where
  "snprintf sz s = (int (length s), take (sz - 1) s)"

definition strscpy :: "string option \<Rightarrow> string option \<Rightarrow> nat \<Rightarrow> string option" where
  "strscpy dest src sz =
     (case (dest, src) of
        (Some d, Some s) \<Rightarrow>
          if sz = 0 then dest else Some ((strncpy d s (sz - 1))[sz - 1 := NUL])
      | _ \<Rightarrow> dest)"

definition strscat :: "string option \<Rightarrow> string option \<Rightarrow> nat \<Rightarrow> string option" where
  "strscat dest src sz =
     (case (dest, src) of
        (Some d, Some s) \<Rightarrow>
          if sz = 0 \<or> c_str s = [] then dest
          else let l = length (c_str d)
               in if l < sz
                  then map_option (\<lambda>tl. take l d @ tl) (strscpy (Some (drop l d)) (Some s) (sz - l))
                  else dest
      | _ \<Rightarrow> dest)"

text \<open>The backward scan of \<open>str_trim\<close> runs over the reversed string and never passes the first
  character (\<open>end > string\<close>).\<close>

fun trim_tail :: "string \<Rightarrow> string" where
  "trim_tail [] = []"
| "trim_tail [c] = [c]"
| "trim_tail (c # d # cs) = (if isspace c then trim_tail (d # cs) else c # d # cs)"

definition str_trim :: "string \<Rightarrow> string" where
  "str_trim s = rev (trim_tail (rev (dropWhile isspace s)))"

section \<open>Copying\<close>

lemma c_str_no_NUL: "NUL \<notin> set (c_str s)"
  by (auto simp: c_str_def dest: set_takeWhileD)

lemma c_str_id: "NUL \<notin> set s \<Longrightarrow> c_str s = s"
  by (induction s) (auto simp: c_str_def)

lemma c_str_append: "NUL \<notin> set s \<Longrightarrow> c_str (s @ NUL # t) = s"
  by (induction s) (auto simp: c_str_def)

lemma c_str_prefix: "NUL \<notin> set s \<Longrightarrow> c_str (s @ t) = s @ c_str t"
  by (induction s) (auto simp: c_str_def)

lemma strscpy_image:
  assumes "0 < sz" and "sz \<le> length d"
  shows "strscpy (Some d) (Some s) sz =
    Some (take (sz - 1) (c_str s) @ replicate (sz - 1 - length (c_str s)) NUL @ NUL # drop sz d)"
proof -
  define x where "x = take (sz - 1) (c_str s @ replicate (sz - 1) NUL)"
  have len: "length x = sz - 1" by (simp add: x_def)
  have x: "x = take (sz - 1) (c_str s) @ replicate (sz - 1 - length (c_str s)) NUL"
    by (simp add: x_def min_absorb1)
  have d: "drop (sz - 1) d = d ! (sz - 1) # drop sz d"
    using assms Cons_nth_drop_Suc[of "sz - 1" d] by simp
  have "strncpy d s (sz - 1) = x @ d ! (sz - 1) # drop sz d"
    unfolding strncpy_def put_bytes_def x_def[symmetric] using len d by simp
  then have "(strncpy d s (sz - 1))[sz - 1 := NUL] = x @ NUL # drop sz d"
    using list_update_length[of x "d ! (sz - 1)" "drop sz d" NUL] by (simp add: len)
  then show ?thesis using assms unfolding x by (simp add: strscpy_def)
qed

lemma strscpy_c_str:
  assumes "0 < sz" and "sz \<le> length d" and "strscpy (Some d) (Some s) sz = Some d'"
  shows "c_str d' = take (sz - 1) (c_str s)" and "length d' = length d"
proof -
  let ?t = "take (sz - 1) (c_str s)" and ?k = "sz - 1 - length (c_str s)"
  have d': "d' = ?t @ replicate ?k NUL @ NUL # drop sz d"
    using strscpy_image[OF assms(1,2), of s] assms(3) by simp
  have "NUL \<notin> set ?t" using c_str_no_NUL[of s] by (meson in_set_takeD)
  then show "c_str d' = ?t"
    unfolding d' by (cases ?k) (simp_all add: c_str_append)
  show "length d' = length d" unfolding d' using assms(1,2) by simp
qed

section \<open>Trimming\<close>

lemma trim_tail_suffix: "\<exists>ws. s = ws @ trim_tail s \<and> (\<forall>c\<in>set ws. isspace c)"
proof (induction s rule: trim_tail.induct)
  case (3 c d cs)
  show ?case
  proof (cases "isspace c")
    case True
    with 3 obtain ws where "d # cs = ws @ trim_tail (d # cs)" "\<forall>x\<in>set ws. isspace x" by blast
    with True show ?thesis by (intro exI[of _ "c # ws"]) auto
  qed auto
qed auto

lemma trim_tail_hd: "s \<noteq> [] \<Longrightarrow> \<not> isspace (last s) \<Longrightarrow> trim_tail s \<noteq> [] \<and> \<not> isspace (hd (trim_tail s))"
  by (induction s rule: trim_tail.induct) auto

lemma trim_tail_last: "s \<noteq> [] \<Longrightarrow> last (trim_tail s) = last s"
  by (induction s rule: trim_tail.induct) auto

section \<open>Properties\<close>

text \<open>\<open>strscat\<close> into a buffer that holds a terminated string appends as much of the source as
  fits below the buffer size and always leaves a terminated string; the buffer keeps its length.\<close>

theorem strscat_appends:
  assumes "sz \<le> length d" and "length (c_str d) < sz"
  shows "\<exists>d'. strscat (Some d) (Some s) sz = Some d' \<and> length d' = length d \<and>
    c_str d' = take (sz - 1) (c_str d @ c_str s)"
proof (cases "c_str s = []")
  case True
  then show ?thesis using assms by (intro exI[of _ d]) (simp add: strscat_def)
next
  case False
  let ?l = "length (c_str d)"
  have td: "take ?l d = c_str d" unfolding c_str_def by (rule takeWhile_eq_take [symmetric])
  have b: "0 < sz - ?l" "sz - ?l \<le> length (drop ?l d)"
    using assms by simp_all
  obtain t where t: "strscpy (Some (drop ?l d)) (Some s) (sz - ?l) = Some t"
    using strscpy_image[OF b] by blast
  note t' = strscpy_c_str[OF b t]
  have "strscat (Some d) (Some s) sz = Some (c_str d @ t)"
    using False assms t td by (simp add: strscat_def)
  moreover have "length (c_str d @ t) = length d"
    using t'(2) assms by simp
  moreover have "c_str (c_str d @ t) = c_str d @ c_str t"
    by (rule c_str_prefix) (rule c_str_no_NUL)
  then have "c_str (c_str d @ t) = take (sz - 1) (c_str d @ c_str s)"
    using t'(1) assms by simp
  ultimately show ?thesis by blast
qed

theorem strscat_appends_witness:
  "\<exists>d'. strscat (Some [CHR ''a'', NUL, CHR ''x'', CHR ''y'']) (Some ''bcd'') 4 = Some d' \<and>
    length d' = length [CHR ''a'', NUL, CHR ''x'', CHR ''y''] \<and>
    c_str d' = take (4 - 1) (c_str [CHR ''a'', NUL, CHR ''x'', CHR ''y''] @ c_str ''bcd'')"
  by (rule strscat_appends) (simp_all add: c_str_def)

text \<open>\<open>str_trim\<close> removes exactly the leading and trailing white space: what it drops is white
  space, and the result neither starts nor ends with any.\<close>

theorem str_trim_correct:
  "\<exists>l r. s = l @ str_trim s @ r \<and> (\<forall>c\<in>set l \<union> set r. isspace c) \<and>
    (str_trim s = [] \<or> \<not> isspace (hd (str_trim s)) \<and> \<not> isspace (last (str_trim s)))"
proof -
  let ?m = "dropWhile isspace s"
  obtain ws where ws: "rev ?m = ws @ trim_tail (rev ?m)" "\<forall>c\<in>set ws. isspace c"
    using trim_tail_suffix by blast
  have m: "?m = str_trim s @ rev ws"
    using arg_cong[OF ws(1), of rev] by (simp add: str_trim_def)
  have s: "s = takeWhile isspace s @ str_trim s @ rev ws"
    using m by (metis takeWhile_dropWhile_id)
  have "str_trim s = [] \<or> \<not> isspace (hd (str_trim s)) \<and> \<not> isspace (last (str_trim s))"
  proof (cases "?m = []")
    case True
    have "str_trim s = []" unfolding str_trim_def True by simp
    then show ?thesis ..
  next
    case False
    then have nh: "\<not> isspace (hd ?m)" by (rule hd_dropWhile)
    then have "\<not> isspace (last (rev ?m))" using False by (simp add: last_rev)
    with False have t: "trim_tail (rev ?m) \<noteq> []" "\<not> isspace (hd (trim_tail (rev ?m)))"
      using trim_tail_hd[of "rev ?m"] by simp_all
    moreover have "hd (str_trim s) = hd ?m"
      using False t trim_tail_last[of "rev ?m"] by (simp add: str_trim_def hd_rev last_rev)
    ultimately show ?thesis using nh by (simp add: str_trim_def last_rev)
  qed
  with s ws(2) show ?thesis
    by (intro exI[of _ "takeWhile isspace s"] exI[of _ "rev ws"]) (auto dest: set_takeWhileD)
qed

theorem str_trim_correct_witness:
  "str_trim ''  a b '' = ''a b'' \<and>
   (\<exists>l r. ''  a b '' = l @ ''a b'' @ r \<and> (\<forall>c\<in>set l \<union> set r. isspace c))"
proof -
  have e: "str_trim ''  a b '' = ''a b''" by (simp add: str_trim_def isspace_def)
  from str_trim_correct[of "''  a b ''"] show ?thesis unfolding e by blast
qed

end
