(* ===== verification/NetaddrText.thy ===== *)
theory NetaddrText
  imports Netaddr CString
begin

text \<open>
  The text forms of \<open>lib/common/netaddr.c\<close>: MAC and EUI addresses, prefix notation, subnet masks,
  and the recogniser \<open>netaddr_from_string\<close>. \<open>pton\<close> and \<open>ntop\<close> stand for \<open>inet_pton\<close> and
  \<open>inet_ntop\<close>: the family is their first argument, \<open>None\<close> is a failing call.
\<close>

type_synonym inet_pton = "u8 \<Rightarrow> string \<Rightarrow> bytes option"
type_synonym inet_ntop = "u8 \<Rightarrow> bytes \<Rightarrow> string"

definition netaddr_str_size :: nat where "netaddr_str_size = 62"

section \<open>Hexadecimal octets\<close>

definition read_hexdigit :: "char \<Rightarrow> int" where
  "read_hexdigit c =
     (let n = of_char c :: int
      in if 48 \<le> n \<and> n \<le> 57 then n - 48
         else if 97 \<le> n \<and> n \<le> 102 then n - 97 + 10
         else if 65 \<le> n \<and> n \<le> 70 then n - 65 + 10
         else -1)"

definition hex_char :: "nat \<Rightarrow> char" where
  "hex_char n = ''0123456789abcdef'' ! n"

text \<open>The arguments follow the C loop: the remaining room, the remaining bytes, the characters
  written so far and the position of the last separator.\<close>

fun mac_to_string_loop :: "nat \<Rightarrow> bytes \<Rightarrow> char \<Rightarrow> string \<Rightarrow> nat \<Rightarrow> string" where
  "mac_to_string_loop dst_size [] sep out last_separator = take last_separator out"
| "mac_to_string_loop dst_size (b # bin) sep out last_separator =
     (if 3 \<le> dst_size
      then let out = out @ [hex_char (unat (drop_bit 4 b)), hex_char (unat (b AND 15))]
           in mac_to_string_loop (dst_size - 3) bin sep (out @ [sep]) (length out)
      else take last_separator out)"

definition mac_to_string :: "bytes \<Rightarrow> nat \<Rightarrow> nat \<Rightarrow> char \<Rightarrow> string option" where
  "mac_to_string bin dst_size bin_size separator =
     (if dst_size = 0 then None
      else Some (mac_to_string_loop dst_size (take bin_size bin) separator [] 0))"

text \<open>The reading loop; a character past the end of the string is the terminator.\<close>

fun mac_from_string_loop :: "nat \<Rightarrow> string \<Rightarrow> char \<Rightarrow> bytes \<Rightarrow> bytes option" where
  "mac_from_string_loop 0 src sep acc = None"
| "mac_from_string_loop (Suc n) [] sep acc = None"
| "mac_from_string_loop (Suc n) (c # src) sep acc =
     (let num = read_hexdigit c
      in if num = -1 then None
         else
           let digit_2 = (case src of [] \<Rightarrow> -1 | d # _ \<Rightarrow> read_hexdigit d);
               num = (if 0 \<le> digit_2 then num * 16 + digit_2 else num);
               src = (if 0 \<le> digit_2 then tl src else src);
               acc = acc @ [word_of_int num]
           in case src of
                [] \<Rightarrow> if n \<noteq> 0 then None else Some acc
              | s # rest \<Rightarrow> if s \<noteq> sep then None else mac_from_string_loop n rest sep acc)"

definition mac_from_string :: "nat \<Rightarrow> string \<Rightarrow> char \<Rightarrow> bytes option" where
  "mac_from_string bin_size src separator = mac_from_string_loop bin_size src separator []"

section \<open>Subnet masks\<close>

definition mk32 :: "bytes \<Rightarrow> u32" where
  "mk32 b = push_bit 24 (ucast (b ! 0)) + push_bit 16 (ucast (b ! 1)) + push_bit 8 (ucast (b ! 2))
     + ucast (b ! 3)"

text \<open>The first argument is \<open>len + 1\<close>: the loop runs for \<open>len = 31, \<dots>, 0\<close>.\<close>

fun subnetmask_loop :: "nat \<Rightarrow> u32 \<Rightarrow> u32 \<Rightarrow> int" where
  "subnetmask_loop 0 v4 shift = -1"
| "subnetmask_loop (Suc len) v4 shift =
     (if v4 = shift then int len else subnetmask_loop len v4 (push_bit 1 shift))"

definition subnetmask_to_prefixlen :: "inet_pton \<Rightarrow> string \<Rightarrow> int" where
  "subnetmask_to_prefixlen pton src =
     (case pton AF_INET src of
        None \<Rightarrow> -1
      | Some b \<Rightarrow> subnetmask_loop 32 (mk32 b) 0xffffffff)"

section \<open>Printing\<close>

definition digit_char :: "nat \<Rightarrow> char" where "digit_char d = char_of (48 + d)"

fun show_nat :: "nat \<Rightarrow> string" where
  "show_nat n = (if n < 10 then [digit_char n] else show_nat (n div 10) @ [digit_char (n mod 10)])"

declare show_nat.simps [simp del]

definition netaddr_to_prefixstring :: "inet_ntop \<Rightarrow> netaddr \<Rightarrow> bool \<Rightarrow> string option" where
  "netaddr_to_prefixstring ntop src forceprefix =
     (let (result, maxprefix) =
        (if na_type src = AF_INET then (Some (ntop AF_INET (take 4 (na_addr src))), 32)
         else if na_type src = AF_INET6 then (Some (ntop AF_INET6 (na_addr src)), 128)
         else if na_type src = AF_MAC48
         then (mac_to_string (na_addr src) netaddr_str_size 6 CHR '':'', 48)
         else if na_type src = AF_EUI64
         then (mac_to_string (na_addr src) netaddr_str_size 8 CHR ''-'', 64)
         else (None, 0 :: nat))
      in case result of
           None \<Rightarrow> None
         | Some r \<Rightarrow>
             if forceprefix \<or> unat (na_prefix_len src) < maxprefix
             then Some (r @ take 4 (CHR ''/'' # show_nat (unat (na_prefix_len src))))
             else Some r)"

definition netaddr_to_string :: "inet_ntop \<Rightarrow> netaddr \<Rightarrow> string option" where
  "netaddr_to_string ntop src = netaddr_to_prefixstring ntop src False"

definition netaddr_socket_to_string :: "inet_ntop \<Rightarrow> netaddr_socket \<Rightarrow> string option" where
  "netaddr_socket_to_string ntop src =
     (if sa_family src = AF_INET
      then Some (take (netaddr_str_size - 1)
                  (ntop AF_INET (sin_addr src) @ '':'' @ show_nat (unat (sin_port src))))
      else if sa_family src = AF_INET6
      then Some (take (netaddr_str_size - 1)
                  (''['' @ ntop AF_INET6 (sin6_addr src) @ '']:'' @ show_nat (unat (sin_port src))))
      else None)"

section \<open>Parsing\<close>

text \<open>\<open>strtoul\<close> in base 10 on a string that does not start with white space: an optional sign, the
  longest run of digits, saturation at \<open>ULONG_MAX\<close>, negation modulo \<open>2 ^ 64\<close>; without a digit the
  value is 0 and the end pointer is the start of the string.\<close>

definition isdigit :: "char \<Rightarrow> bool" where
  "isdigit c \<longleftrightarrow> 48 \<le> (of_char c :: nat) \<and> (of_char c :: nat) \<le> 57"

definition digits_val :: "string \<Rightarrow> nat" where
  "digits_val ds = foldl (\<lambda>acc c. acc * 10 + ((of_char c :: nat) - 48)) 0 ds"

definition strtoul :: "string \<Rightarrow> nat \<times> string" where
  "strtoul s =
     (let neg = (s \<noteq> [] \<and> hd s = CHR ''-'');
          t = (if s \<noteq> [] \<and> hd s \<in> {CHR ''-'', CHR ''+''} then tl s else s);
          ds = takeWhile isdigit t;
          v = digits_val ds
      in if ds = [] then (0, s)
         else (if 2 ^ 64 \<le> v then 2 ^ 64 - 1 else if neg then (2 ^ 64 - v) mod 2 ^ 64 else v,
               dropWhile isdigit t))"

definition int_of_ulong :: "nat \<Rightarrow> int" where
  "int_of_ulong n = sint (of_nat n :: u32)"

text \<open>What the first scan collects: the counts of colons and dashes, whether there is a double colon
  and a point, and whether the last character was a colon.\<close>

record addr_scan =
  colon_count :: nat
  minus_count :: nat
  has_coloncolon :: bool
  has_point :: bool
  last_was_colon :: bool

definition scan_char :: "char \<Rightarrow> addr_scan \<Rightarrow> addr_scan" where
  "scan_char c s =
     (let s = (if c = CHR '':''
               then s\<lparr>has_coloncolon := has_coloncolon s \<or> last_was_colon s,
                      colon_count := colon_count s + 1\<rparr>
               else if c = CHR ''.'' then s\<lparr>has_point := True\<rparr>
               else if c = CHR ''-'' then s\<lparr>minus_count := minus_count s + 1\<rparr>
               else s)
      in s\<lparr>last_was_colon := (c = CHR '':'')\<rparr>)"

definition addr_char :: "char \<Rightarrow> bool" where
  "addr_char c \<longleftrightarrow> \<not> isspace c \<and> c \<noteq> CHR ''/''"

definition scan_addr :: "string \<Rightarrow> addr_scan" where
  "scan_addr s =
     fold scan_char s
       \<lparr>colon_count = 0, minus_count = 0, has_coloncolon = False, has_point = False,
        last_was_colon = False\<rparr>"

text \<open>The part after the address: white space, an optional slash, white space.\<close>

definition prefix_part :: "string \<Rightarrow> string" where
  "prefix_part rest =
     (let r = dropWhile isspace rest;
          r = (if r \<noteq> [] \<and> hd r = CHR ''/'' then tl r else r)
      in dropWhile isspace r)"

definition numeric_prefix :: "string \<Rightarrow> int" where
  "numeric_prefix p = (case strtoul p of (v, rest) \<Rightarrow> if rest \<noteq> [] then -1 else int_of_ulong v)"

definition fill16 :: "bytes \<Rightarrow> bytes" where
  "fill16 b = put_bytes 0 b (replicate 16 0)"

text \<open>The result is \<open>None\<close> where the C function returns \<open>-1\<close> (the target is unspecified then).\<close>

definition netaddr_from_string :: "inet_pton \<Rightarrow> string \<Rightarrow> netaddr option" where
  "netaddr_from_string pton src =
     (let trimmed = str_trim (take (netaddr_str_size - 1) src);
          ptr1 = takeWhile addr_char trimmed;
          rest = dropWhile addr_char trimmed;
          ptr2 = prefix_part rest;
          sc = scan_addr ptr1
      in if rest \<noteq> [] \<and> ptr2 = [] then None
         else
           let prefix_len = (if rest \<noteq> [] then numeric_prefix ptr2 else -1);
               (type, maxlen, result, prefix_len) =
                 (if (colon_count sc = 5 \<or> minus_count sc = 5)
                     \<and> (colon_count sc = 0 \<or> minus_count sc = 0)
                     \<and> \<not> has_point sc \<and> \<not> has_coloncolon sc
                  then (AF_MAC48, 48,
                        mac_from_string 6 ptr1 (if 0 < colon_count sc then CHR '':'' else CHR ''-''),
                        prefix_len)
                  else if colon_count sc = 0 \<and> \<not> has_point sc \<and> minus_count sc = 7
                  then (AF_EUI64, 64, mac_from_string 8 ptr1 CHR ''-'', prefix_len)
                  else if colon_count sc = 0 \<and> has_point sc \<and> minus_count sc = 0
                  then (AF_INET, 32, pton AF_INET ptr1,
                        if pton AF_INET ptr1 \<noteq> None \<and> ptr2 \<noteq> [] \<and> prefix_len = -1
                        then subnetmask_to_prefixlen pton ptr2 else prefix_len)
                  else if (has_coloncolon sc \<or> colon_count sc = 7) \<and> minus_count sc = 0
                  then (AF_INET6, 128, pton AF_INET6 ptr1, prefix_len)
                  else (0, 0 :: int, None, prefix_len))
           in case result of
                None \<Rightarrow> None
              | Some b \<Rightarrow>
                  if ptr2 \<noteq> []
                  then if prefix_len < 0 \<or> maxlen < prefix_len then None
                       else Some \<lparr>na_addr = fill16 b, na_type = type,
                                  na_prefix_len = word_of_int prefix_len\<rparr>
                  else Some \<lparr>na_addr = fill16 b, na_type = type,
                             na_prefix_len = word_of_int maxlen\<rparr>)"

section \<open>Hexadecimal round trip\<close>

lemma read_hexdigit_hex_char: "n < 16 \<Longrightarrow> read_hexdigit (hex_char n) = int n"
proof -
  have "\<forall>n\<in>set [0..<16]. read_hexdigit (hex_char n) = int n" by code_simp
  then show "n < 16 \<Longrightarrow> read_hexdigit (hex_char n) = int n" by simp
qed

definition hi4 :: "u8 \<Rightarrow> nat" where "hi4 b = unat (drop_bit 4 b)"
definition lo4 :: "u8 \<Rightarrow> nat" where "lo4 b = unat (b AND 15)"

lemma hi4_eq: "hi4 b = unat b div 16"
  by (simp add: hi4_def unsigned_drop_bit_eq drop_bit_eq_div unat_div_distrib)

lemma lo4_eq: "lo4 b = unat b mod 16"
proof -
  have "b AND 15 = take_bit 4 b" by (simp add: take_bit_eq_mask mask_eq_exp_minus_1)
  then show ?thesis by (simp add: lo4_def unat_mod_distrib take_bit_eq_mod)
qed

lemma nibbles_less: "hi4 b < 16" "lo4 b < 16"
  using unat_u8[of b] by (auto simp: hi4_eq lo4_eq)

lemma nibbles_byte: "of_nat (hi4 b) * 16 + of_nat (lo4 b) = b"
proof -
  have "hi4 b * 16 + lo4 b = unat b" by (simp add: hi4_eq lo4_eq)
  then have "(of_nat (hi4 b * 16 + lo4 b) :: u8) = b" by simp
  then show ?thesis by simp
qed

text \<open>The text that the printing loop produces: two digits per byte, separated.\<close>

fun mac_text :: "char \<Rightarrow> bytes \<Rightarrow> string" where
  "mac_text sep [] = []"
| "mac_text sep [b] = [hex_char (hi4 b), hex_char (lo4 b)]"
| "mac_text sep (b # c # bs) = hex_char (hi4 b) # hex_char (lo4 b) # sep # mac_text sep (c # bs)"

lemma mac_to_string_loop_eq:
  "3 * length bin \<le> dst_size \<Longrightarrow> bin \<noteq> [] \<Longrightarrow>
     mac_to_string_loop dst_size bin sep out l = out @ mac_text sep bin"
proof (induction sep bin arbitrary: dst_size out l rule: mac_text.induct)
  case (3 sep b c bs)
  let ?out = "out @ [hex_char (hi4 b), hex_char (lo4 b)]"
  have "mac_to_string_loop dst_size (b # c # bs) sep out l =
      mac_to_string_loop (dst_size - 3) (c # bs) sep (?out @ [sep]) (length ?out)"
    using "3.prems" by (subst mac_to_string_loop.simps(2)) (simp add: hi4_def lo4_def del: mac_to_string_loop.simps)
  also have "\<dots> = (?out @ [sep]) @ mac_text sep (c # bs)"
    using "3.prems" by (intro "3.IH") auto
  finally show ?case by simp
qed (simp_all add: hi4_def lo4_def Let_def)

lemma mac_from_string_loop_text:
  "bin \<noteq> [] \<Longrightarrow> read_hexdigit sep = -1 \<Longrightarrow>
     mac_from_string_loop (length bin) (mac_text sep bin) sep acc = Some (acc @ bin)"
  by (induction sep bin arbitrary: acc rule: mac_text.induct)
    (simp_all add: read_hexdigit_hex_char nibbles_less nibbles_byte Let_def)

section \<open>Properties\<close>

text \<open>Printing a binary MAC-style address with a separator that is no hexadecimal digit and
  parsing the text gives the same bytes back, whenever the output buffer has room.\<close>

theorem mac_string_roundtrip:
  assumes "0 < n" and "n \<le> length bin" and "3 * n \<le> dst_size" and "read_hexdigit sep = -1"
  shows "\<exists>txt. mac_to_string bin dst_size n sep = Some txt \<and>
    mac_from_string n txt sep = Some (take n bin)"
proof -
  let ?b = "take n bin"
  have b: "?b \<noteq> []" "length ?b = n" using assms(1,2) by auto
  have "mac_to_string_loop dst_size ?b sep [] 0 = mac_text sep ?b"
    using mac_to_string_loop_eq[of ?b dst_size sep "[]" 0] assms(3) b by simp
  moreover have "mac_from_string n (mac_text sep ?b) sep = Some ?b"
    using mac_from_string_loop_text[OF b(1) assms(4), of "[]"] b(2)
    by (simp add: mac_from_string_def)
  ultimately show ?thesis
    using assms(1,3) by (simp add: mac_to_string_def)
qed

theorem mac_string_roundtrip_witness:
  "\<exists>txt. mac_to_string [0, 26, 255, 1, 2, 160] netaddr_str_size 6 CHR '':'' = Some txt \<and>
    mac_from_string 6 txt CHR '':'' = Some (take 6 [0, 26, 255, 1, 2, 160])"
  by (rule mac_string_roundtrip) (simp_all add: netaddr_str_size_def read_hexdigit_def)

text \<open>The prefix length computed from a contiguous subnet mask of \<open>n \<ge> 1\<close> ones is \<open>n - 1\<close>, one
  less than the mask says, and the mask \<open>0.0.0.0\<close> is rejected.\<close>

theorem subnetmask_prefixlen_off_by_one:
  assumes "pton AF_INET src = Some b" and "mk32 b = push_bit (32 - n) 0xffffffff" and "n \<le> 32"
  shows "subnetmask_to_prefixlen pton src = int n - 1"
proof -
  have "\<forall>n\<in>set [0..<33]. subnetmask_loop 32 (push_bit (32 - n) 0xffffffff) 0xffffffff = int n - 1"
    by code_simp
  then have "subnetmask_loop 32 (push_bit (32 - n) 0xffffffff) 0xffffffff = int n - 1"
    using assms(3) by simp
  then show ?thesis using assms(1,2) by (simp add: subnetmask_to_prefixlen_def)
qed

theorem subnetmask_prefixlen_off_by_one_witness:
  "subnetmask_to_prefixlen (\<lambda>af s. if s = ''255.255.255.0'' then Some [255, 255, 255, 0] else None)
     ''255.255.255.0'' = int 24 - 1"
  by (rule subnetmask_prefixlen_off_by_one [where b = "[255, 255, 255, 0]"]) (simp, code_simp, simp)

end
