(* ===== verification/SimpleList.thy ===== *)
theory SimpleList
  imports Prelude
begin

text \<open>
  \<open>src/list.c\<close>: the singly headed list of the daemon (commodity lists, neighbor list), built on
  \<open>LIST_HEAD\<close> of \<open><sys/queue.h>\<close>. A \<open>list_t\<close> is the HOL list of the \<open>data\<close> fields in list order. A
  reference to an element (\<open>elm_t *\<close>, or the \<open>data\<close> pointer inside) is its position, \<open>None\<close> is
  \<open>NULL\<close>; positions are only used while the list is not changed. The list pointers are addresses of
  struct fields, so the assertions that they are not \<open>NULL\<close> hold in the model by construction.
  \<open>malloc\<close> is taken to succeed, as \<open>list_insert\<close> does not test its result.
\<close>

definition list_init :: "'a list \<Rightarrow> 'a list" where
  "list_init l = []"

definition list_insert :: "'a list \<Rightarrow> 'a \<Rightarrow> 'a list" where
  "list_insert l data = data # l"

text \<open>\<open>list_free\<close> takes the first element off until the list is empty; the second component is the
  sequence of \<open>del_data\<close> calls.\<close>

fun list_free :: "'a list \<Rightarrow> 'a list \<Rightarrow> 'a list \<times> 'a list" where
  "list_free [] deleted = ([], deleted)"
| "list_free (e # l) deleted = list_free l (deleted @ [e])"

fun list_find_from :: "nat \<Rightarrow> 'a list \<Rightarrow> 'd \<Rightarrow> ('d \<Rightarrow> 'a \<Rightarrow> int) \<Rightarrow> nat option" where
  "list_find_from i [] data cmp_data = None"
| "list_find_from i (f # l) data cmp_data =
     (if cmp_data data f = 0 then Some i else list_find_from (Suc i) l data cmp_data)"

definition list_find :: "'a list \<Rightarrow> 'd \<Rightarrow> ('d \<Rightarrow> 'a \<Rightarrow> int) \<Rightarrow> nat option" where
  "list_find l data cmp_data = list_find_from 0 l data cmp_data"

text \<open>The loop of \<open>list_remove_cond\<close>: \<open>eprev\<close> is the kept part of the list, reversed, so that its
  head is the element the C variable designates; the second list starts at \<open>ecur\<close>. The condition may
  read the environment (the clock), so it threads a state \<open>'s\<close>.\<close>

fun list_remove_loop ::
  "('a \<Rightarrow> 's \<Rightarrow> bool \<times> 's) \<Rightarrow> 'a list \<Rightarrow> 'a list \<Rightarrow> 'a list \<Rightarrow> 's \<Rightarrow> 'a list \<times> 'a list \<times> 's" where
  "list_remove_loop cond_data eprev [] deleted s = (rev eprev, deleted, s)"
| "list_remove_loop cond_data eprev (ecur # rest) deleted s =
     (case cond_data ecur s of
        (True, s') \<Rightarrow> list_remove_loop cond_data eprev rest (deleted @ [ecur]) s'
      | (False, s') \<Rightarrow> list_remove_loop cond_data (ecur # eprev) rest deleted s')"

definition list_remove_cond ::
  "'a list \<Rightarrow> ('a \<Rightarrow> 's \<Rightarrow> bool \<times> 's) \<Rightarrow> 's \<Rightarrow> 'a list \<times> 'a list \<times> 's" where
  "list_remove_cond l cond_data s = list_remove_loop cond_data [] l [] s"

section \<open>What the operations compute\<close>

lemma list_free_eq: "list_free l deleted = ([], deleted @ l)"
  by (induction l deleted rule: list_free.induct) auto

lemma list_find_from_Some:
  "list_find_from i l d cmp = Some j \<Longrightarrow>
     i \<le> j \<and> j - i < length l \<and> cmp d (l ! (j - i)) = 0 \<and> (\<forall>k<j - i. cmp d (l ! k) \<noteq> 0)"
proof (induction i l d cmp rule: list_find_from.induct)
  case (2 i f l d cmp)
  show ?case
  proof (cases "cmp d f = 0")
    case False
    with 2 have *: "Suc i \<le> j \<and> j - Suc i < length l \<and> cmp d (l ! (j - Suc i)) = 0 \<and>
        (\<forall>k<j - Suc i. cmp d (l ! k) \<noteq> 0)" by simp
    then have "j - i = Suc (j - Suc i)" by arith
    with * False show ?thesis by (auto simp: less_Suc_eq_0_disj)
  qed (use 2 in auto)
qed simp

lemma list_find_from_None:
  "list_find_from i l d cmp = None \<longleftrightarrow> (\<forall>x\<in>set l. cmp d x \<noteq> 0)"
  by (induction i l d cmp rule: list_find_from.induct) auto

lemma list_find_SomeD:
  assumes "list_find l d cmp = Some i"
  shows "i < length l" and "cmp d (l ! i) = 0" and "\<forall>k<i. cmp d (l ! k) \<noteq> 0"
  using list_find_from_Some[of 0 l d cmp i] assms by (simp_all add: list_find_def)

lemma list_find_None_iff: "list_find l d cmp = None \<longleftrightarrow> (\<forall>x\<in>set l. cmp d x \<noteq> 0)"
  by (simp add: list_find_def list_find_from_None)

text \<open>With a condition that does not depend on the environment, \<open>list_remove_cond\<close> is a filter.\<close>

lemma list_remove_loop_pure:
  "list_remove_loop (\<lambda>x s. (P x, s)) eprev l del s =
     (rev eprev @ filter (\<lambda>x. \<not> P x) l, del @ filter P l, s)"
  by (induction l arbitrary: eprev del) (simp_all split: bool.splits)

lemma list_remove_cond_pure:
  "list_remove_cond l (\<lambda>x s. (P x, s)) s = (filter (\<lambda>x. \<not> P x) l, filter P l, s)"
  by (simp add: list_remove_cond_def list_remove_loop_pure)

text \<open>In general the kept elements are a subsequence, in order, and every element is kept or deleted.\<close>

lemma list_remove_loop_parts:
  "list_remove_loop c eprev l del s = (l', del', s') \<Longrightarrow>
     \<exists>bs. length bs = length l \<and> l' = rev eprev @ map fst (filter snd (zip l bs)) \<and>
       del' = del @ map fst (filter (\<lambda>p. \<not> snd p) (zip l bs))"
proof (induction c eprev l del s arbitrary: l' del' s' rule: list_remove_loop.induct)
  case (2 c eprev e rest del s)
  show ?case
  proof (cases "c e s")
    case (Pair b s1)
    show ?thesis
    proof (cases b)
      case True
      with 2 Pair obtain bs where "length bs = length rest"
        "l' = rev eprev @ map fst (filter snd (zip rest bs))"
        "del' = (del @ [e]) @ map fst (filter (\<lambda>p. \<not> snd p) (zip rest bs))" by fastforce
      then show ?thesis by (intro exI[of _ "False # bs"]) auto
    next
      case False
      with 2 Pair obtain bs where "length bs = length rest"
        "l' = rev (e # eprev) @ map fst (filter snd (zip rest bs))"
        "del' = del @ map fst (filter (\<lambda>p. \<not> snd p) (zip rest bs))" by fastforce
      then show ?thesis by (intro exI[of _ "True # bs"]) auto
    qed
  qed
qed simp

lemma distinct_map_filter_zip:
  "distinct (map f l) \<Longrightarrow> length bs = length l \<Longrightarrow>
     distinct (map f (map fst (filter snd (zip l bs)))) \<and> set (map fst (filter snd (zip l bs))) \<subseteq> set l"
  by (induction l arbitrary: bs)
    (auto simp: length_Suc_conv dest: set_zip_leftD, metis imageI set_zip_leftD)

lemma distinct_filter_zip:
  "distinct (filter P (map f l)) \<Longrightarrow> length bs = length l \<Longrightarrow>
     distinct (filter P (map f (map fst (filter snd (zip l bs)))))"
proof (induction l arbitrary: bs)
  case (Cons x l)
  then obtain b bs' where b: "bs = b # bs'" "length bs' = length l" by (cases bs) auto
  have "set (filter P (map f (map fst (filter snd (zip l bs'))))) \<subseteq> set (filter P (map f l))"
    by (auto dest: set_zip_leftD)
  with Cons.IH[OF _ b(2)] Cons.prems(1) b(1) show ?case by (cases "P (f x)") auto
qed simp

lemma list_remove_cond_subseq:
  assumes "list_remove_cond l c s = (l', del, s')"
  shows "set l' \<subseteq> set l" and "distinct (map f l) \<Longrightarrow> distinct (map f l')"
    and "set l = set l' \<union> set del"
    and "distinct (filter P (map f l)) \<Longrightarrow> distinct (filter P (map f l'))"
proof -
  obtain bs where bs: "length bs = length l" "l' = map fst (filter snd (zip l bs))"
    "del = map fst (filter (\<lambda>p. \<not> snd p) (zip l bs))"
    using list_remove_loop_parts[of c "[]" l "[]" s l' del s'] assms
    by (auto simp: list_remove_cond_def)
  show "set l' \<subseteq> set l" using bs by (auto dest: set_zip_leftD)
  show "distinct (map f l')" if "distinct (map f l)"
    using distinct_map_filter_zip[OF that bs(1)] bs(2) by simp
  show "distinct (filter P (map f l'))" if "distinct (filter P (map f l))"
    using distinct_filter_zip[OF that bs(1)] bs(2) by simp
  have "set l = fst ` set (zip l bs)" using bs(1) by (simp flip: set_map)
  then show "set l = set l' \<union> set del" using bs(2,3) by auto
qed

section \<open>Lists searched by key\<close>

text \<open>The first element with a key, as a partial map.\<close>

definition klookup :: "('a \<Rightarrow> 'k) \<Rightarrow> 'a list \<Rightarrow> 'k \<Rightarrow> 'a option" where
  "klookup key l k = map_of (map (\<lambda>x. (key x, x)) l) k"

lemma klookup_simps [simp]:
  "klookup key [] k = None"
  "klookup key (x # l) k = (if key x = k then Some x else klookup key l k)"
  by (simp_all add: klookup_def)

lemma klookup_None_iff: "klookup key l k = None \<longleftrightarrow> k \<notin> key ` set l"
  by (induction l) auto

lemma klookup_SomeD: "klookup key l k = Some x \<Longrightarrow> x \<in> set l \<and> key x = k"
  by (induction l) (auto split: if_splits)

lemma klookup_distinct:
  "distinct (map key l) \<Longrightarrow> x \<in> set l \<Longrightarrow> klookup key l (key x) = Some x"
  by (induction l) auto

lemma map_update_same:
  "i < length l \<Longrightarrow> f y = f (l ! i) \<Longrightarrow> map f (l[i := y]) = map f l"
  by (simp add: list_eq_iff_nth_eq nth_list_update)

lemma klookup_list_update:
  "i < length l \<Longrightarrow> distinct (map key l) \<Longrightarrow> key y = key (l ! i) \<Longrightarrow>
     klookup key (l[i := y]) = (klookup key l)(key y \<mapsto> y)"
proof (induction l arbitrary: i)
  case (Cons x l)
  show ?case
  proof (cases i)
    case 0
    with Cons.prems show ?thesis by (auto simp: fun_eq_iff)
  next
    case (Suc j)
    with Cons.prems have "l ! j \<in> set l" by simp
    with Cons.prems(2) have "key x \<noteq> key (l ! j)" by auto
    with Suc Cons show ?thesis by (auto simp: fun_eq_iff)
  qed
qed simp

text \<open>
  The contract between the list and the modules that search it: the comparison function of the
  module decides equality of keys. The module's find-or-insert code then keeps keys distinct, and
  the list is a map from keys to elements.
\<close>

locale keyed_list =
  fixes cmp :: "'a \<Rightarrow> 'a \<Rightarrow> int" and key :: "'a \<Rightarrow> 'k"
  assumes cmp_key: "cmp x y = 0 \<longleftrightarrow> key x = key y"
begin

lemma find_Some:
  assumes "list_find l x cmp = Some i"
  shows "i < length l" and "key (l ! i) = key x" and "klookup key l (key x) = Some (l ! i)"
proof -
  note f = list_find_SomeD[OF assms]
  show "i < length l" by (rule f(1))
  show k: "key (l ! i) = key x" using f(2) by (simp add: cmp_key)
  have "\<forall>j<i. key (l ! j) \<noteq> key x" using f(3) by (simp add: cmp_key) metis
  with k f(1) show "klookup key l (key x) = Some (l ! i)"
  proof (induction l arbitrary: i)
    case (Cons a l)
    show ?case
    proof (cases i)
      case (Suc j)
      with Cons.prems(3) have "key a \<noteq> key x" "\<forall>k<j. key (l ! k) \<noteq> key x" by auto
      with Suc Cons show ?thesis by simp
    qed (use Cons.prems in auto)
  qed simp
qed

lemma find_None_iff: "list_find l x cmp = None \<longleftrightarrow> key x \<notin> key ` set l"
  by (auto simp: list_find_None_iff cmp_key)

lemma find_cases:
  obtains (new) "list_find l x cmp = None" "klookup key l (key x) = None" "key x \<notin> key ` set l"
    | (old) i where "list_find l x cmp = Some i" "i < length l" "key (l ! i) = key x"
        "klookup key l (key x) = Some (l ! i)"
  using find_Some find_None_iff klookup_None_iff by (metis option.exhaust)

lemma insert_new:
  assumes "list_find l x cmp = None" and "distinct (map key l)" and "key y = key x"
  shows "distinct (map key (list_insert l y))"
    and "klookup key (list_insert l y) = (klookup key l)(key y \<mapsto> y)"
  using assms by (auto simp: list_insert_def find_None_iff fun_eq_iff)

lemma update_found:
  assumes "list_find l x cmp = Some i" and "distinct (map key l)" and "key y = key x"
  shows "distinct (map key (l[i := y]))"
    and "klookup key (l[i := y]) = (klookup key l)(key y \<mapsto> y)"
proof -
  note f = find_Some[OF assms(1)]
  have "map key (l[i := y]) = map key l"
    using f(1,2) assms(3) by (simp add: map_update_same)
  then show "distinct (map key (l[i := y]))" using assms(2) by simp
  show "klookup key (l[i := y]) = (klookup key l)(key y \<mapsto> y)"
    using klookup_list_update[OF f(1) assms(2), of y] f(2) assms(3) by simp
qed

end

section \<open>Properties\<close>

text \<open>\<open>list_remove_cond\<close> with a condition that does not change during the call keeps exactly
  the elements that do not satisfy it, in their order, and hands exactly the others to \<open>del_data\<close>,
  each once and in order.\<close>

theorem list_remove_cond_filter:
  "list_remove_cond l (\<lambda>x s. (P x, s)) s = (filter (\<lambda>x. \<not> P x) l, filter P l, s)"
  by (rule list_remove_cond_pure)

text \<open>\<open>list_find\<close> returns the first element that compares equal, and \<open>NULL\<close> exactly when there is
  none.\<close>

theorem list_find_first:
  "case list_find l d cmp of
     None \<Rightarrow> \<forall>x\<in>set l. cmp d x \<noteq> 0
   | Some i \<Rightarrow> i < length l \<and> cmp d (l ! i) = 0 \<and> (\<forall>k<i. cmp d (l ! k) \<noteq> 0)"
  by (auto split: option.split dest: list_find_SomeD simp: list_find_None_iff)

theorem list_find_first_witness:
  "list_find [3, 5, 5] (5::int) (\<lambda>x y. x - y) = Some 1 \<and>
   (5::int) - [3, 5, 5] ! 1 = 0 \<and> (5::int) - [3, 5, 5] ! 0 \<noteq> 0"
  using list_find_first[where l = "[3, 5, 5]" and d = "5 :: int" and cmp = "\<lambda>x y. x - y"]
  by (simp add: list_find_def)

end
