(* ===== verification/FifoQueue.thy ===== *)
theory FifoQueue
  imports Prelude "HOL-Library.While_Combinator"
begin

text \<open>
  \<open>src/fifo_queue.c\<close>: the daemon's view of one netfilter queue. The kernel holds the packets and
  numbers them 1, 2, 3, \<dots>; \<open>head\<close> is the number of the last packet released, \<open>tail\<close> of the last
  one enqueued, both \<open>uint32_t\<close>. A \<open>fifo_t *\<close> that may be \<open>NULL\<close> is an option. The calls of
  \<open>nfq_set_verdict\<close> are the output of an operation: queue handle, packet number, verdict.
\<close>

record fifo =
  head :: u32
  tail :: u32
  qh :: "nat option"

datatype verdict = NF_ACCEPT | NF_DROP

type_synonym verdict_call = "nat option \<times> u32 \<times> verdict"

definition fifo_init :: "fifo option \<Rightarrow> fifo option" where
  "fifo_init queue = map_option (\<lambda>q. q\<lparr>head := 0, tail := 0, qh := None\<rparr>) queue"

text \<open>The callback that libnetfilter_queue runs for each packet; a negative return would stop it.\<close>

definition fifo_add_packet :: "fifo option \<Rightarrow> int \<times> fifo option" where
  "fifo_add_packet queue = (0, map_option (\<lambda>q. q\<lparr>tail := tail q + 1\<rparr>) queue)"

definition fifo_send_packet :: "fifo option \<Rightarrow> fifo option \<times> verdict_call list" where
  "fifo_send_packet queue =
     (case queue of
        Some q \<Rightarrow>
          if head q < tail q
          then let q = q\<lparr>head := head q + 1\<rparr> in (Some q, [(qh q, head q, NF_ACCEPT)])
          else (queue, [])
      | None \<Rightarrow> (queue, []))"

definition fifo_drop_packet :: "fifo option \<Rightarrow> fifo option \<times> verdict_call list" where
  "fifo_drop_packet queue =
     (case queue of
        Some q \<Rightarrow>
          if head q < tail q
          then let q = q\<lparr>head := head q + 1\<rparr> in (Some q, [(qh q, head q, NF_DROP)])
          else (queue, [])
      | None \<Rightarrow> (queue, []))"

definition fifo_length :: "fifo option \<Rightarrow> halt + u32" where
  "fifo_length queue = rbind (deref queue) (\<lambda>q. Inr (if head q < tail q then tail q - head q else 0))"

lemma unat_Suc_of_less: "(w :: u32) < v \<Longrightarrow> unat (w + 1) = Suc (unat w)"
  using unat_u32[of v] by (simp add: word_less_nat_alt unat_word_ariths)

function fifo_delete :: "fifo option \<Rightarrow> verdict_call list \<Rightarrow> fifo option \<times> verdict_call list" where
  "fifo_delete queue out =
     (case queue of
        Some q \<Rightarrow>
          if head q < tail q
          then let q = q\<lparr>head := head q + 1\<rparr>
               in fifo_delete (Some q) (out @ [(qh q, head q, NF_DROP)])
          else (queue, out)
      | None \<Rightarrow> (queue, out))"
  by pat_completeness auto
termination
  by (relation "measure (\<lambda>(queue, out). case queue of None \<Rightarrow> 0 | Some q \<Rightarrow> unat (tail q) - unat (head q))")
    (auto simp: unat_Suc_of_less word_less_nat_alt)

declare fifo_delete.simps [simp del]

text \<open>The printing loop over \<open>i = head + 1, \<dots>, tail\<close> may not end: its result is the list of the
  numbers printed, or \<open>None\<close> when the loop never stops.\<close>

definition fifo_print :: "fifo option \<Rightarrow> u32 list option" where
  "fifo_print queue =
     (case queue of
        None \<Rightarrow> Some []
      | Some q \<Rightarrow>
          map_option snd
            (while_option (\<lambda>(i, out). i \<le> tail q) (\<lambda>(i, out). (i + 1, out @ [i])) (head q + 1, [])))"

section \<open>The queue a pair of counters stands for\<close>

text \<open>The numbers of the packets that wait, oldest first.\<close>

definition fifo_pending :: "fifo option \<Rightarrow> nat list" where
  "fifo_pending queue =
     (case queue of None \<Rightarrow> [] | Some q \<Rightarrow> [Suc (unat (head q)) ..< Suc (unat (tail q))])"

definition fifo_calls :: "verdict \<Rightarrow> fifo option \<Rightarrow> verdict_call list" where
  "fifo_calls v queue =
     (case queue of None \<Rightarrow> [] | Some q \<Rightarrow> map (\<lambda>i. (qh q, of_nat i, v)) (fifo_pending queue))"

lemma upt_Suc_conv: "i < j \<Longrightarrow> [Suc i ..< Suc j] = Suc i # [Suc (Suc i) ..< Suc j]"
  by (simp add: upt_conv_Cons)

lemma fifo_pending_Nil_iff: "fifo_pending (Some q) = [] \<longleftrightarrow> \<not> head q < tail q"
  by (auto simp: fifo_pending_def word_less_nat_alt)

lemma fifo_pending_Cons:
  assumes "head q < tail q"
  shows "fifo_pending (Some q) = Suc (unat (head q)) # fifo_pending (Some (q\<lparr>head := head q + 1\<rparr>))"
  using assms
  by (simp add: fifo_pending_def unat_Suc_of_less upt_Suc_conv word_less_nat_alt del: upt_Suc)

lemma of_nat_Suc_head: "of_nat (Suc (unat (w :: u32))) = w + 1"
  by simp

text \<open>
  The contract a consumer of packets relies on: a source hands out what is pending, front first,
  one packet per call, and nothing once it is empty.
\<close>

fun repeat_send :: "('q \<Rightarrow> 'q \<times> 'e list) \<Rightarrow> nat \<Rightarrow> 'q \<Rightarrow> 'q \<times> 'e list" where
  "repeat_send send 0 q = (q, [])"
| "repeat_send send (Suc n) q =
     (let (q1, out1) = send q; (q2, out2) = repeat_send send n q1 in (q2, out1 @ out2))"

locale packet_source =
  fixes send :: "'q \<Rightarrow> 'q \<times> 'e list" and pending :: "'q \<Rightarrow> 'e list"
  assumes send_empty: "pending q = [] \<Longrightarrow> send q = (q, [])"
    and send_front: "pending q = e # es \<Longrightarrow> \<exists>q'. send q = (q', [e]) \<and> pending q' = es"
begin

lemma send_out: "send q = (q', out) \<Longrightarrow> out = take 1 (pending q) \<and> pending q' = drop 1 (pending q)"
  using send_empty[of q] send_front[of q] by (cases "pending q") auto

lemma repeat_send_take:
  "repeat_send send n q = (q', out) \<Longrightarrow> out = take n (pending q) \<and> pending q' = drop n (pending q)"
proof (induction n arbitrary: q q' out)
  case (Suc n)
  obtain q1 out1 where s: "send q = (q1, out1)" by (cases "send q")
  obtain q2 out2 where r: "repeat_send send n q1 = (q2, out2)" by (cases "repeat_send send n q1")
  from Suc.prems s r have "q' = q2" "out = out1 @ out2" by simp_all
  with Suc.IH[OF r] send_out[OF s] show ?case
    by (cases "pending q") auto
qed simp

lemma repeat_send_length:
  "repeat_send send n q = (q', out) \<Longrightarrow> length out = min n (length (pending q))"
  by (auto dest: repeat_send_take)

end

lemma fifo_calls_front:
  assumes "fifo_calls v queue = e # es"
  shows "\<exists>q. queue = Some q \<and> head q < tail q \<and> e = (qh q, head q + 1, v) \<and>
    es = fifo_calls v (Some (q\<lparr>head := head q + 1\<rparr>))"
proof (cases queue)
  case (Some q)
  then have "fifo_pending (Some q) \<noteq> []" using assms by (auto simp: fifo_calls_def)
  then have "head q < tail q" by (simp add: fifo_pending_Nil_iff)
  with Some assms show ?thesis by (auto simp: fifo_calls_def fifo_pending_Cons add.commute)
qed (use assms in \<open>simp add: fifo_calls_def\<close>)

lemma fifo_calls_Nil: "fifo_calls v (Some q) = [] \<longleftrightarrow> \<not> head q < tail q"
  by (simp add: fifo_calls_def fifo_pending_Nil_iff)

interpretation release: packet_source fifo_send_packet "fifo_calls NF_ACCEPT"
proof unfold_locales
  fix q assume "fifo_calls NF_ACCEPT q = []"
  then show "fifo_send_packet q = (q, [])"
    by (cases q) (simp_all add: fifo_calls_Nil fifo_send_packet_def)
next
  fix q e es assume "fifo_calls NF_ACCEPT q = e # es"
  then show "\<exists>q'. fifo_send_packet q = (q', [e]) \<and> fifo_calls NF_ACCEPT q' = es"
    by (auto dest!: fifo_calls_front simp: fifo_send_packet_def)
qed

interpretation discard: packet_source fifo_drop_packet "fifo_calls NF_DROP"
proof unfold_locales
  fix q assume "fifo_calls NF_DROP q = []"
  then show "fifo_drop_packet q = (q, [])"
    by (cases q) (simp_all add: fifo_calls_Nil fifo_drop_packet_def)
next
  fix q e es assume "fifo_calls NF_DROP q = e # es"
  then show "\<exists>q'. fifo_drop_packet q = (q', [e]) \<and> fifo_calls NF_DROP q' = es"
    by (auto dest!: fifo_calls_front simp: fifo_drop_packet_def)
qed

section \<open>Draining and printing\<close>

lemma fifo_delete_eq:
  "fifo_delete queue out =
     (map_option (\<lambda>q. if head q < tail q then q\<lparr>head := tail q\<rparr> else q) queue,
      out @ fifo_calls NF_DROP queue)"
proof (induction queue out rule: fifo_delete.induct)
  case (1 queue out)
  show ?case
  proof (cases queue)
    case (Some q)
    show ?thesis
    proof (cases "head q < tail q")
      case True
      let ?q = "q\<lparr>head := head q + 1\<rparr>"
      have "fifo_delete queue out = fifo_delete (Some ?q) (out @ [(qh q, head q + 1, NF_DROP)])"
        using Some True by (subst fifo_delete.simps) simp
      also have "\<dots> = (map_option (\<lambda>q. if head q < tail q then q\<lparr>head := tail q\<rparr> else q) (Some ?q),
          (out @ [(qh q, head q + 1, NF_DROP)]) @ fifo_calls NF_DROP (Some ?q))"
        using "1.IH"[OF Some True] by simp
      also have "\<dots> = (Some (q\<lparr>head := tail q\<rparr>), out @ fifo_calls NF_DROP (Some q))"
        using True inc_le[OF True]
        by (auto simp: fifo_calls_def fifo_pending_Cons[OF True] add.commute)
      finally show ?thesis using Some True by simp
    next
      case False
      then show ?thesis using Some
        by (subst fifo_delete.simps) (simp add: fifo_calls_Nil)
    qed
  qed (simp add: fifo_calls_def fifo_delete.simps)
qed

lemma fifo_print_loop:
  assumes "unat n < 2 ^ 32 - 1"
  shows "while_option (\<lambda>(i, out). i \<le> n) (\<lambda>(i, out). (i + 1, out @ [i])) (i :: u32, out) =
    Some (if i \<le> n then n + 1 else i, out @ map of_nat [unat i ..< Suc (unat n)])"
proof (induction "Suc (unat n) - unat i" arbitrary: i out)
  case 0
  then have "\<not> i \<le> n" by (simp add: word_le_nat_alt)
  with 0 show ?case by (simp add: while_option_unfold)
next
  case (Suc k)
  then have le: "i \<le> n" by (simp add: word_le_nat_alt)
  have u: "unat (i + 1) = Suc (unat i)"
    using le assms by (simp add: word_le_nat_alt unat_word_ariths)
  have "k = Suc (unat n) - unat (i + 1)" using Suc.hyps(2) u by simp
  note IH = Suc.hyps(1)[OF this, of "out @ [i]"]
  have "while_option (\<lambda>(i, out). i \<le> n) (\<lambda>(i, out). (i + 1, out @ [i])) (i, out) =
      while_option (\<lambda>(i, out). i \<le> n) (\<lambda>(i, out). (i + 1, out @ [i])) (i + 1, out @ [i])"
    using le by (subst while_option_unfold) simp
  also have "\<dots> = Some (n + 1, out @ map of_nat [unat i ..< Suc (unat n)])"
  proof -
    have "(if i + 1 \<le> n then n + 1 else i + 1) = n + 1"
      using le u by (auto simp: word_le_nat_alt word_unat_eq_iff unat_word_ariths)
    moreover have "[unat i ..< Suc (unat n)] = unat i # [Suc (unat i) ..< Suc (unat n)]"
      using le by (simp add: word_le_nat_alt upt_conv_Cons del: upt_Suc)
    ultimately show ?thesis unfolding IH u by (simp del: upt_Suc)
  qed
  finally show ?case using le by simp
qed

section \<open>Properties\<close>

text \<open>C38: While the 32-bit counters do not wrap, the queue is a FIFO of packet numbers: enqueueing
  appends the next number, releasing accepts exactly the oldest number and removes it, and the
  reported length is the number of waiting packets.\<close>

theorem fifo_refines_queue:
  assumes "head q \<le> tail q" and "unat (tail q) < 2 ^ 32 - 1"
  shows "fifo_pending (snd (fifo_add_packet (Some q))) = fifo_pending (Some q) @ [Suc (unat (tail q))] \<and>
    fifo_pending (fst (fifo_send_packet (Some q))) = tl (fifo_pending (Some q)) \<and>
    snd (fifo_send_packet (Some q)) =
      map (\<lambda>i. (qh q, of_nat i, NF_ACCEPT)) (take 1 (fifo_pending (Some q))) \<and>
    fifo_length (Some q) = Inr (of_nat (length (fifo_pending (Some q))))"
proof (intro conjI)
  have u: "unat (tail q + 1) = Suc (unat (tail q))" using assms(2) by (simp add: unat_word_ariths)
  show "fifo_pending (snd (fifo_add_packet (Some q))) = fifo_pending (Some q) @ [Suc (unat (tail q))]"
    using assms(1) u by (simp add: fifo_add_packet_def fifo_pending_def word_le_nat_alt)
  show "fifo_pending (fst (fifo_send_packet (Some q))) = tl (fifo_pending (Some q))"
    by (simp add: fifo_send_packet_def fifo_pending_Cons)
      (simp add: fifo_pending_def word_less_nat_alt not_less)
  show "snd (fifo_send_packet (Some q)) =
      map (\<lambda>i. (qh q, of_nat i, NF_ACCEPT)) (take 1 (fifo_pending (Some q)))"
    using release.send_out[of "Some q"]
    by (cases "fifo_send_packet (Some q)") (simp add: fifo_calls_def take_map)
  show "fifo_length (Some q) = Inr (of_nat (length (fifo_pending (Some q))))"
    using assms(1) by (auto simp: fifo_length_def fifo_pending_def word_le_nat_alt word_less_nat_alt)
qed

theorem fifo_refines_queue_witness:
  "let q = \<lparr>head = 3, tail = 5, qh = Some 7\<rparr> in
    fifo_pending (snd (fifo_add_packet (Some q))) = fifo_pending (Some q) @ [6] \<and>
    fifo_pending (fst (fifo_send_packet (Some q))) = [5] \<and>
    snd (fifo_send_packet (Some q)) = [(Some 7, 4, NF_ACCEPT)] \<and> fifo_length (Some q) = Inr 2"
  using fifo_refines_queue[of "\<lparr>head = 3, tail = 5, qh = Some 7\<rparr>"]
  by (simp add: fifo_pending_def upt_conv_Cons del: upt_Suc)

lemma u32_max_Suc: "(0xffffffff :: u32) + 1 = 0"
  by (simp add: word_unat_eq_iff)

lemma u32_le_max: "(w :: u32) \<le> 0xffffffff"
  using unat_u32[of w] by (simp add: word_le_nat_alt)

text \<open>The packet with number \<open>2 ^ 32\<close> wraps \<open>tail\<close> to 0: from then on the queue reports
  length 0 and releases nothing, whatever was waiting.\<close>

theorem fifo_wrap_strands_packets:
  assumes "tail q = 0xffffffff"
  shows "\<exists>q'. snd (fifo_add_packet (Some q)) = Some q' \<and> fifo_length (Some q') = Inr 0 \<and>
    fifo_send_packet (Some q') = (Some q', []) \<and> fifo_delete (Some q') [] = (Some q', [])"
proof -
  have z: "tail q + 1 = 0" unfolding assms by (rule u32_max_Suc)
  show ?thesis
    by (simp add: fifo_add_packet_def fifo_length_def fifo_send_packet_def fifo_delete.simps z)
qed

theorem fifo_wrap_strands_packets_witness:
  "\<exists>q'. snd (fifo_add_packet (Some \<lparr>head = 0xfffffff0, tail = 0xffffffff, qh = None\<rparr>)) = Some q' \<and>
    fifo_length (Some q') = Inr 0 \<and> fifo_send_packet (Some q') = (Some q', []) \<and>
    fifo_delete (Some q') [] = (Some q', [])"
  by (rule fifo_wrap_strands_packets) simp

text \<open>\<open>fifo_delete\<close> drops every waiting packet exactly once, in order, and leaves the queue
  empty; it always ends.\<close>

theorem fifo_delete_drains:
  "fifo_delete queue [] = (queue', calls) \<Longrightarrow>
     calls = fifo_calls NF_DROP queue \<and> fifo_pending queue' = []"
  by (cases queue) (auto simp: fifo_delete_eq fifo_pending_Nil_iff, simp_all add: fifo_pending_def)

theorem fifo_delete_drains_witness:
  "fifo_delete (Some \<lparr>head = 1, tail = 3, qh = None\<rparr>) [] =
     (Some \<lparr>head = 3, tail = 3, qh = None\<rparr>, [(None, 2, NF_DROP), (None, 3, NF_DROP)]) \<and>
   fifo_pending (Some \<lparr>head = 3, tail = 3, qh = None\<rparr>) = []"
proof -
  have d: "fifo_delete (Some \<lparr>head = 1, tail = 3, qh = None\<rparr>) [] =
      (Some \<lparr>head = 3, tail = 3, qh = None\<rparr>, [(None, 2, NF_DROP), (None, 3, NF_DROP)])"
    by (simp add: fifo_delete.simps)
  with fifo_delete_drains[OF d] show ?thesis by simp
qed

text \<open>The printing loop ends exactly when \<open>tail\<close> is not the largest counter value; then (with
  \<open>head\<close> below it too) it prints the numbers of the waiting packets.\<close>

theorem fifo_print_ends_iff:
  "(fifo_print (Some q) = None \<longleftrightarrow> tail q = 0xffffffff) \<and>
   (tail q \<noteq> 0xffffffff \<and> head q \<noteq> 0xffffffff \<longrightarrow>
      fifo_print (Some q) = Some (map of_nat (fifo_pending (Some q))))"
proof (cases "tail q = 0xffffffff")
  case True
  have "while_option (\<lambda>(i, out). i \<le> tail q) (\<lambda>(i, out). (i + 1, out @ [i])) (head q + 1, []) = None"
  proof (rule ccontr)
    assume "while_option (\<lambda>(i, out). i \<le> tail q) (\<lambda>(i, out). (i + 1, out @ [i])) (head q + 1, []) \<noteq> None"
    then obtain t where "while_option (\<lambda>(i, out). i \<le> tail q) (\<lambda>(i, out). (i + 1, out @ [i]))
        (head q + 1, []) = Some t" by blast
    from while_option_stop[OF this] have "\<not> fst t \<le> tail q" by (cases t) simp
    moreover have "fst t \<le> tail q" unfolding True by (rule u32_le_max)
    ultimately show False by simp
  qed
  with True show ?thesis by (simp add: fifo_print_def)
next
  case False
  have "unat (tail q) \<noteq> 2 ^ 32 - 1"
  proof
    assume "unat (tail q) = 2 ^ 32 - 1"
    then have "unat (tail q) = unat (0xffffffff :: u32)" by simp
    with False show False by (simp only: word_unat_eq_iff)
  qed
  then have n: "unat (tail q) < 2 ^ 32 - 1" using unat_u32[of "tail q"] by simp
  note p = fifo_print_loop[OF n, of "head q + 1" "[]"]
  have "fifo_print (Some q) = Some (map of_nat (fifo_pending (Some q)))" if h: "head q \<noteq> 0xffffffff"
  proof -
    have "unat (head q) \<noteq> 2 ^ 32 - 1"
    proof
      assume "unat (head q) = 2 ^ 32 - 1"
      then have "unat (head q) = unat (0xffffffff :: u32)" by simp
      with h show False by (simp only: word_unat_eq_iff)
    qed
    then have "unat (head q + 1) = Suc (unat (head q))"
      using unat_u32[of "head q"] by (simp add: unat_word_ariths)
    with p show ?thesis by (simp add: fifo_print_def fifo_pending_def del: upt_Suc)
  qed
  with False p show ?thesis by (auto simp: fifo_print_def)
qed

theorem fifo_print_ends_iff_witness:
  "fifo_print (Some \<lparr>head = 3, tail = 5, qh = None\<rparr>) = Some [4, 5] \<and>
   fifo_print (Some \<lparr>head = 3, tail = 0xffffffff, qh = None\<rparr>) = None"
proof
  have "fifo_pending (Some \<lparr>head = 3, tail = 5, qh = None\<rparr>) = [4, 5]"
    by (simp add: fifo_pending_def upt_conv_Cons del: upt_Suc)
  then show "fifo_print (Some \<lparr>head = 3, tail = 5, qh = None\<rparr>) = Some [4, 5]"
    using fifo_print_ends_iff[of "\<lparr>head = 3, tail = 5, qh = None\<rparr>"] by simp
  show "fifo_print (Some \<lparr>head = 3, tail = 0xffffffff, qh = None\<rparr>) = None"
    using fifo_print_ends_iff[of "\<lparr>head = 3, tail = 0xffffffff, qh = None\<rparr>"] by simp
qed

end
