(* ===== verification/Commodity.thy ===== *)
theory Commodity
  imports Netaddr SimpleList FifoQueue
begin

text \<open>
  \<open>src/commodity.c\<close> and \<open>src/neighbor.c\<close>: the two kinds of list elements the daemon keeps. A commodity
  is a destination address with its backlog, the backlog differential and the queue that holds its
  packets; a neighbor has an address, a link flag, the time of its last hello and its own list of
  commodities. Both lists are searched with \<open>netaddr_cmp\<close> on the address. Freed objects are the
  output of the functions that delete.
\<close>

record commodity_short =
  cs_addr :: netaddr
  cs_backlog :: u32

record commodity =
  cdata :: commodity_short
  backdiff :: u32
  nfq_id :: u16
  queue :: "fifo option"

text \<open>\<open>struct timeval\<close>; seconds and microseconds are \<open>long\<close> values.\<close>

record timeval =
  tv_sec :: int
  tv_usec :: int

record neighbor =
  n_addr :: netaddr
  bidir :: u8
  update_time :: timeval
  n_clist :: "commodity list"

datatype freed = FreeCommodity commodity | FreeNeighbor netaddr

text \<open>A commodity from its five fields.\<close>

definition mk_commodity :: "netaddr \<Rightarrow> u32 \<Rightarrow> u32 \<Rightarrow> u16 \<Rightarrow> fifo option \<Rightarrow> commodity" where
  "mk_commodity a b d i q =
     \<lparr>cdata = \<lparr>cs_addr = a, cs_backlog = b\<rparr>, backdiff = d, nfq_id = i, queue = q\<rparr>"

lemma mk_commodity_sel [simp]:
  "cdata (mk_commodity a b d i q) = \<lparr>cs_addr = a, cs_backlog = b\<rparr>"
  "backdiff (mk_commodity a b d i q) = d"
  "nfq_id (mk_commodity a b d i q) = i"
  "queue (mk_commodity a b d i q) = q"
  by (simp_all add: mk_commodity_def)

section \<open>Commodity lists\<close>

definition del_data_c :: "commodity \<Rightarrow> freed list" where
  "del_data_c c = [FreeCommodity c]"

definition clist_free :: "commodity list \<Rightarrow> commodity list \<times> freed list" where
  "clist_free l = (let (l', deleted) = list_free l [] in (l', concat (map del_data_c deleted)))"

definition cmp_data_c :: "commodity \<Rightarrow> commodity \<Rightarrow> int" where
  "cmp_data_c c1 c2 = netaddr_cmp (cs_addr (cdata c1)) (cs_addr (cdata c2))"

definition clist_find :: "commodity list \<Rightarrow> commodity \<Rightarrow> nat option" where
  "clist_find l c = list_find l c cmp_data_c"

section \<open>Neighbor lists\<close>

definition del_data_n :: "neighbor \<Rightarrow> freed list" where
  "del_data_n n = snd (clist_free (n_clist n)) @ [FreeNeighbor (n_addr n)]"

definition nlist_free :: "neighbor list \<Rightarrow> neighbor list \<times> freed list" where
  "nlist_free l = (let (l', deleted) = list_free l [] in (l', concat (map del_data_n deleted)))"

definition cmp_data_n :: "neighbor \<Rightarrow> neighbor \<Rightarrow> int" where
  "cmp_data_n n1 n2 = netaddr_cmp (n_addr n1) (n_addr n2)"

definition nlist_find :: "neighbor list \<Rightarrow> neighbor \<Rightarrow> nat option" where
  "nlist_find l n = list_find l n cmp_data_n"

definition nlist_remove_cond ::
  "neighbor list \<Rightarrow> (neighbor \<Rightarrow> 's \<Rightarrow> bool \<times> 's) \<Rightarrow> 's \<Rightarrow> neighbor list \<times> freed list \<times> 's" where
  "nlist_remove_cond l cond_data s =
     (let (l', deleted, s') = list_remove_cond l cond_data s in (l', concat (map del_data_n deleted), s'))"

section \<open>The lists as maps from addresses\<close>

abbreviation c_addr :: "commodity \<Rightarrow> netaddr" where
  "c_addr c \<equiv> cs_addr (cdata c)"

interpretation clist: keyed_list cmp_data_c c_addr
  by unfold_locales (simp add: cmp_data_c_def)

interpretation nlist: keyed_list cmp_data_n n_addr
  by unfold_locales (simp add: cmp_data_n_def)

definition clist_map :: "commodity list \<Rightarrow> netaddr \<Rightarrow> commodity option" where
  "clist_map = klookup c_addr"

definition nlist_map :: "neighbor list \<Rightarrow> netaddr \<Rightarrow> neighbor option" where
  "nlist_map = klookup n_addr"

text \<open>The lists the daemon builds: one element per address.\<close>

definition clist_wf :: "commodity list \<Rightarrow> bool" where
  "clist_wf l \<longleftrightarrow> distinct (map c_addr l)"

definition nlist_wf :: "neighbor list \<Rightarrow> bool" where
  "nlist_wf l \<longleftrightarrow> distinct (map n_addr l) \<and> (\<forall>n\<in>set l. clist_wf (n_clist n))"

text \<open>What holds of the neighbor table whatever is received. A conversion of an address that fails leaves
  16 zero bytes behind, with the type and the prefix length of whatever the memory held; only such
  addresses can be in the table twice.\<close>

definition nlist_ok :: "neighbor list \<Rightarrow> bool" where
  "nlist_ok l \<longleftrightarrow> distinct (filter (\<lambda>a. na_addr a \<noteq> replicate 16 0) (map n_addr l)) \<and>
     (\<forall>n\<in>set l. clist_wf (n_clist n))"

lemma clist_find_Some:
  assumes "clist_find l c = Some i"
  shows "i < length l" and "c_addr (l ! i) = c_addr c" and "clist_map l (c_addr c) = Some (l ! i)"
  using clist.find_Some[OF assms[unfolded clist_find_def]] by (simp_all add: clist_map_def)

lemma clist_find_None: "clist_find l c = None \<longleftrightarrow> c_addr c \<notin> c_addr ` set l"
  by (simp add: clist_find_def clist.find_None_iff)

lemma clist_find_None_map: "clist_find l c = None \<longleftrightarrow> clist_map l (c_addr c) = None"
  by (simp add: clist_find_None clist_map_def klookup_None_iff)

lemma nlist_find_Some:
  assumes "nlist_find l n = Some i"
  shows "i < length l" and "n_addr (l ! i) = n_addr n" and "nlist_map l (n_addr n) = Some (l ! i)"
  using nlist.find_Some[OF assms[unfolded nlist_find_def]] by (simp_all add: nlist_map_def)

lemma nlist_find_None: "nlist_find l n = None \<longleftrightarrow> n_addr n \<notin> n_addr ` set l"
  by (simp add: nlist_find_def nlist.find_None_iff)

lemma clist_wf_insert [wf_intros]:
  "clist_find l c = None \<Longrightarrow> clist_wf l \<Longrightarrow> c_addr c' = c_addr c \<Longrightarrow> clist_wf (list_insert l c')"
  by (auto simp: clist_find_None clist_wf_def list_insert_def)

lemma clist_wf_update [wf_intros]:
  "i < length l \<Longrightarrow> clist_wf l \<Longrightarrow> c_addr c' = c_addr (l ! i) \<Longrightarrow> clist_wf (l[i := c'])"
  by (simp add: clist_wf_def map_update_same)

lemma nlist_wf_insert [wf_intros]:
  "nlist_find l n = None \<Longrightarrow> nlist_wf l \<Longrightarrow> n_addr n' = n_addr n \<Longrightarrow> clist_wf (n_clist n') \<Longrightarrow>
     nlist_wf (list_insert l n')"
  by (auto simp: nlist_find_None nlist_wf_def list_insert_def)

lemma nlist_wf_update [wf_intros]:
  "i < length l \<Longrightarrow> nlist_wf l \<Longrightarrow> n_addr n' = n_addr (l ! i) \<Longrightarrow> clist_wf (n_clist n') \<Longrightarrow>
     nlist_wf (l[i := n'])"
  by (auto simp: nlist_wf_def map_update_same dest!: set_update_subset_insert[THEN subsetD])

lemma nlist_wf_ok: "nlist_wf l \<Longrightarrow> nlist_ok l"
  by (simp add: nlist_wf_def nlist_ok_def)

lemma nlist_ok_Nil [simp]: "nlist_ok []"
  by (simp add: nlist_ok_def)

lemma nlist_ok_insert [wf_intros]:
  "nlist_ok l \<Longrightarrow> n_addr n \<notin> n_addr ` set l \<or> na_addr (n_addr n) = replicate 16 0 \<Longrightarrow> clist_wf (n_clist n) \<Longrightarrow>
     nlist_ok (list_insert l n)"
  by (auto simp: nlist_ok_def list_insert_def)

lemma nlist_ok_update [wf_intros]:
  "i < length l \<Longrightarrow> nlist_ok l \<Longrightarrow> n_addr n' = n_addr (l ! i) \<Longrightarrow> clist_wf (n_clist n') \<Longrightarrow>
     nlist_ok (l[i := n'])"
  by (auto simp: nlist_ok_def map_update_same dest!: set_update_subset_insert[THEN subsetD])

lemma clist_map_insert:
  "clist_find l c = None \<Longrightarrow> clist_wf l \<Longrightarrow> c_addr c' = c_addr c \<Longrightarrow>
     clist_map (list_insert l c') = (clist_map l)(c_addr c \<mapsto> c')"
  using clist.insert_new(2)[of l c c'] by (simp add: clist_find_def clist_wf_def clist_map_def)

lemma clist_map_update:
  "clist_find l c = Some i \<Longrightarrow> clist_wf l \<Longrightarrow> c_addr c' = c_addr c \<Longrightarrow>
     clist_map (l[i := c']) = (clist_map l)(c_addr c \<mapsto> c')"
  using clist.update_found(2)[of l c i c'] by (simp add: clist_find_def clist_wf_def clist_map_def)

lemma nlist_map_insert:
  "nlist_find l n = None \<Longrightarrow> nlist_wf l \<Longrightarrow> n_addr n' = n_addr n \<Longrightarrow>
     nlist_map (list_insert l n') = (nlist_map l)(n_addr n \<mapsto> n')"
  using nlist.insert_new(2)[of l n n'] by (simp add: nlist_find_def nlist_wf_def nlist_map_def)

lemma nlist_map_update:
  "i < length l \<Longrightarrow> nlist_wf l \<Longrightarrow> n_addr n' = n_addr (l ! i) \<Longrightarrow>
     nlist_map (l[i := n']) = (nlist_map l)(n_addr n' \<mapsto> n')"
  using klookup_list_update[of i l n_addr n'] by (simp add: nlist_wf_def nlist_map_def)

lemma nlist_remove_cond_wf [wf_intros]:
  assumes "nlist_remove_cond l c s = (l', freed, s')" and "nlist_wf l"
  shows "nlist_wf l'"
proof -
  obtain del where r: "list_remove_cond l c s = (l', del, s')"
    using assms(1) by (auto simp: nlist_remove_cond_def split: prod.splits)
  show ?thesis
    using list_remove_cond_subseq(1,2)[OF r] assms(2) by (auto simp: nlist_wf_def)
qed

lemma nlist_remove_cond_ok [wf_intros]:
  assumes "nlist_remove_cond l c s = (l', freed, s')" and "nlist_ok l"
  shows "nlist_ok l'"
proof -
  obtain del where r: "list_remove_cond l c s = (l', del, s')"
    using assms(1) by (auto simp: nlist_remove_cond_def split: prod.splits)
  show ?thesis
    using list_remove_cond_subseq(1,4)[OF r] assms(2) by (auto simp: nlist_ok_def)
qed

lemma clist_free_eq: "clist_free l = ([], map FreeCommodity l)"
proof -
  have "concat (map del_data_c l) = map FreeCommodity l" by (induction l) (simp_all add: del_data_c_def)
  then show ?thesis by (simp add: clist_free_def list_free_eq)
qed

lemma del_data_n_eq: "del_data_n n = map FreeCommodity (n_clist n) @ [FreeNeighbor (n_addr n)]"
  by (simp add: del_data_n_def clist_free_eq)

section \<open>Properties\<close>

text \<open>Freeing the neighbor list leaves it empty and frees every neighbor once, in list order,
  each one after exactly its own commodities.\<close>

theorem nlist_free_frees_all:
  "nlist_free l =
     ([], concat (map (\<lambda>n. map FreeCommodity (n_clist n) @ [FreeNeighbor (n_addr n)]) l))"
proof -
  have "concat (map del_data_n l) =
      concat (map (\<lambda>n. map FreeCommodity (n_clist n) @ [FreeNeighbor (n_addr n)]) l)"
    by (induction l) (simp_all add: del_data_n_eq)
  then show ?thesis by (simp add: nlist_free_def list_free_eq)
qed

end
