(* ===== verification/Ntable.thy ===== *)
theory Ntable
  imports Commodity
begin

text \<open>
  \<open>src/ntable.c\<close>: the neighbor table and its lock. The mutex and the clock are the operating
  system's: the mutex operations are parameters that return \<open>int\<close>, the readings of \<open>gettimeofday\<close> are
  a sequence \<open>clk\<close>, of which \<open>t\<close> counts the readings taken. \<open>ntable_print\<close> is in the theory \<open>Console\<close>.
\<close>

record 'm neighbortable =
  nlist :: "neighbor list"
  mutex :: 'm

section \<open>Expiry\<close>

text \<open>The time since the last hello in microseconds, as the \<open>uint32_t\<close> the code computes.\<close>

definition elapsed_us :: "timeval \<Rightarrow> neighbor \<Rightarrow> u32" where
  "elapsed_us now n =
     word_of_int ((tv_sec now - tv_sec (update_time n)) * 1000000) +
     word_of_int (tv_usec now - tv_usec (update_time n))"

definition cond_n_expired :: "(nat \<Rightarrow> timeval) \<Rightarrow> u32 \<Rightarrow> neighbor \<Rightarrow> nat \<Rightarrow> bool \<times> nat" where
  "cond_n_expired clk neighbor_timeout n t = (neighbor_timeout < elapsed_us (clk t) n, Suc t)"

definition ntable_refresh ::
  "(nat \<Rightarrow> timeval) \<Rightarrow> u32 \<Rightarrow> 'm neighbortable \<Rightarrow> nat \<Rightarrow> 'm neighbortable \<times> freed list \<times> nat" where
  "ntable_refresh clk neighbor_timeout ntable t =
     (let (l, freed, t') = nlist_remove_cond (nlist ntable) (cond_n_expired clk neighbor_timeout) t
      in (ntable\<lparr>nlist := l\<rparr>, freed, t'))"

section \<open>Locking\<close>

definition ntable_mutex_init :: "('m \<Rightarrow> int \<times> 'm) \<Rightarrow> 'm neighbortable \<Rightarrow> halt + 'm neighbortable" where
  "ntable_mutex_init pthread_mutex_init ntable =
     (let (r, m) = pthread_mutex_init (mutex ntable)
      in if r < 0 then Inl (LogErr ''Unable to intialize ntable mutex'') else Inr (ntable\<lparr>mutex := m\<rparr>))"

definition ntable_mutex_lock :: "('m \<Rightarrow> int \<times> 'm) \<Rightarrow> 'm neighbortable \<Rightarrow> halt + 'm neighbortable" where
  "ntable_mutex_lock pthread_mutex_lock ntable =
     (let (r, m) = pthread_mutex_lock (mutex ntable)
      in if r < 0 then Inl (LogErr ''Unable to lock ntable mutex'') else Inr (ntable\<lparr>mutex := m\<rparr>))"

definition ntable_mutex_unlock :: "('m \<Rightarrow> int \<times> 'm) \<Rightarrow> 'm neighbortable \<Rightarrow> halt + 'm neighbortable" where
  "ntable_mutex_unlock pthread_mutex_unlock ntable =
     (let (r, m) = pthread_mutex_unlock (mutex ntable)
      in if r < 0 then Inl (LogErr ''Unable to lock ntable mutex'') else Inr (ntable\<lparr>mutex := m\<rparr>))"

section \<open>What a refresh keeps\<close>

definition usec :: "timeval \<Rightarrow> int" where
  "usec t = tv_sec t * 1000000 + tv_usec t"

lemma uint_elapsed_us: "uint (elapsed_us now n) = (usec now - usec (update_time n)) mod 2 ^ 32"
proof -
  have "elapsed_us now n = word_of_int (usec now - usec (update_time n))"
    unfolding elapsed_us_def usec_def of_int_add[symmetric] by (rule arg_cong) (simp add: algebra_simps)
  then show ?thesis by (simp only: uint_word_of_int) simp
qed

text \<open>The condition reads the clock once per neighbor: the \<open>k\<close>-th element is judged at reading \<open>t + k\<close>.\<close>

lemma refresh_loop:
  "list_remove_loop (cond_n_expired clk T) eprev l del t =
     (rev eprev @ map snd (filter (\<lambda>(k, n). elapsed_us (clk k) n \<le> T) (enumerate t l)),
      del @ map snd (filter (\<lambda>(k, n). T < elapsed_us (clk k) n) (enumerate t l)), t + length l)"
  by (induction l arbitrary: eprev del t) (auto simp: cond_n_expired_def not_less not_le split: bool.splits)

lemma ntable_refresh_wf [wf_intros]:
  "ntable_refresh clk T nt t = (nt', freed, t') \<Longrightarrow> nlist_wf (nlist nt) \<Longrightarrow> nlist_wf (nlist nt')"
  by (auto simp: ntable_refresh_def split: prod.splits intro: nlist_remove_cond_wf)

lemma ntable_refresh_ok [wf_intros]:
  "ntable_refresh clk T nt t = (nt', freed, t') \<Longrightarrow> nlist_ok (nlist nt) \<Longrightarrow> nlist_ok (nlist nt')"
  by (auto simp: ntable_refresh_def split: prod.splits intro: nlist_remove_cond_ok)

section \<open>Properties\<close>

text \<open>C39: A refresh keeps, in order, exactly the neighbors whose age at their clock reading, in
  microseconds modulo \<open>2 ^ 32\<close>, does not exceed the timeout, and frees the others with their
  commodity lists; one clock reading is taken per neighbor.\<close>

theorem ntable_refresh_keeps_fresh:
  "ntable_refresh clk T nt t =
     (nt\<lparr>nlist := map snd (filter (\<lambda>(k, n). (usec (clk k) - usec (update_time n)) mod 2 ^ 32 \<le> uint T)
         (enumerate t (nlist nt)))\<rparr>,
      concat (map (\<lambda>(k, n). map FreeCommodity (n_clist n) @ [FreeNeighbor (n_addr n)])
         (filter (\<lambda>(k, n). uint T < (usec (clk k) - usec (update_time n)) mod 2 ^ 32)
            (enumerate t (nlist nt)))),
      t + length (nlist nt))"
proof -
  have *: "elapsed_us (clk k) n \<le> T \<longleftrightarrow> (usec (clk k) - usec (update_time n)) mod 2 ^ 32 \<le> uint T"
    "T < elapsed_us (clk k) n \<longleftrightarrow> uint T < (usec (clk k) - usec (update_time n)) mod 2 ^ 32" for k n
    by (simp_all only: word_le_def word_less_def uint_elapsed_us)
  show ?thesis
    by (simp add: ntable_refresh_def nlist_remove_cond_def list_remove_cond_def refresh_loop *
        del_data_n_eq comp_def case_prod_unfold)
qed

text \<open>The age wraps: a neighbor that has been silent for exactly \<open>2 ^ 32\<close> microseconds (71.6
  minutes) more than an age within the timeout is taken for a fresh one and kept.\<close>

theorem expiry_age_wraps:
  assumes "usec now - usec (update_time n) = 2 ^ 32 * k + a" and "0 \<le> a" and "a \<le> uint T"
  shows "fst (cond_n_expired (\<lambda>_. now) T n 0) = False"
proof -
  have "a < 2 ^ 32" using assms(3) uint_lt2p[of T] by simp
  then have "uint (elapsed_us now n) = a"
    using assms(2) by (simp add: uint_elapsed_us assms(1))
  with assms(3) show ?thesis by (simp add: cond_n_expired_def word_less_def)
qed

theorem expiry_age_wraps_witness:
  "fst (cond_n_expired (\<lambda>_. \<lparr>tv_sec = 4295, tv_usec = 100000\<rparr>) 500000
     \<lparr>n_addr = \<lparr>na_addr = [], na_type = 0, na_prefix_len = 0\<rparr>, bidir = 0,
      update_time = \<lparr>tv_sec = 0, tv_usec = 0\<rparr>, n_clist = []\<rparr> 0) = False"
  by (rule expiry_age_wraps[where k = 1 and a = 132704]) (simp_all add: usec_def)

end
