(* ===== verification/DaemonState.thy ===== *)
theory DaemonState
  imports Ntable NetaddrText
begin

text \<open>
  \<open>src/bprd.h\<close>: the global state \<open>bprd\<close> of the daemon, with the fields that the hello reader, the hello
  writer, the router and the backlogger share. Thread ids and the netlink address handles are left
  out: they are only passed to the libraries. \<open>saddr\<close> is the \<open>struct sockaddr_in\<close> or \<open>sockaddr_in6\<close> of
  the daemon's interface as bytes.
\<close>

record 'm bprd =
  ipver :: int
  if_index :: u32
  sockfd :: int
  saddr :: bytes
  saddrlen :: u8
  maddr :: bytes
  maddrlen :: u8
  hello_seqno :: u16
  hello_interval :: u32
  release_interval :: u32
  update_interval :: u32
  neighbor_timeout :: u32
  clist :: "commodity list"
  ntable :: "'m neighbortable"

text \<open>The modules that need the daemon's own address convert it on the spot:
  \<open>nsaddr.std = *bprd.saddr; netaddr_from_socket(&naddr, &nsaddr)\<close>. The assignment copies the 16 bytes
  of a \<open>struct sockaddr\<close>; what the local variables held before is in \<open>uninit\<close>.\<close>

record uninit =
  u_sock :: netaddr_socket
  u_addr :: netaddr

definition uninit_wf :: "uninit \<Rightarrow> bool" where
  "uninit_wf u \<longleftrightarrow> length (u_sock u) = sockaddr_storage_size \<and> netaddr_wf (u_addr u)"

definition own_netaddr :: "bytes \<Rightarrow> uninit \<Rightarrow> netaddr" where
  "own_netaddr sa u = snd (netaddr_from_socket (u_addr u) (put_bytes 0 (take 16 sa) (u_sock u)))"

section \<open>The daemon's own address\<close>

text \<open>For IPv4 the 16 bytes hold the whole \<open>sockaddr_in\<close>; for IPv6 the last 8 bytes of the address are
  not copied, so the result depends on what the variable held before.\<close>

lemma sub_bytes_put_take:
  assumes "off + n \<le> 16" and "16 \<le> length sa" and "16 \<le> length d"
  shows "sub_bytes off n (put_bytes 0 (take 16 sa) d) = sub_bytes off n sa"
  using assms by (simp add: sub_bytes_def put_bytes_def take_drop min_def)

lemma sa_family_copy: "16 \<le> length sa \<Longrightarrow> 16 \<le> length d \<Longrightarrow>
    sa_family (put_bytes 0 (take 16 sa) d) = sa_family sa"
  by (simp add: sa_family_def put_bytes_def nth_append min_def)

lemma own_netaddr_inet:
  assumes "uninit_wf u" and "16 \<le> length sa" and "sa_family sa = AF_INET"
  shows "own_netaddr sa u =
    \<lparr>na_addr = sin_addr sa @ replicate 12 0, na_type = AF_INET, na_prefix_len = 32\<rparr>"
proof -
  have l: "16 \<le> length (u_sock u)" using assms(1) by (simp add: uninit_wf_def sockaddr_storage_size_def)
  have "length (sin_addr sa) = 4" using assms(2) by (simp add: sin_addr_def)
  then have "put_bytes 0 (sin_addr sa) (replicate 16 0) = sin_addr sa @ replicate 12 0"
    by (simp add: put_bytes_def)
  moreover have "sin_addr (put_bytes 0 (take 16 sa) (u_sock u)) = sin_addr sa"
    using l assms(2) by (simp add: sin_addr_def sub_bytes_put_take)
  ultimately show ?thesis
    using assms(3) sa_family_copy[OF assms(2) l]
    by (cases "u_addr u") (simp add: own_netaddr_def netaddr_from_socket_def Let_def)
qed

lemma own_netaddr_inet6:
  assumes "uninit_wf u" and "24 \<le> length sa" and "sa_family sa = AF_INET6"
  shows "na_addr (own_netaddr sa u) = take 8 (sin6_addr sa) @ sub_bytes 16 8 (u_sock u)"
proof -
  have l: "length (u_sock u) = 128" using assms(1) by (simp add: uninit_wf_def sockaddr_storage_size_def)
  have "sin6_addr (put_bytes 0 (take 16 sa) (u_sock u)) = take 8 (sin6_addr sa) @ sub_bytes 16 8 (u_sock u)"
    using l assms(2) by (simp add: sin6_addr_def sub_bytes_def put_bytes_def take_drop min_def)
  moreover have "put_bytes 0 (take 8 (sin6_addr sa) @ sub_bytes 16 8 (u_sock u)) (replicate 16 (0 :: u8)) =
      take 8 (sin6_addr sa) @ sub_bytes 16 8 (u_sock u)"
    using l assms(2) by (simp add: sin6_addr_def put_bytes_def)
  moreover have "sa_family (put_bytes 0 (take 16 sa) (u_sock u)) = AF_INET6"
    using assms(2,3) l by (simp add: sa_family_copy)
  ultimately show ?thesis
    by (simp add: own_netaddr_def netaddr_from_socket_def Let_def)
qed

end
