(* ===== verification/Backlogger.thy ===== *)
theory Backlogger
  imports DaemonState CString
begin

text \<open>
  \<open>src/backlogger.c\<close>: releasing packets of the commodity with the largest backlog differential, and
  setting up the netfilter queues and the iptables rules. The netfilter library and \<open>system\<close> are
  parameters; what the daemon asks of them is the output.
\<close>

section \<open>Releasing packets\<close>

text \<open>The search loop: the position and differential of the best commodity so far.\<close>

fun best_commodity :: "nat \<Rightarrow> commodity list \<Rightarrow> nat option \<Rightarrow> u32 \<Rightarrow> nat option \<times> u32" where
  "best_commodity i [] c diffopt = (c, diffopt)"
| "best_commodity i (ctemp # l) c diffopt =
     (if diffopt < backdiff ctemp then best_commodity (Suc i) l (Some i) (backdiff ctemp)
      else best_commodity (Suc i) l c diffopt)"

definition release_count :: "u32 \<Rightarrow> u32 \<Rightarrow> u32" where
  "release_count diffopt count =
     (if count < (diffopt + 1) div 2 then count else (diffopt + 1) div 2)"

definition backlogger_packet_release ::
  "commodity list \<Rightarrow> u32 \<Rightarrow> commodity list \<times> verdict_call list" where
  "backlogger_packet_release l count =
     (case best_commodity 0 l None 0 of
        (None, diffopt) \<Rightarrow> (l, [])
      | (Some i, diffopt) \<Rightarrow>
          (let (q, out) = repeat_send fifo_send_packet (unat (release_count diffopt count)) (queue (l ! i))
           in (l[i := (l ! i)\<lparr>queue := q\<rparr>], out)))"

section \<open>Initialisation\<close>

record nfq_env =
  nfq_open :: "nat option"
  nfq_unbind_pf :: "nat option \<Rightarrow> u8 \<Rightarrow> int"
  nfq_bind_pf :: "nat option \<Rightarrow> u8 \<Rightarrow> int"
  nfq_create_queue :: "nat option \<Rightarrow> u16 \<Rightarrow> nat option"
  nfq_set_mode :: "nat option \<Rightarrow> int"
  system :: "string \<Rightarrow> int"

fun init_queues :: "nfq_env \<Rightarrow> nat option \<Rightarrow> commodity list \<Rightarrow> halt + commodity list" where
  "init_queues env h [] = Inr []"
| "init_queues env h (c # l) =
     (let q = fifo_init (Some \<lparr>head = 0, tail = 0, qh = None\<rparr>);
          q = map_option (\<lambda>q. q\<lparr>qh := nfq_create_queue env h (nfq_id c)\<rparr>) q
      in if Option.bind q qh = None then Inl (LogErr ''Error during nfq_create_queue()'')
         else if nfq_set_mode env (Option.bind q qh) < 0
         then Inl (LogErr ''Can't set packet_copy mode'')
         else rbind (init_queues env h l) (\<lambda>l. Inr (c\<lparr>queue := q\<rparr> # l)))"

text \<open>The text for \<open>%s\<close> of a null pointer is the C library's \<open>(null)\<close>.\<close>

definition fmt_str :: "string option \<Rightarrow> string" where
  "fmt_str s = (case s of None \<Rightarrow> ''(null)'' | Some s \<Rightarrow> s)"

definition iptables_rule :: "inet_ntop \<Rightarrow> string \<Rightarrow> commodity \<Rightarrow> string" where
  "iptables_rule ntop chain c =
     ''/sbin/iptables -t raw -A '' @ chain @ '' -d '' @ fmt_str (netaddr_to_string ntop (cs_addr (cdata c))) @
     '' -j NFQUEUE --queue-num '' @ show_nat (unat (nfq_id c))"

definition build_cmd :: "string \<Rightarrow> halt + string" where
  "build_cmd text =
     (let (n, cmd) = snprintf 256 text
      in if n < 0 \<or> n = 256 then Inl (LogErr ''Unable to construct system string'') else Inr cmd)"

fun init_rules :: "inet_ntop \<Rightarrow> netaddr \<Rightarrow> commodity list \<Rightarrow> halt + string list" where
  "init_rules ntop naddr [] = Inr []"
| "init_rules ntop naddr (c # l) =
     (if netaddr_cmp naddr (cs_addr (cdata c)) = 0 then init_rules ntop naddr l
      else rbind (build_cmd (iptables_rule ntop ''OUTPUT'' c)) (\<lambda>cmd1.
           rbind (build_cmd (iptables_rule ntop ''PREROUTING'' c)) (\<lambda>cmd2.
           rbind (init_rules ntop naddr l) (\<lambda>cmds. Inr (cmd1 # cmd2 # cmds)))))"

text \<open>The result: the commodity list with its queues, and the commands given to \<open>system\<close>, in order.\<close>

definition backlogger_init ::
  "nfq_env \<Rightarrow> inet_ntop \<Rightarrow> uninit \<Rightarrow> bytes \<Rightarrow> commodity list \<Rightarrow> halt + commodity list \<times> string list" where
  "backlogger_init env ntop u own l =
     (let h = nfq_open env
      in if h = None then Inl (LogErr ''error during nfq_open()'')
         else if nfq_unbind_pf env h AF_INET < 0 then Inl (LogErr ''Error during nfq_unbind_pf()'')
         else if nfq_bind_pf env h AF_INET < 0 then Inl (LogErr ''Error during nfq_bind_pf()'')
         else rbind (init_queues env h l) (\<lambda>l'.
           if system env ''/sbin/iptables -t raw -F'' < 0
           then Inl (LogErr ''Unable to flush iptables'')
           else rbind (init_rules ntop (own_netaddr own u) l') (\<lambda>cmds.
             Inr (l', ''/sbin/iptables -t raw -F'' # cmds))))"

section \<open>What is released\<close>

lemma best_commodity_spec:
  assumes "best_commodity i l c d = (c', d')"
  shows "(c' = c \<and> d' = d \<and> (\<forall>x\<in>set l. backdiff x \<le> d)) \<or>
    (\<exists>j<length l. c' = Some (i + j) \<and> d' = backdiff (l ! j) \<and> d < d' \<and>
       (\<forall>x\<in>set l. backdiff x \<le> d') \<and> (\<forall>k<j. backdiff (l ! k) < d'))"
  using assms
proof (induction l arbitrary: i c d)
  case (Cons x l)
  show ?case
  proof (cases "d < backdiff x")
    case True
    with Cons have "best_commodity (Suc i) l (Some i) (backdiff x) = (c', d')" by simp
    from Cons.IH[OF this] show ?thesis
    proof (elim disjE exE conjE)
      assume "c' = Some i" "d' = backdiff x" "\<forall>y\<in>set l. backdiff y \<le> backdiff x"
      with True show ?thesis by (intro disjI2 exI[of _ 0]) auto
    next
      fix j assume j: "j < length l" "c' = Some (Suc i + j)" "d' = backdiff (l ! j)" "backdiff x < d'"
        "\<forall>x\<in>set l. backdiff x \<le> d'" "\<forall>k<j. backdiff (l ! k) < d'"
      with True show ?thesis
        by (intro disjI2 exI[of _ "Suc j"]) (auto simp: less_Suc_eq_0_disj)
    qed
  next
    case False
    with Cons have "best_commodity (Suc i) l c d = (c', d')" by simp
    from Cons.IH[OF this] show ?thesis
    proof (elim disjE exE conjE)
      assume "c' = c" "d' = d" "\<forall>y\<in>set l. backdiff y \<le> d"
      with False show ?thesis by auto
    next
      fix j assume j: "j < length l" "c' = Some (Suc i + j)" "d' = backdiff (l ! j)" "d < d'"
        "\<forall>x\<in>set l. backdiff x \<le> d'" "\<forall>k<j. backdiff (l ! k) < d'"
      with False show ?thesis
        by (intro disjI2 exI[of _ "Suc j"]) (auto simp: less_Suc_eq_0_disj)
    qed
  qed
qed simp

lemma best_commodity_cases:
  obtains (none) "best_commodity 0 l None 0 = (None, 0)" "\<forall>x\<in>set l. backdiff x = 0"
  | (some) i where "best_commodity 0 l None 0 = (Some i, backdiff (l ! i))" "i < length l"
      "0 < backdiff (l ! i)" "\<forall>x\<in>set l. backdiff x \<le> backdiff (l ! i)"
      "\<forall>k<i. backdiff (l ! k) < backdiff (l ! i)"
proof (cases "best_commodity 0 l None 0")
  case (Pair c d)
  from best_commodity_spec[OF this] show ?thesis
  proof (elim disjE exE conjE)
    assume "c = None" "d = 0" "\<forall>x\<in>set l. backdiff x \<le> 0"
    with Pair none show ?thesis by simp
  next
    fix j assume "j < length l" "c = Some (0 + j)" "d = backdiff (l ! j)" "0 < d"
      "\<forall>x\<in>set l. backdiff x \<le> d" "\<forall>k<j. backdiff (l ! k) < d"
    with Pair some[of j] show ?thesis by simp
  qed
qed

lemma unat_release_count:
  assumes "diffopt \<noteq> 0xffffffff"
  shows "unat (release_count diffopt count) = min (unat count) ((unat diffopt + 1) div 2)"
proof -
  have "unat diffopt \<noteq> 2 ^ 32 - 1"
    using assms by (simp add: word_unat_eq_iff)
  then have "unat (diffopt + 1) = unat diffopt + 1"
    using unat_u32[of diffopt] by (simp add: unat_word_ariths)
  then have h: "unat ((diffopt + 1) div 2) = (unat diffopt + 1) div 2" by (simp add: unat_div_distrib)
  show ?thesis by (auto simp: release_count_def word_less_nat_alt h)
qed

lemma repeat_send_others:
  "backlogger_packet_release l count = (l', out) \<Longrightarrow>
     length l' = length l \<and> map (\<lambda>c. (cdata c, backdiff c, nfq_id c)) l' = map (\<lambda>c. (cdata c, backdiff c, nfq_id c)) l"
  by (rule best_commodity_cases[of l])
    (auto simp: backlogger_packet_release_def map_update_same split: prod.splits)

section \<open>Properties\<close>

text \<open>C14: Packets are released from the first commodity with the largest differential \<open>d\<close>, oldest
  first: \<open>min(count, (d + 1) / 2)\<close> of those waiting, so that moving them to the neighbor cannot turn
  the differential around by more than one packet. No other queue changes, and with no positive
  differential nothing is released. This holds when no differential is \<open>2 ^ 32 - 1\<close>, for which the sum
  \<open>d + 1\<close> wraps to 0.\<close>

theorem release_max_backpressure:
  assumes "\<forall>c\<in>set l. backdiff c \<noteq> 0xffffffff"
  shows "(\<forall>c\<in>set l. backdiff c = 0) \<and> backlogger_packet_release l count = (l, []) \<or>
    (\<exists>i<length l. \<exists>q out. let d = backdiff (l ! i) in
       0 < d \<and> (\<forall>c\<in>set l. backdiff c \<le> d) \<and> (\<forall>k<i. backdiff (l ! k) < d) \<and>
       out = take (min (unat count) ((unat d + 1) div 2)) (fifo_calls NF_ACCEPT (queue (l ! i))) \<and>
       fifo_calls NF_ACCEPT q = drop (length out) (fifo_calls NF_ACCEPT (queue (l ! i))) \<and>
       2 * length out \<le> unat d + 1 \<and>
       backlogger_packet_release l count = (l[i := (l ! i)\<lparr>queue := q\<rparr>], out))"
proof (rule best_commodity_cases[of l])
  assume "best_commodity 0 l None 0 = (None, 0)" "\<forall>x\<in>set l. backdiff x = 0"
  then show ?thesis by (simp add: backlogger_packet_release_def)
next
  fix i assume i: "best_commodity 0 l None 0 = (Some i, backdiff (l ! i))" "i < length l"
    "0 < backdiff (l ! i)" "\<forall>x\<in>set l. backdiff x \<le> backdiff (l ! i)"
    "\<forall>k<i. backdiff (l ! k) < backdiff (l ! i)"
  let ?n = "unat (release_count (backdiff (l ! i)) count)"
  obtain q out where r: "repeat_send fifo_send_packet ?n (queue (l ! i)) = (q, out)"
    by (cases "repeat_send fifo_send_packet ?n (queue (l ! i))")
  have n: "?n = min (unat count) ((unat (backdiff (l ! i)) + 1) div 2)"
    using assms i(2) by (intro unat_release_count) simp
  note t = release.repeat_send_take[OF r]
  have "length out \<le> ?n" using t by simp
  then have "length out \<le> (unat (backdiff (l ! i)) + 1) div 2" using n by simp
  then have "2 * length out \<le> unat (backdiff (l ! i)) + 1" by presburger
  moreover have "fifo_calls NF_ACCEPT q = drop (length out) (fifo_calls NF_ACCEPT (queue (l ! i)))"
    using t by (simp add: min_def)
  ultimately show ?thesis
    using i r t n
    by (intro disjI2 exI[of _ i] conjI exI[of _ q] exI[of _ out])
      (simp_all add: backlogger_packet_release_def Let_def)
qed

theorem release_max_backpressure_witness:
  "\<exists>i<3. \<exists>q out. backlogger_packet_release (map (\<lambda>d. mk_commodity (ipv4 [10,0,0,d]) 0 (ucast d) 1
         (Some \<lparr>head = 0, tail = 9, qh = None\<rparr>)) [2, 5, 5]) 100 =
       ((map (\<lambda>d. mk_commodity (ipv4 [10,0,0,d]) 0 (ucast d) 1 (Some \<lparr>head = 0, tail = 9, qh = None\<rparr>))
           [2, 5, 5])[i := q], out) \<and> length out = 3"
proof -
  let ?l = "map (\<lambda>d. mk_commodity (ipv4 [10,0,0,d]) 0 (ucast d) 1
      (Some \<lparr>head = 0, tail = 9, qh = None\<rparr>)) [2 :: u8, 5, 5]"
  have all: "\<forall>c\<in>set ?l. backdiff c \<noteq> 0xffffffff" by simp
  have "\<not> (\<forall>c\<in>set ?l. backdiff c = 0)" by simp
  with release_max_backpressure[OF all, of 100] obtain i q out where i: "i < length ?l"
    and max: "\<forall>c\<in>set ?l. backdiff c \<le> backdiff (?l ! i)"
    and out: "out = take (min (unat (100 :: u32)) ((unat (backdiff (?l ! i)) + 1) div 2))
        (fifo_calls NF_ACCEPT (queue (?l ! i)))"
    and r: "backlogger_packet_release ?l 100 = (?l[i := (?l ! i)\<lparr>queue := q\<rparr>], out)"
    unfolding Let_def by blast
  have "backdiff (?l ! i) = 5 \<and> queue (?l ! i) = Some \<lparr>head = 0, tail = 9, qh = None\<rparr>"
    using i max by (auto simp: numeral_3_eq_3 less_Suc_eq)
  then have "length out = 3"
    by (simp add: out fifo_calls_def fifo_pending_def)
  moreover have "i < 3" using i by simp
  ultimately show ?thesis using r by blast
qed

text \<open>With the largest differential \<open>2 ^ 32 - 1\<close> the limit \<open>(diffopt + 1) / 2\<close> wraps to 0 and no
  packet is released.\<close>

theorem release_limit_wraps:
  "release_count 0xffffffff count = 0"
  by (simp add: release_count_def)

lemma init_queues_map:
  "init_queues env h l = Inr l' \<Longrightarrow>
     l' = map (\<lambda>c. c\<lparr>queue := Some \<lparr>head = 0, tail = 0, qh = nfq_create_queue env h (nfq_id c)\<rparr>\<rparr>) l \<and>
     (\<forall>c\<in>set l. nfq_create_queue env h (nfq_id c) \<noteq> None)"
  by (induction l arbitrary: l') (auto simp: fifo_init_def Let_def split: if_splits)

lemma init_rules_filter:
  "init_rules ntop a l = Inr cmds \<Longrightarrow>
     cmds = concat (map (\<lambda>c. [take 255 (iptables_rule ntop ''OUTPUT'' c), take 255 (iptables_rule ntop ''PREROUTING'' c)])
        (filter (\<lambda>c. c_addr c \<noteq> a) l))"
  by (induction l arbitrary: cmds) (auto simp: build_cmd_def snprintf_def split: if_splits)

text \<open>When the initialisation succeeds, every commodity has a fresh empty queue on the netfilter
  queue of its number, and the commands run are a flush of the raw table and one OUTPUT and one
  PREROUTING rule for exactly the commodities whose destination is not the daemon itself, in list
  order, each cut to the 255 characters of the buffer.\<close>

theorem backlogger_init_sets_up:
  "backlogger_init env ntop u own l = Inr (l', cmds) \<Longrightarrow>
     l' = map (\<lambda>c. c\<lparr>queue := Some \<lparr>head = 0, tail = 0,
            qh = nfq_create_queue env (nfq_open env) (nfq_id c)\<rparr>\<rparr>) l \<and>
     (\<forall>c\<in>set l. nfq_create_queue env (nfq_open env) (nfq_id c) \<noteq> None) \<and>
     cmds = ''/sbin/iptables -t raw -F'' # concat (map (\<lambda>c.
         [take 255 (iptables_rule ntop ''OUTPUT'' c), take 255 (iptables_rule ntop ''PREROUTING'' c)])
       (filter (\<lambda>c. c_addr c \<noteq> own_netaddr own u) l'))"
  by (auto simp: backlogger_init_def Let_def rbind_Inr_iff split: if_splits
      dest: init_queues_map init_rules_filter)

theorem backlogger_init_sets_up_witness:
  "\<exists>l' cmds. backlogger_init \<lparr>nfq_open = Some 1, nfq_unbind_pf = (\<lambda>_ _. 0), nfq_bind_pf = (\<lambda>_ _. 0),
       nfq_create_queue = (\<lambda>_ i. Some (unat i)), nfq_set_mode = (\<lambda>_. 0), system = (\<lambda>_. 0)\<rparr>
     (\<lambda>f b. ''10.0.0.2'') \<lparr>u_sock = replicate 128 0, u_addr = ipv4 [0, 0, 0, 0]\<rparr> (replicate 16 0)
     [mk_commodity (ipv4 [10,0,0,2]) 0 0 4 None] = Inr (l', cmds) \<and>
   l' = [mk_commodity (ipv4 [10,0,0,2]) 0 0 4 (Some \<lparr>head = 0, tail = 0, qh = Some 4\<rparr>)] \<and>
   length cmds = 3"
proof -
  let ?env = "\<lparr>nfq_open = Some 1, nfq_unbind_pf = (\<lambda>_ _. 0), nfq_bind_pf = (\<lambda>_ _. 0),
    nfq_create_queue = (\<lambda>_ i. Some (unat i)), nfq_set_mode = (\<lambda>_. 0), system = (\<lambda>_. 0)\<rparr>"
  let ?ntop = "\<lambda>f b. ''10.0.0.2''"
  let ?u = "\<lparr>u_sock = replicate 128 0, u_addr = ipv4 [0, 0, 0, 0]\<rparr>"
  let ?c = "mk_commodity (ipv4 [10,0,0,2]) 0 0 4 None"
  have z: "replicate 16 (0 :: u8) = [0, 0, 0, 0] @ replicate 12 0" by (simp add: numeral_eq_Suc)
  have own: "own_netaddr (replicate 16 0) ?u = ipv4 [0, 0, 0, 0]"
    by (simp add: own_netaddr_def netaddr_from_socket_def sa_family_def put_bytes_def mk16_def Let_def
        ipv4_def nth_append z)
  have d: "show_nat 4 = [digit_char 4]" by (simp add: show_nat.simps)
  have "\<exists>l' cmds. backlogger_init ?env ?ntop ?u (replicate 16 0) [?c] = Inr (l', cmds)"
    by (simp add: backlogger_init_def own fifo_init_def Let_def netaddr_cmp_zero_iff build_cmd_def
        snprintf_def iptables_rule_def fmt_str_def netaddr_to_string_def netaddr_to_prefixstring_def
        d)
  then obtain l' cmds where r: "backlogger_init ?env ?ntop ?u (replicate 16 0) [?c] = Inr (l', cmds)" by blast
  from backlogger_init_sets_up[OF r] have
    "l' = [mk_commodity (ipv4 [10,0,0,2]) 0 0 4 (Some \<lparr>head = 0, tail = 0, qh = Some 4\<rparr>)]"
    "length cmds = 3" unfolding own by (simp_all add: mk_commodity_def)
  with r show ?thesis by simp
qed

end
