(* ===== verification/Procfile.thy ===== *)
theory Procfile
  imports CString
begin

text \<open>
  \<open>src/procfile.c\<close>: writing a one-character setting under \<open>/proc\<close>. The files are a map from path to
  their character; \<open>fails\<close> says which system calls of this run return an error, as an error of a call
  ends the function at that point. \<open>pf_fds\<close> counts the open file descriptors.
\<close>

datatype syscall = SysOpen | SysRead | SysLseek | SysWrite | SysClose

record procfs =
  pf_files :: "string \<Rightarrow> char option"
  pf_fds :: nat

text \<open>\<open>oldval\<close> is \<open>None\<close> for \<open>NULL\<close>, else the character the pointer designates.\<close>

definition procfile_write ::
  "(syscall \<Rightarrow> bool) \<Rightarrow> procfs \<Rightarrow> string \<Rightarrow> char option \<Rightarrow> char \<Rightarrow> int \<times> char option \<times> procfs" where
  "procfile_write fails fs procfile oldval newval =
     (case pf_files fs procfile of
        None \<Rightarrow> (-1, oldval, fs)
      | Some old \<Rightarrow>
          if fails SysOpen then (-1, oldval, fs)
          else
            let fs = fs\<lparr>pf_fds := pf_fds fs + 1\<rparr>;
                write_new = (\<lambda>oldval.
                  if fails SysWrite then (-1, oldval, fs)
                  else
                    let fs = fs\<lparr>pf_files := (pf_files fs)(procfile \<mapsto> newval)\<rparr>
                    in if fails SysClose then (-1, oldval, fs)
                       else (0, oldval, fs\<lparr>pf_fds := pf_fds fs - 1\<rparr>))
            in case oldval of
                 None \<Rightarrow> write_new None
               | Some _ \<Rightarrow>
                   if fails SysRead then (-1, oldval, fs)
                   else if fails SysLseek then (-1, Some old, fs)
                   else write_new (Some old))"

lemma procfile_write_ok:
  assumes "procfile_write fails fs p oldval v = (r, oldval', fs')" and "0 \<le> r"
  shows "r = 0 \<and> pf_files fs' = (pf_files fs)(p \<mapsto> v) \<and> pf_fds fs' = pf_fds fs \<and>
    (\<exists>old. pf_files fs p = Some old \<and> oldval' = map_option (\<lambda>_. old) oldval)"
  using assms by (auto simp: procfile_write_def Let_def split: option.splits if_splits)

text \<open>A write that reports success has stored the new character, delivered the previous one
  through \<open>oldval\<close> and closed the file; a write that fails after the file was opened leaves the
  descriptor open.\<close>

theorem procfile_write_result:
  "case procfile_write fails fs p oldval v of (r, oldval', fs') \<Rightarrow>
     if r = 0
     then pf_files fs' = (pf_files fs)(p \<mapsto> v) \<and> pf_fds fs' = pf_fds fs \<and>
       (\<exists>old. pf_files fs p = Some old \<and> oldval' = map_option (\<lambda>_. old) oldval)
     else r = -1 \<and> (if pf_files fs p = None \<or> fails SysOpen then fs' = fs
       else pf_fds fs' = pf_fds fs + 1)"
  by (auto simp: procfile_write_def Let_def split: option.splits)

end
