(* ===== verification/Router.thy ===== *)
theory Router
  imports DaemonState Procfile
begin

text \<open>
  \<open>src/router.c\<close>: the back-pressure decision. Periodically the daemon reads its queue lengths,
  computes for every neighbor and commodity the backlog differential, picks for every commodity the
  neighbor with the largest one and installs the route. The netlink library is a parameter; the
  requests made of it are the output, so the messages of \<open>BPRD_LOG_INFO\<close> and \<open>BPRD_LOG_DBG\<close> are left
  out. \<open>rnd k\<close> is the \<open>k\<close>-th result of \<open>rand\<close>.
\<close>

section \<open>Forwarding state\<close>

definition PATH_MAX :: nat where "PATH_MAX = 4096"

text \<open>The static variables of the file. The socket is \<open>None\<close> until it is allocated.\<close>

record router_static =
  router_nlsk :: "nat option"
  router_if_index :: u32
  router_family :: u32
  router_origfwd :: char
  router_procfile :: string

record router_env =
  nl_socket_alloc :: "nat option"
  nl_connect :: int
  if_indextoname :: "u32 \<Rightarrow> string option"

definition forwarding_path :: "u32 \<Rightarrow> string \<Rightarrow> string" where
  "forwarding_path family if_name =
     (if family = AF_INET6 then ''/proc/sys/net/ipv6/conf/'' @ if_name @ ''/forwarding''
      else ''/proc/sys/net/ipv4/conf/'' @ if_name @ ''/forwarding'')"

definition router_init ::
  "router_env \<Rightarrow> (syscall \<Rightarrow> bool) \<Rightarrow> router_static \<Rightarrow> procfs \<Rightarrow> u32 \<Rightarrow> u32 \<Rightarrow> int \<times> router_static \<times> procfs" where
  "router_init env fails st fs ifindex family =
     (let st = st\<lparr>router_if_index := ifindex, router_family := family\<rparr>;
          st = st\<lparr>router_nlsk := nl_socket_alloc env\<rparr>
      in if router_nlsk st = None then (-1, st, fs)
         else if nl_connect env < 0 then (-1, st, fs)
         else case if_indextoname env ifindex of
             None \<Rightarrow> (-1, st, fs)
           | Some if_name \<Rightarrow>
               let (n, path) = snprintf PATH_MAX (forwarding_path (router_family st) if_name);
                   st = st\<lparr>router_procfile := path\<rparr>
               in if n < 0 \<or> n = int PATH_MAX then (-1, st, fs)
                  else
                    let (r, old, fs) = procfile_write fails fs path (Some (router_origfwd st)) CHR ''1'';
                        st = (case old of None \<Rightarrow> st | Some c \<Rightarrow> st\<lparr>router_origfwd := c\<rparr>)
                    in if r < 0 then (-1, st, fs) else (0, st, fs))"

definition router_cleanup :: "(syscall \<Rightarrow> bool) \<Rightarrow> router_static \<Rightarrow> procfs \<Rightarrow> router_static \<times> procfs" where
  "router_cleanup fails st fs =
     (let (r, old, fs) = procfile_write fails fs (router_procfile st) None (router_origfwd st)
      in (st\<lparr>router_nlsk := None\<rparr>, fs))"

section \<open>Route requests\<close>

text \<open>The fields the code sets in a route; names stand for the numbers the library looks up.\<close>

record 'a rtnl_route =
  rt_table :: string
  rt_scope :: string
  rt_protocol :: string
  rt_family :: u32
  rt_dst :: 'a
  rt_type :: string
  rt_nexthop :: "(u32 \<times> 'a) option"

datatype 'a route_op = RouteAdd "'a rtnl_route" | RouteDelete "'a rtnl_route"

record 'a netlink =
  nl_addr_build :: "u32 \<Rightarrow> bytes \<Rightarrow> 'a option"
  rtnl_route_alloc_fails :: bool
  rtnl_route_add :: "'a rtnl_route \<Rightarrow> int"
  rtnl_route_delete :: "'a rtnl_route \<Rightarrow> int"
  nl_geterror :: "int \<Rightarrow> string"

definition nl_addr_of :: "'a netlink \<Rightarrow> u32 \<Rightarrow> netaddr_socket \<Rightarrow> 'a option" where
  "nl_addr_of nl family s =
     (if family = AF_INET6 then nl_addr_build nl AF_INET6 (sin6_addr s)
      else nl_addr_build nl AF_INET (sin_addr s))"

definition router_route_update ::
  "'a netlink \<Rightarrow> netaddr_socket option \<Rightarrow> netaddr_socket option \<Rightarrow> u32 \<Rightarrow> u32 \<Rightarrow> halt + 'a route_op list" where
  "router_route_update nl dst nh family ifindex =
     (case dst of None \<Rightarrow> Inl (LogErr ''Destination address is empty'')
      | Some dst \<Rightarrow>
          (case (nl_addr_of nl family dst, map_option (nl_addr_of nl family) nh) of
             (None, _) \<Rightarrow> Inl (LogErr ''Unable to convert socket addresses to netlink abstract addresses'')
           | (_, Some None) \<Rightarrow> Inl (LogErr ''Unable to convert socket addresses to netlink abstract addresses'')
           | (Some d, gw) \<Rightarrow>
               if rtnl_route_alloc_fails nl then Inl (LogErr ''Unable to allocate netlink route'')
               else
                 let route = \<lparr>rt_table = ''main'', rt_scope = ''universe'', rt_protocol = ''static'',
                       rt_family = family, rt_dst = d, rt_type = ''unicast'', rt_nexthop = None\<rparr>
                 in case gw of
                      Some (Some g) \<Rightarrow>
                        let route = route\<lparr>rt_nexthop := Some (ifindex, g)\<rparr>; err = rtnl_route_add nl route
                        in if err < 0 then Inl (LogErr (''Error adding route: '' @ nl_geterror nl err))
                           else Inr [RouteAdd route]
                    | _ \<Rightarrow>
                        let err = rtnl_route_delete nl route
                        in if err < 0 then Inl (LogErr (''Error deleting route: '' @ nl_geterror nl err))
                           else Inr [RouteDelete route]))"

section \<open>The update\<close>

fun update_backlogs :: "commodity list \<Rightarrow> halt + commodity list" where
  "update_backlogs [] = Inr []"
| "update_backlogs (c # l) =
     rbind (fifo_length (queue c)) (\<lambda>n.
     rbind (update_backlogs l) (\<lambda>l. Inr (c\<lparr>cdata := (cdata c)\<lparr>cs_backlog := n\<rparr>\<rparr> # l)))"

fun update_clist_diffs :: "commodity list \<Rightarrow> commodity list \<Rightarrow> halt + commodity list" where
  "update_clist_diffs own [] = Inr []"
| "update_clist_diffs own (c # l) =
     (case clist_find own c of
        None \<Rightarrow> Inl (LogErr ''Neighbor knows about commodity that I don't!'')
      | Some i \<Rightarrow>
          let mine = cs_backlog (cdata (own ! i)); theirs = cs_backlog (cdata c);
              c = c\<lparr>backdiff := if theirs \<le> mine then mine - theirs else 0\<rparr>
          in rbind (update_clist_diffs own l) (\<lambda>l. Inr (c # l)))"

fun update_diffs :: "commodity list \<Rightarrow> neighbor list \<Rightarrow> halt + neighbor list" where
  "update_diffs own [] = Inr []"
| "update_diffs own (n # ns) =
     rbind (update_clist_diffs own (n_clist n)) (\<lambda>cl.
     rbind (update_diffs own ns) (\<lambda>ns. Inr (n\<lparr>n_clist := cl\<rparr> # ns)))"

definition RAND_MAX :: int where "RAND_MAX = 2147483647"

text \<open>\<open>rand() / RAND_MAX >= (num - 1) / num\<close>, over the rationals: the two double quotients compare
  like the exact ones as long as \<open>num\<close> stays below \<open>2 ^ 20\<close>, since then distinct quotients differ by
  more than the rounding error.\<close>

definition tie_wins :: "nat \<Rightarrow> int \<Rightarrow> bool" where
  "tie_wins r num \<longleftrightarrow> (num - 1) * RAND_MAX \<le> int r * num"

fun choose_hop ::
  "(nat \<Rightarrow> nat) \<Rightarrow> commodity \<Rightarrow> neighbor list \<Rightarrow> int \<Rightarrow> u32 \<Rightarrow> neighbor option \<Rightarrow> nat \<Rightarrow>
     halt + neighbor option \<times> u32 \<times> nat" where
  "choose_hop rnd c [] num diffopt nopt k = Inr (nopt, diffopt, k)"
| "choose_hop rnd c (n # ns) num diffopt nopt k =
     (case clist_find (n_clist n) c of
        None \<Rightarrow> Inl (LogErr ''I know about a commodity that my neighbor doesn't!'')
      | Some i \<Rightarrow>
          let ctemp = n_clist n ! i
          in if bidir n = 0 then choose_hop rnd c ns num diffopt nopt k
             else if netaddr_cmp (n_addr n) (cs_addr (cdata ctemp)) = 0 then Inr (Some n, backdiff ctemp, k)
             else if backdiff ctemp < diffopt then choose_hop rnd c ns num diffopt nopt k
             else
               let num = (if backdiff ctemp = diffopt then num + 1 else 1)
               in if tie_wins (rnd k) num
                  then choose_hop rnd c ns num (backdiff ctemp) (Some n) (Suc k)
                  else choose_hop rnd c ns num diffopt nopt (Suc k))"

fun route_commodities ::
  "'a netlink \<Rightarrow> (nat \<Rightarrow> nat) \<Rightarrow> uninit \<Rightarrow> netaddr \<Rightarrow> u32 \<Rightarrow> u32 \<Rightarrow> neighbor list \<Rightarrow> commodity list \<Rightarrow> nat \<Rightarrow>
     halt + commodity list \<times> 'a route_op list \<times> nat" where
  "route_commodities nl rnd u naddr family ifindex ns [] k = Inr ([], [], k)"
| "route_commodities nl rnd u naddr family ifindex ns (c # l) k =
     (if netaddr_cmp naddr (cs_addr (cdata c)) = 0
      then rbind (route_commodities nl rnd u naddr family ifindex ns l k) (\<lambda>(l, ops, k).
             Inr (c\<lparr>backdiff := 0\<rparr> # l, ops, k))
      else
        rbind (choose_hop rnd c ns 0 0 None k) (\<lambda>(nopt, diffopt, k).
          let dst = snd (netaddr_to_socket (u_sock u) (cs_addr (cdata c)))
          in case nopt of
               Some n \<Rightarrow>
                 let nh = snd (netaddr_to_socket (u_sock u) (n_addr n))
                 in rbind (router_route_update nl (Some dst) (Some nh) family ifindex) (\<lambda>op.
                    rbind (route_commodities nl rnd u naddr family ifindex ns l k) (\<lambda>(l, ops, k).
                      Inr (c\<lparr>backdiff := diffopt\<rparr> # l, op @ ops, k)))
             | None \<Rightarrow>
                 rbind (route_commodities nl rnd u naddr family ifindex ns l k) (\<lambda>(l, ops, k).
                   Inr (c\<lparr>backdiff := 0\<rparr> # l, ops, k))))"

definition router_update ::
  "'a netlink \<Rightarrow> ('m \<Rightarrow> int \<times> 'm) \<Rightarrow> ('m \<Rightarrow> int \<times> 'm) \<Rightarrow> (nat \<Rightarrow> nat) \<Rightarrow> uninit \<Rightarrow> 'm bprd \<Rightarrow> nat \<Rightarrow>
     halt + 'm bprd \<times> 'a route_op list \<times> nat" where
  "router_update nl lock unlock rnd u b k =
     (let naddr = own_netaddr (saddr b) u
      in rbind (update_backlogs (clist b)) (\<lambda>own.
         rbind (ntable_mutex_lock lock (ntable b)) (\<lambda>nt.
         rbind (update_diffs own (nlist nt)) (\<lambda>ns.
         rbind (route_commodities nl rnd u naddr (word_of_int (ipver b)) (if_index b) ns own k)
           (\<lambda>(own, ops, k).
         rbind (ntable_mutex_unlock unlock (nt\<lparr>nlist := ns\<rparr>)) (\<lambda>nt.
           Inr (b\<lparr>clist := own, ntable := nt\<rparr>, ops, k)))))))"

section \<open>The first two loops as maps\<close>

definition own_backlog :: "commodity \<Rightarrow> u32" where
  "own_backlog c = (case queue c of None \<Rightarrow> 0 | Some q \<Rightarrow> if head q < tail q then tail q - head q else 0)"

lemma update_backlogs_iff:
  "update_backlogs l = Inr l' \<longleftrightarrow>
     (\<forall>c\<in>set l. queue c \<noteq> None) \<and>
     l' = map (\<lambda>c. c\<lparr>cdata := (cdata c)\<lparr>cs_backlog := own_backlog c\<rparr>\<rparr>) l"
  by (induction l arbitrary: l')
    (auto simp: rbind_Inr_iff fifo_length_def own_backlog_def split: option.splits)

text \<open>The differential of a neighbor's commodity: own minus the neighbor's backlog, not below 0.\<close>

definition diff_to :: "commodity list \<Rightarrow> commodity \<Rightarrow> u32" where
  "diff_to own c =
     (case clist_map own (c_addr c) of
        None \<Rightarrow> 0
      | Some m \<Rightarrow>
          if cs_backlog (cdata c) \<le> cs_backlog (cdata m)
          then cs_backlog (cdata m) - cs_backlog (cdata c) else 0)"

lemma unat_monus: "unat (if (y :: 'a::len word) \<le> x then x - y else 0) = unat x - unat y"
  by (auto simp: word_le_nat_alt unat_sub_if')

lemma unat_diff_to:
  "clist_map own (c_addr c) = Some m \<Longrightarrow>
     unat (diff_to own c) = unat (cs_backlog (cdata m)) - unat (cs_backlog (cdata c))"
  by (simp only: diff_to_def option.case unat_monus)

definition set_diffs :: "commodity list \<Rightarrow> neighbor \<Rightarrow> neighbor" where
  "set_diffs own n = n\<lparr>n_clist := map (\<lambda>c. c\<lparr>backdiff := diff_to own c\<rparr>) (n_clist n)\<rparr>"

lemma set_diffs_sel [simp]:
  "n_addr (set_diffs own n) = n_addr n" "bidir (set_diffs own n) = bidir n"
  by (simp_all add: set_diffs_def)

definition knows_all :: "commodity list \<Rightarrow> neighbor \<Rightarrow> bool" where
  "knows_all own n \<longleftrightarrow> c_addr ` set (n_clist n) \<subseteq> c_addr ` set own"

lemma update_clist_diffs_eq:
  "update_clist_diffs own l =
     (if c_addr ` set l \<subseteq> c_addr ` set own then Inr (map (\<lambda>c. c\<lparr>backdiff := diff_to own c\<rparr>) l)
      else Inl (LogErr ''Neighbor knows about commodity that I don't!''))"
proof (induction l)
  case (Cons c l)
  show ?case
  proof (cases "clist_find own c")
    case None
    moreover from this have "c_addr c \<notin> c_addr ` set own" by (simp add: clist_find_None)
    ultimately show ?thesis by simp
  next
    case (Some i)
    then have "c_addr c \<in> c_addr ` set own" using clist_find_None[of own c] by auto
    moreover have "diff_to own c = (let mine = cs_backlog (cdata (own ! i)); theirs = cs_backlog (cdata c)
        in if theirs \<le> mine then mine - theirs else 0)"
      using clist_find_Some(3)[OF Some] by (simp add: diff_to_def)
    ultimately show ?thesis using Some Cons by (simp add: Let_def)
  qed
qed simp

lemma update_diffs_eq:
  "update_diffs own ns =
     (if \<forall>n\<in>set ns. knows_all own n then Inr (map (set_diffs own) ns)
      else Inl (LogErr ''Neighbor knows about commodity that I don't!''))"
  by (induction ns) (auto simp: update_clist_diffs_eq knows_all_def set_diffs_def)

section \<open>The choice of the next hop\<close>

definition hop_diff :: "commodity \<Rightarrow> neighbor \<Rightarrow> u32" where
  "hop_diff c n = (case clist_map (n_clist n) (c_addr c) of None \<Rightarrow> 0 | Some m \<Rightarrow> backdiff m)"

definition usable :: "neighbor list \<Rightarrow> neighbor set" where
  "usable ns = {n \<in> set ns. bidir n \<noteq> 0}"

text \<open>The abstract specification: the destination itself if it is a usable neighbor, else a usable
  neighbor with the largest differential, and none exactly when no neighbor is usable.\<close>

definition best_hop :: "commodity \<Rightarrow> neighbor list \<Rightarrow> neighbor option \<Rightarrow> u32 \<Rightarrow> bool" where
  "best_hop c ns hop d \<longleftrightarrow>
     (case hop of
        None \<Rightarrow> usable ns = {} \<and> d = 0
      | Some n \<Rightarrow>
          n \<in> usable ns \<and> d = hop_diff c n \<and>
          (if \<exists>m\<in>usable ns. n_addr m = c_addr c then n_addr n = c_addr c
           else \<forall>m\<in>usable ns. hop_diff c m \<le> hop_diff c n))"

lemma hop_diff_found:
  "clist_find (n_clist n) c = Some i \<Longrightarrow>
     hop_diff c n = backdiff (n_clist n ! i) \<and> cs_addr (cdata (n_clist n ! i)) = c_addr c"
  using clist_find_Some by (simp add: hop_diff_def)

text \<open>What the loop has established when \<open>done\<close> are the neighbors seen so far.\<close>

definition hop_inv :: "commodity \<Rightarrow> neighbor list \<Rightarrow> int \<Rightarrow> u32 \<Rightarrow> neighbor option \<Rightarrow> bool" where
  "hop_inv c seen num d nopt \<longleftrightarrow>
     (\<forall>m\<in>usable seen. n_addr m \<noteq> c_addr c \<and> hop_diff c m \<le> d) \<and>
     (case nopt of
        None \<Rightarrow> usable seen = {} \<and> num = 0 \<and> d = 0
      | Some n \<Rightarrow> n \<in> usable seen \<and> d = hop_diff c n \<and> 1 \<le> num)"

lemma usable_simps [simp]:
  "usable [] = {}"
  "usable (xs @ ys) = usable xs \<union> usable ys"
  "usable [n] = (if bidir n = 0 then {} else {n})"
  by (auto simp: usable_def)

lemma tie_wins_first: "tie_wins r 1"
  by (simp add: tie_wins_def)

lemma choose_hop_inv:
  assumes "choose_hop rnd c ns num d nopt k = Inr (hop, d', k')" and "hop_inv c seen num d nopt"
  shows "best_hop c (seen @ ns) hop d'"
  using assms
proof (induction rnd c ns num d nopt k arbitrary: seen rule: choose_hop.induct)
  case (1 rnd c num d nopt k)
  then show ?case by (auto simp: hop_inv_def best_hop_def split: option.splits)
next
  case (2 rnd c n ns num d nopt k)
  from "2.prems"(1) obtain i where i: "clist_find (n_clist n) c = Some i" by (auto split: option.splits)
  note h = hop_diff_found[OF i]
  show ?case
  proof (cases "bidir n = 0")
    case True
    then have "hop_inv c (seen @ [n]) num d nopt" using "2.prems"(2)
      by (auto simp: hop_inv_def split: option.splits)
    with "2.IH"(1)[OF i refl True, of "seen @ [n]"] "2.prems"(1) True i show ?thesis by (auto simp: Let_def)
  next
    case bi: False
    show ?thesis
    proof (cases "n_addr n = c_addr c")
      case True
      with "2.prems" bi i h show ?thesis by (auto simp: best_hop_def Let_def usable_def)
    next
      case dest: False
      with h have nd: "\<not> netaddr_cmp (n_addr n) (cs_addr (cdata (n_clist n ! i))) = 0" by simp
      show ?thesis
      proof (cases "backdiff (n_clist n ! i) < d")
        case True
        then have "hop_inv c (seen @ [n]) num d nopt"
          using "2.prems"(2) bi dest h by (auto simp: hop_inv_def split: option.splits)
        with "2.IH"(2)[OF i refl bi nd True, of "seen @ [n]"] "2.prems"(1) True i bi nd show ?thesis
          by (simp add: Let_def)
      next
        case le: False
        define num' where "num' = (if backdiff (n_clist n ! i) = d then num + 1 else 1)"
        show ?thesis
        proof (cases "tie_wins (rnd k) num'")
          case True
          have "hop_inv c (seen @ [n]) num' (backdiff (n_clist n ! i)) (Some n)"
            using "2.prems"(2) bi dest h le
            by (auto simp: hop_inv_def num'_def not_less split: option.splits)
          with "2.IH"(3)[OF i refl bi nd le num'_def True, of "seen @ [n]"] "2.prems"(1) True i bi nd le show ?thesis
            by (simp add: Let_def num'_def)
        next
          case False
          then have "num' \<noteq> 1" using tie_wins_first by auto
          then have "backdiff (n_clist n ! i) = d" "num \<noteq> 0" by (auto simp: num'_def split: if_splits)
          then have "hop_inv c (seen @ [n]) num' d nopt"
            using "2.prems"(2) bi dest h by (auto simp: hop_inv_def num'_def split: option.splits)
          with "2.IH"(4)[OF i refl bi nd le num'_def False, of "seen @ [n]"] "2.prems"(1) False i bi nd le show ?thesis
            by (simp add: Let_def num'_def)
        qed
      qed
    qed
  qed
qed

lemma choose_hop_best:
  "choose_hop rnd c ns 0 0 None k = Inr (hop, d, k') \<Longrightarrow> best_hop c ns hop d"
  using choose_hop_inv[where seen = "[]"] by (simp add: hop_inv_def)

section \<open>The routes installed\<close>

definition route_to ::
  "'a netlink \<Rightarrow> uninit \<Rightarrow> u32 \<Rightarrow> u32 \<Rightarrow> commodity \<times> neighbor \<Rightarrow> 'a route_op \<Rightarrow> bool" where
  "route_to nl u family ifindex cn op \<longleftrightarrow>
     (\<exists>d g. nl_addr_of nl family (snd (netaddr_to_socket (u_sock u) (c_addr (fst cn)))) = Some d \<and>
        nl_addr_of nl family (snd (netaddr_to_socket (u_sock u) (n_addr (snd cn)))) = Some g \<and>
        op = RouteAdd \<lparr>rt_table = ''main'', rt_scope = ''universe'', rt_protocol = ''static'',
          rt_family = family, rt_dst = d, rt_type = ''unicast'', rt_nexthop = Some (ifindex, g)\<rparr>)"

definition chosen :: "commodity list \<Rightarrow> neighbor option list \<Rightarrow> (commodity \<times> neighbor) list" where
  "chosen cs hops = List.map_filter (\<lambda>(c, hop). map_option (Pair c) hop) (zip cs hops)"

lemma chosen_simps [simp]:
  "chosen [] [] = []"
  "chosen (c # cs) (None # hops) = chosen cs hops"
  "chosen (c # cs) (Some n # hops) = (c, n) # chosen cs hops"
  by (simp_all add: chosen_def map_filter_simps)

lemma router_route_update_add:
  "router_route_update nl (Some dst) (Some nh) family ifindex = Inr ops \<Longrightarrow>
     \<exists>d g. nl_addr_of nl family dst = Some d \<and> nl_addr_of nl family nh = Some g \<and>
       ops = [RouteAdd \<lparr>rt_table = ''main'', rt_scope = ''universe'', rt_protocol = ''static'',
          rt_family = family, rt_dst = d, rt_type = ''unicast'', rt_nexthop = Some (ifindex, g)\<rparr>]"
  by (auto simp: router_route_update_def Let_def split: option.splits if_splits)

lemma best_hop_backdiff [simp]:
  "best_hop (c\<lparr>backdiff := x\<rparr>) ns hop d \<longleftrightarrow> best_hop c ns hop d"
  "route_to nl u family ifindex (c\<lparr>backdiff := x\<rparr>, n) op \<longleftrightarrow> route_to nl u family ifindex (c, n) op"
  by (cases hop; simp add: best_hop_def hop_diff_def) (simp add: route_to_def)

definition hop_ok :: "netaddr \<Rightarrow> neighbor list \<Rightarrow> commodity \<Rightarrow> neighbor option \<Rightarrow> bool" where
  "hop_ok naddr ns c hop \<longleftrightarrow>
     (if c_addr c = naddr then hop = None \<and> backdiff c = 0 else best_hop c ns hop (backdiff c))"

lemma hop_ok_set [simp]:
  "c_addr c = naddr \<Longrightarrow> hop_ok naddr ns (c\<lparr>backdiff := 0\<rparr>) None"
  "c_addr c \<noteq> naddr \<Longrightarrow> hop_ok naddr ns (c\<lparr>backdiff := d\<rparr>) hop \<longleftrightarrow> best_hop c ns hop d"
  by (simp_all add: hop_ok_def)

lemma list_all2_set2: "list_all2 P xs ys \<Longrightarrow> y \<in> set ys \<Longrightarrow> \<exists>x\<in>set xs. P x y"
  by (induction rule: list_all2_induct) auto

lemma route_commodities_spec:
  assumes "route_commodities nl rnd u naddr family ifindex ns l k = Inr (l', ops, k')"
  shows "list_all2 (\<lambda>c c'. \<exists>d. c' = c\<lparr>backdiff := d\<rparr>) l l' \<and>
    (\<exists>hops. list_all2 (hop_ok naddr ns) l' hops \<and>
       list_all2 (route_to nl u family ifindex) (chosen l' hops) ops)"
  using assms
proof (induction l arbitrary: k l' ops k')
  case Nil
  then show ?case by (auto intro: exI[of _ "[]"])
next
  case (Cons c l)
  show ?case
  proof (cases "c_addr c = naddr")
    case True
    with Cons.prems obtain l1 where r: "route_commodities nl rnd u naddr family ifindex ns l k = Inr (l1, ops, k')"
      and l': "l' = c\<lparr>backdiff := 0\<rparr> # l1" by (auto split: prod.splits)
    from Cons.IH[OF r] obtain hops where "list_all2 (hop_ok naddr ns) l1 hops"
      "list_all2 (route_to nl u family ifindex) (chosen l1 hops) ops" by blast
    with True l' Cons.IH[OF r] show ?thesis
      by (auto intro!: exI[of _ "None # hops"])
  next
    case False
    with Cons.prems obtain hop d k1 where ch: "choose_hop rnd c ns 0 0 None k = Inr (hop, d, k1)"
      by (auto split: prod.splits)
    note best = choose_hop_best[OF ch]
    show ?thesis
    proof (cases hop)
      case None
      with Cons.prems False ch obtain l1 where
        r: "route_commodities nl rnd u naddr family ifindex ns l k1 = Inr (l1, ops, k')"
        and l': "l' = c\<lparr>backdiff := 0\<rparr> # l1" by (auto simp: Let_def split: prod.splits)
      from Cons.IH[OF r] obtain hops where "list_all2 (hop_ok naddr ns) l1 hops"
        "list_all2 (route_to nl u family ifindex) (chosen l1 hops) ops" by blast
      moreover have "d = 0" using best None by (simp add: best_hop_def)
      ultimately show ?thesis using False None l' best Cons.IH[OF r]
        by (auto intro!: exI[of _ "None # hops"])
    next
      case (Some n)
      with Cons.prems False ch obtain l1 op1 ops1 where
        u: "router_route_update nl (Some (snd (netaddr_to_socket (u_sock u) (c_addr c))))
          (Some (snd (netaddr_to_socket (u_sock u) (n_addr n)))) family ifindex = Inr op1"
        and r: "route_commodities nl rnd u naddr family ifindex ns l k1 = Inr (l1, ops1, k')"
        and l': "l' = c\<lparr>backdiff := d\<rparr> # l1" "ops = op1 @ ops1"
        by (auto simp: Let_def rbind_Inr_iff split: prod.splits)
      from Cons.IH[OF r] obtain hops where "list_all2 (hop_ok naddr ns) l1 hops"
        "list_all2 (route_to nl u family ifindex) (chosen l1 hops) ops1" by blast
      moreover obtain op where "op1 = [op]" "route_to nl u family ifindex (c, n) op"
        using router_route_update_add[OF u] by (auto simp: route_to_def)
      ultimately show ?thesis using False Some l' best Cons.IH[OF r]
        by (auto intro!: exI[of _ "Some n # hops"])
    qed
  qed
qed

lemma router_update_cases:
  assumes "router_update nl lock unlock rnd u b k = Inr (b', ops, k')"
  obtains own where "update_backlogs (clist b) = Inr own"
    and "\<forall>n\<in>set (nlist (ntable b)). knows_all own n"
    and "nlist (ntable b') = map (set_diffs own) (nlist (ntable b))"
    and "route_commodities nl rnd u (own_netaddr (saddr b) u) (word_of_int (ipver b)) (if_index b)
          (nlist (ntable b')) own k = Inr (clist b', ops, k')"
proof -
  from assms obtain own nt ns cs nt' where
    1: "update_backlogs (clist b) = Inr own" "ntable_mutex_lock lock (ntable b) = Inr nt"
    "update_diffs own (nlist nt) = Inr ns"
    "route_commodities nl rnd u (own_netaddr (saddr b) u) (word_of_int (ipver b)) (if_index b) ns own k =
      Inr (cs, ops, k')"
    "ntable_mutex_unlock unlock (nt\<lparr>nlist := ns\<rparr>) = Inr nt'" "b' = b\<lparr>clist := cs, ntable := nt'\<rparr>"
    by (auto simp: router_update_def Let_def rbind_Inr_iff split: prod.splits)
  have "nlist nt = nlist (ntable b)" "nlist nt' = ns"
    using 1(2,5) by (auto simp: ntable_mutex_lock_def ntable_mutex_unlock_def split: prod.splits if_splits)
  with 1 that[of own] show ?thesis by (auto simp: update_diffs_eq split: if_splits)
qed

section \<open>Properties\<close>

text \<open>C12: Each update gives every commodity that is not destined to the daemon a best next hop: the
  destination itself if it is a bidirectional neighbor, otherwise a bidirectional neighbor with the
  largest backlog differential, and none exactly when no neighbor is bidirectional, for any outcomes
  of \<open>rand\<close>. The differential of the choice is saved in the commodity (0 without one), and exactly
  the chosen hops are installed as routes, in list order.\<close>

theorem router_update_max_backpressure:
  assumes "router_update nl lock unlock rnd u b k = Inr (b', ops, k')"
  shows "\<exists>hops. list_all2 (hop_ok (own_netaddr (saddr b) u) (nlist (ntable b'))) (clist b') hops \<and>
    list_all2 (route_to nl u (word_of_int (ipver b)) (if_index b)) (chosen (clist b') hops) ops"
  using assms by (rule router_update_cases) (drule route_commodities_spec, blast)

text \<open>C13: After an update every commodity's backlog is the length of its queue, and every commodity
  of a neighbor has as differential the daemon's own backlog for that destination minus the
  neighbor's, cut off at 0. Addresses, link flags and advertised backlogs are unchanged.\<close>

theorem router_update_differentials:
  assumes "router_update nl lock unlock rnd u b k = Inr (b', ops, k')"
  shows "map c_addr (clist b') = map c_addr (clist b) \<and> map queue (clist b') = map queue (clist b) \<and>
    (\<forall>c\<in>set (clist b'). fifo_length (queue c) = Inr (cs_backlog (cdata c))) \<and>
    map (\<lambda>n. (n_addr n, bidir n, map cdata (n_clist n))) (nlist (ntable b')) =
      map (\<lambda>n. (n_addr n, bidir n, map cdata (n_clist n))) (nlist (ntable b)) \<and>
    (\<forall>n\<in>set (nlist (ntable b')). \<forall>m\<in>set (n_clist n). \<exists>c\<in>set (clist b'). c_addr c = c_addr m \<and>
       unat (backdiff m) = unat (cs_backlog (cdata c)) - unat (cs_backlog (cdata m)))"
proof -
  obtain own where own: "update_backlogs (clist b) = Inr own"
    and known: "\<forall>n\<in>set (nlist (ntable b)). knows_all own n"
    and ns: "nlist (ntable b') = map (set_diffs own) (nlist (ntable b))"
    and rc: "route_commodities nl rnd u (own_netaddr (saddr b) u) (word_of_int (ipver b)) (if_index b)
          (nlist (ntable b')) own k = Inr (clist b', ops, k')"
    using assms by (rule router_update_cases)
  have o: "own = map (\<lambda>c. c\<lparr>cdata := (cdata c)\<lparr>cs_backlog := own_backlog c\<rparr>\<rparr>) (clist b)"
    and q: "\<forall>c\<in>set (clist b). queue c \<noteq> None" using own by (simp_all add: update_backlogs_iff)
  have l2: "list_all2 (\<lambda>c c'. \<exists>d. c' = c\<lparr>backdiff := d\<rparr>) own (clist b')"
    using route_commodities_spec[OF rc] by blast
  then have same: "map cdata (clist b') = map cdata own \<and> map queue (clist b') = map queue own"
    by (induction rule: list_all2_induct) auto
  have mb: "\<exists>c\<in>set (clist b'). cdata c = cdata m" if "m \<in> set own" for m
  proof -
    from that have "cdata m \<in> set (map cdata (clist b'))" using same by simp
    then show ?thesis by auto
  qed
  have fl: "fifo_length (queue c) = Inr (cs_backlog (cdata c))" if c: "c \<in> set (clist b')" for c
  proof -
    from list_all2_set2[OF l2 c] obtain m d where "m \<in> set own" "c = m\<lparr>backdiff := d\<rparr>" by blast
    with o q show ?thesis by (auto simp: fifo_length_def own_backlog_def)
  qed
  have di: "\<exists>c\<in>set (clist b'). c_addr c = c_addr m \<and>
      unat (backdiff m) = unat (cs_backlog (cdata c)) - unat (cs_backlog (cdata m))"
    if "n \<in> set (nlist (ntable b'))" "m \<in> set (n_clist n)" for n m
  proof -
    from that ns obtain n0 m0 where n0: "n0 \<in> set (nlist (ntable b))" "m0 \<in> set (n_clist n0)"
      "m = m0\<lparr>backdiff := diff_to own m0\<rparr>" by (auto simp: set_diffs_def)
    with known have "c_addr m0 \<in> c_addr ` set own" by (auto simp: knows_all_def)
    then obtain x where x: "clist_map own (c_addr m0) = Some x"
      using klookup_None_iff[of c_addr own "c_addr m0"] by (auto simp: clist_map_def)
    then have "x \<in> set own" "c_addr x = c_addr m0" using klookup_SomeD[of c_addr own] by (auto simp: clist_map_def)
    with mb obtain c where "c \<in> set (clist b')" "cdata c = cdata x" by blast
    with n0 unat_diff_to[OF x] \<open>c_addr x = c_addr m0\<close> show ?thesis by (intro bexI[of _ c]) simp_all
  qed
  have "map c_addr (clist b') = map cs_addr (map cdata (clist b'))" by simp
  also have "\<dots> = map c_addr own" using same by simp
  finally have "map c_addr (clist b') = map c_addr own" .
  then show ?thesis
    using same o fl di by (auto simp: ns set_diffs_def comp_def)
qed

text \<open>A node 10.0.0.1 with one bidirectional neighbor 10.0.0.2 and five packets for 10.0.0.3.\<close>

definition sample_bprd :: "unit bprd" where
  "sample_bprd = \<lparr>ipver = 2, if_index = 3, sockfd = 5,
     saddr = [2, 0, 0, 0, 10, 0, 0, 1] @ replicate 8 0, saddrlen = 16,
     maddr = [2, 0, 1, 13, 224, 0, 0, 109] @ replicate 8 0, maddrlen = 16, hello_seqno = 0,
     hello_interval = 100000, release_interval = 100000, update_interval = 100000,
     neighbor_timeout = 500000,
     clist = [mk_commodity (ipv4 [10,0,0,3]) 0 0 1 (Some \<lparr>head = 0, tail = 5, qh = None\<rparr>)],
     ntable = \<lparr>nlist = [\<lparr>n_addr = ipv4 [10,0,0,2], bidir = 1, update_time = \<lparr>tv_sec = 0, tv_usec = 0\<rparr>,
        n_clist = [mk_commodity (ipv4 [10,0,0,3]) 2 0 0 None]\<rparr>], mutex = ()\<rparr>\<rparr>"

definition sample_netlink :: "bytes netlink" where
  "sample_netlink = \<lparr>nl_addr_build = (\<lambda>_ b. Some b), rtnl_route_alloc_fails = False,
     rtnl_route_add = (\<lambda>_. 0), rtnl_route_delete = (\<lambda>_. 0), nl_geterror = (\<lambda>_. [])\<rparr>"

definition sample_uninit :: uninit where
  "sample_uninit = \<lparr>u_sock = replicate 128 0, u_addr = ipv4 [0, 0, 0, 0]\<rparr>"

lemma sample_own: "own_netaddr (saddr sample_bprd) sample_uninit = ipv4 [10,0,0,1]"
  by (subst own_netaddr_inet)
    (simp_all add: sample_bprd_def sample_uninit_def uninit_wf_def sockaddr_storage_size_def netaddr_wf_def
      sa_family_def mk16_def ipv4_def sin_addr_def sub_bytes_def)

lemma sample_router_run:
  "\<exists>b' ops k'. router_update sample_netlink (Pair 0) (Pair 0) (\<lambda>_. 0) sample_uninit sample_bprd 0 = Inr (b', ops, k')"
  by (simp add: router_update_def sample_own)
    (simp add: sample_bprd_def sample_netlink_def fifo_length_def ntable_mutex_lock_def
      ntable_mutex_unlock_def clist_find_def list_find_def cmp_data_c_def Let_def
      tie_wins_def router_route_update_def nl_addr_of_def)

theorem router_update_max_backpressure_witness:
  "\<exists>b' ops k' hops.
     router_update sample_netlink (Pair 0) (Pair 0) (\<lambda>_. 0) sample_uninit sample_bprd 0 = Inr (b', ops, k') \<and>
     list_all2 (hop_ok (ipv4 [10,0,0,1]) (nlist (ntable b'))) (clist b') hops \<and>
     list_all2 (route_to sample_netlink sample_uninit (word_of_int (ipver sample_bprd)) (if_index sample_bprd))
       (chosen (clist b') hops) ops"
proof -
  obtain b' ops k' where
    r: "router_update sample_netlink (Pair 0) (Pair 0) (\<lambda>_. 0) sample_uninit sample_bprd 0 = Inr (b', ops, k')"
    using sample_router_run by blast
  from router_update_max_backpressure[OF r] r show ?thesis unfolding sample_own by blast
qed

theorem router_update_differentials_witness:
  "\<exists>b' ops k'.
     router_update sample_netlink (Pair 0) (Pair 0) (\<lambda>_. 0) sample_uninit sample_bprd 0 = Inr (b', ops, k') \<and>
     map c_addr (clist b') = [ipv4 [10,0,0,3]] \<and>
     (\<forall>c\<in>set (clist b'). fifo_length (queue c) = Inr (cs_backlog (cdata c)))"
proof -
  obtain b' ops k' where
    r: "router_update sample_netlink (Pair 0) (Pair 0) (\<lambda>_. 0) sample_uninit sample_bprd 0 = Inr (b', ops, k')"
    using sample_router_run by blast
  have "map c_addr (clist sample_bprd) = [ipv4 [10,0,0,3]]" by (simp add: sample_bprd_def)
  with router_update_differentials[OF r] r show ?thesis by auto
qed

text \<open>C15: One neighbor that advertises a destination the daemon is not configured for ends the
  daemon: the next update logs an error and exits, whatever the other neighbors say.\<close>

theorem router_update_exits_on_unknown:
  assumes "\<forall>c\<in>set (clist b). queue c \<noteq> None" and "fst (lock (mutex (ntable b))) = 0"
    and "n \<in> set (nlist (ntable b))" and "m \<in> set (n_clist n)" and "c_addr m \<notin> c_addr ` set (clist b)"
  shows "router_update nl lock unlock rnd u b k =
    Inl (LogErr ''Neighbor knows about commodity that I don't!'')"
proof -
  obtain own where own: "update_backlogs (clist b) = Inr own"
    and a: "c_addr ` set own = c_addr ` set (clist b)"
    using assms(1) update_backlogs_iff by (fastforce simp: image_image)
  obtain nt where "ntable_mutex_lock lock (ntable b) = Inr nt" "nlist nt = nlist (ntable b)"
    using assms(2) by (cases "lock (mutex (ntable b))") (auto simp: ntable_mutex_lock_def)
  moreover have "\<not> (\<forall>n\<in>set (nlist (ntable b)). knows_all own n)"
    using assms(3-5) a by (auto simp: knows_all_def)
  ultimately show ?thesis by (auto simp: router_update_def own update_diffs_eq)
qed

theorem router_update_exits_on_unknown_witness:
  "router_update sample_netlink (Pair 0) (Pair 0) (\<lambda>_. 0) sample_uninit (sample_bprd\<lparr>clist := []\<rparr>) 0 =
     Inl (LogErr ''Neighbor knows about commodity that I don't!'')"
  by (rule router_update_exits_on_unknown[where n = "hd (nlist (ntable sample_bprd))"
        and m = "mk_commodity (ipv4 [10,0,0,3]) 2 0 0 None"])
    (simp_all add: sample_bprd_def)

text \<open>After a successful \<open>router_init\<close> the forwarding setting of the interface is on and no other
  setting has changed; a later \<open>router_cleanup\<close> whose system calls succeed restores the setting that
  was there before.\<close>

theorem router_forwarding_restored:
  assumes "router_init env fails st fs ifindex family = (0, st1, fs1)"
    and "router_cleanup (\<lambda>_. False) st1 fs1 = (st2, fs2)"
  shows "pf_files fs1 = (pf_files fs)(router_procfile st1 \<mapsto> CHR ''1'') \<and>
    pf_files fs (router_procfile st1) = Some (router_origfwd st1) \<and>
    pf_files fs2 = pf_files fs \<and> router_nlsk st2 = None"
proof -
  obtain path r old where
    w: "procfile_write fails fs path (Some (router_origfwd st)) CHR ''1'' = (r, old, fs1)"
    and r: "0 \<le> r" and st1: "router_procfile st1 = path"
      "router_origfwd st1 = (case old of None \<Rightarrow> router_origfwd st | Some c \<Rightarrow> c)"
    using assms(1)
    by (auto simp: router_init_def Let_def snprintf_def split: option.splits if_splits prod.splits)
  from procfile_write_ok[OF w r] st1 have 1: "pf_files fs1 = (pf_files fs)(path \<mapsto> CHR ''1'')"
    "pf_files fs path = Some (router_origfwd st1)" by auto
  have "pf_files fs2 = pf_files fs"
    using assms(2) 1 st1 by (auto simp: router_cleanup_def procfile_write_def fun_eq_iff)
  with 1 st1 assms(2) show ?thesis by (auto simp: router_cleanup_def split: prod.splits)
qed

theorem router_forwarding_restored_witness:
  "\<exists>st1 fs1 st2 fs2.
     router_init \<lparr>nl_socket_alloc = Some 1, nl_connect = 0, if_indextoname = (\<lambda>_. Some ''eth0'')\<rparr>
       (\<lambda>_. False) \<lparr>router_nlsk = None, router_if_index = 0, router_family = 0,
         router_origfwd = CHR ''x'', router_procfile = []\<rparr>
       \<lparr>pf_files = [''/proc/sys/net/ipv4/conf/eth0/forwarding'' \<mapsto> CHR ''0''], pf_fds = 0\<rparr> 3 2 = (0, st1, fs1) \<and>
     router_cleanup (\<lambda>_. False) st1 fs1 = (st2, fs2) \<and>
     pf_files fs2 = [''/proc/sys/net/ipv4/conf/eth0/forwarding'' \<mapsto> CHR ''0'']"
proof -
  let ?env = "\<lparr>nl_socket_alloc = Some 1, nl_connect = 0, if_indextoname = (\<lambda>_. Some ''eth0'')\<rparr>"
  let ?st = "\<lparr>router_nlsk = None, router_if_index = 0, router_family = 0,
         router_origfwd = CHR ''x'', router_procfile = []\<rparr>"
  let ?fs = "\<lparr>pf_files = [''/proc/sys/net/ipv4/conf/eth0/forwarding'' \<mapsto> CHR ''0''], pf_fds = 0\<rparr>"
  obtain st1 fs1 where i: "router_init ?env (\<lambda>_. False) ?st ?fs 3 2 = (0, st1, fs1)"
    by (simp add: router_init_def Let_def snprintf_def PATH_MAX_def forwarding_path_def procfile_write_def)
  obtain st2 fs2 where c: "router_cleanup (\<lambda>_. False) st1 fs1 = (st2, fs2)"
    by (cases "router_cleanup (\<lambda>_. False) st1 fs1")
  from router_forwarding_restored[OF i c] i c show ?thesis by auto
qed

end
