(* ===== verification/PbbContext.thy ===== *)
theory PbbContext
  imports Prelude
begin

text \<open>
  \<open>lib/packetbb/pbb_context.h\<close>: the results of the PacketBB library with their numeric order, and
  the flag bits of the RFC 5444 format. \<open>DISALLOW_CONSUMER_CONTEXT_DROP\<close> is not set, so the drop results
  exist.
\<close>

datatype pbb_result =
    PBB_DROP_PACKET | PBB_DROP_MESSAGE | PBB_DROP_MSG_BUT_FORWARD | PBB_DROP_ADDRESS | PBB_DROP_TLV
  | PBB_OKAY | PBB_UNSUPPORTED_VERSION | PBB_END_OF_BUFFER | PBB_BAD_TLV_IDXFLAGS
  | PBB_BAD_TLV_VALUEFLAGS | PBB_BAD_TLV_LENGTH | PBB_OUT_OF_MEMORY | PBB_EMPTY_ADDRBLOCK
  | PBB_BAD_MSG_TAILFLAGS | PBB_BAD_MSG_PREFIXFLAGS | PBB_DUPLICATE_TLV | PBB_OUT_OF_ADDRTLV_MEM
  | PBB_MTU_TOO_SMALL | PBB_NO_MSGCREATOR | PBB_FW_MESSAGE_TOO_LONG | PBB_FW_BAD_SIZE

primrec pbb_code :: "pbb_result \<Rightarrow> int" where
  "pbb_code PBB_DROP_PACKET = 5"
| "pbb_code PBB_DROP_MESSAGE = 4"
| "pbb_code PBB_DROP_MSG_BUT_FORWARD = 3"
| "pbb_code PBB_DROP_ADDRESS = 2"
| "pbb_code PBB_DROP_TLV = 1"
| "pbb_code PBB_OKAY = 0"
| "pbb_code PBB_UNSUPPORTED_VERSION = -1"
| "pbb_code PBB_END_OF_BUFFER = -2"
| "pbb_code PBB_BAD_TLV_IDXFLAGS = -3"
| "pbb_code PBB_BAD_TLV_VALUEFLAGS = -4"
| "pbb_code PBB_BAD_TLV_LENGTH = -5"
| "pbb_code PBB_OUT_OF_MEMORY = -6"
| "pbb_code PBB_EMPTY_ADDRBLOCK = -7"
| "pbb_code PBB_BAD_MSG_TAILFLAGS = -8"
| "pbb_code PBB_BAD_MSG_PREFIXFLAGS = -9"
| "pbb_code PBB_DUPLICATE_TLV = -10"
| "pbb_code PBB_OUT_OF_ADDRTLV_MEM = -11"
| "pbb_code PBB_MTU_TOO_SMALL = -12"
| "pbb_code PBB_NO_MSGCREATOR = -13"
| "pbb_code PBB_FW_MESSAGE_TOO_LONG = -14"
| "pbb_code PBB_FW_BAD_SIZE = -15"

lemma pbb_code_inject: "pbb_code r = pbb_code s \<longleftrightarrow> r = s"
  by (cases r; cases s) simp_all

instantiation pbb_result :: linorder
begin

definition less_eq_pbb_result :: "pbb_result \<Rightarrow> pbb_result \<Rightarrow> bool" where
  "less_eq_pbb_result r s \<longleftrightarrow> pbb_code r \<le> pbb_code s"

definition less_pbb_result :: "pbb_result \<Rightarrow> pbb_result \<Rightarrow> bool" where
  "less_pbb_result r s \<longleftrightarrow> pbb_code r < pbb_code s"

instance
  by standard (auto simp: less_eq_pbb_result_def less_pbb_result_def pbb_code_inject)

end

definition PBB_MAX_ADDRLEN :: nat where "PBB_MAX_ADDRLEN = 16"

abbreviation PBB_PKT_FLAGMASK :: u8 where "PBB_PKT_FLAGMASK \<equiv> 0x0f"
abbreviation PBB_PKT_FLAG_SEQNO :: u8 where "PBB_PKT_FLAG_SEQNO \<equiv> 0x08"
abbreviation PBB_PKT_FLAG_TLV :: u8 where "PBB_PKT_FLAG_TLV \<equiv> 0x04"

abbreviation PBB_MSG_FLAG_ORIGINATOR :: u8 where "PBB_MSG_FLAG_ORIGINATOR \<equiv> 0x80"
abbreviation PBB_MSG_FLAG_HOPLIMIT :: u8 where "PBB_MSG_FLAG_HOPLIMIT \<equiv> 0x40"
abbreviation PBB_MSG_FLAG_HOPCOUNT :: u8 where "PBB_MSG_FLAG_HOPCOUNT \<equiv> 0x20"
abbreviation PBB_MSG_FLAG_SEQNO :: u8 where "PBB_MSG_FLAG_SEQNO \<equiv> 0x10"
abbreviation PBB_MSG_FLAG_ADDRLENMASK :: u8 where "PBB_MSG_FLAG_ADDRLENMASK \<equiv> 0x0f"

abbreviation PBB_ADDR_FLAG_HEAD :: u8 where "PBB_ADDR_FLAG_HEAD \<equiv> 0x80"
abbreviation PBB_ADDR_FLAG_FULLTAIL :: u8 where "PBB_ADDR_FLAG_FULLTAIL \<equiv> 0x40"
abbreviation PBB_ADDR_FLAG_ZEROTAIL :: u8 where "PBB_ADDR_FLAG_ZEROTAIL \<equiv> 0x20"
abbreviation PBB_ADDR_FLAG_SINGLEPLEN :: u8 where "PBB_ADDR_FLAG_SINGLEPLEN \<equiv> 0x10"
abbreviation PBB_ADDR_FLAG_MULTIPLEN :: u8 where "PBB_ADDR_FLAG_MULTIPLEN \<equiv> 0x08"

abbreviation PBB_TLV_FLAG_TYPEEXT :: u8 where "PBB_TLV_FLAG_TYPEEXT \<equiv> 0x80"
abbreviation PBB_TLV_FLAG_SINGLE_IDX :: u8 where "PBB_TLV_FLAG_SINGLE_IDX \<equiv> 0x40"
abbreviation PBB_TLV_FLAG_MULTI_IDX :: u8 where "PBB_TLV_FLAG_MULTI_IDX \<equiv> 0x20"
abbreviation PBB_TLV_FLAG_VALUE :: u8 where "PBB_TLV_FLAG_VALUE \<equiv> 0x10"
abbreviation PBB_TLV_FLAG_EXTVALUE :: u8 where "PBB_TLV_FLAG_EXTVALUE \<equiv> 0x08"
abbreviation PBB_TLV_FLAG_MULTIVALUE :: u8 where "PBB_TLV_FLAG_MULTIVALUE \<equiv> 0x04"

end
