(* ===== verification/SortedStore.thy ===== *)
theory SortedStore
  imports Prelude
begin

text \<open>
  What the AVL tree of \<open>lib/common/avl.c\<close> promises its users: the elements in the order of its linked
  list, sorted by the comparator, with new elements behind the equal ones. The PacketBB reader is
  written against this contract.
\<close>

definition store_insert ::
  "('k \<Rightarrow> 'k \<Rightarrow> int) \<Rightarrow> bool \<Rightarrow> ('e \<Rightarrow> 'k) \<Rightarrow> 'e \<Rightarrow> 'e list \<Rightarrow> int \<times> 'e list" where
  "store_insert cmp allow_dups key e xs =
     (if \<not> allow_dups \<and> (\<exists>x\<in>set xs. cmp (key e) (key x) = 0) then (-1, xs)
      else (0, takeWhile (\<lambda>x. 0 \<le> cmp (key e) (key x)) xs @ e #
               dropWhile (\<lambda>x. 0 \<le> cmp (key e) (key x)) xs))"

definition store_sorted :: "('k \<Rightarrow> 'k \<Rightarrow> int) \<Rightarrow> ('e \<Rightarrow> 'k) \<Rightarrow> 'e list \<Rightarrow> bool" where
  "store_sorted cmp key xs \<longleftrightarrow> sorted_wrt (\<lambda>x y. cmp (key x) (key y) \<le> 0) xs"

text \<open>The comparator on 32-bit keys (\<open>avl_comp_uint32\<close>), at the integer values the reader uses.\<close>

definition avl_comp_int :: "int \<Rightarrow> int \<Rightarrow> int" where
  "avl_comp_int u1 u2 = (if u2 < u1 then 1 else if u1 < u2 then -1 else 0)"

interpretation avl_int: comparator avl_comp_int
  by unfold_locales (auto simp: avl_comp_int_def split: if_splits)

text \<open>\<open>lib/common/avl_comp.c\<close>: the comparators at their widths, and on memory blocks of one length.\<close>

definition avl_comp_uint32 :: "u32 \<Rightarrow> u32 \<Rightarrow> int" where
  "avl_comp_uint32 u1 u2 = (if u2 < u1 then 1 else if u1 < u2 then -1 else 0)"

definition avl_comp_uint16 :: "u16 \<Rightarrow> u16 \<Rightarrow> int" where
  "avl_comp_uint16 u1 u2 = (if u2 < u1 then 1 else if u1 < u2 then -1 else 0)"

definition avl_comp_uint8 :: "u8 \<Rightarrow> u8 \<Rightarrow> int" where
  "avl_comp_uint8 u1 u2 = (if u2 < u1 then 1 else if u1 < u2 then -1 else 0)"

definition avl_comp_mem :: "nat \<Rightarrow> bytes \<Rightarrow> bytes \<Rightarrow> int" where
  "avl_comp_mem len k1 k2 = memcmp (take len k1) (take len k2)"

text \<open>\<open>strcasecmp\<close> in the C locale: capital letters count as the small ones, and the text that ends first comes first.\<close>

definition tolower :: "char \<Rightarrow> char" where
  "tolower c = (let n = of_char c :: nat in if 65 \<le> n \<and> n \<le> 90 then char_of (n + 32) else c)"

definition strcasecmp :: "string \<Rightarrow> string \<Rightarrow> int" where
  "strcasecmp s t = memcmp (map (of_char \<circ> tolower) s) (map (of_char \<circ> tolower) t)"

definition avl_comp_strcasecmp :: "string \<Rightarrow> string \<Rightarrow> int" where
  "avl_comp_strcasecmp txt1 txt2 = strcasecmp txt1 txt2"

interpretation avl_str: comparator avl_comp_strcasecmp
  by unfold_locales (auto simp: avl_comp_strcasecmp_def strcasecmp_def intro: mem.cmp_antisym elim: mem.cmp_trans)

text \<open>Two texts are one key exactly when they differ in nothing but the case of letters.\<close>

lemma of_char_u8_inj: "(of_char c :: u8) = of_char d \<longleftrightarrow> c = d"
proof
  assume "(of_char c :: u8) = of_char d"
  then have "(of_nat (of_char c) :: u8) = of_nat (of_char d)" by (simp only: of_nat_of_char)
  then have "unat (of_nat (of_char c) :: u8) = unat (of_nat (of_char d) :: u8)" by simp
  then have "(of_char c :: nat) mod 256 = of_char d mod 256" by (simp add: unat_of_nat)
  then have "(of_char c :: nat) = of_char d" by simp
  then show "c = d" by simp
qed simp

lemma avl_comp_strcasecmp_zero: "avl_comp_strcasecmp s t = 0 \<longleftrightarrow> map tolower s = map tolower t"
proof -
  have "inj (of_char :: char \<Rightarrow> u8)" by (rule injI) (simp add: of_char_u8_inj)
  then have "map (of_char :: char \<Rightarrow> u8) (map tolower s) = map of_char (map tolower t) \<longleftrightarrow> map tolower s = map tolower t"
    by (rule inj_map_eq_map)
  then show ?thesis by (simp add: avl_comp_strcasecmp_def strcasecmp_def memcmp_zero_iff)
qed

interpretation avl_u32: comparator avl_comp_uint32
  by unfold_locales (auto simp: avl_comp_uint32_def split: if_splits)

interpretation avl_u16: comparator avl_comp_uint16
  by unfold_locales (auto simp: avl_comp_uint16_def split: if_splits)

interpretation avl_u8: comparator avl_comp_uint8
  by unfold_locales (auto simp: avl_comp_uint8_def split: if_splits)

interpretation avl_mem: comparator "avl_comp_mem len" for len
  by unfold_locales (auto simp: avl_comp_mem_def intro: mem.cmp_antisym elim: mem.cmp_trans)

lemma avl_comp_uint32_int: "avl_comp_uint32 u1 u2 = avl_comp_int (uint u1) (uint u2)"
  by (simp add: avl_comp_uint32_def avl_comp_int_def word_less_def)

lemma span_set: "set (takeWhile P xs) \<union> set (dropWhile P xs) = set xs"
  by (metis set_append takeWhile_dropWhile_id)

lemma span_length: "length (takeWhile P xs) + length (dropWhile P xs) = length xs"
  by (metis length_append takeWhile_dropWhile_id)

lemma store_insert_set:
  "store_insert cmp d key e xs = (0, ys) \<Longrightarrow> set ys = insert e (set xs)"
  unfolding span_set[of "\<lambda>x. 0 \<le> cmp (key e) (key x)" xs, symmetric]
  by (auto simp only: store_insert_def split: if_splits) auto

lemma store_insert_length:
  "length (snd (store_insert cmp True key e xs)) = Suc (length xs)"
  using span_length[of "\<lambda>x. 0 \<le> cmp (key e) (key x)" xs] by (simp add: store_insert_def)

context comparator
begin

lemma store_insert_sorted:
  assumes "store_sorted cmp key xs"
  shows "store_sorted cmp key (snd (store_insert cmp d key e xs))"
proof -
  let ?P = "\<lambda>x. 0 \<le> cmp (key e) (key x)"
  have "sorted_wrt (\<lambda>x y. cmp (key x) (key y) \<le> 0) (takeWhile ?P xs @ dropWhile ?P xs)"
    using assms by (simp add: store_sorted_def)
  note s = this[unfolded sorted_wrt_append]
  have "cmp (key e) (key y) \<le> 0" if y: "y \<in> set (dropWhile ?P xs)" for y
  proof -
    from y obtain z zs where d: "dropWhile ?P xs = z # zs" by (cases "dropWhile ?P xs") auto
    then have z: "cmp (key e) (key z) < 0" using hd_dropWhile[of ?P xs] by auto
    from y d have "y = z \<or> y \<in> set zs" by simp
    then show ?thesis
    proof
      assume "y \<in> set zs"
      with s d have "cmp (key z) (key y) \<le> 0" by simp
      with z cmp_less_le_trans show ?thesis by (meson order.strict_implies_order)
    qed (use z in simp)
  qed
  moreover have "cmp (key x) (key e) \<le> 0" if "x \<in> set (takeWhile ?P xs)" for x
    using set_takeWhileD[OF that] cmp_nonneg_iff by blast
  ultimately show ?thesis
    using s assms by (simp add: store_insert_def store_sorted_def sorted_wrt_append)
qed

end

end
