(* ===== verification/PbbParse.thy ===== *)
theory PbbParse
  imports PbbContext SortedStore
begin

text \<open>
  \<open>lib/packetbb/pbb_reader.c\<close>, first part: the functions that turn bytes into TLV entries and address
  blocks. The packet is an array of bytes; the C pointers into it (\<open>ptr\<close>, \<open>eob\<close>, value pointers) are
  positions, \<open>NULL\<close> is \<open>None\<close>. A read or write outside an array is \<open>OutOfBounds\<close>. Memory comes from
  allocators that may fail: \<open>alloc k\<close> says whether the \<open>k\<close>-th call succeeds, and \<open>mem\<close> counts the
  calls and the blocks in use.
\<close>

section \<open>Reading with a sticky error\<close>

text \<open>A read works on the position and the result variable of the caller; once the result is not
  \<open>PBB_OKAY\<close> the reads return 0 and do not move.\<close>

type_synonym rd = "nat \<times> pbb_result"

definition pbb_get_u8 :: "bytes \<Rightarrow> nat \<Rightarrow> rd \<Rightarrow> u8 \<times> rd" where
  "pbb_get_u8 buf end s =
     (case s of (ptr, error) \<Rightarrow>
        if error \<noteq> PBB_OKAY then (0, ptr, error)
        else if end \<le> ptr then (0, ptr, PBB_END_OF_BUFFER)
        else (buf ! ptr, ptr + 1, error))"

definition pbb_get_u16 :: "bytes \<Rightarrow> nat \<Rightarrow> rd \<Rightarrow> u16 \<times> rd" where
  "pbb_get_u16 buf end s =
     (let (h, s) = pbb_get_u8 buf end s; (l, s) = pbb_get_u8 buf end s in (mk16 h l, s))"

section \<open>TLV entries\<close>

record tlv_entry =
  t_type :: u8
  t_flags :: u8
  t_type_ext :: u8
  t_length :: u16
  single_value :: "nat option"
  index1 :: u8
  index2 :: u8
  int_order :: u16
  int_value :: "nat option"
  int_multivalue_tlv :: bool
  int_drop_tlv :: "u32 list"

definition empty_tlv :: tlv_entry where
  "empty_tlv = \<lparr>t_type = 0, t_flags = 0, t_type_ext = 0, t_length = 0, single_value = None,
     index1 = 0, index2 = 0, int_order = 0, int_value = None, int_multivalue_tlv = False,
     int_drop_tlv = replicate 8 0\<rparr>"

definition calc_tlv_intorder :: "u8 \<Rightarrow> u8 \<Rightarrow> int" where
  "calc_tlv_intorder type exttype = push_bit 8 (uint type) OR uint exttype"

definition has_same_tlvtype :: "int \<Rightarrow> int \<Rightarrow> bool" where
  "has_same_tlvtype int_type1 int_type2 \<longleftrightarrow> int_type1 AND 0xff00 = int_type2 AND 0xff00"

text \<open>Type, flags and type extension.\<close>

definition parse_tlv_type :: "bytes \<Rightarrow> nat \<Rightarrow> tlv_entry \<Rightarrow> rd \<Rightarrow> tlv_entry \<times> rd" where
  "parse_tlv_type buf eob entry s =
     (let (ty, s) = pbb_get_u8 buf eob s;
          (fl, s) = pbb_get_u8 buf eob s;
          (ext, s) = (if fl AND PBB_TLV_FLAG_TYPEEXT \<noteq> 0 then pbb_get_u8 buf eob s else (0, s))
      in (entry\<lparr>t_type := ty, t_flags := fl, t_type_ext := ext,
            int_order := word_of_int (calc_tlv_intorder ty ext)\<rparr>, s))"

text \<open>The index range.\<close>

definition parse_tlv_index :: "bytes \<Rightarrow> nat \<Rightarrow> tlv_entry \<Rightarrow> rd \<Rightarrow> tlv_entry \<times> rd" where
  "parse_tlv_index buf eob entry s =
     (let masked = t_flags entry AND (PBB_TLV_FLAG_SINGLE_IDX OR PBB_TLV_FLAG_MULTI_IDX)
      in if masked = 0 then (entry\<lparr>index1 := 0, index2 := 255\<rparr>, s)
         else if masked = PBB_TLV_FLAG_SINGLE_IDX
         then let (i, s) = pbb_get_u8 buf eob s in (entry\<lparr>index1 := i, index2 := i\<rparr>, s)
         else if masked = PBB_TLV_FLAG_MULTI_IDX
         then let (i, s) = pbb_get_u8 buf eob s; (j, s) = pbb_get_u8 buf eob s
              in (entry\<lparr>index1 := i, index2 := j\<rparr>, s)
         else (entry, (fst s, PBB_BAD_TLV_IDXFLAGS)))"

text \<open>The length field.\<close>

definition parse_tlv_length :: "bytes \<Rightarrow> nat \<Rightarrow> tlv_entry \<Rightarrow> rd \<Rightarrow> tlv_entry \<times> rd" where
  "parse_tlv_length buf eob entry s =
     (let masked = t_flags entry AND (PBB_TLV_FLAG_VALUE OR PBB_TLV_FLAG_EXTVALUE)
      in if masked = 0 then (entry\<lparr>t_length := 0\<rparr>, s)
         else if masked = PBB_TLV_FLAG_VALUE
         then let (n, s) = pbb_get_u8 buf eob s in (entry\<lparr>t_length := ucast n\<rparr>, s)
         else if masked = PBB_TLV_FLAG_EXTVALUE OR PBB_TLV_FLAG_VALUE
         then let (n, s) = pbb_get_u16 buf eob s in (entry\<lparr>t_length := n\<rparr>, s)
         else (entry, (fst s, PBB_BAD_TLV_VALUEFLAGS)))"

text \<open>The value and its division among the addresses of a multivalue TLV. The count is an \<open>uint8_t\<close>.\<close>

definition parse_tlv_value :: "tlv_entry \<Rightarrow> nat \<Rightarrow> halt + pbb_result \<times> tlv_entry \<times> nat" where
  "parse_tlv_value entry ptr =
     (if t_length entry = 0 then Inr (PBB_OKAY, entry\<lparr>int_value := None\<rparr>, ptr)
      else
        let entry = entry\<lparr>int_value := Some ptr\<rparr>;
            ptr = ptr + unat (t_length entry);
            count = index2 entry - index1 entry + 1;
            entry = (if count = 1 then entry\<lparr>int_multivalue_tlv := False\<rparr> else entry)
        in if \<not> int_multivalue_tlv entry
           then Inr (PBB_OKAY, entry\<lparr>single_value := int_value entry\<rparr>, ptr)
           else if count = 0 then Inl DivByZero
           else if t_length entry mod ucast count \<noteq> 0 then Inr (PBB_BAD_TLV_LENGTH, entry, ptr)
           else Inr (PBB_OKAY, entry\<lparr>t_length := t_length entry div ucast count\<rparr>, ptr))"

definition parse_tlv :: "bytes \<Rightarrow> nat \<Rightarrow> tlv_entry \<Rightarrow> nat \<Rightarrow> halt + pbb_result \<times> tlv_entry \<times> nat" where
  "parse_tlv buf eob entry ptr =
     (let (entry, s) = parse_tlv_type buf eob entry (ptr, PBB_OKAY);
          (entry, s) = parse_tlv_index buf eob entry s;
          (entry, s) = parse_tlv_length buf eob entry s;
          entry = entry\<lparr>int_multivalue_tlv := t_flags entry AND PBB_TLV_FLAG_MULTIVALUE \<noteq> 0\<rparr>;
          (ptr, result) = s;
          result = (if eob < ptr + unat (t_length entry) then PBB_END_OF_BUFFER else result)
      in if result \<noteq> PBB_OKAY then Inr (result, entry, eob)
         else parse_tlv_value entry ptr)"

section \<open>Memory\<close>

record mem =
  calls :: nat
  live :: int

definition mem_alloc :: "(nat \<Rightarrow> bool) \<Rightarrow> mem \<Rightarrow> bool \<times> mem" where
  "mem_alloc alloc m =
     (let ok = alloc (calls m) in (ok, \<lparr>calls = calls m + 1, live = live m + (if ok then 1 else 0)\<rparr>))"

definition mem_free :: "nat \<Rightarrow> mem \<Rightarrow> mem" where
  "mem_free n m = m\<lparr>live := live m - int n\<rparr>"

definition free_tlvblock :: "tlv_entry list \<Rightarrow> mem \<Rightarrow> mem" where
  "free_tlvblock entries m = mem_free (length entries) m"

section \<open>Progress of a TLV\<close>

text \<open>A step of the sticky reader that ends well started well and did not go back or past the end.\<close>

definition rd_step :: "nat \<Rightarrow> nat \<Rightarrow> rd \<Rightarrow> rd \<Rightarrow> bool" where
  "rd_step eob k s s' \<longleftrightarrow>
     (snd s' = PBB_OKAY \<longrightarrow> snd s = PBB_OKAY \<and> fst s + k \<le> fst s' \<and> (fst s' = fst s \<or> fst s' \<le> eob))"

lemma rd_step_trans: "rd_step eob j s t \<Longrightarrow> rd_step eob k t u \<Longrightarrow> rd_step eob (j + k) s u"
  by (auto simp: rd_step_def)

lemma rd_step_refl [simp]: "rd_step eob 0 s s"
  by (simp add: rd_step_def)

lemma rd_step_weaken: "rd_step eob k s t \<Longrightarrow> j \<le> k \<Longrightarrow> rd_step eob j s t"
  by (auto simp: rd_step_def)

lemma rd_step_err: "r \<noteq> PBB_OKAY \<Longrightarrow> rd_step eob k s (p, r)"
  by (simp add: rd_step_def)

lemma get_u8_step: "pbb_get_u8 buf eob s = (v, s') \<Longrightarrow> rd_step eob 1 s s'"
  by (auto simp: pbb_get_u8_def rd_step_def split: prod.splits if_splits)

lemma get_u16_step: "pbb_get_u16 buf eob s = (v, s') \<Longrightarrow> rd_step eob 2 s s'"
proof -
  assume a: "pbb_get_u16 buf eob s = (v, s')"
  obtain h s1 where 1: "pbb_get_u8 buf eob s = (h, s1)" by (metis surj_pair)
  obtain l s2 where 2: "pbb_get_u8 buf eob s1 = (l, s2)" by (metis surj_pair)
  from a 1 2 have "s' = s2" by (simp add: pbb_get_u16_def)
  with rd_step_trans[OF get_u8_step[OF 1] get_u8_step[OF 2]] show ?thesis by (simp add: numeral_2_eq_2)
qed

lemma parse_tlv_type_step: "parse_tlv_type buf eob e s = (e', s') \<Longrightarrow> rd_step eob 2 s s'"
proof -
  assume a: "parse_tlv_type buf eob e s = (e', s')"
  obtain ty s1 where 1: "pbb_get_u8 buf eob s = (ty, s1)" by (metis surj_pair)
  obtain fl s2 where 2: "pbb_get_u8 buf eob s1 = (fl, s2)" by (metis surj_pair)
  have "rd_step eob 2 s s2" using rd_step_trans[OF get_u8_step[OF 1] get_u8_step[OF 2]] by (simp add: numeral_2_eq_2)
  moreover have "rd_step eob 0 s2 s'"
    using a 1 2 get_u8_step[of buf eob s2]
    by (auto simp: parse_tlv_type_def intro: rd_step_weaken split: if_splits prod.splits)
  ultimately show ?thesis using rd_step_trans[of eob 2 s s2 0 s'] by simp
qed

lemma parse_tlv_index_step: "parse_tlv_index buf eob e s = (e', s') \<Longrightarrow> rd_step eob 0 s s'"
proof -
  assume a: "parse_tlv_index buf eob e s = (e', s')"
  obtain i s1 where 1: "pbb_get_u8 buf eob s = (i, s1)" by (metis surj_pair)
  obtain j s2 where 2: "pbb_get_u8 buf eob s1 = (j, s2)" by (metis surj_pair)
  show ?thesis
    using a 1 2 get_u8_step[OF 1] rd_step_trans[OF get_u8_step[OF 1] get_u8_step[OF 2]]
    by (auto simp: parse_tlv_index_def Let_def intro: rd_step_weaken rd_step_err split: if_splits)
qed

lemma parse_tlv_length_step: "parse_tlv_length buf eob e s = (e', s') \<Longrightarrow> rd_step eob 0 s s'"
proof -
  assume a: "parse_tlv_length buf eob e s = (e', s')"
  obtain i s1 where 1: "pbb_get_u8 buf eob s = (i, s1)" by (metis surj_pair)
  obtain n s2 where 2: "pbb_get_u16 buf eob s = (n, s2)" by (metis surj_pair)
  show ?thesis
    using a 1 2 get_u8_step[OF 1] get_u16_step[OF 2]
    by (auto simp: parse_tlv_length_def Let_def intro: rd_step_weaken rd_step_err split: if_splits)
qed

lemma parse_tlv_value_ok:
  "parse_tlv_value e ptr = Inr (PBB_OKAY, e', ptr') \<Longrightarrow>
     ptr' = ptr + unat (t_length e) \<and> t_type e' = t_type e \<and> int_order e' = int_order e \<and>
     int_drop_tlv e' = int_drop_tlv e \<and>
     int_value e' = (if t_length e = 0 then None else Some ptr)"
  by (auto simp: parse_tlv_value_def Let_def split: if_splits)

lemma parse_tlv_progress:
  assumes "parse_tlv buf eob e ptr = Inr (PBB_OKAY, e', ptr')"
  shows "ptr + 2 \<le> ptr' \<and> ptr' \<le> eob"
proof -
  obtain e1 s1 where 1: "parse_tlv_type buf eob e (ptr, PBB_OKAY) = (e1, s1)" by (metis surj_pair)
  obtain e2 s2 where 2: "parse_tlv_index buf eob e1 s1 = (e2, s2)" by (metis surj_pair)
  obtain e3 s3 where 3: "parse_tlv_length buf eob e2 s2 = (e3, s3)" by (metis surj_pair)
  obtain p r where s3: "s3 = (p, r)" by (metis surj_pair)
  have st: "rd_step eob 2 (ptr, PBB_OKAY) s3"
    using rd_step_trans[OF rd_step_trans[OF parse_tlv_type_step[OF 1] parse_tlv_index_step[OF 2]]
        parse_tlv_length_step[OF 3]] by simp
  from assms 1 2 3 s3 have r: "r = PBB_OKAY" and b: "p + unat (t_length e3) \<le> eob"
    and v: "parse_tlv_value (e3\<lparr>int_multivalue_tlv := t_flags e3 AND PBB_TLV_FLAG_MULTIVALUE \<noteq> 0\<rparr>) p =
        Inr (PBB_OKAY, e', ptr')"
    by (auto simp: parse_tlv_def Let_def split: if_splits)
  have "ptr' = p + unat (t_length e3)" using parse_tlv_value_ok[OF v] by simp
  moreover have "ptr + 2 \<le> p" using st s3 r by (auto simp: rd_step_def)
  ultimately show ?thesis using b by simp
qed

section \<open>TLV blocks\<close>

text \<open>The loop of \<open>_parse_tlvblock\<close>. The TLVs are bounded by \<open>eob\<close>, not by the end of the block, and
  the static entry keeps the fields of the previous TLV.\<close>

function tlvblock_loop ::
  "(nat \<Rightarrow> bool) \<Rightarrow> bytes \<Rightarrow> nat \<Rightarrow> nat \<Rightarrow> tlv_entry \<Rightarrow> pbb_result \<Rightarrow> tlv_entry list \<Rightarrow> nat \<Rightarrow> mem \<Rightarrow>
     halt + pbb_result \<times> tlv_entry list \<times> nat \<times> mem" where
  "tlvblock_loop alloc buf end eob entry result tlvs ptr m =
     (if end \<le> ptr then Inr (result, tlvs, ptr, m)
      else
        case parse_tlv buf eob entry ptr of
          Inl h \<Rightarrow> Inl h
        | Inr (result, entry, ptr') \<Rightarrow>
            if result \<noteq> PBB_OKAY then Inr (result, tlvs, ptr', m)
            else
              case mem_alloc alloc m of
                (False, m) \<Rightarrow> Inr (PBB_OUT_OF_MEMORY, tlvs, ptr', m)
              | (True, m) \<Rightarrow>
                  tlvblock_loop alloc buf end eob entry result
                    (snd (store_insert avl_comp_int True (\<lambda>e. uint (int_order e)) entry tlvs)) ptr' m)"
  by pat_completeness auto
termination
  by (relation "measure (\<lambda>(alloc, buf, end, eob, entry, result, tlvs, ptr, m). end - ptr)")
    (auto dest!: parse_tlv_progress)

declare tlvblock_loop.simps [simp del]

definition parse_tlvblock ::
  "(nat \<Rightarrow> bool) \<Rightarrow> bytes \<Rightarrow> tlv_entry list \<Rightarrow> nat \<Rightarrow> nat \<Rightarrow> mem \<Rightarrow>
     halt + pbb_result \<times> tlv_entry list \<times> nat \<times> mem" where
  "parse_tlvblock alloc buf tlvblock ptr eob m =
     (let (len, ptr, result) = pbb_get_u16 buf eob (ptr, PBB_OKAY);
          end = ptr + unat len;
          cleanup = (\<lambda>(result, tlvs, ptr, m).
            if result \<noteq> PBB_OKAY then (result, [], eob, free_tlvblock tlvs m) else (result, tlvs, ptr, m))
      in if eob < end then Inr (cleanup (PBB_END_OF_BUFFER, tlvblock, ptr, m))
         else rbind (tlvblock_loop alloc buf end eob empty_tlv result tlvblock ptr m) (\<lambda>x. Inr (cleanup x)))"

lemma tlvblock_loop_ok:
  "tlvblock_loop alloc buf end eob e r0 ts q m0 = Inr (PBB_OKAY, tlvs', q', m1) \<Longrightarrow>
     q \<le> end \<Longrightarrow> end \<le> eob \<Longrightarrow> (q = end \<longrightarrow> r0 = PBB_OKAY) \<and> q \<le> q' \<and> q' \<le> eob"
proof (induction alloc buf "end" eob e r0 ts q m0 rule: tlvblock_loop.induct)
  case (1 alloc buf "end" eob e r0 ts q m0)
  show ?case
  proof (cases "end \<le> q")
    case True
    with 1 show ?thesis by (simp add: tlvblock_loop.simps)
  next
    case False
    with "1.prems"(1) obtain e1 q1 m1' where p: "parse_tlv buf eob e q = Inr (PBB_OKAY, e1, q1)"
      and a: "mem_alloc alloc m0 = (True, m1')"
      and r: "tlvblock_loop alloc buf end eob e1 PBB_OKAY
        (snd (store_insert avl_comp_int True (\<lambda>e. uint (int_order e)) e1 ts)) q1 m1' = Inr (PBB_OKAY, tlvs', q', m1)"
      by (subst (asm) tlvblock_loop.simps) (auto split: sum.splits prod.splits if_splits bool.splits)
    note pr = parse_tlv_progress[OF p]
    show ?thesis
    proof (cases "q1 \<le> end")
      case True
      from "1.IH"[OF False p refl refl _ a[symmetric] refl r True "1.prems"(3)] pr False show ?thesis by auto
    next
      case nle: False
      with r have "q' = q1" by (simp add: tlvblock_loop.simps)
      with pr False show ?thesis by simp
    qed
  qed
qed

lemma get_u16_fail:
  "pbb_get_u16 buf eob (ptr, PBB_OKAY) = (len, p, r) \<Longrightarrow> r \<noteq> PBB_OKAY \<Longrightarrow> eob \<le> p \<or> unat len = 0"
  by (auto simp: pbb_get_u16_def pbb_get_u8_def unat_mk16 split: prod.splits if_splits)

lemma parse_tlvblock_progress:
  assumes "parse_tlvblock alloc buf ts ptr eob m = Inr (PBB_OKAY, tlvs, ptr', m')"
  shows "ptr + 2 \<le> ptr' \<and> ptr' \<le> eob"
proof -
  obtain len s where g: "pbb_get_u16 buf eob (ptr, PBB_OKAY) = (len, s)" by (metis surj_pair)
  obtain p r where s: "s = (p, r)" by (metis surj_pair)
  from assms g s obtain tlvs1 where
    l: "tlvblock_loop alloc buf (p + unat len) eob empty_tlv r ts p m = Inr (PBB_OKAY, tlvs1, ptr', m')"
    and e: "p + unat len \<le> eob"
    by (auto simp: parse_tlvblock_def Let_def rbind_Inr_iff split: if_splits)
  note lo = tlvblock_loop_ok[OF l _ e]
  have "r = PBB_OKAY" using get_u16_fail[of buf eob ptr len p r] g s lo e by force
  moreover have "rd_step eob 2 (ptr, PBB_OKAY) (p, r)" using get_u16_step[OF g] s by simp
  ultimately have "ptr + 2 \<le> p" by (simp add: rd_step_def)
  with lo show ?thesis by simp
qed

text \<open>No parse error is a drop result.\<close>

lemma get_u8_err: "snd s \<le> PBB_OKAY \<Longrightarrow> pbb_get_u8 buf eob s = (v, s') \<Longrightarrow> snd s' \<le> PBB_OKAY"
  by (auto simp: pbb_get_u8_def less_eq_pbb_result_def split: prod.splits if_splits)

lemma get_u16_err: "snd s \<le> PBB_OKAY \<Longrightarrow> pbb_get_u16 buf eob s = (v, s') \<Longrightarrow> snd s' \<le> PBB_OKAY"
  by (auto simp: pbb_get_u16_def split: prod.splits dest!: get_u8_err[rotated])

lemma err_le: "PBB_OKAY \<le> PBB_OKAY" "PBB_END_OF_BUFFER \<le> PBB_OKAY" "PBB_BAD_TLV_IDXFLAGS \<le> PBB_OKAY"
  "PBB_BAD_TLV_VALUEFLAGS \<le> PBB_OKAY" "PBB_BAD_TLV_LENGTH \<le> PBB_OKAY" "PBB_OUT_OF_MEMORY \<le> PBB_OKAY"
  "PBB_EMPTY_ADDRBLOCK \<le> PBB_OKAY" "PBB_BAD_MSG_TAILFLAGS \<le> PBB_OKAY" "PBB_BAD_MSG_PREFIXFLAGS \<le> PBB_OKAY"
  by (simp_all add: less_eq_pbb_result_def)

lemma parse_tlv_value_err: "parse_tlv_value e p = Inr (r, e', p') \<Longrightarrow> r \<le> PBB_OKAY"
  by (auto simp: parse_tlv_value_def Let_def err_le split: if_splits)

lemma parse_tlv_err:
  assumes "parse_tlv buf eob e ptr = Inr (r, e', ptr')"
  shows "r \<le> PBB_OKAY"
proof -
  obtain e1 s1 where 1: "parse_tlv_type buf eob e (ptr, PBB_OKAY) = (e1, s1)" by (metis surj_pair)
  obtain e2 s2 where 2: "parse_tlv_index buf eob e1 s1 = (e2, s2)" by (metis surj_pair)
  obtain e3 s3 where 3: "parse_tlv_length buf eob e2 s2 = (e3, s3)" by (metis surj_pair)
  have "snd s1 \<le> PBB_OKAY"
    using 1 by (auto simp: parse_tlv_type_def err_le split: prod.splits if_splits dest!: get_u8_err[rotated])
  then have "snd s2 \<le> PBB_OKAY"
    using 2 by (auto simp: parse_tlv_index_def Let_def err_le split: prod.splits if_splits
        dest!: get_u8_err[rotated])
  then have "snd s3 \<le> PBB_OKAY"
    using 3 by (auto simp: parse_tlv_length_def Let_def err_le split: prod.splits if_splits
        dest!: get_u8_err[rotated] get_u16_err[rotated])
  moreover obtain p r3 where "s3 = (p, r3)" by (metis surj_pair)
  ultimately show ?thesis
    using assms 1 2 3 by (auto simp: parse_tlv_def Let_def err_le split: if_splits dest: parse_tlv_value_err)
qed

lemma tlvblock_loop_err:
  "tlvblock_loop alloc buf end eob e r0 ts q m0 = Inr (r, tlvs', q', m1) \<Longrightarrow> r0 \<le> PBB_OKAY \<Longrightarrow> r \<le> PBB_OKAY"
proof (induction alloc buf "end" eob e r0 ts q m0 rule: tlvblock_loop.induct)
  case (1 alloc buf "end" eob e r0 ts q m0)
  show ?case
  proof (cases "end \<le> q")
    case True
    with "1.prems" show ?thesis by (simp add: tlvblock_loop.simps)
  next
    case False
    note u = "1.prems"(1)[unfolded tlvblock_loop.simps[of alloc buf "end" eob e r0 ts q m0]]
    from u False obtain r1 e1 q1 where p: "parse_tlv buf eob e q = Inr (r1, e1, q1)"
      by (auto split: sum.splits)
    show ?thesis
    proof (cases "r1 = PBB_OKAY")
      case ne: False
      with u False p have "r = r1" by simp
      with parse_tlv_err[OF p] show ?thesis by simp
    next
      case eq: True
      obtain ok m1' where a: "mem_alloc alloc m0 = (ok, m1')" by (metis surj_pair)
      show ?thesis
      proof (cases ok)
        case True
        with u False p eq a have "tlvblock_loop alloc buf end eob e1 r1
            (snd (store_insert avl_comp_int True (\<lambda>e. uint (int_order e)) e1 ts)) q1 m1' = Inr (r, tlvs', q', m1)"
          by simp
        from "1.IH"[OF False p refl refl _ a[symmetric] _ this] eq True show ?thesis by simp
      qed (use u False p eq a in \<open>simp add: err_le\<close>)
    qed
  qed
qed

lemma parse_tlvblock_err: "parse_tlvblock alloc buf ts ptr eob m = Inr (r, tlvs, ptr', m') \<Longrightarrow> r \<le> PBB_OKAY"
  by (auto simp: parse_tlvblock_def Let_def rbind_Inr_iff err_le split: prod.splits if_splits
      dest!: get_u16_err[rotated] tlvblock_loop_err)

section \<open>Address blocks\<close>

record addrblock =
  tlvblock :: "tlv_entry list"
  num_addr :: u8
  mid_start :: u8
  mid_len :: u8
  prefixes :: "nat option"
  mid_src :: nat
  ab_addr :: bytes
  ab_prefixlen :: u8
  dropAddr :: "u32 list"

definition empty_addrblock :: addrblock where
  "empty_addrblock = \<lparr>tlvblock = [], num_addr = 0, mid_start = 0, mid_len = 0, prefixes = None, mid_src = 0,
     ab_addr = replicate PBB_MAX_ADDRLEN 0, ab_prefixlen = 0, dropAddr = replicate 8 0\<rparr>"

text \<open>The head of the addresses. The length byte may exceed the 16 bytes of the buffer.\<close>

definition parse_addr_head ::
  "bytes \<Rightarrow> nat \<Rightarrow> u8 \<Rightarrow> addrblock \<Rightarrow> rd \<Rightarrow> halt + (pbb_result + addrblock \<times> rd)" where
  "parse_addr_head buf eob flags a s =
     (if flags AND PBB_ADDR_FLAG_HEAD = 0 then Inr (Inr (a, s))
      else
        let (n, ptr, result) = pbb_get_u8 buf eob s; a = a\<lparr>mid_start := n\<rparr>
        in if eob < ptr + unat n then Inr (Inl PBB_END_OF_BUFFER)
           else rbind (memcpy (ab_addr a) 0 (sub_bytes ptr (unat n) buf)) (\<lambda>addr.
             Inr (Inr (a\<lparr>ab_addr := addr, mid_len := mid_len a - n\<rparr>, ptr + unat n, result))))"

text \<open>The tail. A tail longer than the address makes the target start before the buffer.\<close>

definition parse_addr_tail ::
  "bytes \<Rightarrow> nat \<Rightarrow> u8 \<Rightarrow> u8 \<Rightarrow> addrblock \<Rightarrow> rd \<Rightarrow> halt + (pbb_result + addrblock \<times> rd)" where
  "parse_addr_tail buf eob flags addr_len a s =
     (let masked = flags AND (PBB_ADDR_FLAG_FULLTAIL OR PBB_ADDR_FLAG_ZEROTAIL)
      in if masked = PBB_ADDR_FLAG_ZEROTAIL
         then let (n, s) = pbb_get_u8 buf eob s in Inr (Inr (a\<lparr>mid_len := mid_len a - n\<rparr>, s))
         else if masked = PBB_ADDR_FLAG_FULLTAIL
         then
           let (n, ptr, result) = pbb_get_u8 buf eob s
           in if eob < ptr + unat n then Inr (Inl PBB_END_OF_BUFFER)
              else if addr_len < n then Inl OutOfBounds
              else rbind (memcpy (ab_addr a) (unat addr_len - unat n) (sub_bytes ptr (unat n) buf)) (\<lambda>addr.
                Inr (Inr (a\<lparr>ab_addr := addr, mid_len := mid_len a - n\<rparr>, ptr + unat n, result)))
         else if masked \<noteq> 0 then Inr (Inl PBB_BAD_MSG_TAILFLAGS)
         else Inr (Inr (a, s)))"

text \<open>The prefix lengths. A single one is read before its position is compared with the end.\<close>

definition parse_addr_prefix ::
  "bytes \<Rightarrow> nat \<Rightarrow> u8 \<Rightarrow> u8 \<Rightarrow> addrblock \<Rightarrow> nat \<Rightarrow> halt + (pbb_result + addrblock \<times> nat)" where
  "parse_addr_prefix buf eob flags addr_len a ptr =
     (let masked = flags AND (PBB_ADDR_FLAG_SINGLEPLEN OR PBB_ADDR_FLAG_MULTIPLEN)
      in if masked = 0 then Inr (Inr (a\<lparr>ab_prefixlen := addr_len * 8\<rparr>, ptr))
         else if masked = PBB_ADDR_FLAG_SINGLEPLEN
         then if length buf \<le> ptr then Inl OutOfBounds
              else Inr (Inr (a\<lparr>ab_prefixlen := buf ! ptr\<rparr>, ptr + 1))
         else if masked = PBB_ADDR_FLAG_MULTIPLEN
         then Inr (Inr (a\<lparr>prefixes := Some ptr\<rparr>, ptr + unat (num_addr a)))
         else Inr (Inl PBB_BAD_MSG_PREFIXFLAGS))"

text \<open>The result is \<open>Inl\<close> for a return value other than \<open>PBB_OKAY\<close>: the caller then drops the block and
  does not use \<open>*ptr\<close> again. Otherwise it is the block and the position behind it.\<close>

definition parse_addrblock ::
  "bytes \<Rightarrow> u8 \<Rightarrow> addrblock \<Rightarrow> nat \<Rightarrow> nat \<Rightarrow> halt + (pbb_result + addrblock \<times> nat)" where
  "parse_addrblock buf addr_len a ptr eob =
     (let (n, s) = pbb_get_u8 buf eob (ptr, PBB_OKAY); a = a\<lparr>num_addr := n\<rparr>
      in if n = 0 then Inr (Inl PBB_EMPTY_ADDRBLOCK)
         else
           let (flags, s) = pbb_get_u8 buf eob s
           in rbind (memcpy (ab_addr a) 0 (replicate (unat addr_len) 0)) (\<lambda>addr.
              ebind (parse_addr_head buf eob flags (a\<lparr>ab_addr := addr, mid_len := addr_len\<rparr>) s) (\<lambda>(a, s).
              ebind (parse_addr_tail buf eob flags addr_len a s) (\<lambda>(a, ptr, result).
              let next = ptr + unat (mid_len a) * unat (num_addr a)
              in if eob < next then Inr (Inl PBB_END_OF_BUFFER)
                 else ebind (parse_addr_prefix buf eob flags addr_len (a\<lparr>mid_src := ptr\<rparr>) next) (\<lambda>(a, ptr).
                   if eob < ptr then Inr (Inl PBB_END_OF_BUFFER)
                   else if result \<noteq> PBB_OKAY then Inr (Inl result)
                   else Inr (Inr (a, ptr)))))))"

lemma parse_addr_head_ok:
  assumes "parse_addr_head buf eob flags a s = Inr (Inr (a', s'))"
  shows "rd_step eob 0 s s' \<and> (snd s \<le> PBB_OKAY \<longrightarrow> snd s' \<le> PBB_OKAY)"
proof -
  obtain n s1 where 1: "pbb_get_u8 buf eob s = (n, s1)" by (metis surj_pair)
  show ?thesis
    using assms 1 get_u8_step[OF 1] get_u8_err[OF _ 1]
    by (auto simp: parse_addr_head_def rbind_Inr_iff Let_def rd_step_def split: if_splits prod.splits)
qed

lemma parse_addr_tail_ok:
  assumes "parse_addr_tail buf eob flags al a s = Inr (Inr (a', s'))"
  shows "rd_step eob 0 s s' \<and> (snd s \<le> PBB_OKAY \<longrightarrow> snd s' \<le> PBB_OKAY)"
proof -
  obtain n s1 where 1: "pbb_get_u8 buf eob s = (n, s1)" by (metis surj_pair)
  show ?thesis
    using assms 1 get_u8_step[OF 1] get_u8_err[OF _ 1]
    by (auto simp: parse_addr_tail_def rbind_Inr_iff Let_def rd_step_def split: if_splits prod.splits)
qed

lemma err_less: "PBB_END_OF_BUFFER < PBB_OKAY" "PBB_EMPTY_ADDRBLOCK < PBB_OKAY"
  "PBB_BAD_MSG_TAILFLAGS < PBB_OKAY" "PBB_BAD_MSG_PREFIXFLAGS < PBB_OKAY" "PBB_OUT_OF_MEMORY < PBB_OKAY"
  by (simp_all add: less_pbb_result_def)

lemma parse_addr_part_err:
  "parse_addr_head buf eob flags a s = Inr (Inl r) \<Longrightarrow> r < PBB_OKAY"
  "parse_addr_tail buf eob flags al a s = Inr (Inl r) \<Longrightarrow> r < PBB_OKAY"
  "parse_addr_prefix buf eob flags al a p = Inr (Inl r) \<Longrightarrow> r < PBB_OKAY"
  by (auto simp: parse_addr_head_def parse_addr_tail_def parse_addr_prefix_def rbind_Inr_iff Let_def err_less
      split: if_splits prod.splits)

lemma parse_addr_prefix_ok:
  "parse_addr_prefix buf eob flags al a p = Inr (Inr (a', p')) \<Longrightarrow> p \<le> p'"
  by (auto simp: parse_addr_prefix_def Let_def split: if_splits)

lemma parse_addrblock_steps:
  assumes "parse_addrblock buf al a ptr eob = r" and "pbb_get_u8 buf eob (ptr, PBB_OKAY) = (n, s1)"
    and "pbb_get_u8 buf eob s1 = (f, s2)" and "n \<noteq> 0"
  shows "r = rbind (memcpy (ab_addr a) 0 (replicate (unat al) 0)) (\<lambda>addr.
      ebind (parse_addr_head buf eob f (a\<lparr>num_addr := n, ab_addr := addr, mid_len := al\<rparr>) s2) (\<lambda>(a, s).
      ebind (parse_addr_tail buf eob f al a s) (\<lambda>(a, ptr, result).
      if eob < ptr + unat (mid_len a) * unat (num_addr a) then Inr (Inl PBB_END_OF_BUFFER)
      else ebind (parse_addr_prefix buf eob f al (a\<lparr>mid_src := ptr\<rparr>) (ptr + unat (mid_len a) * unat (num_addr a)))
        (\<lambda>(a, ptr).
           if eob < ptr then Inr (Inl PBB_END_OF_BUFFER)
           else if result \<noteq> PBB_OKAY then Inr (Inl result) else Inr (Inr (a, ptr))))))"
  using assms by (simp add: parse_addrblock_def Let_def)

lemma parse_addrblock_err:
  assumes "parse_addrblock buf al a ptr eob = Inr (Inl r)"
  shows "r < PBB_OKAY"
proof -
  obtain n s1 where 1: "pbb_get_u8 buf eob (ptr, PBB_OKAY) = (n, s1)" by (metis surj_pair)
  obtain f s2 where 2: "pbb_get_u8 buf eob s1 = (f, s2)" by (metis surj_pair)
  have e: "snd s2 \<le> PBB_OKAY" using get_u8_err[OF _ 2] get_u8_err[OF _ 1] by simp
  show ?thesis
  proof (cases "n = 0")
    case True
    with assms 1 show ?thesis by (simp add: parse_addrblock_def err_less)
  next
    case False
    note st = parse_addrblock_steps[OF assms 1 2 this, symmetric]
    from st obtain addr where
      "ebind (parse_addr_head buf eob f (a\<lparr>num_addr := n, ab_addr := addr, mid_len := al\<rparr>) s2) (\<lambda>(a, s).
        ebind (parse_addr_tail buf eob f al a s) (\<lambda>(a, ptr, result).
        if eob < ptr + unat (mid_len a) * unat (num_addr a) then Inr (Inl PBB_END_OF_BUFFER)
        else ebind (parse_addr_prefix buf eob f al (a\<lparr>mid_src := ptr\<rparr>) (ptr + unat (mid_len a) * unat (num_addr a)))
          (\<lambda>(a, ptr).
             if eob < ptr then Inr (Inl PBB_END_OF_BUFFER)
             else if result \<noteq> PBB_OKAY then Inr (Inl result) else Inr (Inr (a, ptr))))) = Inr (Inl r)"
      unfolding rbind_Inr_iff by blast
    then show ?thesis
    proof (rule ebind_retE)
      fix h assume h: "parse_addr_head buf eob f (a\<lparr>num_addr := n, ab_addr := addr, mid_len := al\<rparr>) s2 = Inr (Inr h)"
        and r: "(case h of (a, s) \<Rightarrow> ebind (parse_addr_tail buf eob f al a s) (\<lambda>(a, ptr, result).
          if eob < ptr + unat (mid_len a) * unat (num_addr a) then Inr (Inl PBB_END_OF_BUFFER)
          else ebind (parse_addr_prefix buf eob f al (a\<lparr>mid_src := ptr\<rparr>) (ptr + unat (mid_len a) * unat (num_addr a)))
            (\<lambda>(a, ptr).
               if eob < ptr then Inr (Inl PBB_END_OF_BUFFER)
               else if result \<noteq> PBB_OKAY then Inr (Inl result) else Inr (Inr (a, ptr))))) = Inr (Inl r)"
      obtain a2 s3 where hh: "h = (a2, s3)" by (cases h)
      have e3: "snd s3 \<le> PBB_OKAY" using parse_addr_head_ok h hh e by blast
      from r hh show ?thesis
        by (auto elim!: ebind_retE split: prod.splits if_splits simp: err_less dest: parse_addr_part_err)
          (use e3 in \<open>auto dest: parse_addr_tail_ok parse_addr_part_err\<close>)
    qed (rule parse_addr_part_err)
  qed
qed

lemma parse_addrblock_progress:
  assumes "parse_addrblock buf al a ptr eob = Inr (Inr (a', ptr'))"
  shows "ptr + 2 \<le> ptr' \<and> ptr' \<le> eob"
proof -
  obtain n s1 where 1: "pbb_get_u8 buf eob (ptr, PBB_OKAY) = (n, s1)" by (metis surj_pair)
  obtain f s2 where 2: "pbb_get_u8 buf eob s1 = (f, s2)" by (metis surj_pair)
  have n: "n \<noteq> 0" using assms 1 by (auto simp: parse_addrblock_def)
  from parse_addrblock_steps[OF assms 1 2 n, symmetric] obtain a1 a2 s3 a3 p4 where
    h: "parse_addr_head buf eob f a1 s2 = Inr (Inr (a2, s3))" and
    t: "parse_addr_tail buf eob f al a2 s3 = Inr (Inr (a3, p4, PBB_OKAY))" and
    p: "parse_addr_prefix buf eob f al (a3\<lparr>mid_src := p4\<rparr>)
          (p4 + unat (mid_len a3) * unat (num_addr a3)) = Inr (Inr (a', ptr'))" and
    e: "ptr' \<le> eob"
    unfolding rbind_Inr_iff ebind_ok_iff by (auto simp: ebind_ok_iff split: if_splits prod.splits)
  have "rd_step eob 2 (ptr, PBB_OKAY) (p4, PBB_OKAY)"
    using rd_step_trans[OF rd_step_trans[OF rd_step_trans[OF get_u8_step[OF 1] get_u8_step[OF 2]]
          parse_addr_head_ok[OF h, THEN conjunct1]] parse_addr_tail_ok[OF t, THEN conjunct1]]
    by (simp add: numeral_2_eq_2)
  then have "ptr + 2 \<le> p4" by (simp add: rd_step_def)
  with parse_addr_prefix_ok[OF p] e show ?thesis by simp
qed

end
