(* ===== verification/PbbReader.thy ===== *)
theory PbbReader
  imports PbbParse
begin

text \<open>
  \<open>lib/packetbb/pbb_reader.c\<close>, second part: consumers, the order in which their callbacks run, messages
  and packets. The callbacks work on a state \<open>'st\<close> of the library's client and get the packet's bytes,
  since the entries designate values by position. Consumers are kept in the order of their tree; a
  pointer to a consumer or TLV is its position there. The reader's own fields in a consumer's
  entries change while a packet is handled, so the consumers are part of the state.
\<close>

section \<open>Contexts and consumers\<close>

datatype context_type = PBB_CONTEXT_PACKET | PBB_CONTEXT_MESSAGE | PBB_CONTEXT_ADDRESS

record pctx =
  ctx_type :: context_type
  pkt_version :: u8
  pkt_flags :: u8
  has_pktseqno :: bool
  pkt_seqno :: u16
  msg_type :: u8
  msg_flags :: u8
  addr_len :: u8
  has_hopcount :: bool
  hopcount :: u8
  has_hoplimit :: bool
  hoplimit :: u8
  has_origaddr :: bool
  orig_addr :: bytes
  seqno :: u16
  has_seqno :: bool
  ctx_addr :: "bytes option"
  prefixlen :: u8

definition empty_pctx :: pctx where
  "empty_pctx = \<lparr>ctx_type = PBB_CONTEXT_PACKET, pkt_version = 0, pkt_flags = 0, has_pktseqno = False,
     pkt_seqno = 0, msg_type = 0, msg_flags = 0, addr_len = 0, has_hopcount = False, hopcount = 0,
     has_hoplimit = False, hoplimit = 0, has_origaddr = False, orig_addr = replicate PBB_MAX_ADDRLEN 0,
     seqno = 0, has_seqno = False, ctx_addr = None, prefixlen = 0\<rparr>"

text \<open>An entry of a consumer. The sorting order is an \<open>int\<close> in C that only takes the values of
  \<open>_calc_tlv_intorder\<close>; \<open>copy_value\<close> is the client's buffer or \<open>None\<close>; \<open>c_tlv\<close> is the position of the
  matching TLV.\<close>

record centry =
  c_int_order :: u16
  mandatory :: bool
  c_type :: u8
  match_type_ext :: bool
  c_type_ext :: u8
  copy_value :: "bytes option"
  copy_value_maxlen :: u16
  duplicate_tlv :: bool
  c_tlv :: "nat option"
  c_drop :: bool

record 'st consumer =
  order :: int
  default_msg_consumer :: bool
  msg_id :: u8
  addrblock_consumer :: bool
  consumer_entries :: "centry list"
  start_callback :: "(pctx \<Rightarrow> 'st \<Rightarrow> halt + pbb_result \<times> 'st) option"
  end_callback :: "(pctx \<Rightarrow> bool \<Rightarrow> 'st \<Rightarrow> halt + pbb_result \<times> 'st) option"
  tlv_callback :: "(bytes \<Rightarrow> tlv_entry \<Rightarrow> pctx \<Rightarrow> 'st \<Rightarrow> halt + pbb_result \<times> 'st) option"
  block_callback ::
    "(bytes \<Rightarrow> tlv_entry list \<Rightarrow> centry list \<Rightarrow> pctx \<Rightarrow> bool \<Rightarrow> 'st \<Rightarrow> halt + pbb_result \<times> centry list \<times> 'st) option"

record 'st pbb_reader =
  packet_consumer :: "'st consumer list"
  message_consumer :: "'st consumer list"
  forward_message :: "(pctx \<Rightarrow> bytes \<Rightarrow> nat \<Rightarrow> nat \<Rightarrow> 'st \<Rightarrow> 'st) option"

section \<open>Registering consumers\<close>

definition consumer_avl_comp :: "'st consumer \<Rightarrow> 'st consumer \<Rightarrow> int" where
  "consumer_avl_comp c1 c2 =
     (if order c2 < order c1 then 1
      else if order c1 < order c2 then -1
      else if addrblock_consumer c1 \<and> \<not> addrblock_consumer c2 then 1
      else if \<not> addrblock_consumer c1 \<and> addrblock_consumer c2 then -1
      else 0)"

fun add_entries :: "centry list \<Rightarrow> centry list \<Rightarrow> centry list" where
  "add_entries [] tree = tree"
| "add_entries (e # es) tree =
     (let e = e\<lparr>c_int_order := word_of_int (calc_tlv_intorder (c_type e) (c_type_ext e))\<rparr>
      in add_entries es (snd (store_insert avl_comp_int False (\<lambda>e. uint (c_int_order e)) e tree)))"

text \<open>\<open>_add_consumer\<close>: the consumer is in the tree (compared by the key \<open>consumer\<close> itself) before the
  callers set the fields that the comparison reads, as in the code.\<close>

definition add_consumer ::
  "'st consumer \<Rightarrow> 'st consumer list \<Rightarrow> centry list \<Rightarrow> int \<Rightarrow> ('st consumer \<Rightarrow> 'st consumer) \<Rightarrow> 'st consumer list" where
  "add_consumer c tree entries ord upd =
     (let c = c\<lparr>consumer_entries := add_entries entries [], order := ord\<rparr>;
          before = takeWhile (\<lambda>x. 0 \<le> consumer_avl_comp c x) tree;
          after = dropWhile (\<lambda>x. 0 \<le> consumer_avl_comp c x) tree
      in before @ upd c # after)"

definition pbb_reader_init :: "'st pbb_reader \<Rightarrow> 'st pbb_reader" where
  "pbb_reader_init r = r\<lparr>packet_consumer := [], message_consumer := []\<rparr>"

definition pbb_reader_cleanup :: "'st pbb_reader \<Rightarrow> 'st pbb_reader" where
  "pbb_reader_cleanup r = r\<lparr>packet_consumer := [], message_consumer := []\<rparr>"

definition pbb_reader_add_packet_consumer ::
  "'st pbb_reader \<Rightarrow> 'st consumer \<Rightarrow> centry list \<Rightarrow> int \<Rightarrow> 'st pbb_reader" where
  "pbb_reader_add_packet_consumer r c entries ord =
     r\<lparr>packet_consumer := add_consumer c (packet_consumer r) entries ord id\<rparr>"

definition pbb_reader_add_message_consumer ::
  "'st pbb_reader \<Rightarrow> 'st consumer \<Rightarrow> centry list \<Rightarrow> u8 \<Rightarrow> int \<Rightarrow> 'st pbb_reader" where
  "pbb_reader_add_message_consumer r c entries msgid ord =
     r\<lparr>message_consumer := add_consumer c (message_consumer r) entries ord
         (\<lambda>c. c\<lparr>addrblock_consumer := False, msg_id := msgid\<rparr>)\<rparr>"

definition pbb_reader_add_defaultmsg_consumer ::
  "'st pbb_reader \<Rightarrow> 'st consumer \<Rightarrow> centry list \<Rightarrow> int \<Rightarrow> 'st pbb_reader" where
  "pbb_reader_add_defaultmsg_consumer r c entries ord =
     r\<lparr>message_consumer := add_consumer c (message_consumer r) entries ord
         (\<lambda>c. c\<lparr>default_msg_consumer := True, addrblock_consumer := False\<rparr>)\<rparr>"

definition pbb_reader_add_address_consumer ::
  "'st pbb_reader \<Rightarrow> 'st consumer \<Rightarrow> centry list \<Rightarrow> u8 \<Rightarrow> int \<Rightarrow> 'st pbb_reader" where
  "pbb_reader_add_address_consumer r c entries msgid ord =
     r\<lparr>message_consumer := add_consumer c (message_consumer r) entries ord
         (\<lambda>c. c\<lparr>addrblock_consumer := True, msg_id := msgid\<rparr>)\<rparr>"

definition pbb_reader_add_defaultaddress_consumer ::
  "'st pbb_reader \<Rightarrow> 'st consumer \<Rightarrow> centry list \<Rightarrow> int \<Rightarrow> 'st pbb_reader" where
  "pbb_reader_add_defaultaddress_consumer r c entries ord =
     r\<lparr>message_consumer := add_consumer c (message_consumer r) entries ord
         (\<lambda>c. c\<lparr>default_msg_consumer := True, addrblock_consumer := True\<rparr>)\<rparr>"

text \<open>Removal names the consumer by its position in the tree.\<close>

definition remove_at :: "nat \<Rightarrow> 'a list \<Rightarrow> 'a list" where
  "remove_at i xs = take i xs @ drop (Suc i) xs"

definition pbb_reader_remove_packet_consumer :: "'st pbb_reader \<Rightarrow> nat \<Rightarrow> halt + 'st pbb_reader" where
  "pbb_reader_remove_packet_consumer r i =
     (if \<not> addrblock_consumer (packet_consumer r ! i) \<and> msg_id (packet_consumer r ! i) = 0
      then Inr (r\<lparr>packet_consumer := remove_at i (packet_consumer r)\<rparr>) else Inl AssertFail)"

definition pbb_reader_remove_message_consumer :: "'st pbb_reader \<Rightarrow> nat \<Rightarrow> 'st pbb_reader" where
  "pbb_reader_remove_message_consumer r i = r\<lparr>message_consumer := remove_at i (message_consumer r)\<rparr>"

definition pbb_reader_remove_address_consumer :: "'st pbb_reader \<Rightarrow> nat \<Rightarrow> 'st pbb_reader" where
  "pbb_reader_remove_address_consumer reader i = pbb_reader_remove_message_consumer reader i"

section \<open>Bit arrays\<close>

definition set_addr_bitarray :: "u32 list \<Rightarrow> u8 \<Rightarrow> u32 list" where
  "set_addr_bitarray b idx =
     (let w = unat (drop_bit 5 idx) in b[w := b ! w OR push_bit (unat (idx AND 31)) 1])"

definition test_addrbitarray :: "u32 list \<Rightarrow> u8 \<Rightarrow> bool" where
  "test_addrbitarray b idx \<longleftrightarrow> b ! unat (drop_bit 5 idx) AND push_bit (unat (idx AND 31)) 1 \<noteq> 0"

section \<open>Scheduling one TLV block\<close>

definition TLVTYPE_ORDER_INFINITE :: int where "TLVTYPE_ORDER_INFINITE = 0x10000"

definition cons_order_at :: "centry list \<Rightarrow> nat \<Rightarrow> int" where
  "cons_order_at ces j = (if j < length ces then uint (c_int_order (ces ! j)) else TLVTYPE_ORDER_INFINITE)"

definition tlv_order_at :: "tlv_entry list \<Rightarrow> nat \<Rightarrow> int" where
  "tlv_order_at tlvs i = (if i < length tlvs then uint (int_order (tlvs ! i)) else TLVTYPE_ORDER_INFINITE)"

text \<open>Moving to a consumer entry forgets what it found before.\<close>

definition reset_entry :: "nat \<Rightarrow> centry list \<Rightarrow> centry list" where
  "reset_entry j ces = (if j < length ces then ces[j := (ces ! j)\<lparr>c_tlv := None, duplicate_tlv := False\<rparr>] else ces)"

text \<open>Whether a TLV holds for an address index: not dropped, and the index in its range.\<close>

definition index_matches :: "u8 \<Rightarrow> tlv_entry \<Rightarrow> bool" where
  "index_matches idx t \<longleftrightarrow> \<not> test_addrbitarray (int_drop_tlv t) idx \<and> index1 t \<le> idx \<and> idx \<le> index2 t"

definition set_multi_value :: "u8 \<Rightarrow> tlv_entry \<Rightarrow> tlv_entry" where
  "set_multi_value idx t =
     (if int_multivalue_tlv t
      then t\<lparr>single_value := map_option (\<lambda>p. p + unat (idx - index1 t) * unat (t_length t)) (int_value t)\<rparr>
      else t)"

definition entry_matches :: "centry \<Rightarrow> int \<Rightarrow> int \<Rightarrow> bool" where
  "entry_matches e cons_order tlv_order =
     (if match_type_ext e then cons_order = tlv_order else has_same_tlvtype cons_order tlv_order)"

text \<open>A matching TLV is remembered by the entry, and its value copied if the client wants that.\<close>

definition remember_tlv :: "bytes \<Rightarrow> nat \<Rightarrow> tlv_entry \<Rightarrow> centry \<Rightarrow> halt + centry" where
  "remember_tlv buf i t e =
     (if c_tlv e \<noteq> None then Inr (e\<lparr>duplicate_tlv := True\<rparr>)
      else
        let e = e\<lparr>c_tlv := Some i\<rparr>
        in case copy_value e of
             None \<Rightarrow> Inr e
           | Some dst \<Rightarrow>
               if t_length t = 0 then Inr e
               else
                 let len = (if t_length t < copy_value_maxlen e then t_length t else copy_value_maxlen e)
                 in rbind (deref (single_value t)) (\<lambda>p.
                    rbind (memcpy dst 0 (sub_bytes p (unat len) buf)) (\<lambda>dst.
                      Inr (e\<lparr>copy_value := Some dst\<rparr>))))"

text \<open>One round of the loop, up to the two pointers: call the TLV callback, note the drop, remember a
  match. A result in the first component is the jump to the end of the function.\<close>

definition sched_step ::
  "'st consumer \<Rightarrow> bytes \<Rightarrow> pctx \<Rightarrow> u8 \<Rightarrow> nat \<Rightarrow> nat \<Rightarrow> tlv_entry list \<Rightarrow> centry list \<Rightarrow> 'st \<Rightarrow>
     halt + pbb_result option \<times> bool \<times> tlv_entry list \<times> centry list \<times> 'st" where
  "sched_step con buf ctx idx i j tlvs ces st =
     (let cons_order = cons_order_at ces j; tlv_order = tlv_order_at tlvs i;
          ix = i < length tlvs \<and> index_matches idx (tlvs ! i);
          mt = ix \<and> j < length ces \<and> entry_matches (ces ! j) cons_order tlv_order;
          tlvs = (if ix then tlvs[i := set_multi_value idx (tlvs ! i)] else tlvs)
      in rbind (case tlv_callback con of
                  Some cb \<Rightarrow> if ix then cb buf (tlvs ! i) ctx st else Inr (PBB_OKAY, st)
                | None \<Rightarrow> Inr (PBB_OKAY, st)) (\<lambda>(result, st).
         if result \<noteq> PBB_OKAY \<and> result \<noteq> PBB_DROP_TLV then Inr (Some result, False, tlvs, ces, st)
         else
           let dropped = (result = PBB_DROP_TLV);
               mt = (mt \<and> \<not> dropped);
               tlvs = (if dropped
                       then tlvs[i := (tlvs ! i)\<lparr>int_drop_tlv := set_addr_bitarray (int_drop_tlv (tlvs ! i)) idx\<rparr>]
                       else tlvs)
           in if tlv_order < cons_order then Inr (None, False, tlvs, ces, st)
              else if length ces \<le> j then Inl NullDeref
              else if mt
              then rbind (remember_tlv buf i (tlvs ! i) (ces ! j)) (\<lambda>e. Inr (None, False, tlvs, ces[j := e], st))
              else Inr (None, mandatory (ces ! j), tlvs, ces, st)))"

text \<open>The positions after a round.\<close>

definition next_tlv :: "tlv_entry list \<Rightarrow> centry list \<Rightarrow> nat \<Rightarrow> nat \<Rightarrow> nat" where
  "next_tlv tlvs ces i j =
     (if tlv_order_at tlvs i \<le> cons_order_at ces j \<and> i < length tlvs then Suc i else i)"

lemma order_at_bounds:
  "i < length tlvs \<Longrightarrow> tlv_order_at tlvs i < TLVTYPE_ORDER_INFINITE"
  "j < length ces \<Longrightarrow> cons_order_at ces j < TLVTYPE_ORDER_INFINITE"
  "tlv_order_at tlvs i \<le> TLVTYPE_ORDER_INFINITE"
  "cons_order_at ces j \<le> TLVTYPE_ORDER_INFINITE"
  using uint_lt2p[of "int_order (tlvs ! i)"] uint_lt2p[of "c_int_order (ces ! j)"]
  by (simp_all add: tlv_order_at_def cons_order_at_def TLVTYPE_ORDER_INFINITE_def)

lemma length_reset_entry [simp]: "length (reset_entry j ces) = length ces"
  by (simp add: reset_entry_def)

lemma tlv_order_at_update:
  "int_order t = int_order (tlvs ! i) \<Longrightarrow> tlv_order_at (tlvs[i := t]) k = tlv_order_at tlvs k"
  by (cases "k = i") (simp_all add: tlv_order_at_def nth_list_update)

lemma set_multi_value_sel [simp]:
  "int_order (set_multi_value idx t) = int_order t" "int_drop_tlv (set_multi_value idx t) = int_drop_tlv t"
  "t_type (set_multi_value idx t) = t_type t" "t_length (set_multi_value idx t) = t_length t"
  by (simp_all add: set_multi_value_def)

lemma remember_tlv_order:
  "remember_tlv buf i t e = Inr e' \<Longrightarrow> c_int_order e' = c_int_order e"
  by (auto simp: remember_tlv_def Let_def rbind_Inr_iff split: if_splits option.splits)

lemma sched_step_orders:
  assumes "sched_step con buf ctx idx i j tlvs ces st = Inr (exit, miss, tlvs', ces', st')"
  shows "length tlvs' = length tlvs \<and> length ces' = length ces \<and>
    tlv_order_at tlvs' = tlv_order_at tlvs \<and> cons_order_at ces' = cons_order_at ces"
proof -
  have ce: "cons_order_at (ces[j := e]) = cons_order_at ces" if "c_int_order e = c_int_order (ces ! j)" for e
  proof
    fix k show "cons_order_at (ces[j := e]) k = cons_order_at ces k"
      using that by (cases "k = j") (simp_all add: cons_order_at_def)
  qed
  have tl: "tlv_order_at (l[k := t]) = tlv_order_at l" if "int_order t = int_order (l ! k)" for l k t
    using that tlv_order_at_update[of t l k] by (simp add: fun_eq_iff)
  show ?thesis
    using assms
    by (auto simp: sched_step_def Let_def rbind_Inr_iff ce tl remember_tlv_order
        split: if_splits option.splits)
qed

text \<open>Every round moves at least one of the two pointers.\<close>

lemma sched_progress:
  assumes "\<not> (length ces \<le> j \<and> length tlvs \<le> i)"
  shows "cons_order_at ces j < tlv_order_at tlvs (next_tlv tlvs ces i j) \<Longrightarrow>
      length tlvs - next_tlv tlvs ces i j + (length ces - Suc j) < length tlvs - i + (length ces - j)"
    and "\<not> cons_order_at ces j < tlv_order_at tlvs (next_tlv tlvs ces i j) \<Longrightarrow>
      length tlvs - next_tlv tlvs ces i j + (length ces - j) < length tlvs - i + (length ces - j)"
proof -
  assume c: "cons_order_at ces j < tlv_order_at tlvs (next_tlv tlvs ces i j)"
  have "j < length ces"
    using c order_at_bounds(3)[of tlvs "next_tlv tlvs ces i j"] by (auto simp: cons_order_at_def split: if_splits)
  then show "length tlvs - next_tlv tlvs ces i j + (length ces - Suc j) < length tlvs - i + (length ces - j)"
    by (auto simp: next_tlv_def)
next
  assume c: "\<not> cons_order_at ces j < tlv_order_at tlvs (next_tlv tlvs ces i j)"
  have "i < length tlvs \<and> tlv_order_at tlvs i \<le> cons_order_at ces j"
  proof (rule ccontr)
    assume n: "\<not> ?thesis"
    then have "next_tlv tlvs ces i j = i" by (auto simp: next_tlv_def)
    with c have le: "tlv_order_at tlvs i \<le> cons_order_at ces j" by simp
    with n have "\<not> i < length tlvs" by simp
    then have "tlv_order_at tlvs i = TLVTYPE_ORDER_INFINITE" "j < length ces"
      using assms(1) by (simp_all add: tlv_order_at_def)
    with le order_at_bounds(2)[of j ces] show False by simp
  qed
  then show "length tlvs - next_tlv tlvs ces i j + (length ces - j) < length tlvs - i + (length ces - j)"
    by (auto simp: next_tlv_def)
qed

text \<open>The loop over the two sorted lists; \<open>i\<close> and \<open>j\<close> are the current TLV and consumer entry, past the
  end for \<open>NULL\<close>.\<close>

function sched_loop ::
  "'st consumer \<Rightarrow> bytes \<Rightarrow> pctx \<Rightarrow> u8 \<Rightarrow> nat \<Rightarrow> nat \<Rightarrow> bool \<Rightarrow> tlv_entry list \<Rightarrow> centry list \<Rightarrow> 'st \<Rightarrow>
     halt + pbb_result option \<times> bool \<times> tlv_entry list \<times> centry list \<times> 'st" where
  "sched_loop con buf ctx idx i j missing tlvs ces st =
     (if length ces \<le> j \<and> length tlvs \<le> i then Inr (None, missing, tlvs, ces, st)
      else rbind (sched_step con buf ctx idx i j tlvs ces st) (\<lambda>(exit, miss, tlvs, ces, st).
        if exit \<noteq> None then Inr (exit, missing, tlvs, ces, st)
        else
          let i' = next_tlv tlvs ces i j
          in if cons_order_at ces j < tlv_order_at tlvs i'
             then sched_loop con buf ctx idx i' (Suc j) (missing \<or> miss) tlvs (reset_entry (Suc j) ces) st
             else sched_loop con buf ctx idx i' j (missing \<or> miss) tlvs ces st))"
  by pat_completeness auto

termination
proof (relation "measure (\<lambda>(con, buf, ctx, idx, i, j, missing, tlvs, ces, st).
      (length tlvs - i) + (length ces - j))", goal_cases)
  case (2 con buf ctx idx i j missing tlvs ces st x exit y miss z tlvs' w ces' st' i')
  then show ?case
    using sched_step_orders[of con buf ctx idx i j tlvs ces st exit miss tlvs' ces' st']
      sched_progress(1)[of ces' j tlvs' i] by auto
next
  case (3 con buf ctx idx i j missing tlvs ces st x exit y miss z tlvs' w ces' st' i')
  then show ?case
    using sched_step_orders[of con buf ctx idx i j tlvs ces st exit miss tlvs' ces' st']
      sched_progress(2)[of ces' j tlvs' i] by auto
qed simp

declare sched_loop.simps [simp del]

text \<open>After the loop: the block callback, and the drops it asks for through its entries.\<close>

fun drop_marked :: "u8 \<Rightarrow> centry list \<Rightarrow> tlv_entry list \<Rightarrow> centry list \<times> tlv_entry list" where
  "drop_marked idx [] tlvs = ([], tlvs)"
| "drop_marked idx (e # es) tlvs =
     (case c_tlv e of
        Some k \<Rightarrow>
          if c_drop e
          then let tlvs = tlvs[k := (tlvs ! k)\<lparr>int_drop_tlv := set_addr_bitarray (int_drop_tlv (tlvs ! k)) idx\<rparr>];
                   (es, tlvs) = drop_marked idx es tlvs
               in (e\<lparr>c_drop := False\<rparr> # es, tlvs)
          else let (es, tlvs) = drop_marked idx es tlvs in (e # es, tlvs)
      | None \<Rightarrow> let (es, tlvs) = drop_marked idx es tlvs in (e # es, tlvs))"

definition schedule_tlvblock ::
  "'st consumer \<Rightarrow> bytes \<Rightarrow> pctx \<Rightarrow> tlv_entry list \<Rightarrow> u8 \<Rightarrow> 'st \<Rightarrow>
     halt + pbb_result \<times> tlv_entry list \<times> 'st consumer \<times> 'st" where
  "schedule_tlvblock con buf ctx tlvs idx st =
     (if tlvs = [] then Inr (PBB_OKAY, tlvs, con, st)
      else
        rbind (sched_loop con buf ctx idx 0 0 False tlvs (reset_entry 0 (consumer_entries con)) st)
          (\<lambda>(exit, missing, tlvs, ces, st).
          case exit of
            Some r \<Rightarrow> Inr (r, tlvs, con\<lparr>consumer_entries := ces\<rparr>, st)
          | None \<Rightarrow>
              (case block_callback con of
                 None \<Rightarrow> Inr (PBB_OKAY, tlvs, con\<lparr>consumer_entries := ces\<rparr>, st)
               | Some cb \<Rightarrow>
                   rbind (cb buf tlvs ces ctx missing st) (\<lambda>(r, ces, st).
                     if r = PBB_DROP_TLV
                     then let (ces, tlvs) = drop_marked idx ces tlvs
                          in Inr (PBB_OKAY, tlvs, con\<lparr>consumer_entries := ces\<rparr>, st)
                     else Inr (r, tlvs, con\<lparr>consumer_entries := ces\<rparr>, st)))))"

section \<open>Message and address consumers\<close>

definition call_start :: "'st consumer \<Rightarrow> pctx \<Rightarrow> 'st \<Rightarrow> halt + pbb_result \<times> 'st" where
  "call_start con ctx st = (case start_callback con of None \<Rightarrow> Inr (PBB_OKAY, st) | Some cb \<Rightarrow> cb ctx st)"

definition schedule_msgtlv_consumer ::
  "'st consumer \<Rightarrow> bytes \<Rightarrow> pctx \<Rightarrow> tlv_entry list \<Rightarrow> 'st \<Rightarrow>
     halt + pbb_result \<times> pctx \<times> tlv_entry list \<times> 'st consumer \<times> 'st" where
  "schedule_msgtlv_consumer con buf ctx tlvs st =
     (let ctx = ctx\<lparr>ctx_type := PBB_CONTEXT_MESSAGE\<rparr>
      in rbind (call_start con ctx st) (\<lambda>(result, st).
         if result = PBB_OKAY
         then rbind (schedule_tlvblock con buf ctx tlvs 0 st) (\<lambda>(r, tlvs, con, st). Inr (r, ctx, tlvs, con, st))
         else Inr (result, ctx, tlvs, con, st)))"

text \<open>One address of a block: assemble it, call the callbacks, note a drop.\<close>

definition addr_ctx :: "bytes \<Rightarrow> addrblock \<Rightarrow> bytes \<Rightarrow> nat \<Rightarrow> pctx \<Rightarrow> pctx" where
  "addr_ctx buf a full i ctx =
     (let ctx = ctx\<lparr>ctx_addr := Some full\<rparr>
      in case prefixes a of None \<Rightarrow> ctx | Some p \<Rightarrow> ctx\<lparr>prefixlen := buf ! (p + i)\<rparr>)"

definition addr_callbacks ::
  "'st consumer \<Rightarrow> bytes \<Rightarrow> pctx \<Rightarrow> tlv_entry list \<Rightarrow> u8 \<Rightarrow> 'st \<Rightarrow>
     halt + pbb_result \<times> tlv_entry list \<times> 'st consumer \<times> 'st" where
  "addr_callbacks con buf ctx tlvs idx st =
     rbind (call_start con ctx st) (\<lambda>(result, st).
     rbind (if result = PBB_OKAY then schedule_tlvblock con buf ctx tlvs idx st
            else Inr (result, tlvs, con, st)) (\<lambda>(result, tlvs, con, st).
     rbind (case end_callback con of
              None \<Rightarrow> Inr (result, st)
            | Some cb \<Rightarrow> rbind (cb ctx (result \<noteq> PBB_OKAY) st) (\<lambda>(r, st).
                Inr (if result < r then r else result, st))) (\<lambda>(result, st).
     Inr (result, tlvs, con, st))))"

definition addr_step ::
  "'st consumer \<Rightarrow> bytes \<Rightarrow> pctx \<Rightarrow> addrblock \<Rightarrow> nat \<Rightarrow> 'st \<Rightarrow>
     halt + pbb_result \<times> pctx \<times> addrblock \<times> 'st consumer \<times> 'st" where
  "addr_step con buf ctx a i st =
     (if test_addrbitarray (dropAddr a) (of_nat i) then Inr (PBB_OKAY, ctx, a, con, st)
      else
        rbind (memcpy (ab_addr a) (unat (mid_start a))
                 (sub_bytes (mid_src a + unat (mid_len a) * i) (unat (mid_len a)) buf)) (\<lambda>full.
        rbind (addr_callbacks con buf (addr_ctx buf a full i ctx) (tlvblock a) (of_nat i) st)
          (\<lambda>(result, tlvs, con, st).
            if result = PBB_DROP_ADDRESS
            then Inr (PBB_OKAY, addr_ctx buf a full i ctx,
                   a\<lparr>ab_addr := full, tlvblock := tlvs, dropAddr := set_addr_bitarray (dropAddr a) (of_nat i)\<rparr>, con, st)
            else Inr (result, addr_ctx buf a full i ctx, a\<lparr>ab_addr := full, tlvblock := tlvs\<rparr>, con, st))))"

fun addr_loop ::
  "'st consumer \<Rightarrow> bytes \<Rightarrow> pctx \<Rightarrow> addrblock \<Rightarrow> nat list \<Rightarrow> 'st \<Rightarrow>
     halt + pbb_result \<times> pctx \<times> addrblock \<times> 'st consumer \<times> 'st" where
  "addr_loop con buf ctx a [] st = Inr (PBB_OKAY, ctx, a, con, st)"
| "addr_loop con buf ctx a (i # is) st =
     rbind (addr_step con buf ctx a i st) (\<lambda>(result, ctx, a, con, st).
       if result \<noteq> PBB_OKAY then Inr (result, ctx, a, con, st) else addr_loop con buf ctx a is st)"

fun addrblocks_loop ::
  "'st consumer \<Rightarrow> bytes \<Rightarrow> pctx \<Rightarrow> addrblock list \<Rightarrow> 'st \<Rightarrow>
     halt + pbb_result \<times> pctx \<times> addrblock list \<times> 'st consumer \<times> 'st" where
  "addrblocks_loop con buf ctx [] st = Inr (PBB_OKAY, ctx, [], con, st)"
| "addrblocks_loop con buf ctx (a # as) st =
     rbind (addr_loop con buf (ctx\<lparr>prefixlen := ab_prefixlen a\<rparr>) a [0..<unat (num_addr a)] st)
       (\<lambda>(result, ctx, a, con, st).
         if result \<noteq> PBB_OKAY then Inr (result, ctx, a # as, con, st)
         else rbind (addrblocks_loop con buf ctx as st) (\<lambda>(result, ctx, as, con, st).
                Inr (result, ctx, a # as, con, st)))"

definition schedule_msgaddr_consumer ::
  "'st consumer \<Rightarrow> bytes \<Rightarrow> pctx \<Rightarrow> addrblock list \<Rightarrow> 'st \<Rightarrow>
     halt + pbb_result \<times> pctx \<times> addrblock list \<times> 'st consumer \<times> 'st" where
  "schedule_msgaddr_consumer con buf ctx blocks st =
     addrblocks_loop con buf (ctx\<lparr>ctx_type := PBB_CONTEXT_ADDRESS\<rparr>) blocks st"

text \<open>The end callbacks of a range of consumers, given last first.\<close>

fun end_cbs_loop :: "pctx \<Rightarrow> 'st consumer list \<Rightarrow> pbb_result \<Rightarrow> 'st \<Rightarrow> halt + pbb_result \<times> 'st" where
  "end_cbs_loop ctx [] result st = Inr (result, st)"
| "end_cbs_loop ctx (con # cons) result st =
     (case end_callback con of
        Some cb \<Rightarrow>
          if default_msg_consumer con \<or> msg_id con = msg_type ctx
          then rbind (cb ctx (result \<noteq> PBB_OKAY) st) (\<lambda>(r, st).
                 end_cbs_loop ctx cons (if result < r then r else result) st)
          else end_cbs_loop ctx cons result st
      | None \<Rightarrow> end_cbs_loop ctx cons result st)"

definition schedule_end_message_cbs ::
  "pctx \<Rightarrow> 'st consumer list \<Rightarrow> nat \<Rightarrow> nat \<Rightarrow> pbb_result \<Rightarrow> 'st \<Rightarrow> halt + pbb_result \<times> pctx \<times> 'st" where
  "schedule_end_message_cbs ctx cons fst_con lst_con result st =
     (let ctx = ctx\<lparr>ctx_type := PBB_CONTEXT_MESSAGE\<rparr>
      in rbind (end_cbs_loop ctx (rev (take (Suc lst_con - fst_con) (drop fst_con cons))) result st)
           (\<lambda>(result, st). Inr (result, ctx, st)))"

section \<open>Messages\<close>

text \<open>An optional field leaves the context as it was when its flag is not set.\<close>

definition opt_u8 :: "bool \<Rightarrow> bytes \<Rightarrow> nat \<Rightarrow> u8 \<Rightarrow> rd \<Rightarrow> u8 \<times> rd" where
  "opt_u8 present buf eob old s = (if present then pbb_get_u8 buf eob s else (old, s))"

definition opt_u16 :: "bool \<Rightarrow> bytes \<Rightarrow> nat \<Rightarrow> u16 \<Rightarrow> rd \<Rightarrow> u16 \<times> rd" where
  "opt_u16 present buf eob old s = (if present then pbb_get_u16 buf eob s else (old, s))"

text \<open>The originator address is copied without looking at an earlier read error.\<close>

definition read_origaddr :: "bytes \<Rightarrow> pctx \<Rightarrow> rd \<Rightarrow> pctx \<times> rd" where
  "read_origaddr buf ctx s =
     (if has_origaddr ctx
      then (ctx\<lparr>orig_addr := put_bytes 0 (sub_bytes (fst s) (unat (addr_len ctx)) buf) (orig_addr ctx)\<rparr>,
            fst s + unat (addr_len ctx), snd s)
      else (ctx, s))"

text \<open>The message header. \<open>end\<close> is computed only when the originator address fits; before that the
  variable is uninitialised (\<open>junk\<close>). The result is the context, the read position and \<open>end\<close>.\<close>

definition parse_message_header ::
  "bytes \<Rightarrow> nat \<Rightarrow> pctx \<Rightarrow> nat \<Rightarrow> nat \<Rightarrow> pbb_result \<times> pctx \<times> nat \<times> nat" where
  "parse_message_header buf junk ctx start eob =
     (let (ty, s) = pbb_get_u8 buf eob (start, PBB_OKAY);
          (flags, s) = pbb_get_u8 buf eob s;
          (sz, s) = pbb_get_u16 buf eob s;
          ctx = ctx\<lparr>msg_type := ty, addr_len := (flags AND PBB_MSG_FLAG_ADDRLENMASK) + 1,
                  msg_flags := flags AND NOT PBB_MSG_FLAG_ADDRLENMASK,
                  has_origaddr := flags AND PBB_MSG_FLAG_ORIGINATOR \<noteq> 0\<rparr>
      in if has_origaddr ctx \<and> eob < fst s + unat (addr_len ctx)
         then (PBB_END_OF_BUFFER, ctx, fst s, junk)
         else
           let (ctx, s) = read_origaddr buf ctx s;
               hashl = flags AND PBB_MSG_FLAG_HOPLIMIT \<noteq> 0;
               (hl, s) = opt_u8 hashl buf eob (hoplimit ctx) s;
               hashc = flags AND PBB_MSG_FLAG_HOPCOUNT \<noteq> 0;
               (hc, s) = opt_u8 hashc buf eob (hopcount ctx) s;
               hassq = flags AND PBB_MSG_FLAG_SEQNO \<noteq> 0;
               (sq, s) = opt_u16 hassq buf eob (seqno ctx) s;
               ctx = ctx\<lparr>has_hoplimit := hashl, hoplimit := hl, has_hopcount := hashc, hopcount := hc,
                       has_seqno := hassq, seqno := sq\<rparr>;
               end = start + unat sz;
               (ptr, result) = s
           in if eob < end then (PBB_END_OF_BUFFER, ctx, eob, end) else (result, ctx, ptr, end))"

text \<open>Reads do not move back and do not produce drop results.\<close>

definition rd_mono :: "rd \<Rightarrow> rd \<Rightarrow> bool" where
  "rd_mono s s' \<longleftrightarrow> fst s \<le> fst s' \<and> (snd s \<le> PBB_OKAY \<longrightarrow> snd s' \<le> PBB_OKAY)"

lemma rd_mono_trans: "rd_mono s t \<Longrightarrow> rd_mono t u \<Longrightarrow> rd_mono s u"
  by (auto simp: rd_mono_def)

lemma get_u8_mono: "pbb_get_u8 buf eob s = (v, s') \<Longrightarrow> rd_mono s s'"
  using get_u8_err[of s buf eob v s']
  by (auto simp: rd_mono_def pbb_get_u8_def split: prod.splits if_splits)

lemma get_u16_mono: "pbb_get_u16 buf eob s = (v, s') \<Longrightarrow> rd_mono s s'"
proof -
  assume a: "pbb_get_u16 buf eob s = (v, s')"
  obtain h s1 where 1: "pbb_get_u8 buf eob s = (h, s1)" by (metis surj_pair)
  obtain l s2 where 2: "pbb_get_u8 buf eob s1 = (l, s2)" by (metis surj_pair)
  from a 1 2 have "s' = s2" by (simp add: pbb_get_u16_def)
  with rd_mono_trans[OF get_u8_mono[OF 1] get_u8_mono[OF 2]] show ?thesis by simp
qed

lemma opt_mono:
  "opt_u8 c buf eob x s = (v, s') \<Longrightarrow> rd_mono s s'"
  "opt_u16 c buf eob y s = (w, s') \<Longrightarrow> rd_mono s s'"
  "read_origaddr buf ctx s = (ctx', s') \<Longrightarrow> rd_mono s s'"
  by (auto simp: opt_u8_def opt_u16_def read_origaddr_def rd_mono_def[of s s]
      split: if_splits dest: get_u8_mono get_u16_mono) (auto simp: rd_mono_def)

lemma parse_message_header_end:
  assumes "parse_message_header buf junk ctx start eob = (r, ctx', ptr, end)"
  shows "r \<le> PBB_OKAY \<and> (r = PBB_OKAY \<longrightarrow> end \<le> eob \<and> start \<le> ptr)"
proof -
  obtain ty s1 where 1: "pbb_get_u8 buf eob (start, PBB_OKAY) = (ty, s1)" by (metis surj_pair)
  obtain fl s2 where 2: "pbb_get_u8 buf eob s1 = (fl, s2)" by (metis surj_pair)
  obtain sz s3 where 3: "pbb_get_u16 buf eob s2 = (sz, s3)" by (metis surj_pair)
  let ?c = "ctx\<lparr>msg_type := ty, addr_len := (fl AND PBB_MSG_FLAG_ADDRLENMASK) + 1,
                  msg_flags := fl AND NOT PBB_MSG_FLAG_ADDRLENMASK,
                  has_origaddr := fl AND PBB_MSG_FLAG_ORIGINATOR \<noteq> 0\<rparr>"
  obtain c4 s4 where 4: "read_origaddr buf ?c s3 = (c4, s4)" by (metis surj_pair)
  obtain hl s5 where 5: "opt_u8 (fl AND PBB_MSG_FLAG_HOPLIMIT \<noteq> 0) buf eob (hoplimit c4) s4 = (hl, s5)"
    by (metis surj_pair)
  obtain hc s6 where 6: "opt_u8 (fl AND PBB_MSG_FLAG_HOPCOUNT \<noteq> 0) buf eob (hopcount c4) s5 = (hc, s6)"
    by (metis surj_pair)
  obtain sq s7 where 7: "opt_u16 (fl AND PBB_MSG_FLAG_SEQNO \<noteq> 0) buf eob (seqno c4) s6 = (sq, s7)"
    by (metis surj_pair)
  have "rd_mono (start, PBB_OKAY) s7"
    using rd_mono_trans[OF rd_mono_trans[OF rd_mono_trans[OF rd_mono_trans[OF rd_mono_trans[OF rd_mono_trans[
        OF get_u8_mono[OF 1] get_u8_mono[OF 2]] get_u16_mono[OF 3]] opt_mono(3)[OF 4]] opt_mono(1)[OF 5]]
        opt_mono(1)[OF 6]] opt_mono(2)[OF 7]] .
  then have "start \<le> fst s7 \<and> snd s7 \<le> PBB_OKAY" by (simp add: rd_mono_def)
  moreover obtain p7 r7 where s7: "s7 = (p7, r7)" by (metis surj_pair)
  note assms[unfolded parse_message_header_def 1 Let_def case_prod_conv 2 3 4 5 6 7 s7]
  ultimately show ?thesis
    using s7 by (auto simp: err_le split: if_splits)
qed

text \<open>The address blocks, each with its TLV block, up to the end of the message.\<close>

function parse_addrblocks ::
  "(nat \<Rightarrow> bool) \<Rightarrow> bytes \<Rightarrow> u8 \<Rightarrow> nat \<Rightarrow> nat \<Rightarrow> addrblock list \<Rightarrow> mem \<Rightarrow> halt + pbb_result \<times> addrblock list \<times> mem" where
  "parse_addrblocks alloc buf al ptr end blocks m =
     (if end \<le> ptr then Inr (PBB_OKAY, blocks, m)
      else
        case mem_alloc alloc m of
          (False, m) \<Rightarrow> Inr (PBB_OUT_OF_MEMORY, blocks, m)
        | (True, m) \<Rightarrow>
            (case parse_addrblock buf al empty_addrblock ptr end of
               Inl h \<Rightarrow> Inl h
             | Inr (Inl r) \<Rightarrow> Inr (r, blocks, mem_free 1 m)
             | Inr (Inr (a, ptr1)) \<Rightarrow>
                 (case parse_tlvblock alloc buf [] ptr1 end m of
                    Inl h \<Rightarrow> Inl h
                  | Inr (r, tlvs, ptr2, m) \<Rightarrow>
                      if r \<noteq> PBB_OKAY then Inr (r, blocks, mem_free 1 m)
                      else parse_addrblocks alloc buf al ptr2 end (blocks @ [a\<lparr>tlvblock := tlvs\<rparr>]) m)))"
  by pat_completeness auto
termination
  by (relation "measure (\<lambda>(alloc, buf, al, ptr, end, blocks, m). end - ptr)")
    (auto dest!: parse_tlvblock_progress parse_addrblock_progress)

declare parse_addrblocks.simps [simp del]

text \<open>Parsing a whole message; after an error nothing of it is kept. The fourth and fifth components
  are the message TLVs and the address blocks, the sixth is \<open>end\<close>.\<close>

definition free_addrblocks :: "addrblock list \<Rightarrow> mem \<Rightarrow> mem" where
  "free_addrblocks blocks m = foldl (\<lambda>m a. mem_free 1 (free_tlvblock (tlvblock a) m)) m blocks"

definition parse_message ::
  "(nat \<Rightarrow> bool) \<Rightarrow> bytes \<Rightarrow> nat \<Rightarrow> pctx \<Rightarrow> nat \<Rightarrow> nat \<Rightarrow> mem \<Rightarrow>
     halt + pbb_result \<times> pctx \<times> tlv_entry list \<times> addrblock list \<times> nat \<times> mem" where
  "parse_message alloc buf junk ctx start eob m =
     (let (r, ctx, ptr, end) = parse_message_header buf junk ctx start eob
      in if r \<noteq> PBB_OKAY then Inr (r, ctx, [], [], end, m)
         else rbind (parse_tlvblock alloc buf [] ptr end m) (\<lambda>(r, tlvs, ptr, m).
           if r \<noteq> PBB_OKAY then Inr (r, ctx, tlvs, [], end, m)
           else rbind (parse_addrblocks alloc buf (addr_len ctx) ptr end [] m) (\<lambda>(r, blocks, m).
             Inr (r, ctx, tlvs, blocks, end, m))))"

text \<open>The ways the loop can go on.\<close>

lemma parse_addrblocks_cases:
  assumes "parse_addrblocks alloc buf al ptr end bs m = Inr (r, bs', m')"
  obtains (stop) "end \<le> ptr" "r = PBB_OKAY" "bs' = bs" "m' = m"
  | (nomem) "\<not> end \<le> ptr" "mem_alloc alloc m = (False, m')" "r = PBB_OUT_OF_MEMORY" "bs' = bs"
  | (badblock) m1 where "\<not> end \<le> ptr" "mem_alloc alloc m = (True, m1)"
      "parse_addrblock buf al empty_addrblock ptr end = Inr (Inl r)" "bs' = bs" "m' = mem_free 1 m1"
  | (badtlvs) m1 a ptr1 tlvs ptr2 m2 where "\<not> end \<le> ptr" "mem_alloc alloc m = (True, m1)"
      "parse_addrblock buf al empty_addrblock ptr end = Inr (Inr (a, ptr1))"
      "parse_tlvblock alloc buf [] ptr1 end m1 = Inr (r, tlvs, ptr2, m2)" "r \<noteq> PBB_OKAY" "bs' = bs"
      "m' = mem_free 1 m2"
  | (step) m1 a ptr1 tlvs ptr2 m2 where "\<not> end \<le> ptr" "mem_alloc alloc m = (True, m1)"
      "parse_addrblock buf al empty_addrblock ptr end = Inr (Inr (a, ptr1))"
      "parse_tlvblock alloc buf [] ptr1 end m1 = Inr (PBB_OKAY, tlvs, ptr2, m2)"
      "parse_addrblocks alloc buf al ptr2 end (bs @ [a\<lparr>tlvblock := tlvs\<rparr>]) m2 = Inr (r, bs', m')"
proof (cases "end \<le> ptr")
  case True
  with assms stop show ?thesis by (simp add: parse_addrblocks.simps)
next
  case False
  note u = assms[unfolded parse_addrblocks.simps[of alloc buf al ptr "end" bs m]]
  obtain ok m1 where a: "mem_alloc alloc m = (ok, m1)" by (metis surj_pair)
  show ?thesis
  proof (cases ok)
    case ok: True
    with u False a obtain x where p: "parse_addrblock buf al empty_addrblock ptr end = Inr x"
      by (cases "parse_addrblock buf al empty_addrblock ptr end") auto
    show ?thesis
    proof (cases x)
      case (Inl r1)
      with u False a ok p badblock[of m1] show ?thesis by simp
    next
      case (Inr y)
      obtain ab ptr1 where y: "y = (ab, ptr1)" by (metis surj_pair)
      with u False a ok p Inr obtain z where t: "parse_tlvblock alloc buf [] ptr1 end m1 = Inr z"
        by (cases "parse_tlvblock alloc buf [] ptr1 end m1") auto
      obtain r2 tlvs ptr2 m2 where z: "z = (r2, tlvs, ptr2, m2)" by (metis surj_pair)
      show ?thesis
      proof (cases "r2 = PBB_OKAY")
        case True
        with u False a ok p Inr y t z step[of m1 ab ptr1 tlvs ptr2 m2] show ?thesis by simp
      next
        case r2: False
        with u False a ok p Inr y t z badtlvs[of m1 ab ptr1 tlvs ptr2 m2] show ?thesis by simp
      qed
    qed
  qed (use u False a nomem in simp)
qed

lemma parse_addrblocks_err:
  "parse_addrblocks alloc buf al ptr end bs m = Inr (r, bs', m') \<Longrightarrow> r \<le> PBB_OKAY"
proof (induction "end - ptr" arbitrary: ptr bs m rule: less_induct)
  case less
  from less.prems show ?case
  proof (cases rule: parse_addrblocks_cases)
    case (step m1 a ptr1 tlvs ptr2 m2)
    have "end - ptr2 < end - ptr"
      using parse_addrblock_progress[OF step(3)] parse_tlvblock_progress[OF step(4)] step(1) by linarith
    from less.hyps[OF this step(5)] show ?thesis .
  qed (auto simp: err_le dest: parse_addrblock_err parse_tlvblock_err)
qed

lemma parse_message_err:
  "parse_message alloc buf junk ctx start eob m = Inr (r, x) \<Longrightarrow> r \<le> PBB_OKAY"
  by (auto simp: parse_message_def rbind_Inr_iff split: prod.splits if_splits
      dest: parse_message_header_end parse_tlvblock_err parse_addrblocks_err)

lemma parse_message_progress:
  "parse_message alloc buf junk ctx start eob m = Inr (PBB_OKAY, ctx', tlvs, bs, end, m') \<Longrightarrow>
     start < end \<and> end \<le> eob"
  by (auto simp: parse_message_def rbind_Inr_iff split: prod.splits if_splits
      dest!: parse_message_header_end parse_tlvblock_progress)

section \<open>Delivering a message\<close>

text \<open>What the consumers of one message work on.\<close>

record 'st mstate =
  ms_ctx :: pctx
  ms_tlvs :: "tlv_entry list"
  ms_blocks :: "addrblock list"
  ms_cons :: "'st consumer list"
  ms_st :: 'st

definition run_end_cbs ::
  "nat \<Rightarrow> nat \<Rightarrow> pbb_result \<Rightarrow> 'st mstate \<Rightarrow> halt + pbb_result \<times> 'st mstate" where
  "run_end_cbs a b result ms =
     rbind (schedule_end_message_cbs (ms_ctx ms) (ms_cons ms) a b result (ms_st ms)) (\<lambda>(r, ctx, st).
       Inr (r, ms\<lparr>ms_ctx := ctx, ms_st := st\<rparr>))"

text \<open>Consumer \<open>k\<close> gets the addresses or the message TLVs.\<close>

definition run_consumer :: "bytes \<Rightarrow> nat \<Rightarrow> 'st mstate \<Rightarrow> halt + pbb_result \<times> 'st mstate" where
  "run_consumer buf k ms =
     (let con = ms_cons ms ! k
      in if addrblock_consumer con
         then rbind (schedule_msgaddr_consumer con buf (ms_ctx ms) (ms_blocks ms) (ms_st ms))
                (\<lambda>(r, ctx, blocks, con, st).
                  Inr (r, ms\<lparr>ms_ctx := ctx, ms_blocks := blocks, ms_cons := (ms_cons ms)[k := con], ms_st := st\<rparr>))
         else rbind (schedule_msgtlv_consumer con buf (ms_ctx ms) (ms_tlvs ms) (ms_st ms))
                (\<lambda>(r, ctx, tlvs, con, st).
                  Inr (r, ms\<lparr>ms_ctx := ctx, ms_tlvs := tlvs, ms_cons := (ms_cons ms)[k := con], ms_st := st\<rparr>)))"

text \<open>The loop over the consumers. \<open>so\<close> is the pair \<open>same_order\<close>; it is \<open>None\<close> in the result when the code
  jumps over the last end callbacks.\<close>

fun consumers_loop ::
  "bytes \<Rightarrow> nat list \<Rightarrow> (nat \<times> nat) option \<Rightarrow> 'st mstate \<Rightarrow>
     halt + pbb_result \<times> (nat \<times> nat) option \<times> 'st mstate" where
  "consumers_loop buf [] so ms = Inr (PBB_OKAY, so, ms)"
| "consumers_loop buf (k # ks) so ms =
     (let con = ms_cons ms ! k
      in if \<not> default_msg_consumer con \<and> msg_id con \<noteq> msg_type (ms_ctx ms)
         then consumers_loop buf ks so ms
         else
           rbind (case so of
                    Some (a, b) \<Rightarrow>
                      if order (ms_cons ms ! b) < order con
                      then rbind (run_end_cbs a b PBB_OKAY ms) (\<lambda>(r, ms). Inr (r, None, ms))
                      else Inr (PBB_OKAY, so, ms)
                  | None \<Rightarrow> Inr (PBB_OKAY, None, ms)) (\<lambda>(r, so, ms).
             if r \<noteq> PBB_OKAY then Inr (r, None, ms)
             else
               rbind (run_consumer buf k ms) (\<lambda>(r, ms).
                 let so = (if addrblock_consumer con then so
                           else case so of None \<Rightarrow> Some (k, k) | Some (a, b) \<Rightarrow> Some (a, k))
                 in if r \<noteq> PBB_OKAY then Inr (r, so, ms) else consumers_loop buf ks so ms)))"

definition deliver_message :: "bytes \<Rightarrow> 'st mstate \<Rightarrow> halt + pbb_result \<times> 'st mstate" where
  "deliver_message buf ms =
     rbind (consumers_loop buf [0..<length (ms_cons ms)] None ms) (\<lambda>(r, so, ms).
       case so of None \<Rightarrow> Inr (r, ms) | Some (a, b) \<Rightarrow> run_end_cbs a b r ms)"

text \<open>Forwarding, after a delivery that did not drop the message.\<close>

definition forward_allowed :: "pctx \<Rightarrow> bool" where
  "forward_allowed ctx \<longleftrightarrow>
     has_hopcount ctx \<and>
     uint (hopcount ctx) < uint (if has_hoplimit ctx then hoplimit ctx else 255) - 1"

definition do_forward ::
  "(pctx \<Rightarrow> bytes \<Rightarrow> nat \<Rightarrow> nat \<Rightarrow> 'st \<Rightarrow> 'st) option \<Rightarrow> bytes \<Rightarrow> pbb_result \<Rightarrow> nat \<Rightarrow> nat \<Rightarrow> pctx \<Rightarrow> 'st \<Rightarrow> pctx \<times> 'st" where
  "do_forward fw buf r start stop ctx st =
     (case fw of
        Some f \<Rightarrow>
          if (r = PBB_OKAY \<or> r = PBB_DROP_MSG_BUT_FORWARD) \<and> forward_allowed ctx
          then let ctx = ctx\<lparr>ctx_type := PBB_CONTEXT_MESSAGE\<rparr> in (ctx, f ctx buf start (stop - start) st)
          else (ctx, st)
      | None \<Rightarrow> (ctx, st))"

text \<open>\<open>_handle_message\<close>: the result, the context, the position after the message, the consumers, the
  client state and the memory.\<close>

definition handle_message ::
  "(nat \<Rightarrow> bool) \<Rightarrow> bytes \<Rightarrow> nat \<Rightarrow> (pctx \<Rightarrow> bytes \<Rightarrow> nat \<Rightarrow> nat \<Rightarrow> 'st \<Rightarrow> 'st) option \<Rightarrow> pctx \<Rightarrow> nat \<Rightarrow> nat \<Rightarrow>
     'st consumer list \<Rightarrow> 'st \<Rightarrow> mem \<Rightarrow> halt + pbb_result \<times> pctx \<times> nat \<times> 'st consumer list \<times> 'st \<times> mem" where
  "handle_message alloc buf junk fw ctx start eob cons st m =
     rbind (parse_message alloc buf junk ctx start eob m) (\<lambda>(r, ctx, tlvs, blocks, end, m).
     if r \<noteq> PBB_OKAY
     then Inr (r, ctx, end, cons, st, free_tlvblock tlvs (free_addrblocks blocks m))
     else
       rbind (deliver_message buf \<lparr>ms_ctx = ctx, ms_tlvs = tlvs, ms_blocks = blocks, ms_cons = cons, ms_st = st\<rparr>)
         (\<lambda>(r, ms).
         let fwd = do_forward fw buf r start end (ms_ctx ms) (ms_st ms);
             m = free_tlvblock (ms_tlvs ms) (free_addrblocks (ms_blocks ms) m)
         in Inr (if r = PBB_DROP_MESSAGE then PBB_OKAY else r, fst fwd, end, ms_cons ms, snd fwd, m)))"

lemma handle_message_progress:
  "handle_message alloc buf junk fw ctx start eob cons st m = Inr (PBB_OKAY, ctx', end, cons', st', m') \<Longrightarrow>
     start < end \<and> end \<le> eob"
  by (auto simp: handle_message_def rbind_Inr_iff Let_def split: prod.split_asm if_splits
      dest!: parse_message_progress)

section \<open>Packets\<close>

function messages_loop ::
  "(nat \<Rightarrow> bool) \<Rightarrow> bytes \<Rightarrow> nat \<Rightarrow> (pctx \<Rightarrow> bytes \<Rightarrow> nat \<Rightarrow> nat \<Rightarrow> 'st \<Rightarrow> 'st) option \<Rightarrow> pctx \<Rightarrow> nat \<Rightarrow> nat \<Rightarrow>
     'st consumer list \<Rightarrow> 'st \<Rightarrow> mem \<Rightarrow> halt + pbb_result \<times> pctx \<times> 'st consumer list \<times> 'st \<times> mem" where
  "messages_loop alloc buf junk fw ctx ptr eob cons st m =
     (if eob \<le> ptr then Inr (PBB_OKAY, ctx, cons, st, m)
      else
        case handle_message alloc buf junk fw ctx ptr eob cons st m of
          Inl h \<Rightarrow> Inl h
        | Inr (r, ctx, ptr', cons, st, m) \<Rightarrow>
            if r \<noteq> PBB_OKAY then Inr (r, ctx, cons, st, m)
            else messages_loop alloc buf junk fw ctx ptr' eob cons st m)"
  by pat_completeness auto
termination
  by (relation "measure (\<lambda>(alloc, buf, junk, fw, ctx, ptr, eob, cons, st, m). eob - ptr)")
    (auto dest!: handle_message_progress)

declare messages_loop.simps [simp del]

text \<open>The packet consumers, in order; the number of consumers started is returned for the end
  callbacks.\<close>

fun packet_consumers_loop ::
  "bytes \<Rightarrow> bool \<Rightarrow> pctx \<Rightarrow> nat list \<Rightarrow> nat \<Rightarrow> tlv_entry list \<Rightarrow> 'st consumer list \<Rightarrow> 'st \<Rightarrow>
     halt + pbb_result \<times> nat \<times> tlv_entry list \<times> 'st consumer list \<times> 'st" where
  "packet_consumers_loop buf has_tlv ctx [] started tlvs cons st = Inr (PBB_OKAY, started, tlvs, cons, st)"
| "packet_consumers_loop buf has_tlv ctx (k # ks) started tlvs cons st =
     (let con = cons ! k
      in rbind (call_start con ctx st) (\<lambda>(r, st).
         if r \<noteq> PBB_OKAY then Inr (r, Suc k, tlvs, cons, st)
         else
           rbind (if has_tlv \<and> (tlv_callback con \<noteq> None \<or> block_callback con \<noteq> None)
                  then schedule_tlvblock con buf ctx tlvs 0 st else Inr (PBB_OKAY, tlvs, con, st))
             (\<lambda>(r, tlvs, con, st).
             let cons = cons[k := con]
             in if r \<noteq> PBB_OKAY then Inr (r, Suc k, tlvs, cons, st)
                else packet_consumers_loop buf has_tlv ctx ks (Suc k) tlvs cons st)))"

text \<open>The end callbacks of the packet consumers; their results are ignored.\<close>

fun packet_end_cbs :: "pctx \<Rightarrow> 'st consumer list \<Rightarrow> pbb_result \<Rightarrow> 'st \<Rightarrow> halt + 'st" where
  "packet_end_cbs ctx [] result st = Inr st"
| "packet_end_cbs ctx (con # cons) result st =
     (case end_callback con of
        None \<Rightarrow> packet_end_cbs ctx cons result st
      | Some cb \<Rightarrow> rbind (cb ctx (result \<noteq> PBB_OKAY) st) (\<lambda>(r, st). packet_end_cbs ctx cons result st))"

definition pbb_get_pktversion :: "u8 \<Rightarrow> u8" where
  "pbb_get_pktversion v = drop_bit 4 v"

definition parse_packet_header :: "bytes \<Rightarrow> nat \<Rightarrow> pbb_result \<times> pctx \<times> nat" where
  "parse_packet_header buf eob =
     (let (first_byte, s) = pbb_get_u8 buf eob (0, PBB_OKAY);
          ctx = empty_pctx\<lparr>pkt_version := pbb_get_pktversion first_byte,
                  pkt_flags := first_byte AND PBB_PKT_FLAGMASK\<rparr>
      in if pkt_version ctx \<noteq> 0 then (PBB_UNSUPPORTED_VERSION, ctx, fst s)
         else
           let ctx = ctx\<lparr>has_pktseqno := pkt_flags ctx AND PBB_PKT_FLAG_SEQNO \<noteq> 0\<rparr>;
               (q, s) = opt_u16 (has_pktseqno ctx) buf eob (pkt_seqno ctx) s
           in (snd s, ctx\<lparr>pkt_seqno := q\<rparr>, fst s))"

definition pbb_reader_handle_packet ::
  "(nat \<Rightarrow> bool) \<Rightarrow> nat \<Rightarrow> 'st pbb_reader \<Rightarrow> bytes \<Rightarrow> nat \<Rightarrow> 'st \<Rightarrow> mem \<Rightarrow>
     halt + pbb_result \<times> 'st pbb_reader \<times> 'st \<times> mem" where
  "pbb_reader_handle_packet alloc junk parser buf len st m =
     (let (r, ctx, ptr) = parse_packet_header buf len;
          has_tlv = pkt_flags ctx AND PBB_PKT_FLAG_TLV \<noteq> 0
      in if r \<noteq> PBB_OKAY then Inr (r, parser, st, m)
         else
           rbind (if has_tlv then parse_tlvblock alloc buf [] ptr len m else Inr (PBB_OKAY, [], ptr, m))
             (\<lambda>(r, tlvs, ptr, m).
             if r \<noteq> PBB_OKAY then Inr (r, parser, st, m)
             else
               rbind (packet_consumers_loop buf has_tlv ctx [0..<length (packet_consumer parser)] 0 tlvs
                        (packet_consumer parser) st) (\<lambda>(r, started, tlvs, pcons, st).
               rbind (if r \<noteq> PBB_OKAY then Inr (r, ctx, message_consumer parser, st, m)
                      else messages_loop alloc buf junk (forward_message parser) ctx ptr len
                             (message_consumer parser) st m) (\<lambda>(r, ctx, mcons, st, m).
               rbind (packet_end_cbs ctx (rev (take started pcons)) r st) (\<lambda>st.
                 Inr (if r = PBB_DROP_PACKET then PBB_OKAY else r,
                      parser\<lparr>packet_consumer := pcons, message_consumer := mcons\<rparr>,
                      st, free_tlvblock tlvs m))))))"

end
