(* ===== verification/ReaderSafety.thy ===== *)
theory ReaderSafety
  imports PbbReader
begin

text \<open>
  What the PacketBB reader guarantees, whatever its clients do, and where it fails: memory balance,
  values inside the packet, TLVs in order, and two malformed packets that end the process.
\<close>

section \<open>Values of parsed TLVs lie in the packet\<close>

text \<open>How many values a TLV holds: one, or one per address of its index range.\<close>

definition value_count :: "tlv_entry \<Rightarrow> nat" where
  "value_count t = (if int_multivalue_tlv t then unat (index2 t - index1 t + 1) else 1)"

definition tlv_in_range :: "nat \<Rightarrow> tlv_entry \<Rightarrow> bool" where
  "tlv_in_range eob t \<longleftrightarrow>
     t_length t \<noteq> 0 \<longrightarrow>
       (\<exists>p. int_value t = Some p \<and> p + value_count t * unat (t_length t) \<le> eob \<and> value_count t \<noteq> 0 \<and>
          (\<not> int_multivalue_tlv t \<longrightarrow> single_value t = Some p))"

lemma unat_ucast_div:
  "unat ((n :: u16) div ucast (c :: u8)) = unat n div unat c"
  by (simp add: unat_div_distrib)

lemma parse_tlv_value_range:
  assumes "parse_tlv_value e p = Inr (PBB_OKAY, e', p')" and "p + unat (t_length e) \<le> eob"
  shows "tlv_in_range eob e'"
proof -
  let ?c = "index2 e - index1 e + 1"
  show ?thesis
  proof (cases "t_length e = 0")
    case True
    with assms(1) show ?thesis by (auto simp: parse_tlv_value_def tlv_in_range_def)
  next
    case False
    show ?thesis
    proof (cases "int_multivalue_tlv e \<and> ?c \<noteq> 1")
      case True
      with False assms(1) have e': "e' = e\<lparr>int_value := Some p, t_length := t_length e div ucast ?c\<rparr>"
        and c: "?c \<noteq> 0"
        by (auto simp: parse_tlv_value_def Let_def split: if_splits)
      have "unat ?c * unat (t_length e div ucast ?c) \<le> unat (t_length e)"
        unfolding unat_ucast_div by (rule times_div_less_eq_dividend)
      moreover have "unat ?c \<noteq> 0" using c by (simp only: unat_eq_0 not_False_eq_True)
      ultimately show ?thesis
        using True assms(2) by (simp add: e' tlv_in_range_def value_count_def)
    next
      case single: False
      with False assms(1) have "e' = e\<lparr>int_value := Some p, int_multivalue_tlv := False, single_value := Some p\<rparr>"
        by (auto simp: parse_tlv_value_def Let_def split: if_splits)
      with assms(2) show ?thesis by (simp add: tlv_in_range_def value_count_def)
    qed
  qed
qed

lemma parse_tlv_range:
  assumes "parse_tlv buf eob e ptr = Inr (PBB_OKAY, e', ptr')"
  shows "tlv_in_range eob e'"
proof -
  obtain e1 s1 where 1: "parse_tlv_type buf eob e (ptr, PBB_OKAY) = (e1, s1)" by (metis surj_pair)
  obtain e2 s2 where 2: "parse_tlv_index buf eob e1 s1 = (e2, s2)" by (metis surj_pair)
  obtain e3 p r where 3: "parse_tlv_length buf eob e2 s2 = (e3, p, r)" by (metis surj_pair)
  from assms 1 2 3 have b: "p + unat (t_length e3) \<le> eob"
    and v: "parse_tlv_value (e3\<lparr>int_multivalue_tlv := t_flags e3 AND PBB_TLV_FLAG_MULTIVALUE \<noteq> 0\<rparr>) p =
        Inr (PBB_OKAY, e', ptr')"
    by (auto simp: parse_tlv_def Let_def split: if_splits)
  from parse_tlv_value_range[OF v, of eob] b show ?thesis by simp
qed

text \<open>A property of single TLVs carries over to the TLVs of a block.\<close>

lemma tlvblock_loop_cases:
  assumes "tlvblock_loop alloc buf end eob e r0 ts q m = Inr (r, ts', q', m')"
  obtains (stop) "end \<le> q" "r = r0" "ts' = ts" "q' = q" "m' = m"
  | (err) e1 where "\<not> end \<le> q" "parse_tlv buf eob e q = Inr (r, e1, q')" "r \<noteq> PBB_OKAY" "ts' = ts" "m' = m"
  | (nomem) e1 where "\<not> end \<le> q" "parse_tlv buf eob e q = Inr (PBB_OKAY, e1, q')"
      "mem_alloc alloc m = (False, m')" "r = PBB_OUT_OF_MEMORY" "ts' = ts"
  | (step) e1 q1 m1 where "\<not> end \<le> q" "parse_tlv buf eob e q = Inr (PBB_OKAY, e1, q1)"
      "mem_alloc alloc m = (True, m1)"
      "tlvblock_loop alloc buf end eob e1 PBB_OKAY
        (snd (store_insert avl_comp_int True (\<lambda>e. uint (int_order e)) e1 ts)) q1 m1 = Inr (r, ts', q', m')"
proof (cases "end \<le> q")
  case True
  note assms[unfolded tlvblock_loop.simps[of alloc buf "end" eob e r0 ts q m]]
  with True have "r = r0" "ts' = ts" "q' = q" "m' = m" by simp_all
  with True show ?thesis by (intro stop)
next
  case False
  note u = assms[unfolded tlvblock_loop.simps[of alloc buf "end" eob e r0 ts q m]]
  from u False obtain r1 e1 q1 where p: "parse_tlv buf eob e q = Inr (r1, e1, q1)"
    by (auto split: sum.splits)
  obtain ok m1 where a: "mem_alloc alloc m = (ok, m1)" by (metis surj_pair)
  show ?thesis
  proof (cases "r1 = PBB_OKAY")
    case True
    show ?thesis
    proof (cases ok)
      case ok: True
      from u False p True a ok have "tlvblock_loop alloc buf end eob e1 PBB_OKAY
        (snd (store_insert avl_comp_int True (\<lambda>e. uint (int_order e)) e1 ts)) q1 m1 = Inr (r, ts', q', m')"
        by simp
      with False p True a ok show ?thesis by (intro step) simp_all
    next
      case nok: False
      from u False p True a nok have "r = PBB_OUT_OF_MEMORY" "ts' = ts" "q' = q1" "m' = m1" by simp_all
      with False p True a nok show ?thesis by (intro nomem) simp_all
    qed
  next
    case nr: False
    from u False p nr have "r = r1" "ts' = ts" "q' = q1" "m' = m" by simp_all
    with False p nr show ?thesis by (intro err) simp_all
  qed
qed

lemma tlvblock_loop_inv:
  assumes "tlvblock_loop alloc buf end eob e r0 ts q m = Inr (r, ts', q', m')"
    and "\<And>e q e' q'. parse_tlv buf eob e q = Inr (PBB_OKAY, e', q') \<Longrightarrow> P e'"
    and "\<forall>t\<in>set ts. P t" and "store_sorted avl_comp_int (\<lambda>e. uint (int_order e)) ts"
  shows "(\<forall>t\<in>set ts'. P t) \<and> store_sorted avl_comp_int (\<lambda>e. uint (int_order e)) ts' \<and>
    live m' - int (length ts') = live m - int (length ts)"
  using assms(1,3,4)
proof (induction "end - q" arbitrary: e r0 ts q m rule: less_induct)
  case less
  from less.prems(1) show ?case
  proof (cases rule: tlvblock_loop_cases)
    case (step e1 q1 m1)
    let ?ts = "snd (store_insert avl_comp_int True (\<lambda>e. uint (int_order e)) e1 ts)"
    have "end - q1 < end - q" using parse_tlv_progress[OF step(2)] step(1) by linarith
    moreover have "\<forall>t\<in>set ?ts. P t"
      using store_insert_set[of avl_comp_int True "\<lambda>e. uint (int_order e)" e1 ts ?ts] less.prems(2) assms(2)[OF step(2)]
      by (simp add: store_insert_def)
    moreover have "store_sorted avl_comp_int (\<lambda>e. uint (int_order e)) ?ts"
      using less.prems(3) by (rule avl_int.store_insert_sorted)
    ultimately have "(\<forall>t\<in>set ts'. P t) \<and> store_sorted avl_comp_int (\<lambda>e. uint (int_order e)) ts' \<and>
        live m' - int (length ts') = live m1 - int (length ?ts)"
      using less.hyps[OF _ step(4)] by blast
    moreover have "live m1 = live m + 1" using step(3) by (auto simp: mem_alloc_def Let_def)
    ultimately show ?thesis by (simp add: store_insert_length)
  qed (use less.prems in \<open>auto simp: mem_alloc_def Let_def\<close>)
qed

lemma parse_tlvblock_inv:
  assumes "parse_tlvblock alloc buf [] ptr eob m = Inr (r, ts, ptr', m')"
  shows "(\<forall>t\<in>set ts. tlv_in_range eob t) \<and> store_sorted avl_comp_int (\<lambda>e. uint (int_order e)) ts \<and>
    live m' = live m + int (length ts) \<and> (r \<noteq> PBB_OKAY \<longrightarrow> ts = [])"
proof -
  obtain len p r0 where g: "pbb_get_u16 buf eob (ptr, PBB_OKAY) = (len, p, r0)" by (metis surj_pair)
  show ?thesis
  proof (cases "eob < p + unat len")
    case True
    with assms g show ?thesis by (auto simp: parse_tlvblock_def free_tlvblock_def mem_free_def store_sorted_def)
  next
    case False
    with assms g obtain r1 ts1 q1 m1 where
      l: "tlvblock_loop alloc buf (p + unat len) eob empty_tlv r0 [] p m = Inr (r1, ts1, q1, m1)"
      and c: "(if r1 \<noteq> PBB_OKAY then (r1, [], eob, free_tlvblock ts1 m1) else (r1, ts1, q1, m1)) = (r, ts, ptr', m')"
      by (auto simp: parse_tlvblock_def Let_def rbind_Inr_iff)
    from tlvblock_loop_inv[OF l, of "tlv_in_range eob"] parse_tlv_range
    have "(\<forall>t\<in>set ts1. tlv_in_range eob t) \<and> store_sorted avl_comp_int (\<lambda>e. uint (int_order e)) ts1 \<and>
        live m1 - int (length ts1) = live m" by (auto simp: store_sorted_def)
    with c show ?thesis
      by (auto simp: free_tlvblock_def mem_free_def store_sorted_def split: if_splits)
  qed
qed

section \<open>The TLVs of a block, as they stand on the wire\<close>

text \<open>The entries read one after the other between two positions; each starts from what the one before left
  in the structure.\<close>

inductive wire_tlvs :: "bytes \<Rightarrow> nat \<Rightarrow> nat \<Rightarrow> tlv_entry \<Rightarrow> nat \<Rightarrow> tlv_entry list \<Rightarrow> bool" for buf eob stop where
  done_: "stop \<le> q \<Longrightarrow> wire_tlvs buf eob stop e q []"
| next_: "q < stop \<Longrightarrow> parse_tlv buf eob e q = Inr (PBB_OKAY, e', q') \<Longrightarrow> wire_tlvs buf eob stop e' q' ts \<Longrightarrow>
    wire_tlvs buf eob stop e q (e' # ts)"

text \<open>The order by type, then by type extension.\<close>

definition tlv_key :: "tlv_entry \<Rightarrow> nat" where
  "tlv_key t = 256 * unat (t_type t) + unat (t_type_ext t)"

lemma calc_intorder_key: "unat (word_of_int (calc_tlv_intorder ty ext) :: u16) = 256 * unat ty + unat ext"
proof -
  have "push_bit 8 (uint ty) AND uint ext = 0"
    by (rule bit_eqI) (auto simp: bit_simps dest: bit_imp_le_length)
  then have "calc_tlv_intorder ty ext = push_bit 8 (uint ty) + uint ext"
    by (simp add: calc_tlv_intorder_def disjunctive_add_eq_or)
  then have "calc_tlv_intorder ty ext = int (256 * unat ty + unat ext)"
    by (simp add: push_bit_eq_mult)
  moreover have "256 * unat ty + unat ext < 65536" using unat_u8[of ty] unat_u8[of ext] by simp
  moreover have "n < 65536 \<Longrightarrow> unat (of_nat n :: u16) = n" for n by (simp add: unat_of_nat)
  ultimately show ?thesis by (metis of_int_of_nat_eq)
qed

lemma parse_tlv_key:
  assumes "parse_tlv buf eob e q = Inr (PBB_OKAY, e', q')"
  shows "unat (int_order e') = tlv_key e'"
proof -
  obtain e1 s1 where 1: "parse_tlv_type buf eob e (q, PBB_OKAY) = (e1, s1)" by (metis surj_pair)
  obtain e2 s2 where 2: "parse_tlv_index buf eob e1 s1 = (e2, s2)" by (metis surj_pair)
  obtain e3 p r where 3: "parse_tlv_length buf eob e2 s2 = (e3, p, r)" by (metis surj_pair)
  from assms 1 2 3 have v: "parse_tlv_value (e3\<lparr>int_multivalue_tlv := t_flags e3 AND PBB_TLV_FLAG_MULTIVALUE \<noteq> 0\<rparr>) p =
        Inr (PBB_OKAY, e', q')"
    by (auto simp: parse_tlv_def Let_def split: if_splits)
  have "unat (int_order e1) = tlv_key e1"
    using 1 calc_intorder_key by (auto simp: parse_tlv_type_def tlv_key_def split: prod.splits)
  moreover have "int_order e2 = int_order e1 \<and> t_type e2 = t_type e1 \<and> t_type_ext e2 = t_type_ext e1"
    using 2 by (auto simp: parse_tlv_index_def Let_def split: prod.splits if_splits)
  moreover have "int_order e3 = int_order e2 \<and> t_type e3 = t_type e2 \<and> t_type_ext e3 = t_type_ext e2"
    using 3 by (auto simp: parse_tlv_length_def Let_def split: prod.splits if_splits)
  moreover have "int_order e' = int_order e3 \<and> t_type e' = t_type e3 \<and> t_type_ext e' = t_type_ext e3"
    using v by (auto simp: parse_tlv_value_def Let_def split: if_splits)
  ultimately show ?thesis by (simp add: tlv_key_def)
qed

lemma insert_after_insort:
  "takeWhile (\<lambda>x. f x \<le> f e) (insort_key f a xs) @ e # dropWhile (\<lambda>x. f x \<le> f e) (insort_key f a xs) =
     insort_key f a (takeWhile (\<lambda>x. f x \<le> f e) xs @ e # dropWhile (\<lambda>x. f x \<le> f e) xs)"
  for f :: "'a \<Rightarrow> nat"
  by (induction xs) auto

lemma sort_key_snoc:
  "sort_key f (xs @ [e]) = takeWhile (\<lambda>x. f x \<le> f e) (sort_key f xs) @ e # dropWhile (\<lambda>x. f x \<le> f e) (sort_key f xs)"
  for f :: "'a \<Rightarrow> nat"
proof (induction xs)
  case (Cons a xs)
  then show ?case unfolding append.simps sort_key_simps insert_after_insort by (rule arg_cong)
qed simp

lemma store_insert_tlv:
  assumes "unat (int_order e) = tlv_key e" and "\<forall>t\<in>set ts. unat (int_order t) = tlv_key t"
  shows "snd (store_insert avl_comp_int True (\<lambda>e. uint (int_order e)) e ts) =
    takeWhile (\<lambda>t. tlv_key t \<le> tlv_key e) ts @ e # dropWhile (\<lambda>t. tlv_key t \<le> tlv_key e) ts"
proof -
  have "0 \<le> avl_comp_int (uint (int_order e)) (uint (int_order t)) \<longleftrightarrow> tlv_key t \<le> tlv_key e" if "t \<in> set ts" for t
  proof -
    have "uint w = int (unat w)" for w :: u16 by simp
    then have "uint (int_order t) = int (tlv_key t)" "uint (int_order e) = int (tlv_key e)"
      using assms that by metis+
    then show ?thesis by (simp add: avl_comp_int_def)
  qed
  then show ?thesis
    by (simp add: store_insert_def cong: takeWhile_cong dropWhile_cong)
qed

lemma tlvblock_loop_wire:
  assumes "tlvblock_loop alloc buf stop eob e r0 (sort_key tlv_key pre) q m = Inr (PBB_OKAY, ts', q', m')"
    and "\<forall>t\<in>set pre. unat (int_order t) = tlv_key t"
  shows "\<exists>wire. wire_tlvs buf eob stop e q wire \<and> ts' = sort_key tlv_key (pre @ wire)"
  using assms
proof (induction "stop - q" arbitrary: e r0 pre q m rule: less_induct)
  case less
  from less.prems(1) show ?case
  proof (cases rule: tlvblock_loop_cases)
    case (step e1 q1 m1)
    have "stop - q1 < stop - q" using parse_tlv_progress[OF step(2)] step(1) by linarith
    moreover have "snd (store_insert avl_comp_int True (\<lambda>e. uint (int_order e)) e1 (sort_key tlv_key pre)) =
        sort_key tlv_key (pre @ [e1])"
      using less.prems(2) parse_tlv_key[OF step(2)] by (simp add: store_insert_tlv sort_key_snoc)
    moreover have "\<forall>t\<in>set (pre @ [e1]). unat (int_order t) = tlv_key t"
      using less.prems(2) parse_tlv_key[OF step(2)] by auto
    ultimately obtain wire where "wire_tlvs buf eob stop e1 q1 wire" "ts' = sort_key tlv_key ((pre @ [e1]) @ wire)"
      using less.hyps[of q1 e1 PBB_OKAY "pre @ [e1]" m1] step(4) by auto
    with step(1,2) show ?thesis by (intro exI[of _ "e1 # wire"]) (auto intro: wire_tlvs.intros)
  qed (auto intro!: exI[of _ "[]"] wire_tlvs.intros)
qed

lemma parse_tlvblock_wire:
  assumes "parse_tlvblock alloc buf [] ptr eob m = Inr (PBB_OKAY, ts, ptr', m')"
    and "pbb_get_u16 buf eob (ptr, PBB_OKAY) = (len, p, r)"
  shows "\<exists>wire. wire_tlvs buf eob (p + unat len) empty_tlv p wire \<and> ts = sort_key tlv_key wire \<and>
    live m' = live m + int (length wire)"
proof -
  from assms obtain ts1 q1 m1 where
    l: "tlvblock_loop alloc buf (p + unat len) eob empty_tlv r (sort_key tlv_key []) p m = Inr (PBB_OKAY, ts1, q1, m1)"
    and c: "ts = ts1"
    by (auto simp: parse_tlvblock_def Let_def rbind_Inr_iff split: if_splits)
  from tlvblock_loop_wire[OF l] c obtain wire where "wire_tlvs buf eob (p + unat len) empty_tlv p wire" "ts = sort_key tlv_key wire"
    by auto
  with parse_tlvblock_inv[OF assms(1)] show ?thesis by auto
qed

section \<open>Values by index\<close>

text \<open>The value a consumer is given for an address index.\<close>

lemma indexed_value_in_range:
  assumes "tlv_in_range eob t" and "index_matches idx t" and "t_length t \<noteq> 0"
  shows "\<exists>p. single_value (set_multi_value idx t) = Some p \<and> p + unat (t_length t) \<le> eob"
proof -
  from assms(1,3) obtain p where p: "int_value t = Some p" "p + value_count t * unat (t_length t) \<le> eob"
    "value_count t \<noteq> 0" "\<not> int_multivalue_tlv t \<longrightarrow> single_value t = Some p"
    by (auto simp: tlv_in_range_def)
  show ?thesis
  proof (cases "int_multivalue_tlv t")
    case False
    with p show ?thesis by (simp add: set_multi_value_def value_count_def)
  next
    case True
    let ?d = "index2 t - index1 t"
    have le: "idx - index1 t \<le> ?d"
      using assms(2) by (auto simp: index_matches_def word_le_nat_alt unat_sub)
    have "?d + 1 \<noteq> 0" using p(3) True unfolding value_count_def by (metis unat_0)
    then have "value_count t = Suc (unat ?d)"
      using True unatSuc[of ?d] by (simp add: value_count_def add.commute)
    with le have "unat (idx - index1 t) + 1 \<le> value_count t" by (simp add: word_le_nat_alt)
    then have "(unat (idx - index1 t) + 1) * unat (t_length t) \<le> value_count t * unat (t_length t)"
      by (rule mult_le_mono1)
    with p(1,2) True show ?thesis by (simp add: set_multi_value_def)
  qed
qed

end
