(* ===== verification/ReaderClient.thy ===== *)
theory ReaderClient
  imports ReaderSafety
begin

text \<open>
  The contract between the PacketBB reader and its clients: an invariant that every callback of the
  registered consumers preserves is preserved by the handling of a whole packet, and the reader only
  changes its own bookkeeping in the consumers. The lemmas also count the parsed objects, since the
  reader has to free as many as it allocated.
\<close>

definition blocks_size :: "addrblock list \<Rightarrow> nat" where
  "blocks_size bs = sum_list (map (\<lambda>a. Suc (length (tlvblock a))) bs)"

lemma free_addrblocks_live: "live (free_addrblocks bs m) = live m - int (blocks_size bs)"
  by (induction bs arbitrary: m)
    (simp_all add: free_addrblocks_def blocks_size_def free_tlvblock_def mem_free_def)

lemma parse_addrblocks_live:
  "parse_addrblocks alloc buf al ptr end bs m = Inr (r, bs', m') \<Longrightarrow>
     live m' - int (blocks_size bs') = live m - int (blocks_size bs)"
proof (induction "end - ptr" arbitrary: ptr bs m rule: less_induct)
  case less
  from less.prems show ?case
  proof (cases rule: parse_addrblocks_cases)
    case (step m1 a ptr1 tlvs ptr2 m2)
    have "end - ptr2 < end - ptr"
      using parse_addrblock_progress[OF step(3)] parse_tlvblock_progress[OF step(4)] step(1) by linarith
    from less.hyps[OF this step(5)] parse_tlvblock_inv[OF step(4)] step(2) show ?thesis
      by (auto simp: blocks_size_def mem_alloc_def Let_def)
  next
    case (badtlvs m1 a ptr1 tlvs ptr2 m2)
    with parse_tlvblock_inv[OF badtlvs(4)] show ?thesis by (auto simp: mem_alloc_def Let_def mem_free_def)
  qed (auto simp: mem_alloc_def Let_def mem_free_def)
qed

lemma parse_message_live:
  assumes "parse_message alloc buf junk ctx start eob m = Inr (r, ctx', tlvs, bs, end, m')"
  shows "live m' = live m + int (length tlvs) + int (blocks_size bs)"
proof -
  obtain r1 ctx1 p1 e1 where h: "parse_message_header buf junk ctx start eob = (r1, ctx1, p1, e1)" by (metis surj_pair)
  show ?thesis
  proof (cases "r1 = PBB_OKAY")
    case True
    with assms h obtain r2 ts2 p2 m2 where t: "parse_tlvblock alloc buf [] p1 e1 m = Inr (r2, ts2, p2, m2)"
      by (auto simp: parse_message_def rbind_Inr_iff)
    note l = parse_tlvblock_inv[OF t]
    show ?thesis
    proof (cases "r2 = PBB_OKAY")
      case r2: True
      with assms h True t obtain r3 where
        "parse_addrblocks alloc buf (addr_len ctx1) p2 e1 [] m2 = Inr (r3, bs, m')" "tlvs = ts2"
        by (auto simp: parse_message_def rbind_Inr_iff)
      with parse_addrblocks_live[OF this(1)] l show ?thesis by (simp add: blocks_size_def)
    qed (use assms h True t l in \<open>auto simp: parse_message_def blocks_size_def\<close>)
  qed (use assms h in \<open>auto simp: parse_message_def blocks_size_def\<close>)
qed

lemma sched_loop_cases:
  assumes "sched_loop con buf ctx idx i j mm tlvs ces st = Inr (ex, mm', tlvs', ces', st')"
  obtains (stop) "ex = None" "mm' = mm" "tlvs' = tlvs" "ces' = ces" "st' = st"
  | (exit) miss where "\<not> (length ces \<le> j \<and> length tlvs \<le> i)"
      "sched_step con buf ctx idx i j tlvs ces st = Inr (ex, miss, tlvs', ces', st')" "ex \<noteq> None"
  | (both) miss tlvs1 ces1 st1 where "\<not> (length ces \<le> j \<and> length tlvs \<le> i)"
      "sched_step con buf ctx idx i j tlvs ces st = Inr (None, miss, tlvs1, ces1, st1)"
      "cons_order_at ces1 j < tlv_order_at tlvs1 (next_tlv tlvs1 ces1 i j)"
      "sched_loop con buf ctx idx (next_tlv tlvs1 ces1 i j) (Suc j) (mm \<or> miss) tlvs1
         (reset_entry (Suc j) ces1) st1 = Inr (ex, mm', tlvs', ces', st')"
  | (one) miss tlvs1 ces1 st1 where "\<not> (length ces \<le> j \<and> length tlvs \<le> i)"
      "sched_step con buf ctx idx i j tlvs ces st = Inr (None, miss, tlvs1, ces1, st1)"
      "\<not> cons_order_at ces1 j < tlv_order_at tlvs1 (next_tlv tlvs1 ces1 i j)"
      "sched_loop con buf ctx idx (next_tlv tlvs1 ces1 i j) j (mm \<or> miss) tlvs1 ces1 st1 =
         Inr (ex, mm', tlvs', ces', st')"
proof (cases "length ces \<le> j \<and> length tlvs \<le> i")
  case True
  note assms[unfolded sched_loop.simps[of con buf ctx idx i j mm tlvs ces st]]
  with True have "ex = None" "mm' = mm" "tlvs' = tlvs" "ces' = ces" "st' = st" by simp_all
  then show ?thesis by (rule stop)
next
  case False
  note u = assms[unfolded sched_loop.simps[of con buf ctx idx i j mm tlvs ces st] if_not_P[OF False]]
  from u obtain ex1 miss tlvs1 ces1 st1 where
    s: "sched_step con buf ctx idx i j tlvs ces st = Inr (ex1, miss, tlvs1, ces1, st1)"
    by (auto simp: rbind_Inr_iff)
  note v = u[unfolded s rbind_simps case_prod_conv Let_def]
  show ?thesis
  proof (cases "ex1 = None")
    case True
    show ?thesis
    proof (cases "cons_order_at ces1 j < tlv_order_at tlvs1 (next_tlv tlvs1 ces1 i j)")
      case lt: True
      with v True show ?thesis using both[OF False _ lt] s by simp
    next
      case nlt: False
      with v True show ?thesis using one[OF False _ nlt] s by simp
    qed
  qed (use v s False in \<open>auto intro: exit\<close>)
qed

locale reader_client =
  fixes inv :: "'st \<Rightarrow> bool" and con_ok :: "'st consumer \<Rightarrow> bool"
  assumes ok_entries: "con_ok c \<Longrightarrow> con_ok (c\<lparr>consumer_entries := es\<rparr>)"
    and start_inv: "con_ok c \<Longrightarrow> start_callback c = Some f \<Longrightarrow> inv st \<Longrightarrow> f ctx st = Inr (r, st') \<Longrightarrow> inv st'"
    and end_inv: "con_ok c \<Longrightarrow> end_callback c = Some g \<Longrightarrow> inv st \<Longrightarrow> g ctx d st = Inr (r, st') \<Longrightarrow> inv st'"
    and tlv_inv: "con_ok c \<Longrightarrow> tlv_callback c = Some h \<Longrightarrow> inv st \<Longrightarrow> h buf t ctx st = Inr (r, st') \<Longrightarrow> inv st'"
    and block_inv: "con_ok c \<Longrightarrow> block_callback c = Some k \<Longrightarrow> inv st \<Longrightarrow>
      k buf ts ces ctx mm st = Inr (r, ces', st') \<Longrightarrow> inv st'"
begin

lemma sched_step_inv:
  assumes "sched_step con buf ctx idx i j tlvs ces st = Inr (ex, miss, tlvs', ces', st')"
    and "con_ok con" and "inv st"
  shows "inv st'"
  using assms
  by (auto simp: sched_step_def Let_def rbind_Inr_iff split: if_splits option.splits intro: tlv_inv)

lemma sched_loop_inv:
  assumes "sched_loop con buf ctx idx i j mm tlvs ces st = Inr (ex, mm', tlvs', ces', st')"
    and "con_ok con" and "inv st"
  shows "inv st' \<and> length tlvs' = length tlvs"
  using assms
proof (induction "length tlvs - i + (length ces - j)" arbitrary: i j mm tlvs ces st rule: less_induct)
  case less
  from less.prems(1) show ?case
  proof (cases rule: sched_loop_cases)
    case stop
    with less.prems show ?thesis by simp
  next
    case (exit miss)
    with sched_step_inv[OF exit(2) less.prems(2,3)] sched_step_orders[OF exit(2)] show ?thesis by simp
  next
    case (both miss tlvs1 ces1 st1)
    note o = sched_step_orders[OF both(2)]
    with both(1) have "\<not> (length ces1 \<le> j \<and> length tlvs1 \<le> i)" by simp
    from sched_progress(1)[OF this both(3)] o less.hyps[OF _ both(4) less.prems(2)]
      sched_step_inv[OF both(2) less.prems(2,3)]
    show ?thesis by simp
  next
    case (one miss tlvs1 ces1 st1)
    note o = sched_step_orders[OF one(2)]
    with one(1) have "\<not> (length ces1 \<le> j \<and> length tlvs1 \<le> i)" by simp
    from sched_progress(2)[OF this one(3)] o less.hyps[OF _ one(4) less.prems(2)]
      sched_step_inv[OF one(2) less.prems(2,3)]
    show ?thesis by simp
  qed
qed

lemma drop_marked_length: "drop_marked idx ces tlvs = (ces', tlvs') \<Longrightarrow> length tlvs' = length tlvs"
  by (induction idx ces tlvs arbitrary: ces' tlvs' rule: drop_marked.induct)
    (auto simp: Let_def split: option.splits if_splits prod.splits)

lemma schedule_tlvblock_inv:
  assumes "schedule_tlvblock con buf ctx tlvs idx st = Inr (r, tlvs', con', st')"
    and "con_ok con" and "inv st"
  shows "inv st' \<and> length tlvs' = length tlvs \<and> con_ok con'"
proof (cases "tlvs = []")
  case True
  with assms show ?thesis by (simp add: schedule_tlvblock_def)
next
  case False
  with assms(1) obtain ex mm tlvs1 ces1 st1 where
    l: "sched_loop con buf ctx idx 0 0 False tlvs (reset_entry 0 (consumer_entries con)) st =
      Inr (ex, mm, tlvs1, ces1, st1)"
    by (auto simp: schedule_tlvblock_def rbind_Inr_iff)
  note i = sched_loop_inv[OF l assms(2,3)]
  have k: "con_ok (con\<lparr>consumer_entries := es\<rparr>)" for es using assms(2) by (rule ok_entries)
  show ?thesis
  proof (cases "ex = None \<and> block_callback con \<noteq> None")
    case True
    then obtain cb where cb: "block_callback con = Some cb" by blast
    with assms(1) l True False obtain r2 ces2 st2 where
      c: "cb buf tlvs1 ces1 ctx mm st1 = Inr (r2, ces2, st2)"
      by (auto simp: schedule_tlvblock_def rbind_Inr_iff)
    have "inv st2" using block_inv[OF assms(2) cb] i c by blast
    moreover obtain ces3 tlvs3 where d: "drop_marked idx ces2 tlvs1 = (ces3, tlvs3)" by (metis surj_pair)
    ultimately show ?thesis
      using assms(1) l True False cb c d i drop_marked_length[OF d] k
      by (auto simp: schedule_tlvblock_def split: if_splits)
  next
    case nb: False
    with assms(1) l False i k show ?thesis
      by (auto simp: schedule_tlvblock_def split: option.splits)
  qed
qed

lemma call_start_inv: "call_start con ctx st = Inr (r, st') \<Longrightarrow> con_ok con \<Longrightarrow> inv st \<Longrightarrow> inv st'"
  by (auto simp: call_start_def split: option.splits intro: start_inv)

lemma schedule_msgtlv_inv:
  assumes "schedule_msgtlv_consumer con buf ctx tlvs st = Inr (r, ctx', tlvs', con', st')"
    and "con_ok con" and "inv st"
  shows "inv st' \<and> length tlvs' = length tlvs \<and> con_ok con'"
  using assms
  by (auto simp: schedule_msgtlv_consumer_def Let_def rbind_Inr_iff split: if_splits
      dest!: call_start_inv schedule_tlvblock_inv)

lemma addr_callbacks_inv:
  assumes "addr_callbacks con buf ctx tlvs idx st = Inr (r, tlvs', con', st')" and "con_ok con" and "inv st"
  shows "inv st' \<and> length tlvs' = length tlvs \<and> con_ok con'"
proof -
  from assms(1) obtain r1 st1 r2 st2 r3 st3 where
    1: "call_start con ctx st = Inr (r1, st1)"
    and 2: "(if r1 = PBB_OKAY then schedule_tlvblock con buf ctx tlvs idx st1
         else Inr (r1, tlvs, con, st1)) = Inr (r2, tlvs', con', st2)"
    and 3: "(case end_callback con' of None \<Rightarrow> Inr (r2, st2)
       | Some cb \<Rightarrow> rbind (cb ctx (r2 \<noteq> PBB_OKAY) st2) (\<lambda>(r, st). Inr (if r2 < r then r else r2, st))) =
       Inr (r3, st')"
    unfolding addr_callbacks_def rbind_Inr_iff by (auto simp: rbind_Inr_iff)
  have "inv st1" using call_start_inv[OF 1 assms(2,3)] .
  then have i2: "inv st2 \<and> length tlvs' = length tlvs \<and> con_ok con'"
    using 2 assms(2) schedule_tlvblock_inv by (auto split: if_splits)
  then have "inv st'" using 3 end_inv[of con'] by (auto simp: rbind_Inr_iff split: option.splits)
  with i2 show ?thesis by simp
qed

lemma addr_step_inv:
  assumes "addr_step con buf ctx a i st = Inr (r, ctx', a', con', st')" and "con_ok con" and "inv st"
  shows "inv st' \<and> length (tlvblock a') = length (tlvblock a) \<and> con_ok con'"
proof (cases "test_addrbitarray (dropAddr a) (of_nat i)")
  case True
  with assms show ?thesis by (simp add: addr_step_def)
next
  case False
  with assms(1) obtain full r1 tlvs st1 where
    "addr_callbacks con buf (addr_ctx buf a full i ctx) (tlvblock a) (of_nat i) st = Inr (r1, tlvs, con', st')"
    and "tlvblock a' = tlvs"
    by (auto simp: addr_step_def rbind_Inr_iff split: if_splits)
  with addr_callbacks_inv assms(2,3) show ?thesis by blast
qed

lemma addr_loop_inv:
  "addr_loop con buf ctx a is st = Inr (r, ctx', a', con', st') \<Longrightarrow> con_ok con \<Longrightarrow> inv st \<Longrightarrow>
     inv st' \<and> length (tlvblock a') = length (tlvblock a) \<and> con_ok con'"
proof (induction "is" arbitrary: con ctx a st)
  case (Cons i "is")
  from Cons.prems(1) obtain r1 ctx1 a1 con1 st1 where s: "addr_step con buf ctx a i st = Inr (r1, ctx1, a1, con1, st1)"
    by (auto simp: rbind_Inr_iff)
  note i = addr_step_inv[OF s Cons.prems(2,3)]
  show ?case
  proof (cases "r1 = PBB_OKAY")
    case True
    with Cons.prems(1) s have "addr_loop con1 buf ctx1 a1 is st1 = Inr (r, ctx', a', con', st')" by simp
    from Cons.IH[OF this] i show ?thesis by simp
  qed (use Cons.prems(1) s i in auto)
qed simp

lemma addrblocks_loop_inv:
  "addrblocks_loop con buf ctx bs st = Inr (r, ctx', bs', con', st') \<Longrightarrow> con_ok con \<Longrightarrow> inv st \<Longrightarrow>
     inv st' \<and> blocks_size bs' = blocks_size bs \<and> con_ok con'"
proof (induction bs arbitrary: con ctx st r ctx' bs' con' st')
  case (Cons a bs)
  from Cons.prems(1) obtain r1 ctx1 a1 con1 st1 where
    s: "addr_loop con buf (ctx\<lparr>prefixlen := ab_prefixlen a\<rparr>) a [0..<unat (num_addr a)] st = Inr (r1, ctx1, a1, con1, st1)"
    by (auto simp: rbind_Inr_iff)
  note i = addr_loop_inv[OF s Cons.prems(2,3)]
  show ?case
  proof (cases "r1 = PBB_OKAY")
    case True
    with Cons.prems(1) s obtain r2 ctx2 bs2 con2 st2 where
      l: "addrblocks_loop con1 buf ctx1 bs st1 = Inr (r2, ctx2, bs2, con2, st2)"
      and e: "bs' = a1 # bs2" "con' = con2" "st' = st2" by (auto simp: rbind_Inr_iff)
    from Cons.IH[OF l] i e show ?thesis by (simp add: blocks_size_def)
  qed (use Cons.prems(1) s i in \<open>auto simp: blocks_size_def\<close>)
qed simp

lemma end_cbs_loop_inv:
  "end_cbs_loop ctx cons r st = Inr (r', st') \<Longrightarrow> \<forall>c\<in>set cons. con_ok c \<Longrightarrow> inv st \<Longrightarrow> inv st'"
proof (induction cons arbitrary: r st)
  case (Cons con cons)
  show ?case
  proof (cases "\<exists>cb. end_callback con = Some cb \<and> (default_msg_consumer con \<or> msg_id con = msg_type ctx)")
    case True
    then obtain cb where cb: "end_callback con = Some cb" "default_msg_consumer con \<or> msg_id con = msg_type ctx"
      by blast
    with Cons.prems(1) obtain r1 st1 where c: "cb ctx (r \<noteq> PBB_OKAY) st = Inr (r1, st1)"
      and l: "end_cbs_loop ctx cons (if r < r1 then r1 else r) st1 = Inr (r', st')"
      by (auto simp: rbind_Inr_iff)
    have "inv st1" using end_inv[OF _ cb(1) _ c] Cons.prems by simp
    with Cons.IH[OF l] Cons.prems(2) show ?thesis by simp
  next
    case False
    with Cons.prems(1) have "end_cbs_loop ctx cons r st = Inr (r', st')"
      by (auto split: option.splits if_splits)
    from Cons.IH[OF this] Cons.prems(2,3) show ?thesis by simp
  qed
qed simp

definition ms_ok :: "'st mstate \<Rightarrow> bool" where
  "ms_ok ms \<longleftrightarrow> (\<forall>c\<in>set (ms_cons ms). con_ok c) \<and> inv (ms_st ms)"

definition same_size :: "'st mstate \<Rightarrow> 'st mstate \<Rightarrow> bool" where
  "same_size ms ms' \<longleftrightarrow>
     length (ms_cons ms') = length (ms_cons ms) \<and> length (ms_tlvs ms') = length (ms_tlvs ms) \<and>
     blocks_size (ms_blocks ms') = blocks_size (ms_blocks ms)"

lemma same_size_trans: "same_size a b \<Longrightarrow> same_size b c \<Longrightarrow> same_size a c"
  by (simp add: same_size_def)

lemma run_end_cbs_inv:
  assumes "run_end_cbs a b r ms = Inr (r', ms')" and "ms_ok ms"
  shows "ms_ok ms' \<and> same_size ms ms'"
proof -
  obtain st' ctx where "end_cbs_loop ctx (rev (take (Suc b - a) (drop a (ms_cons ms)))) r (ms_st ms) = Inr (r', st')"
    and m: "ms_cons ms' = ms_cons ms" "ms_tlvs ms' = ms_tlvs ms" "ms_blocks ms' = ms_blocks ms" "ms_st ms' = st'"
    using assms(1) by (auto simp: run_end_cbs_def schedule_end_message_cbs_def rbind_Inr_iff Let_def)
  from end_cbs_loop_inv[OF this(1)] assms(2) have "inv st'"
    by (auto simp: ms_ok_def dest!: in_set_takeD in_set_dropD)
  with m assms(2) show ?thesis by (simp add: ms_ok_def same_size_def)
qed

lemma run_consumer_inv:
  assumes "run_consumer buf k ms = Inr (r, ms')" and "ms_ok ms" and "k < length (ms_cons ms)"
  shows "ms_ok ms' \<and> same_size ms ms'"
proof -
  have ok: "con_ok (ms_cons ms ! k)" "inv (ms_st ms)" using assms(2,3) by (simp_all add: ms_ok_def)
  have up: "\<forall>c\<in>set ((ms_cons ms)[k := con]). con_ok c" if "con_ok con" for con
    using that assms(2) set_update_subset_insert[of "ms_cons ms" k con] by (auto simp: ms_ok_def)
  show ?thesis
  proof (cases "addrblock_consumer (ms_cons ms ! k)")
    case True
    with assms(1) obtain ctx bs con st where
      r: "schedule_msgaddr_consumer (ms_cons ms ! k) buf (ms_ctx ms) (ms_blocks ms) (ms_st ms) = Inr (r, ctx, bs, con, st)"
      and m: "ms' = ms\<lparr>ms_ctx := ctx, ms_blocks := bs, ms_cons := (ms_cons ms)[k := con], ms_st := st\<rparr>"
      by (auto simp: run_consumer_def rbind_Inr_iff)
    have "inv st \<and> blocks_size bs = blocks_size (ms_blocks ms) \<and> con_ok con"
      using addrblocks_loop_inv[OF r[unfolded schedule_msgaddr_consumer_def] ok] .
    with m up[of con] show ?thesis by (simp add: ms_ok_def same_size_def)
  next
    case False
    with assms(1) obtain ctx ts con st where
      r: "schedule_msgtlv_consumer (ms_cons ms ! k) buf (ms_ctx ms) (ms_tlvs ms) (ms_st ms) = Inr (r, ctx, ts, con, st)"
      and m: "ms' = ms\<lparr>ms_ctx := ctx, ms_tlvs := ts, ms_cons := (ms_cons ms)[k := con], ms_st := st\<rparr>"
      by (auto simp: run_consumer_def rbind_Inr_iff)
    have "inv st \<and> length ts = length (ms_tlvs ms) \<and> con_ok con" using schedule_msgtlv_inv[OF r ok] .
    with m up[of con] show ?thesis by (simp add: ms_ok_def same_size_def)
  qed
qed

lemma consumers_loop_inv:
  "consumers_loop buf ks so ms = Inr (r, so', ms') \<Longrightarrow> ms_ok ms \<Longrightarrow> \<forall>k\<in>set ks. k < length (ms_cons ms) \<Longrightarrow>
     ms_ok ms' \<and> same_size ms ms'"
proof (induction ks arbitrary: so ms)
  case (Cons k ks)
  show ?case
  proof (cases "\<not> default_msg_consumer (ms_cons ms ! k) \<and> msg_id (ms_cons ms ! k) \<noteq> msg_type (ms_ctx ms)")
    case True
    with Cons.prems Cons.IH[of so ms] show ?thesis by simp
  next
    case False
    let ?pre = "case so of
        Some (a, b) \<Rightarrow>
          if order (ms_cons ms ! b) < order (ms_cons ms ! k)
          then rbind (run_end_cbs a b PBB_OKAY ms) (\<lambda>(r, ms). Inr (r, None, ms))
          else Inr (PBB_OKAY, so, ms)
      | None \<Rightarrow> Inr (PBB_OKAY, None, ms)"
    note u = Cons.prems(1)[unfolded consumers_loop.simps Let_def if_not_P[OF False]]
    from u obtain r1 so1 ms1 where pre: "?pre = Inr (r1, so1, ms1)" by (auto simp: rbind_Inr_iff)
    have i1: "ms_ok ms1 \<and> same_size ms ms1"
      using pre Cons.prems(2) run_end_cbs_inv
      by (auto simp: rbind_Inr_iff same_size_def split: option.splits if_splits prod.split_asm)
    show ?thesis
    proof (cases "r1 = PBB_OKAY")
      case True
      with u pre obtain r2 ms2 where rc: "run_consumer buf k ms1 = Inr (r2, ms2)" by (auto simp: rbind_Inr_iff)
      have "k < length (ms_cons ms1)" using Cons.prems(3) i1 by (simp add: same_size_def)
      with run_consumer_inv[OF rc] i1 have i2: "ms_ok ms2 \<and> same_size ms1 ms2" by blast
      show ?thesis
      proof (cases "r2 = PBB_OKAY")
        case r2: True
        with u pre True rc obtain so2 where l: "consumers_loop buf ks so2 ms2 = Inr (r, so', ms')" by auto
        have "\<forall>k\<in>set ks. k < length (ms_cons ms2)" using Cons.prems(3) i1 i2 by (simp add: same_size_def)
        with Cons.IH[OF l] i1 i2 same_size_trans show ?thesis by blast
      next
        case r2: False
        with u pre True rc have "ms' = ms2" by simp
        with i1 i2 same_size_trans show ?thesis by blast
      qed
    next
      case r1: False
      with u pre have "ms' = ms1" by simp
      with i1 show ?thesis by simp
    qed
  qed
qed (simp add: same_size_def)

lemma deliver_message_inv:
  assumes "deliver_message buf ms = Inr (r, ms')" and "ms_ok ms"
  shows "ms_ok ms' \<and> same_size ms ms'"
proof -
  obtain r1 so ms1 where l: "consumers_loop buf [0..<length (ms_cons ms)] None ms = Inr (r1, so, ms1)"
    and e: "(case so of None \<Rightarrow> Inr (r1, ms1) | Some (a, b) \<Rightarrow> run_end_cbs a b r1 ms1) = Inr (r, ms')"
    using assms(1) by (auto simp: deliver_message_def rbind_Inr_iff)
  have i: "ms_ok ms1 \<and> same_size ms ms1" using consumers_loop_inv[OF l assms(2)] by simp
  from e show ?thesis
  proof (cases so)
    case (Some ab)
    with e obtain a b where "run_end_cbs a b r1 ms1 = Inr (r, ms')" by (cases ab) auto
    with run_end_cbs_inv i same_size_trans show ?thesis by blast
  qed (use i in simp)
qed

definition fw_ok :: "(pctx \<Rightarrow> bytes \<Rightarrow> nat \<Rightarrow> nat \<Rightarrow> 'st \<Rightarrow> 'st) option \<Rightarrow> bool" where
  "fw_ok fw \<longleftrightarrow> (\<forall>f ctx buf a n st. fw = Some f \<longrightarrow> inv st \<longrightarrow> inv (f ctx buf a n st))"

lemma do_forward_inv: "fw_ok fw \<Longrightarrow> inv st \<Longrightarrow> inv (snd (do_forward fw buf r a b ctx st))"
  by (auto simp: fw_ok_def do_forward_def Let_def split: option.splits)

lemma handle_message_inv:
  assumes "handle_message alloc buf junk fw ctx start eob cons st m = Inr (r, ctx', end, cons', st', m')"
    and "fw_ok fw" and "\<forall>c\<in>set cons. con_ok c" and "inv st"
  shows "inv st' \<and> (\<forall>c\<in>set cons'. con_ok c) \<and> live m' = live m"
proof -
  note u = assms(1)[unfolded handle_message_def]
  from u obtain r1 ctx1 tlvs bs e1 m1 where
    p: "parse_message alloc buf junk ctx start eob m = Inr (r1, ctx1, tlvs, bs, e1, m1)"
    by (auto simp: rbind_Inr_iff)
  note l = parse_message_live[OF p]
  show ?thesis
  proof (cases "r1 = PBB_OKAY")
    case False
    with u p l assms(3,4) show ?thesis by (auto simp: free_tlvblock_def mem_free_def free_addrblocks_live)
  next
    case True
    let ?ms = "\<lparr>ms_ctx = ctx1, ms_tlvs = tlvs, ms_blocks = bs, ms_cons = cons, ms_st = st\<rparr>"
    from u p True obtain r2 ms where d: "deliver_message buf ?ms = Inr (r2, ms)"
      by (auto simp: rbind_Inr_iff)
    have i: "ms_ok ms \<and> same_size ?ms ms"
      using deliver_message_inv[OF d] assms(3,4) by (simp add: ms_ok_def)
    from u p True d have e: "cons' = ms_cons ms" "st' = snd (do_forward fw buf r2 start e1 (ms_ctx ms) (ms_st ms))"
      "m' = free_tlvblock (ms_tlvs ms) (free_addrblocks (ms_blocks ms) m1)"
      by (auto simp: Let_def)
    with i l do_forward_inv[OF assms(2)] show ?thesis
      by (simp add: ms_ok_def same_size_def free_tlvblock_def mem_free_def free_addrblocks_live)
  qed
qed

lemma messages_loop_inv:
  "messages_loop alloc buf junk fw ctx ptr eob cons st m = Inr (r, ctx', cons', st', m') \<Longrightarrow> fw_ok fw \<Longrightarrow>
     \<forall>c\<in>set cons. con_ok c \<Longrightarrow> inv st \<Longrightarrow>
     inv st' \<and> (\<forall>c\<in>set cons'. con_ok c) \<and> live m' = live m"
proof (induction "eob - ptr" arbitrary: ctx ptr cons st m rule: less_induct)
  case less
  note u = less.prems(1)[unfolded messages_loop.simps[of alloc buf junk fw ctx ptr eob cons st m]]
  show ?case
  proof (cases "eob \<le> ptr")
    case True
    with u less.prems show ?thesis by simp
  next
    case False
    with u obtain r1 ctx1 p1 cons1 st1 m1 where
      h: "handle_message alloc buf junk fw ctx ptr eob cons st m = Inr (r1, ctx1, p1, cons1, st1, m1)"
      by (auto split: sum.splits)
    note i = handle_message_inv[OF h less.prems(2-4)]
    show ?thesis
    proof (cases "r1 = PBB_OKAY")
      case True
      with handle_message_progress h False have "eob - p1 < eob - ptr" by (fastforce simp: True)
      moreover from u False h True have
        "messages_loop alloc buf junk fw ctx1 p1 eob cons1 st1 m1 = Inr (r, ctx', cons', st', m')" by simp
      ultimately show ?thesis using less.hyps[OF _ _ less.prems(2)] i by metis
    qed (use u False h i in auto)
  qed
qed

lemma packet_consumers_loop_inv:
  "packet_consumers_loop buf has_tlv ctx ks n tlvs cons st = Inr (r, n', tlvs', cons', st') \<Longrightarrow>
     \<forall>c\<in>set cons. con_ok c \<Longrightarrow> inv st \<Longrightarrow> \<forall>k\<in>set ks. k < length cons \<Longrightarrow>
     inv st' \<and> (\<forall>c\<in>set cons'. con_ok c) \<and> length tlvs' = length tlvs"
proof (induction ks arbitrary: n tlvs cons st)
  case (Cons k ks)
  let ?con = "cons ! k"
  note u = Cons.prems(1)[unfolded packet_consumers_loop.simps Let_def]
  have ok: "con_ok ?con" using Cons.prems(2,4) by simp
  from u obtain r1 st1 where s: "call_start ?con ctx st = Inr (r1, st1)" by (auto simp: rbind_Inr_iff)
  have i1: "inv st1" using call_start_inv[OF s ok Cons.prems(3)] .
  show ?case
  proof (cases "r1 = PBB_OKAY")
    case False
    with u s i1 Cons.prems show ?thesis by simp
  next
    case True
    with u s obtain r2 tlvs2 con2 st2 where
      t: "(if has_tlv \<and> (tlv_callback ?con \<noteq> None \<or> block_callback ?con \<noteq> None)
           then schedule_tlvblock ?con buf ctx tlvs 0 st1 else Inr (PBB_OKAY, tlvs, ?con, st1)) =
         Inr (r2, tlvs2, con2, st2)" by (auto simp: rbind_Inr_iff)
    have i2: "inv st2 \<and> length tlvs2 = length tlvs \<and> con_ok con2"
      using t schedule_tlvblock_inv[OF _ ok i1] i1 ok by (auto split: if_splits)
    have up: "\<forall>c\<in>set (cons[k := con2]). con_ok c"
      using i2 Cons.prems(2) set_update_subset_insert[of cons k con2] by auto
    note v = u[unfolded s rbind_simps case_prod_conv True t]
    show ?thesis
    proof (cases "r2 = PBB_OKAY")
      case r2: True
      with v have "packet_consumers_loop buf has_tlv ctx ks (Suc k) tlvs2 (cons[k := con2]) st2 =
          Inr (r, n', tlvs', cons', st')" by simp
      from Cons.IH[OF this up] i2 Cons.prems(4) show ?thesis by simp
    qed (use v i2 up in auto)
  qed
qed simp

lemma packet_end_cbs_inv:
  "packet_end_cbs ctx cons r st = Inr st' \<Longrightarrow> \<forall>c\<in>set cons. con_ok c \<Longrightarrow> inv st \<Longrightarrow> inv st'"
proof (induction cons arbitrary: st)
  case (Cons con cons)
  show ?case
  proof (cases "end_callback con")
    case (Some cb)
    with Cons.prems(1) obtain r1 st1 where c: "cb ctx (r \<noteq> PBB_OKAY) st = Inr (r1, st1)"
      and l: "packet_end_cbs ctx cons r st1 = Inr st'" by (auto simp: rbind_Inr_iff)
    have "inv st1" using end_inv[OF _ Some _ c] Cons.prems by simp
    with Cons.IH[OF l] Cons.prems(2) show ?thesis by simp
  qed (use Cons in simp)
qed simp

definition reader_ok :: "'st pbb_reader \<Rightarrow> bool" where
  "reader_ok p \<longleftrightarrow> (\<forall>c\<in>set (packet_consumer p). con_ok c) \<and> (\<forall>c\<in>set (message_consumer p). con_ok c) \<and>
     fw_ok (forward_message p)"

lemma handle_packet_inv:
  assumes "pbb_reader_handle_packet alloc junk p buf len st m = Inr (r, p', st', m')"
    and "reader_ok p" and "inv st"
  shows "inv st' \<and> reader_ok p' \<and> live m' = live m \<and> forward_message p' = forward_message p"
proof -
  obtain r0 ctx ptr where h: "parse_packet_header buf len = (r0, ctx, ptr)" by (metis surj_pair)
  note u = assms(1)[unfolded pbb_reader_handle_packet_def h Let_def case_prod_conv]
  let ?tlv = "pkt_flags ctx AND PBB_PKT_FLAG_TLV \<noteq> 0"
  show ?thesis
  proof (cases "r0 = PBB_OKAY")
    case False
    with u assms(2,3) show ?thesis by simp
  next
    case r0: True
    with u obtain r1 tlvs p1 m1 where
      t: "(if ?tlv then parse_tlvblock alloc buf [] ptr len m else Inr (PBB_OKAY, [], ptr, m)) = Inr (r1, tlvs, p1, m1)"
      by (auto simp: rbind_Inr_iff)
    have l: "live m1 = live m + int (length tlvs) \<and> (r1 \<noteq> PBB_OKAY \<longrightarrow> tlvs = [])"
      using t parse_tlvblock_inv[of alloc buf ptr len m r1 tlvs p1 m1] by (auto split: if_splits)
    note v = u[unfolded t rbind_simps case_prod_conv]
    show ?thesis
    proof (cases "r1 = PBB_OKAY")
      case False
      with v r0 l assms(2,3) show ?thesis by simp
    next
      case r1: True
      with v r0 obtain r2 n tlvs2 pcons st2 where
        c: "packet_consumers_loop buf ?tlv ctx [0..<length (packet_consumer p)] 0 tlvs (packet_consumer p) st =
          Inr (r2, n, tlvs2, pcons, st2)" by (auto simp: rbind_Inr_iff)
      have i2: "inv st2 \<and> (\<forall>c\<in>set pcons. con_ok c) \<and> length tlvs2 = length tlvs"
        using packet_consumers_loop_inv[OF c] assms(2,3) by (simp add: reader_ok_def)
      note w = v[unfolded c rbind_simps case_prod_conv]
      from w r0 r1 obtain r3 ctx3 mcons st3 m3 where
        g: "(if r2 \<noteq> PBB_OKAY then Inr (r2, ctx, message_consumer p, st2, m1)
             else messages_loop alloc buf junk (forward_message p) ctx p1 len (message_consumer p) st2 m1) =
          Inr (r3, ctx3, mcons, st3, m3)" by (auto simp: rbind_Inr_iff)
      have i3: "inv st3 \<and> (\<forall>c\<in>set mcons. con_ok c) \<and> live m3 = live m1"
        using g messages_loop_inv[of alloc buf junk "forward_message p" ctx p1 len "message_consumer p" st2 m1]
          i2 assms(2) by (auto simp: reader_ok_def split: if_splits)
      note x = w[unfolded g rbind_simps case_prod_conv]
      from x r0 r1 obtain st4 where e: "packet_end_cbs ctx3 (rev (take n pcons)) r3 st3 = Inr st4"
        and f: "st' = st4" "p' = p\<lparr>packet_consumer := pcons, message_consumer := mcons\<rparr>" "m' = free_tlvblock tlvs2 m3"
        by (auto simp: rbind_Inr_iff)
      have "inv st4" using packet_end_cbs_inv[OF e] i2 i3 by (auto dest: in_set_takeD)
      with f i2 i3 l assms(2) show ?thesis
        by (simp add: reader_ok_def free_tlvblock_def mem_free_def)
    qed
  qed
qed

end

end
