(* ===== verification/ReaderGuarantees.thy ===== *)
theory ReaderGuarantees
  imports ReaderClient "HOL-Library.Multiset"
begin

text \<open>
  What the PacketBB reader guarantees to any client, and two packets that end the process: memory is
  balanced, TLV values lie in the packet, TLVs come in the order of their types, consumers in the
  order they registered for.
\<close>

lemmas packet_run =
  pbb_reader_handle_packet_def parse_packet_header_def pbb_get_u8_def pbb_get_u16_def opt_u16_def
  pbb_get_pktversion_def parse_tlvblock_def mk16_def tlvblock_loop.simps parse_tlv_def parse_tlv_type_def
  parse_tlv_index_def parse_tlv_length_def parse_tlv_value_def mem_alloc_def free_tlvblock_def mem_free_def
  store_insert_def Let_def

interpretation any: reader_client "\<lambda>_. True" "\<lambda>_. True"
  by unfold_locales simp_all

text \<open>C16: When the handling of a packet returns, with whatever result, every TLV entry and address block
  that was allocated for the packet has been freed: errors, drops by consumers and failing
  allocations included.\<close>

theorem reader_memory_balance:
  assumes "pbb_reader_handle_packet alloc junk parser buf len st m = Inr (r, parser', st', m')"
  shows "live m' = live m"
  using any.handle_packet_inv[OF assms] by (simp add: any.reader_ok_def any.fw_ok_def)

text \<open>C17: The value that a consumer is given with a TLV of a parsed block, for any address index the TLV
  holds for, lies inside the buffer that the block was parsed from: no callback is handed bytes from
  beyond the packet.\<close>

theorem tlv_values_in_packet:
  assumes "parse_tlvblock alloc buf [] ptr eob m = Inr (PBB_OKAY, ts, ptr', m')"
    and "t \<in> set ts" and "index_matches idx t" and "t_length t \<noteq> 0"
  shows "\<exists>p. single_value (set_multi_value idx t) = Some p \<and> p + unat (t_length t) \<le> eob"
  using indexed_value_in_range[OF _ assms(3,4)] parse_tlvblock_inv[OF assms(1)] assms(2) by blast

text \<open>C22: A TLV block that the parser accepts holds the TLVs that stand one after the other on the wire, each
  once, in ascending order of type and, within a type, of type extension; TLVs equal in both stay in the order
  of the wire. As many entries stay allocated as it holds.\<close>

theorem tlvblock_ordered:
  assumes "parse_tlvblock alloc buf [] ptr eob m = Inr (PBB_OKAY, ts, ptr', m')"
    and "pbb_get_u16 buf eob (ptr, PBB_OKAY) = (len, p, r)"
  shows "\<exists>wire. wire_tlvs buf eob (p + unat len) empty_tlv p wire \<and>
    ts = sort_key (\<lambda>t. 256 * unat (t_type t) + unat (t_type_ext t)) wire \<and> live m' = live m + int (length wire)"
  using parse_tlvblock_wire[OF assms] unfolding tlv_key_def .

text \<open>C20: A packet whose packet TLV block holds one TLV with the multivalue flag and no index range
  (seven bytes, any TLV type and value) ends the process with a division by zero, whatever consumers
  are registered: the number of values is computed in eight bits and wraps to 0.\<close>

theorem packet_division_by_zero:
  "pbb_reader_handle_packet alloc junk parser [0x04, 0, 4, ty, 0x14, 1, v] 7 st m = Inl DivByZero"
  by (simp add: packet_run)


definition sample_reader :: "unit pbb_reader" where
  "sample_reader = \<lparr>packet_consumer = [], message_consumer = [], forward_message = None\<rparr>"

lemma sample_block:
  "parse_tlvblock (\<lambda>_. True) [0, 4, 5, 0x10, 1, 7] [] 0 6 \<lparr>calls = 0, live = 0\<rparr> =
     Inr (PBB_OKAY, [empty_tlv\<lparr>t_type := 5, t_flags := 0x10, t_length := 1, single_value := Some 5, index2 := 255,
       int_order := 0x500, int_value := Some 5\<rparr>], 6, \<lparr>calls = 1, live = 1\<rparr>)"
  by (simp add: packet_run calc_tlv_intorder_def empty_tlv_def)

theorem reader_memory_balance_witness:
  "\<exists>m'. pbb_reader_handle_packet (\<lambda>_. True) 0 sample_reader [4, 0, 4, 5, 0x10, 1, 7] 7 ()
     \<lparr>calls = 0, live = 0\<rparr> = Inr (PBB_OKAY, sample_reader, (), m') \<and> calls m' = 1 \<and> live m' = 0"
proof -
  have "\<exists>m'. pbb_reader_handle_packet (\<lambda>_. True) 0 sample_reader [4, 0, 4, 5, 0x10, 1, 7] 7 ()
     \<lparr>calls = 0, live = 0\<rparr> = Inr (PBB_OKAY, sample_reader, (), m') \<and> calls m' = 1"
    by (simp add: packet_run messages_loop.simps sample_reader_def calc_tlv_intorder_def empty_tlv_def)
  with reader_memory_balance show ?thesis by fastforce
qed

theorem tlv_values_in_packet_witness:
  "\<exists>t ts m'. parse_tlvblock (\<lambda>_. True) [0, 4, 5, 0x10, 1, 7] [] 0 6 \<lparr>calls = 0, live = 0\<rparr> =
       Inr (PBB_OKAY, t # ts, 6, m') \<and>
     (\<exists>p. single_value (set_multi_value 3 t) = Some p \<and> p + unat (t_length t) \<le> 6)"
  using tlv_values_in_packet[OF sample_block, of _ 3]
  by (simp add: sample_block index_matches_def test_addrbitarray_def empty_tlv_def)

lemma sample_two:
  "\<exists>ts p m'. parse_tlvblock (\<lambda>_. True) [0, 4, 9, 0, 5, 0] [] 0 6 \<lparr>calls = 0, live = 0\<rparr> = Inr (PBB_OKAY, ts, p, m') \<and>
     map t_type ts = [5, 9]"
  by (simp add: packet_run calc_tlv_intorder_def empty_tlv_def avl_comp_int_def)

theorem tlvblock_ordered_witness:
  "\<exists>ts p m' wire. parse_tlvblock (\<lambda>_. True) [0, 4, 9, 0, 5, 0] [] 0 6 \<lparr>calls = 0, live = 0\<rparr> = Inr (PBB_OKAY, ts, p, m') \<and>
     map t_type ts = [5, 9] \<and> wire_tlvs [0, 4, 9, 0, 5, 0] 6 6 empty_tlv 2 wire \<and> length wire = length ts \<and>
     live m' = int (length ts)"
proof -
  obtain ts p m' where b: "parse_tlvblock (\<lambda>_. True) [0, 4, 9, 0, 5, 0] [] 0 6 \<lparr>calls = 0, live = 0\<rparr> = Inr (PBB_OKAY, ts, p, m')"
    and t: "map t_type ts = [5, 9]" using sample_two by auto
  have g: "pbb_get_u16 [0, 4, 9, 0, 5, 0] 6 (0, PBB_OKAY) = (4, 2, PBB_OKAY)" by (simp add: packet_run)
  from tlvblock_ordered[OF b g] b t show ?thesis by auto
qed

section \<open>The order of consumers and TLVs\<close>

lemma add_consumer_orders:
  assumes "\<And>c. order (upd c) = order c" and "sorted (map order tree)"
  shows "sorted (map order (add_consumer c tree es ord upd)) \<and>
    mset (map order (add_consumer c tree es ord upd)) = add_mset ord (mset (map order tree))"
proof -
  let ?c = "c\<lparr>consumer_entries := add_entries es [], order := ord\<rparr>"
  let ?P = "\<lambda>x. 0 \<le> consumer_avl_comp ?c x"
  have e: "map order tree = map order (takeWhile ?P tree) @ map order (dropWhile ?P tree)"
    by (metis map_append takeWhile_dropWhile_id)
  have low: "order x \<le> ord" if "x \<in> set (takeWhile ?P tree)" for x
    using set_takeWhileD[OF that] by (simp add: consumer_avl_comp_def split: if_splits)
  have high: "ord \<le> order x" if x: "x \<in> set (dropWhile ?P tree)" for x
  proof -
    from x obtain y ys where d: "dropWhile ?P tree = y # ys" by (cases "dropWhile ?P tree") auto
    then have "\<not> ?P y" using hd_dropWhile[of ?P tree] by auto
    then have "ord \<le> order y" by (simp add: consumer_avl_comp_def split: if_splits)
    moreover have "order y \<le> order x"
      using assms(2) x d unfolding e sorted_append by auto
    ultimately show ?thesis by simp
  qed
  have "sorted (map order (takeWhile ?P tree)) \<and> sorted (map order (dropWhile ?P tree))"
    using assms(2) unfolding e sorted_append by simp
  moreover have "add_consumer c tree es ord upd = takeWhile ?P tree @ upd ?c # dropWhile ?P tree"
    by (simp add: add_consumer_def Let_def)
  ultimately show ?thesis
    using low high assms(1) by (fastforce simp: e sorted_append)
qed

text \<open>Registering a message or address consumer, for one message type or for all, keeps the consumers
  sorted by their order value and adds exactly the new one; since a message is handed to the consumers
  in list order, a consumer with a smaller order value runs first.\<close>

theorem message_consumers_sorted:
  assumes "sorted (map order (message_consumer r))"
    and "r' \<in> {pbb_reader_add_message_consumer r c es mid ord, pbb_reader_add_address_consumer r c es mid ord,
      pbb_reader_add_defaultmsg_consumer r c es ord, pbb_reader_add_defaultaddress_consumer r c es ord}"
  shows "sorted (map order (message_consumer r')) \<and>
    mset (map order (message_consumer r')) = add_mset ord (mset (map order (message_consumer r)))"
  using assms(2) add_consumer_orders[OF _ assms(1)]
  by (auto simp: pbb_reader_add_message_consumer_def pbb_reader_add_address_consumer_def
      pbb_reader_add_defaultmsg_consumer_def pbb_reader_add_defaultaddress_consumer_def)

definition sample_consumer :: "unit consumer" where
  "sample_consumer = \<lparr>order = 0, default_msg_consumer = False, msg_id = 0, addrblock_consumer = False,
     consumer_entries = [], start_callback = None, end_callback = None, tlv_callback = None, block_callback = None\<rparr>"

theorem message_consumers_sorted_witness:
  "map order (message_consumer (pbb_reader_add_message_consumer
       (sample_reader\<lparr>message_consumer := [sample_consumer]\<rparr>) sample_consumer [] 1 5)) = [0, 5]"
proof -
  let ?r = "sample_reader\<lparr>message_consumer := [sample_consumer]\<rparr>"
  have "sorted (map order (message_consumer (pbb_reader_add_message_consumer ?r sample_consumer [] 1 5)))"
    using message_consumers_sorted[of ?r "pbb_reader_add_message_consumer ?r sample_consumer [] 1 5" sample_consumer "[]" 1 5]
    by simp
  then show ?thesis
    by (simp add: pbb_reader_add_message_consumer_def add_consumer_def consumer_avl_comp_def sample_consumer_def)
qed

text \<open>The specification of a delivery to a consumer that has only a TLV callback: the TLVs that hold for
  the index, one after the other, until a result that ends the delivery.\<close>

fun deliver_tlvs ::
  "(bytes \<Rightarrow> tlv_entry \<Rightarrow> pctx \<Rightarrow> 'st \<Rightarrow> halt + pbb_result \<times> 'st) \<Rightarrow> bytes \<Rightarrow> pctx \<Rightarrow> u8 \<Rightarrow> tlv_entry list \<Rightarrow> 'st \<Rightarrow>
     halt + pbb_result \<times> tlv_entry list \<times> 'st" where
  "deliver_tlvs cb buf ctx idx [] st = Inr (PBB_OKAY, [], st)"
| "deliver_tlvs cb buf ctx idx (t # ts) st =
     (if index_matches idx t
      then rbind (cb buf (set_multi_value idx t) ctx st) (\<lambda>(r, st).
        if r \<noteq> PBB_OKAY \<and> r \<noteq> PBB_DROP_TLV then Inr (r, set_multi_value idx t # ts, st)
        else
          let t = set_multi_value idx t;
              t = (if r = PBB_DROP_TLV then t\<lparr>int_drop_tlv := set_addr_bitarray (int_drop_tlv t) idx\<rparr> else t)
          in rbind (deliver_tlvs cb buf ctx idx ts st) (\<lambda>(r, ts, st). Inr (r, t # ts, st)))
      else rbind (deliver_tlvs cb buf ctx idx ts st) (\<lambda>(r, ts, st). Inr (r, t # ts, st)))"

lemma sched_loop_deliver:
  assumes "tlv_callback con = Some cb" and "length pre = i"
  shows "rbind (sched_loop con buf ctx idx i 0 mm (pre @ ts) [] st) (\<lambda>(ex, mm, a).
      Inr (case ex of None \<Rightarrow> PBB_OKAY | Some r \<Rightarrow> r, a)) =
    rbind (deliver_tlvs cb buf ctx idx ts st) (\<lambda>(r, ts, st). Inr (r, pre @ ts, [], st))"
  using assms(2)
proof (induction ts arbitrary: pre i mm st)
  case Nil
  then show ?case by (simp add: sched_loop.simps)
next
  case (Cons t ts)
  have o: "tlv_order_at (pre @ t' # ts) i < cons_order_at [] 0" for t'
    using order_at_bounds(1)[of i "pre @ t' # ts"] Cons.prems by (simp add: cons_order_at_def)
  have nx: "next_tlv (pre @ t' # ts) [] i 0 = Suc i" for t'
    using o[of t'] Cons.prems by (simp add: next_tlv_def)
  have no: "\<not> cons_order_at [] 0 < tlv_order_at tlvs k" for tlvs k
    using order_at_bounds(3)[of tlvs k] by (simp add: cons_order_at_def)
  have up: "(pre @ t # ts)[i := t'] = pre @ t' # ts" for t' using Cons.prems by (simp add: list_update_append)
  have up2: "(pre @ t1 # ts)[i := t'] = pre @ t' # ts" for t1 t' using Cons.prems by (simp add: list_update_append)
  have at: "(pre @ t1 # ts) ! i = t1" for t1 using Cons.prems by (simp add: nth_append)
  have ih: "rbind (sched_loop con buf ctx idx (Suc i) 0 mm (pre @ x # ts) [] st) (\<lambda>(ex, mm, a).
      Inr (case ex of None \<Rightarrow> PBB_OKAY | Some r \<Rightarrow> r, a)) =
    rbind (deliver_tlvs cb buf ctx idx ts st) (\<lambda>(r, ts, st). Inr (r, pre @ x # ts, [], st))" for x mm st
    using Cons.IH[of "pre @ [x]" "Suc i" mm st] Cons.prems by simp
  note u = sched_loop.simps[of con buf ctx idx i 0 mm "pre @ t # ts" "[]" st]
  show ?case
  proof (cases "index_matches idx t")
    case False
    have "sched_step con buf ctx idx i 0 (pre @ t # ts) [] st = Inr (None, False, pre @ t # ts, [], st)"
      using False o[of t] Cons.prems assms(1) by (simp add: sched_step_def at Let_def)
    with u ih[where x = t] False Cons.prems show ?thesis
      by (simp add: nx no) (cases "deliver_tlvs cb buf ctx idx ts st"; auto)
  next
    case True
    show ?thesis
    proof (cases "cb buf (set_multi_value idx t) ctx st")
      case (Inl h)
      have "sched_step con buf ctx idx i 0 (pre @ t # ts) [] st = Inl h"
        using True Inl Cons.prems assms(1) by (simp add: sched_step_def at up Let_def)
      with u True Inl Cons.prems show ?thesis by simp
    next
      case (Inr x)
      obtain r st1 where x: "x = (r, st1)" by (metis surj_pair)
      let ?t = "set_multi_value idx t"
      let ?t2 = "if r = PBB_DROP_TLV then ?t\<lparr>int_drop_tlv := set_addr_bitarray (int_drop_tlv ?t) idx\<rparr> else ?t"
      show ?thesis
      proof (cases "r \<noteq> PBB_OKAY \<and> r \<noteq> PBB_DROP_TLV")
        case ex: True
        have "sched_step con buf ctx idx i 0 (pre @ t # ts) [] st = Inr (Some r, False, pre @ ?t # ts, [], st1)"
          using True Inr x ex Cons.prems assms(1) by (simp add: sched_step_def at up Let_def)
        with u True Inr x ex Cons.prems show ?thesis by simp
      next
        case go: False
        have to: "tlv_order_at (pre @ t # ts) i < cons_order_at [] 0" by (rule o)
        have "sched_step con buf ctx idx i 0 (pre @ t # ts) [] st = Inr (None, False, pre @ ?t2 # ts, [], st1)"
          using True Inr x go to Cons.prems assms(1) by (auto simp: sched_step_def at up up2 Let_def)
        with u ih[where x = ?t2 and st = st1] True Inr x go Cons.prems show ?thesis
          by (simp add: nx no del: if_split) (cases "deliver_tlvs cb buf ctx idx ts st1"; auto)
      qed
    qed
  qed
qed

lemma schedule_plain:
  assumes "consumer_entries con = []" and "block_callback con = None" and "tlv_callback con = Some cb"
  shows "schedule_tlvblock con buf ctx tlvs idx st =
    rbind (deliver_tlvs cb buf ctx idx tlvs st) (\<lambda>(r, tlvs, st). Inr (r, tlvs, con, st))"
proof (cases "tlvs = []")
  case True
  then show ?thesis by (simp add: schedule_tlvblock_def)
next
  case False
  have c: "con\<lparr>consumer_entries := []\<rparr> = con" using assms(1) by (metis consumer.surjective consumer.update_convs(5))
  note d = sched_loop_deliver[OF assms(3), of "[]" 0 buf ctx idx False tlvs st, simplified]
  have r: "reset_entry 0 [] = []" by (simp add: reset_entry_def)
  show ?thesis
  proof (cases "deliver_tlvs cb buf ctx idx tlvs st")
    case (Inl h)
    with d have "sched_loop con buf ctx idx 0 0 False tlvs [] st = Inl h"
      by (cases "sched_loop con buf ctx idx 0 0 False tlvs [] st") auto
    with False Inl assms(1) r show ?thesis by (simp add: schedule_tlvblock_def)
  next
    case (Inr x)
    with d obtain ex mm tlvs1 st1 where
      l: "sched_loop con buf ctx idx 0 0 False tlvs [] st = Inr (ex, mm, tlvs1, [], st1)"
      and x: "x = (case ex of None \<Rightarrow> PBB_OKAY | Some r \<Rightarrow> r, tlvs1, st1)"
      by (cases "sched_loop con buf ctx idx 0 0 False tlvs [] st"; cases x) auto
    show ?thesis
      using False l x Inr assms(1,2) r c by (cases ex) (simp_all add: schedule_tlvblock_def)
  qed
qed

text \<open>C18: For a consumer without entries and without a block callback the merge of the two sorted lists
  is a plain pass over the TLVs: the callback gets each TLV that holds for the index once, in order,
  and the first result other than \<open>PBB_OKAY\<close> and \<open>PBB_DROP_TLV\<close> ends the pass.\<close>

theorem schedule_tlvblock_plain:
  assumes "consumer_entries con = []" and "block_callback con = None" and "tlv_callback con = Some cb"
  shows "schedule_tlvblock con buf ctx tlvs idx st =
    rbind (deliver_tlvs cb buf ctx idx tlvs st) (\<lambda>(r, tlvs, st). Inr (r, tlvs, con, st))"
  using assms by (rule schedule_plain)

theorem schedule_tlvblock_plain_witness:
  "rbind (schedule_tlvblock
       \<lparr>order = 0, default_msg_consumer = False, msg_id = 0, addrblock_consumer = False, consumer_entries = [],
          start_callback = None, end_callback = None,
          tlv_callback = Some (\<lambda>buf t ctx st. Inr (PBB_OKAY, st @ [t_type t])), block_callback = None\<rparr>
       [] empty_pctx [empty_tlv\<lparr>t_type := 5\<rparr>, empty_tlv\<lparr>t_type := 7, index1 := 3\<rparr>] 0 [])
     (\<lambda>(r, tlvs, con, st). Inr (r, st)) = Inr (PBB_OKAY, [5])"
  by (subst schedule_tlvblock_plain) (simp, simp, simp, code_simp)

end
