(* ===== verification/HelloWire.thy ===== *)
theory HelloWire
  imports DaemonState
begin

text \<open>
  The object representation of \<open>commodity_s_t\<close> (\<open>src/commodity.h\<close>), which the hello modules send and
  receive as the value of a TLV: 24 bytes, the address (16 bytes, type, prefix length), two bytes of
  padding and the backlog as a little-endian 32-bit integer (the byte order of the host).
\<close>

abbreviation BPRD_MSG_TYPE_HELLO :: u8 where "BPRD_MSG_TYPE_HELLO \<equiv> 1"
abbreviation BPRD_MSGTLV_TYPE_COM :: u8 where "BPRD_MSGTLV_TYPE_COM \<equiv> 1"

definition sizeof_commodity_s :: nat where "sizeof_commodity_s = 24"

definition le32 :: "bytes \<Rightarrow> u32" where
  "le32 b = ucast (mk16 (b ! 1) (b ! 0)) + push_bit 16 (ucast (mk16 (b ! 3) (b ! 2)))"

definition to_le32 :: "u32 \<Rightarrow> bytes" where
  "to_le32 w =
     (let l = ucast w :: u16; h = ucast (drop_bit 16 w) :: u16 in [lo8 l, hi8 l, lo8 h, hi8 h])"

definition commodity_s_of_bytes :: "bytes \<Rightarrow> commodity_short" where
  "commodity_s_of_bytes b =
     \<lparr>cs_addr = \<lparr>na_addr = take 16 b, na_type = b ! 16, na_prefix_len = b ! 17\<rparr>,
      cs_backlog = le32 (sub_bytes 20 4 b)\<rparr>"

definition commodity_s_to_bytes :: "u8 \<Rightarrow> u8 \<Rightarrow> commodity_short \<Rightarrow> bytes" where
  "commodity_s_to_bytes pad1 pad2 c =
     na_addr (cs_addr c) @ [na_type (cs_addr c), na_prefix_len (cs_addr c), pad1, pad2] @ to_le32 (cs_backlog c)"

lemma le32_to_le32 [simp]: "le32 (to_le32 w) = w"
proof (rule word_unat_eq_iff [THEN iffD2])
  have w: "unat w < 4294967296" by (rule unat_u32)
  have l: "unat (ucast w :: u16) = unat w mod 65536"
    by (simp add: unsigned_ucast_eq take_bit_eq_mod)
  have "unat w div 65536 < 65536" using w by (simp add: less_mult_imp_div_less)
  then have h: "unat (ucast (drop_bit 16 w) :: u16) = unat w div 65536"
    by (simp add: unsigned_ucast_eq take_bit_eq_mod unsigned_drop_bit_eq drop_bit_eq_div unat_div_distrib)
  have c: "unat (ucast (x :: u16) :: u32) = unat x" for x
    using unat_u16[of x] by (simp add: unsigned_ucast_eq take_bit_eq_mod)
  have e: "le32 (to_le32 w) = ucast (ucast w :: u16) + push_bit 16 (ucast (ucast (drop_bit 16 w) :: u16))"
    by (simp add: le32_def to_le32_def Let_def)
  have "unat (le32 (to_le32 w)) = (unat w mod 65536 + (unat w div 65536) * 65536 mod 4294967296) mod 4294967296"
    unfolding e by (simp only: unat_word_ariths push_bit_eq_mult c l h) (simp add: c l h unat_word_ariths mult.commute)
  also have "\<dots> = unat w"
  proof -
    have "unat w div 65536 * 65536 \<le> unat w" by (rule div_times_less_eq_dividend)
    with w show ?thesis by (simp add: mod_div_mult_eq)
  qed
  finally show "unat (le32 (to_le32 w)) = unat w" .
qed

lemma length_to_le32 [simp]: "length (to_le32 w) = 4"
  by (simp add: to_le32_def Let_def)

lemma length_commodity_s_to_bytes [simp]:
  "netaddr_wf (cs_addr c) \<Longrightarrow> length (commodity_s_to_bytes p q c) = sizeof_commodity_s"
  by (simp add: commodity_s_to_bytes_def netaddr_wf_def sizeof_commodity_s_def)

lemma commodity_of_to_bytes [simp]:
  assumes "netaddr_wf (cs_addr c)"
  shows "commodity_s_of_bytes (commodity_s_to_bytes p q c) = c"
proof -
  have l: "length (na_addr (cs_addr c)) = 16" using assms by (simp add: netaddr_wf_def)
  have "sub_bytes 20 4 (commodity_s_to_bytes p q c) = to_le32 (cs_backlog c)"
    using l by (simp add: commodity_s_to_bytes_def sub_bytes_def)
  with l show ?thesis by (cases c) (simp add: commodity_s_of_bytes_def commodity_s_to_bytes_def nth_append)
qed

end
