(* ===== verification/HelloReader.thy ===== *)
theory HelloReader
  imports HelloWire ReaderGuarantees
begin

text \<open>
  \<open>src/hello_reader.c\<close>: the callbacks that turn a received hello into the neighbor table, and the
  registration of the consumers. The static pointer \<open>n\<close> is a position in the neighbor list. The
  surroundings are in \<open>hello_env\<close>: the clock, the success of \<open>malloc\<close>, what the uninitialised variables
  of a callback hold, which may differ from call to call, and what each fresh piece of memory holds.
  \<open>hs_tick\<close> counts the calls of the two start callbacks, \<open>hs_mem\<close> the allocations.
\<close>

record 'm hello_st =
  hs_bprd :: "'m bprd"
  hs_n :: "nat option"
  hs_tick :: nat
  hs_mem :: mem

record hello_env =
  he_clk :: "nat \<Rightarrow> timeval"
  he_alloc :: "nat \<Rightarrow> bool"
  he_local :: "nat \<Rightarrow> uninit"
  he_heap :: "nat \<Rightarrow> netaddr"

abbreviation hs_nlist :: "'m hello_st \<Rightarrow> neighbor list" where
  "hs_nlist st \<equiv> nlist (ntable (hs_bprd st))"

definition set_nlist :: "neighbor list \<Rightarrow> 'm hello_st \<Rightarrow> 'm hello_st" where
  "set_nlist l st = st\<lparr>hs_bprd := (hs_bprd st)\<lparr>ntable := (ntable (hs_bprd st))\<lparr>nlist := l\<rparr>\<rparr>\<rparr>"

text \<open>The neighbor that \<open>n\<close> points to; a position outside the list stands for memory that was freed.\<close>

definition cur_neighbor :: "'m hello_st \<Rightarrow> halt + nat" where
  "cur_neighbor st = rbind (deref (hs_n st)) (\<lambda>i. if i < length (hs_nlist st) then Inr i else Inl OutOfBounds)"

section \<open>Message callbacks\<close>

text \<open>The address a binary address stands for; the result of the conversion is not looked at.\<close>

definition hello_addr :: "netaddr \<Rightarrow> 'm bprd \<Rightarrow> bytes \<Rightarrow> u8 \<Rightarrow> netaddr" where
  "hello_addr before b binary len = snd (netaddr_from_binary before binary (unat len) (word_of_int (ipver b)))"

definition new_neighbor :: "netaddr \<Rightarrow> neighbor" where
  "new_neighbor a = \<lparr>n_addr = a, bidir = 0, update_time = \<lparr>tv_sec = 0, tv_usec = 0\<rparr>, n_clist = []\<rparr>"

definition hello_cons_msg_start ::
  "hello_env \<Rightarrow> pctx \<Rightarrow> 'm hello_st \<Rightarrow> halt + pbb_result \<times> 'm hello_st" where
  "hello_cons_msg_start env ctx st =
     (if ctx_type ctx \<noteq> PBB_CONTEXT_MESSAGE \<or> msg_type ctx \<noteq> BPRD_MSG_TYPE_HELLO \<or> \<not> has_origaddr ctx
      then Inl AssertFail
      else
        let b = hs_bprd st; l = hs_nlist st;
            ntemp = new_neighbor (hello_addr (u_addr (he_local env (hs_tick st))) b (orig_addr ctx) (addr_len ctx));
            now = he_clk env (hs_tick st)
        in case nlist_find l ntemp of
             Some i \<Rightarrow>
               Inr (PBB_OKAY, (set_nlist (l[i := (l ! i)\<lparr>update_time := now\<rparr>]) st)
                      \<lparr>hs_n := Some i, hs_tick := Suc (hs_tick st)\<rparr>)
           | None \<Rightarrow>
               (case mem_alloc (he_alloc env) (hs_mem st) of
                  (False, m) \<Rightarrow> Inl NullDeref
                | (True, m) \<Rightarrow>
                    let n = new_neighbor (hello_addr (he_heap env (calls (hs_mem st))) b (orig_addr ctx) (addr_len ctx))
                    in Inr (PBB_OKAY, (set_nlist (list_insert l (n\<lparr>update_time := now\<rparr>)) st)
                              \<lparr>hs_n := Some 0, hs_tick := Suc (hs_tick st), hs_mem := m\<rparr>)))"

text \<open>The value of a commodity TLV is read at its position, without a check of the buffer.\<close>

definition read_commodity_s :: "bytes \<Rightarrow> nat \<Rightarrow> halt + commodity_short" where
  "read_commodity_s buf p =
     (if p + sizeof_commodity_s \<le> length buf then Inr (commodity_s_of_bytes (sub_bytes p sizeof_commodity_s buf))
      else Inl OutOfBounds)"

definition hello_cons_msg_tlv ::
  "hello_env \<Rightarrow> bytes \<Rightarrow> tlv_entry \<Rightarrow> pctx \<Rightarrow> 'm hello_st \<Rightarrow> halt + pbb_result \<times> 'm hello_st" where
  "hello_cons_msg_tlv env buf tlv ctx st =
     (if ctx_type ctx \<noteq> PBB_CONTEXT_MESSAGE then Inl AssertFail
      else if t_type tlv = BPRD_MSGTLV_TYPE_COM \<and> t_length tlv = of_nat sizeof_commodity_s
      then
        rbind (deref (single_value tlv)) (\<lambda>p.
        rbind (read_commodity_s buf p) (\<lambda>cd.
        rbind (cur_neighbor st) (\<lambda>i.
        let n = hs_nlist st ! i; cl = n_clist n; comtemp = mk_commodity (cs_addr cd) (cs_backlog cd) 0 0 None
        in case clist_find cl comtemp of
             Some j \<Rightarrow>
               let c = cl ! j; c = c\<lparr>cdata := (cdata c)\<lparr>cs_backlog := cs_backlog cd\<rparr>\<rparr>
               in Inr (PBB_OKAY, set_nlist ((hs_nlist st)[i := n\<lparr>n_clist := cl[j := c]\<rparr>]) st)
           | None \<Rightarrow>
               (case mem_alloc (he_alloc env) (hs_mem st) of
                  (False, m) \<Rightarrow> Inl NullDeref
                | (True, m) \<Rightarrow>
                    Inr (PBB_OKAY,
                      (set_nlist ((hs_nlist st)[i := n\<lparr>n_clist :=
                         list_insert cl (mk_commodity (cs_addr cd) (cs_backlog cd) 0 0 None)\<rparr>]) st)\<lparr>hs_mem := m\<rparr>)))))
      else Inl (LogErr ''Unrecognized TLV parameters''))"

section \<open>Address callbacks\<close>

definition hello_cons_addr_start ::
  "hello_env \<Rightarrow> pctx \<Rightarrow> 'm hello_st \<Rightarrow> halt + pbb_result \<times> 'm hello_st" where
  "hello_cons_addr_start env ctx st =
     (if ctx_type ctx \<noteq> PBB_CONTEXT_ADDRESS then Inl AssertFail
      else
        rbind (deref (ctx_addr ctx)) (\<lambda>addr.
        let b = hs_bprd st; u = he_local env (hs_tick st);
            naddr1 = hello_addr (u_addr u) b addr (addr_len ctx);
            naddr2 = own_netaddr (saddr b) u
        in if netaddr_cmp naddr1 naddr2 = 0
           then rbind (cur_neighbor st) (\<lambda>i.
             Inr (PBB_OKAY, (set_nlist ((hs_nlist st)[i := (hs_nlist st ! i)\<lparr>bidir := 1\<rparr>]) st)
                    \<lparr>hs_tick := Suc (hs_tick st)\<rparr>))
           else Inr (PBB_OKAY, st\<lparr>hs_tick := Suc (hs_tick st)\<rparr>)))"

definition hello_cons_addr_tlv ::
  "bytes \<Rightarrow> tlv_entry \<Rightarrow> pctx \<Rightarrow> 'm hello_st \<Rightarrow> halt + pbb_result \<times> 'm hello_st" where
  "hello_cons_addr_tlv buf tlv ctx st =
     (if ctx_type ctx \<noteq> PBB_CONTEXT_ADDRESS then Inl AssertFail
      else Inl (LogErr ''Addresses should not have tlv's!''))"

section \<open>Registration and reception\<close>

text \<open>The static consumer structures start out as zeros. Their callbacks are assigned right after the
  registration, which does not look at them.\<close>

definition zero_consumer :: "'st consumer" where
  "zero_consumer = \<lparr>order = 0, default_msg_consumer = False, msg_id = 0, addrblock_consumer = False,
     consumer_entries = [], start_callback = None, end_callback = None, tlv_callback = None, block_callback = None\<rparr>"

definition hello_reader_init :: "hello_env \<Rightarrow> 'm hello_st pbb_reader" where
  "hello_reader_init env =
     (let r = pbb_reader_init \<lparr>packet_consumer = [], message_consumer = [], forward_message = None\<rparr>;
          r = pbb_reader_add_packet_consumer r zero_consumer [] 0;
          r = pbb_reader_add_message_consumer r
                (zero_consumer\<lparr>start_callback := Some (hello_cons_msg_start env),
                   tlv_callback := Some (hello_cons_msg_tlv env)\<rparr>) [] BPRD_MSG_TYPE_HELLO 0
      in pbb_reader_add_address_consumer r
           (zero_consumer\<lparr>start_callback := Some (hello_cons_addr_start env),
              tlv_callback := Some hello_cons_addr_tlv\<rparr>) [] BPRD_MSG_TYPE_HELLO 0)"

text \<open>The daemon's state, the reader with its memory, and the outside world of a reception: the mutex
  operations, the reader's allocators and the value of its uninitialised variable.\<close>

record 'm hello_io =
  io_lock :: "'m \<Rightarrow> int \<times> 'm"
  io_unlock :: "'m \<Rightarrow> int \<times> 'm"
  io_alloc :: "nat \<Rightarrow> bool"
  io_junk :: nat

definition set_ntable :: "'m neighbortable \<Rightarrow> 'm hello_st \<Rightarrow> 'm hello_st" where
  "set_ntable t st = st\<lparr>hs_bprd := (hs_bprd st)\<lparr>ntable := t\<rparr>\<rparr>"

definition hello_recv ::
  "'m hello_io \<Rightarrow> 'm hello_st pbb_reader \<Rightarrow> bytes \<Rightarrow> nat \<Rightarrow> 'm hello_st \<Rightarrow> mem \<Rightarrow>
     halt + 'm hello_st pbb_reader \<times> 'm hello_st \<times> mem" where
  "hello_recv io pbb_r buf buflen st m =
     rbind (ntable_mutex_lock (io_lock io) (ntable (hs_bprd st))) (\<lambda>t.
     rbind (pbb_reader_handle_packet (io_alloc io) (io_junk io) pbb_r buf buflen (set_ntable t st) m)
       (\<lambda>(r, pbb_r, st, m).
     rbind (ntable_mutex_unlock (io_unlock io) (ntable (hs_bprd st))) (\<lambda>t.
     Inr (pbb_r, set_ntable t st, m))))"

text \<open>The loop of the thread over the datagrams it receives, \<open>None\<close> for a failing \<open>recvfrom\<close>. The static
  buffer of 512 bytes keeps what earlier datagrams left in it.\<close>

fun hello_reader_thread ::
  "'m hello_io \<Rightarrow> 'm hello_st pbb_reader \<Rightarrow> bytes \<Rightarrow> bytes option list \<Rightarrow> 'm hello_st \<Rightarrow> mem \<Rightarrow>
     halt + 'm hello_st pbb_reader \<times> bytes \<times> 'm hello_st \<times> mem" where
  "hello_reader_thread io pbb_r buf [] st m = Inr (pbb_r, buf, st, m)"
| "hello_reader_thread io pbb_r buf (None # ds) st m = Inl (LogErr ''Unable to receive hello!'')"
| "hello_reader_thread io pbb_r buf (Some d # ds) st m =
     (let d = take 512 d; buf = put_bytes 0 d buf
      in rbind (hello_recv io pbb_r buf (length d) st m) (\<lambda>(pbb_r, st, m).
           hello_reader_thread io pbb_r buf ds st m))"

section \<open>What the callbacks do to the neighbor table\<close>

lemma set_nlist_sel [simp]:
  "hs_nlist (set_nlist l st) = l" "hs_n (set_nlist l st) = hs_n st" "hs_tick (set_nlist l st) = hs_tick st"
  "hs_mem (set_nlist l st) = hs_mem st"
  "hs_bprd (set_nlist l st) = (hs_bprd st)\<lparr>ntable := (ntable (hs_bprd st))\<lparr>nlist := l\<rparr>\<rparr>"
  by (simp_all add: set_nlist_def)

lemma cur_neighbor_Inr_iff: "cur_neighbor st = Inr i \<longleftrightarrow> hs_n st = Some i \<and> i < length (hs_nlist st)"
  by (auto simp: cur_neighbor_def rbind_Inr_iff split: if_splits)

text \<open>The callbacks keep the neighbor table well-formed and change nothing else of the daemon.\<close>

definition hello_inv :: "'m bprd \<Rightarrow> 'm hello_st \<Rightarrow> bool" where
  "hello_inv b0 st \<longleftrightarrow> nlist_ok (hs_nlist st) \<and>
     (\<exists>l. hs_bprd st = b0\<lparr>ntable := (ntable b0)\<lparr>nlist := l\<rparr>\<rparr>)"

definition hello_con :: "hello_env \<Rightarrow> 'm hello_st consumer \<Rightarrow> bool" where
  "hello_con env c \<longleftrightarrow>
     start_callback c \<in> {None, Some (hello_cons_msg_start env), Some (hello_cons_addr_start env)} \<and>
     tlv_callback c \<in> {None, Some (hello_cons_msg_tlv env), Some hello_cons_addr_tlv} \<and>
     end_callback c = None \<and> block_callback c = None"

lemma hello_inv_set [wf_intros]: "hello_inv b0 st \<Longrightarrow> nlist_ok l \<Longrightarrow> hello_inv b0 (set_nlist l st)"
  by (auto simp: hello_inv_def)

lemma hello_inv_n [wf_intros]:
  "hello_inv b0 st \<Longrightarrow> hello_inv b0 (st\<lparr>hs_n := i, hs_tick := t\<rparr>)"
  "hello_inv b0 st \<Longrightarrow> hello_inv b0 (st\<lparr>hs_n := i, hs_tick := t, hs_mem := m\<rparr>)"
  "hello_inv b0 st \<Longrightarrow> hello_inv b0 (st\<lparr>hs_mem := m\<rparr>)"
  "hello_inv b0 st \<Longrightarrow> hello_inv b0 (st\<lparr>hs_tick := t\<rparr>)"
  by (simp_all add: hello_inv_def)

lemma hello_con_cases:
  assumes "hello_con env c"
  shows "start_callback c = Some f \<Longrightarrow> f = hello_cons_msg_start env \<or> f = hello_cons_addr_start env"
    and "tlv_callback c = Some h \<Longrightarrow> h = hello_cons_msg_tlv env \<or> h = hello_cons_addr_tlv"
    and "end_callback c = None" and "block_callback c = None"
  using assms by (auto simp: hello_con_def)

text \<open>When the conversion of an address fails, type and prefix length stay what the memory held, next to 16
  zero bytes. The lookup key and the address of the new neighbor can only differ in this way.\<close>

lemma hello_addr_cases:
  "hello_addr x b bin len = hello_addr y b bin len \<or> na_addr (hello_addr x b bin len) = replicate 16 0"
  by (cases x; cases y) (simp add: hello_addr_def netaddr_from_binary_def Let_def)

lemma hello_addr_ok:
  assumes "family_bytes (word_of_int (ipver b)) = Some n" and "n \<le> unat len" and "n \<le> length x"
  shows "hello_addr before b x len =
    \<lparr>na_addr = take n x @ replicate (16 - n) 0, na_type = word_of_int (ipver b), na_prefix_len = of_nat (8 * n)\<rparr>"
  unfolding hello_addr_def netaddr_from_binary_ok[OF assms] by simp

lemma new_neighbor_sel [simp]:
  "n_addr (new_neighbor a) = a" "bidir (new_neighbor a) = 0" "n_clist (new_neighbor a) = []"
  by (simp_all add: new_neighbor_def)

text \<open>The start of a message makes the originator's neighbor the current one.\<close>

lemma hello_cons_msg_start_effect:
  assumes "hello_cons_msg_start env ctx st = Inr (r, st')" and "nlist_wf (hs_nlist st)"
    and "hello_addr (he_heap env (calls (hs_mem st))) (hs_bprd st) (orig_addr ctx) (addr_len ctx) = a"
    and "hello_addr (u_addr (he_local env (hs_tick st))) (hs_bprd st) (orig_addr ctx) (addr_len ctx) = a"
  shows "\<exists>i n. r = PBB_OKAY \<and> hs_n st' = Some i \<and> i < length (hs_nlist st') \<and> hs_nlist st' ! i = n \<and>
    n_addr n = a \<and> update_time n = he_clk env (hs_tick st) \<and> hs_tick st' = Suc (hs_tick st) \<and>
    bidir n = (case nlist_map (hs_nlist st) a of None \<Rightarrow> 0 | Some m \<Rightarrow> bidir m) \<and>
    n_clist n = (case nlist_map (hs_nlist st) a of None \<Rightarrow> [] | Some m \<Rightarrow> n_clist m) \<and>
    nlist_map (hs_nlist st') = (nlist_map (hs_nlist st))(a \<mapsto> n) \<and> nlist_wf (hs_nlist st') \<and>
    hs_bprd st' = (hs_bprd st)\<lparr>ntable := (ntable (hs_bprd st))\<lparr>nlist := hs_nlist st'\<rparr>\<rparr>"
proof (cases "nlist_find (hs_nlist st) (new_neighbor a)")
  case (Some i)
  note f = nlist_find_Some[OF Some]
  let ?n = "(hs_nlist st ! i)\<lparr>update_time := he_clk env (hs_tick st)\<rparr>"
  have e: "r = PBB_OKAY" "hs_n st' = Some i" "hs_nlist st' = (hs_nlist st)[i := ?n]" "hs_tick st' = Suc (hs_tick st)"
    "hs_bprd st' = (hs_bprd st)\<lparr>ntable := (ntable (hs_bprd st))\<lparr>nlist := (hs_nlist st)[i := ?n]\<rparr>\<rparr>"
    using assms(1,4) Some by (auto simp: hello_cons_msg_start_def Let_def split: if_splits)
  have w: "nlist_wf ((hs_nlist st)[i := ?n])"
    using f(1) assms(2) by (intro nlist_wf_update) (auto simp: nlist_wf_def)
  show ?thesis
    using e w f nlist_map_update[OF f(1) assms(2), of ?n] by simp
next
  case None
  let ?n = "(new_neighbor a)\<lparr>update_time := he_clk env (hs_tick st)\<rparr>"
  have e: "r = PBB_OKAY" "hs_n st' = Some 0" "hs_nlist st' = list_insert (hs_nlist st) ?n" "hs_tick st' = Suc (hs_tick st)"
    "hs_bprd st' = (hs_bprd st)\<lparr>ntable := (ntable (hs_bprd st))\<lparr>nlist := list_insert (hs_nlist st) ?n\<rparr>\<rparr>"
    using assms(1,3,4) None by (auto simp: hello_cons_msg_start_def Let_def split: if_splits prod.splits bool.splits)
  have m: "nlist_map (hs_nlist st) a = None"
    using None by (simp add: nlist_find_None nlist_map_def klookup_None_iff)
  have w: "nlist_wf (list_insert (hs_nlist st) ?n)"
    by (rule nlist_wf_insert[OF None assms(2)]) (simp_all add: clist_wf_def)
  have "hs_nlist st' ! 0 = ?n \<and> 0 < length (hs_nlist st')" unfolding e(3) by (simp add: list_insert_def)
  with e w m nlist_map_insert[OF None assms(2), of ?n] show ?thesis by simp
qed

text \<open>Whatever the originator, the table keeps its invariant.\<close>

lemma hello_cons_msg_start_table:
  assumes "hello_cons_msg_start env ctx st = Inr (r, st')" and "nlist_ok (hs_nlist st)"
  shows "nlist_ok (hs_nlist st') \<and>
    hs_bprd st' = (hs_bprd st)\<lparr>ntable := (ntable (hs_bprd st))\<lparr>nlist := hs_nlist st'\<rparr>\<rparr>"
proof -
  let ?l = "hs_nlist st" and ?now = "he_clk env (hs_tick st)"
  let ?a = "\<lambda>x. hello_addr x (hs_bprd st) (orig_addr ctx) (addr_len ctx)"
  let ?key = "?a (u_addr (he_local env (hs_tick st)))" and ?new = "?a (he_heap env (calls (hs_mem st)))"
  show ?thesis
  proof (cases "nlist_find ?l (new_neighbor ?key)")
    case (Some i)
    have e: "hs_nlist st' = ?l[i := (?l ! i)\<lparr>update_time := ?now\<rparr>]"
      "hs_bprd st' = (hs_bprd st)\<lparr>ntable := (ntable (hs_bprd st))\<lparr>nlist := hs_nlist st'\<rparr>\<rparr>"
      using assms(1) Some by (auto simp: hello_cons_msg_start_def Let_def split: if_splits)
    have "nlist_ok (?l[i := (?l ! i)\<lparr>update_time := ?now\<rparr>])"
      using nlist_find_Some(1)[OF Some] assms(2) by (intro nlist_ok_update) (auto simp: nlist_ok_def)
    with e show ?thesis by simp
  next
    case None
    have e: "hs_nlist st' = list_insert ?l ((new_neighbor ?new)\<lparr>update_time := ?now\<rparr>)"
      "hs_bprd st' = (hs_bprd st)\<lparr>ntable := (ntable (hs_bprd st))\<lparr>nlist := hs_nlist st'\<rparr>\<rparr>"
      using assms(1) None by (auto simp: hello_cons_msg_start_def Let_def split: if_splits prod.splits bool.splits)
    have "?new \<notin> n_addr ` set ?l \<or> na_addr ?new = replicate 16 0"
      using None hello_addr_cases by (metis nlist_find_None new_neighbor_sel(1))
    then have "nlist_ok (list_insert ?l ((new_neighbor ?new)\<lparr>update_time := ?now\<rparr>))"
      using assms(2) by (intro nlist_ok_insert) (simp_all add: clist_wf_def)
    with e show ?thesis by simp
  qed
qed

text \<open>One commodity report: the backlog of a known commodity is replaced, an unknown one is added.\<close>

definition com_report :: "commodity_short \<Rightarrow> commodity option \<Rightarrow> commodity" where
  "com_report cd c = (case c of
     Some c \<Rightarrow> c\<lparr>cdata := (cdata c)\<lparr>cs_backlog := cs_backlog cd\<rparr>\<rparr>
   | None \<Rightarrow> mk_commodity (cs_addr cd) (cs_backlog cd) 0 0 None)"

lemma hello_cons_msg_tlv_effect:
  assumes "hello_cons_msg_tlv env buf t ctx st = Inr (r, st')" and "nlist_ok (hs_nlist st)"
  shows "\<exists>p cd i n n'. r = PBB_OKAY \<and> single_value t = Some p \<and> read_commodity_s buf p = Inr cd \<and>
    t_type t = BPRD_MSGTLV_TYPE_COM \<and>
    cur_neighbor st = Inr i \<and> n = hs_nlist st ! i \<and>
    n_addr n' = n_addr n \<and> bidir n' = bidir n \<and> update_time n' = update_time n \<and> clist_wf (n_clist n') \<and>
    clist_map (n_clist n') = (clist_map (n_clist n))(cs_addr cd \<mapsto> com_report cd (clist_map (n_clist n) (cs_addr cd))) \<and>
    hs_nlist st' = (hs_nlist st)[i := n'] \<and> hs_n st' = hs_n st \<and> hs_tick st' = hs_tick st \<and>
    hs_bprd st' = (hs_bprd st)\<lparr>ntable := (ntable (hs_bprd st))\<lparr>nlist := hs_nlist st'\<rparr>\<rparr>"
proof -
  from assms(1) obtain p cd i where p: "single_value t = Some p" "read_commodity_s buf p = Inr cd"
    "cur_neighbor st = Inr i" "t_type t = BPRD_MSGTLV_TYPE_COM"
    by (auto simp: hello_cons_msg_tlv_def rbind_Inr_iff split: if_splits)
  let ?n = "hs_nlist st ! i"
  let ?c = "mk_commodity (cs_addr cd) (cs_backlog cd) 0 0 None"
  have i: "i < length (hs_nlist st)" using p(3) by (simp add: cur_neighbor_Inr_iff)
  have w: "clist_wf (n_clist ?n)" using assms(2) i by (simp add: nlist_ok_def)
  have "\<exists>cl. r = PBB_OKAY \<and> clist_wf cl \<and>
    clist_map cl = (clist_map (n_clist ?n))(cs_addr cd \<mapsto> com_report cd (clist_map (n_clist ?n) (cs_addr cd))) \<and>
    hs_nlist st' = (hs_nlist st)[i := ?n\<lparr>n_clist := cl\<rparr>] \<and> hs_n st' = hs_n st \<and> hs_tick st' = hs_tick st \<and>
    hs_bprd st' = (hs_bprd st)\<lparr>ntable := (ntable (hs_bprd st))\<lparr>nlist := hs_nlist st'\<rparr>\<rparr>"
  proof (cases "clist_find (n_clist ?n) ?c")
    case (Some j)
    note f = clist_find_Some[OF Some]
    let ?d = "(n_clist ?n ! j)\<lparr>cdata := (cdata (n_clist ?n ! j))\<lparr>cs_backlog := cs_backlog cd\<rparr>\<rparr>"
    have e: "r = PBB_OKAY" "st' = set_nlist ((hs_nlist st)[i := ?n\<lparr>n_clist := (n_clist ?n)[j := ?d]\<rparr>]) st"
      using assms(1) p Some by (auto simp: hello_cons_msg_tlv_def Let_def split: if_splits)
    have "clist_wf ((n_clist ?n)[j := ?d])" using f(1) w by (rule clist_wf_update) simp
    moreover have "clist_map ((n_clist ?n)[j := ?d]) = (clist_map (n_clist ?n))(cs_addr cd \<mapsto> ?d)"
      using clist_map_update[OF Some w, of ?d] f(2) by simp
    ultimately show ?thesis
      unfolding e using f(3) by (intro exI[of _ "(n_clist ?n)[j := ?d]"]) (simp add: com_report_def)
  next
    case None
    obtain m where e: "r = PBB_OKAY"
      "st' = (set_nlist ((hs_nlist st)[i := ?n\<lparr>n_clist := list_insert (n_clist ?n) ?c\<rparr>]) st)\<lparr>hs_mem := m\<rparr>"
      using assms(1) p None by (auto simp: hello_cons_msg_tlv_def Let_def split: if_splits prod.splits bool.splits)
    have "clist_map (n_clist ?n) (cs_addr cd) = None" using None by (simp add: clist_find_None_map)
    moreover have "clist_wf (list_insert (n_clist ?n) ?c)" by (rule clist_wf_insert[OF None w]) simp
    moreover have "clist_map (list_insert (n_clist ?n) ?c) = (clist_map (n_clist ?n))(cs_addr cd \<mapsto> ?c)"
      using clist_map_insert[OF None w, of ?c] by simp
    ultimately show ?thesis
      unfolding e by (intro exI[of _ "list_insert (n_clist ?n) ?c"]) (simp add: com_report_def)
  qed
  then obtain cl where "r = PBB_OKAY" "clist_wf cl"
    "clist_map cl = (clist_map (n_clist ?n))(cs_addr cd \<mapsto> com_report cd (clist_map (n_clist ?n) (cs_addr cd)))"
    "hs_nlist st' = (hs_nlist st)[i := ?n\<lparr>n_clist := cl\<rparr>]" "hs_n st' = hs_n st" "hs_tick st' = hs_tick st"
    "hs_bprd st' = (hs_bprd st)\<lparr>ntable := (ntable (hs_bprd st))\<lparr>nlist := hs_nlist st'\<rparr>\<rparr>" by blast
  with p show ?thesis
    by (intro exI[of _ p] exI[of _ cd] exI[of _ i] exI[of _ ?n] exI[of _ "?n\<lparr>n_clist := cl\<rparr>"]) simp
qed

lemma hello_cons_addr_start_effect:
  assumes "hello_cons_addr_start env ctx st = Inr (r, st')"
  shows "\<exists>x. r = PBB_OKAY \<and> ctx_addr ctx = Some x \<and>
    (if hello_addr (u_addr (he_local env (hs_tick st))) (hs_bprd st) x (addr_len ctx) =
        own_netaddr (saddr (hs_bprd st)) (he_local env (hs_tick st))
     then \<exists>i. cur_neighbor st = Inr i \<and>
       st' = (set_nlist ((hs_nlist st)[i := (hs_nlist st ! i)\<lparr>bidir := 1\<rparr>]) st)\<lparr>hs_tick := Suc (hs_tick st)\<rparr>
     else st' = st\<lparr>hs_tick := Suc (hs_tick st)\<rparr>)"
proof -
  from assms obtain x where x: "ctx_addr ctx = Some x" "ctx_type ctx = PBB_CONTEXT_ADDRESS"
    by (auto simp: hello_cons_addr_start_def rbind_Inr_iff split: if_splits)
  note u = assms[unfolded hello_cons_addr_start_def x Let_def netaddr_cmp_zero_iff]
  show ?thesis
  proof (cases "hello_addr (u_addr (he_local env (hs_tick st))) (hs_bprd st) x (addr_len ctx) =
      own_netaddr (saddr (hs_bprd st)) (he_local env (hs_tick st))")
    case True
    with u have "rbind (cur_neighbor st) (\<lambda>i.
        Inr (PBB_OKAY, (set_nlist ((hs_nlist st)[i := (hs_nlist st ! i)\<lparr>bidir := 1\<rparr>]) st)
               \<lparr>hs_tick := Suc (hs_tick st)\<rparr>)) = Inr (r, st')"
      by simp
    then obtain i where "cur_neighbor st = Inr i" "r = PBB_OKAY"
      "st' = (set_nlist ((hs_nlist st)[i := (hs_nlist st ! i)\<lparr>bidir := 1\<rparr>]) st)\<lparr>hs_tick := Suc (hs_tick st)\<rparr>"
      by fastforce
    with True x show ?thesis by simp
  qed (use u x in simp)
qed

lemma hello_callbacks_inv:
  assumes "hello_inv b0 st"
  shows "hello_cons_msg_start env ctx st = Inr (r, st') \<Longrightarrow> hello_inv b0 st'"
    and "hello_cons_msg_tlv env buf t ctx st = Inr (r, st') \<Longrightarrow> hello_inv b0 st'"
    and "hello_cons_addr_start env ctx st = Inr (r, st') \<Longrightarrow> hello_inv b0 st'"
proof -
  from assms obtain l where w: "nlist_ok (hs_nlist st)" and b: "hs_bprd st = b0\<lparr>ntable := (ntable b0)\<lparr>nlist := l\<rparr>\<rparr>"
    by (auto simp: hello_inv_def)
  show "hello_inv b0 st'" if "hello_cons_msg_start env ctx st = Inr (r, st')"
    using hello_cons_msg_start_table[OF that w] b by (auto simp: hello_inv_def)
  show "hello_inv b0 st'" if "hello_cons_msg_tlv env buf t ctx st = Inr (r, st')"
  proof -
    from hello_cons_msg_tlv_effect[OF that w] obtain i n' where
      e: "cur_neighbor st = Inr i" "n_addr n' = n_addr (hs_nlist st ! i)" "clist_wf (n_clist n')"
      "hs_nlist st' = (hs_nlist st)[i := n']"
      "hs_bprd st' = (hs_bprd st)\<lparr>ntable := (ntable (hs_bprd st))\<lparr>nlist := hs_nlist st'\<rparr>\<rparr>"
      by blast
    have "nlist_ok (hs_nlist st')"
      unfolding e(4) using e(1-3) w by (intro nlist_ok_update) (simp_all add: cur_neighbor_Inr_iff)
    with b e(5) show ?thesis by (auto simp: hello_inv_def)
  qed
  show "hello_inv b0 st'" if c: "hello_cons_addr_start env ctx st = Inr (r, st')"
  proof -
    from hello_cons_addr_start_effect[OF c] consider "st' = st\<lparr>hs_tick := Suc (hs_tick st)\<rparr>" | i where "cur_neighbor st = Inr i"
      "st' = (set_nlist ((hs_nlist st)[i := (hs_nlist st ! i)\<lparr>bidir := 1\<rparr>]) st)\<lparr>hs_tick := Suc (hs_tick st)\<rparr>"
      by (auto split: if_splits)
    then show ?thesis
    proof cases
      case (2 i)
      then have "nlist_ok ((hs_nlist st)[i := (hs_nlist st ! i)\<lparr>bidir := 1\<rparr>])"
        using w by (intro nlist_ok_update) (auto simp: cur_neighbor_Inr_iff nlist_ok_def)
      with 2 assms show ?thesis by (simp add: hello_inv_set hello_inv_n)
    qed (use assms in \<open>simp add: hello_inv_n\<close>)
  qed
qed

interpretation hello: reader_client "hello_inv b0" "hello_con env" for b0 :: "'m bprd" and env
proof (unfold_locales, goal_cases)
  case (1 c es)
  then show ?case by (simp add: hello_con_def)
next
  case (2 c f st ctx r st')
  then have "f = hello_cons_msg_start env \<or> f = hello_cons_addr_start env"
    using hello_con_cases(1) by blast
  with 2(3,4) hello_callbacks_inv(1,3) show ?case by blast
next
  case (3 c g st ctx d r st')
  then show ?case by (simp add: hello_con_def)
next
  case (4 c h st buf t ctx r st')
  then have "h = hello_cons_msg_tlv env \<or> h = hello_cons_addr_tlv"
    using hello_con_cases(2) by blast
  then show ?case
  proof
    assume "h = hello_cons_msg_tlv env"
    with 4(3,4) hello_callbacks_inv(2) show ?thesis by blast
  next
    assume "h = hello_cons_addr_tlv"
    with 4(4) show ?thesis by (simp add: hello_cons_addr_tlv_def split: if_splits)
  qed
next
  case (5 c k st buf ts ces ctx mm r ces' st')
  then show ?case by (simp add: hello_con_def)
qed

section \<open>Reception\<close>

definition hello_reader_ok :: "hello_env \<Rightarrow> 'm hello_st pbb_reader \<Rightarrow> bool" where
  "hello_reader_ok env r \<longleftrightarrow> forward_message r = None \<and>
     (\<forall>c\<in>set (packet_consumer r) \<union> set (message_consumer r). hello_con env c)"

text \<open>The consumers as the initialisation leaves them: the message consumer before the address consumer.\<close>

definition hello_msg_cons :: "hello_env \<Rightarrow> 'm hello_st consumer" where
  "hello_msg_cons env = zero_consumer\<lparr>start_callback := Some (hello_cons_msg_start env),
     tlv_callback := Some (hello_cons_msg_tlv env), msg_id := BPRD_MSG_TYPE_HELLO\<rparr>"

definition hello_addr_cons :: "hello_env \<Rightarrow> 'm hello_st consumer" where
  "hello_addr_cons env = zero_consumer\<lparr>start_callback := Some (hello_cons_addr_start env),
     tlv_callback := Some hello_cons_addr_tlv, addrblock_consumer := True, msg_id := BPRD_MSG_TYPE_HELLO\<rparr>"

lemma hello_reader_init_eq:
  "hello_reader_init env =
     \<lparr>packet_consumer = [zero_consumer], message_consumer = [hello_msg_cons env, hello_addr_cons env],
      forward_message = None\<rparr>"
  by (simp add: hello_reader_init_def pbb_reader_init_def pbb_reader_add_packet_consumer_def
      pbb_reader_add_message_consumer_def pbb_reader_add_address_consumer_def add_consumer_def
      consumer_avl_comp_def zero_consumer_def hello_msg_cons_def hello_addr_cons_def Let_def)

lemma hello_reader_init_ok: "hello_reader_ok env (hello_reader_init env)"
  by (simp add: hello_reader_ok_def hello_reader_init_eq hello_con_def hello_msg_cons_def hello_addr_cons_def
      zero_consumer_def)

lemma set_ntable_sel [simp]: "hs_bprd (set_ntable t st) = (hs_bprd st)\<lparr>ntable := t\<rparr>"
  by (simp add: set_ntable_def)

lemma mutex_keeps_nlist:
  "ntable_mutex_lock f t = Inr t' \<Longrightarrow> nlist t' = nlist t"
  "ntable_mutex_unlock g t = Inr t' \<Longrightarrow> nlist t' = nlist t"
  by (auto simp: ntable_mutex_lock_def ntable_mutex_unlock_def split: prod.splits if_splits)

lemma hello_recv_inv:
  assumes "hello_recv io r buf n st m = Inr (r', st', m')" and "hello_reader_ok env r"
    and "nlist_ok (hs_nlist st)"
  shows "hello_reader_ok env r' \<and> nlist_ok (hs_nlist st') \<and> (\<exists>t. hs_bprd st' = (hs_bprd st)\<lparr>ntable := t\<rparr>) \<and>
    live m' = live m"
proof -
  from assms(1) obtain t res st1 t1 where
    lk: "ntable_mutex_lock (io_lock io) (ntable (hs_bprd st)) = Inr t"
    and h: "pbb_reader_handle_packet (io_alloc io) (io_junk io) r buf n (set_ntable t st) m = Inr (res, r', st1, m')"
    and ul: "ntable_mutex_unlock (io_unlock io) (ntable (hs_bprd st1)) = Inr t1" and s: "st' = set_ntable t1 st1"
    by (auto simp: hello_recv_def rbind_Inr_iff)
  let ?b = "(hs_bprd st)\<lparr>ntable := t\<rparr>"
  have i: "hello_inv ?b (set_ntable t st)"
    using assms(3) mutex_keeps_nlist(1)[OF lk] by (auto simp: hello_inv_def intro!: exI[of _ "nlist t"])
  have o: "hello.reader_ok ?b env r"
    using assms(2) by (simp add: hello.reader_ok_def hello.fw_ok_def hello_reader_ok_def)
  from hello.handle_packet_inv[OF h o i] have
    1: "hello_inv ?b st1" "hello.reader_ok ?b env r'" "live m' = live m" "forward_message r' = forward_message r"
    by blast+
  have "hello_reader_ok env r'"
    using 1(2,4) assms(2) by (auto simp: hello.reader_ok_def hello_reader_ok_def)
  with 1 s mutex_keeps_nlist(2)[OF ul] show ?thesis by (auto simp: hello_inv_def)
qed

text \<open>C11: Whatever datagrams arrive, in whatever order and with whatever contents, and whatever uninitialised
  memory holds, as long as the thread runs: it stays true that every neighbor address other than one with 16
  zero bytes (what the failing conversion of a too short originator leaves behind) has one entry in the table
  and that each entry has one commodity per destination address; no other field of the daemon's state changes, and all memory of
  the reader is freed after each packet.\<close>

theorem hello_thread_keeps_table:
  assumes "hello_reader_thread io (hello_reader_init env) buf ds st m = Inr (r', buf', st', m')"
    and "nlist_ok (hs_nlist st)"
  shows "nlist_ok (hs_nlist st') \<and> (\<exists>t. hs_bprd st' = (hs_bprd st)\<lparr>ntable := t\<rparr>) \<and> live m' = live m"
proof -
  have "nlist_ok (hs_nlist st') \<and> (\<exists>t. hs_bprd st' = (hs_bprd st)\<lparr>ntable := t\<rparr>) \<and> live m' = live m"
    if "hello_reader_thread io r buf ds st m = Inr (r', buf', st', m')" "hello_reader_ok env r"
      "nlist_ok (hs_nlist st)" for r buf ds st m
    using that
  proof (induction ds arbitrary: r buf st m)
    case Nil
    then show ?case by (auto intro: exI[of _ "ntable (hs_bprd st)"])
  next
    case (Cons d ds)
    then obtain x where d: "d = Some x" by (cases d) auto
    with Cons.prems(1) obtain r1 st1 m1 where
      h: "hello_recv io r (put_bytes 0 (take 512 x) buf) (length (take 512 x)) st m = Inr (r1, st1, m1)"
      and t: "hello_reader_thread io r1 (put_bytes 0 (take 512 x) buf) ds st1 m1 = Inr (r', buf', st', m')"
      by (auto simp: Let_def)
    note i = hello_recv_inv[OF h Cons.prems(2,3)]
    with Cons.IH[OF t] show ?case by auto
  qed
  from this[OF assms(1) hello_reader_init_ok assms(2)] show ?thesis .
qed

text \<open>A daemon at 10.0.0.1 that receives a hello of 10.0.0.2 with the backlog 7 for 10.0.0.3.\<close>

definition hello_sample_bprd :: "unit bprd" where
  "hello_sample_bprd = \<lparr>ipver = 2, if_index = 3, sockfd = 4, saddr = [2, 0, 0, 0, 10, 0, 0, 1] @ replicate 8 0,
     saddrlen = 16, maddr = [], maddrlen = 0, hello_seqno = 0, hello_interval = 0, release_interval = 0,
     update_interval = 0, neighbor_timeout = 0, clist = [], ntable = \<lparr>nlist = [], mutex = ()\<rparr>\<rparr>"

definition hello_sample_env :: hello_env where
  "hello_sample_env = \<lparr>he_clk = (\<lambda>k. \<lparr>tv_sec = int k, tv_usec = 0\<rparr>), he_alloc = (\<lambda>_. True),
     he_local = (\<lambda>_. \<lparr>u_sock = replicate 128 0, u_addr = ipv4 [0,0,0,0]\<rparr>), he_heap = (\<lambda>_. ipv4 [0,0,0,0])\<rparr>"

definition hello_sample_msg :: bytes where
  "hello_sample_msg = [1, 0x83, 0, 45, 10, 0, 0, 2, 0, 27, 1, 0x10, 24] @
     [10, 0, 0, 3, 0, 0, 0, 0, 0, 0, 0, 0, 0, 0, 0, 0, 2, 32, 0, 0, 7, 0, 0, 0] @
     [1, 0, 10, 0, 0, 1, 0, 0]"

definition hello_sample_st :: "unit hello_st" where
  "hello_sample_st = \<lparr>hs_bprd = hello_sample_bprd, hs_n = None, hs_tick = 0, hs_mem = \<lparr>calls = 0, live = 0\<rparr>\<rparr>"

definition hello_sample_io :: "unit hello_io" where
  "hello_sample_io = \<lparr>io_lock = Pair 0, io_unlock = Pair 0, io_alloc = (\<lambda>_. True), io_junk = 0\<rparr>"

lemma hello_sample_wf: "nlist_wf (hs_nlist hello_sample_st)"
  by (simp add: nlist_wf_def hello_sample_st_def hello_sample_bprd_def)

lemma hello_sample_run:
  "case hello_reader_thread hello_sample_io (hello_reader_init hello_sample_env) (replicate 512 0)
      [Some (0 # hello_sample_msg), Some []] hello_sample_st \<lparr>calls = 0, live = 0\<rparr> of
     Inl _ \<Rightarrow> False | Inr (r, buf, st, m) \<Rightarrow> map n_addr (hs_nlist st) = [ipv4 [10,0,0,2]]"
  by code_simp

theorem hello_thread_keeps_table_witness:
  "\<exists>r' buf' st' m'. hello_reader_thread hello_sample_io (hello_reader_init hello_sample_env) (replicate 512 0)
      [Some (0 # hello_sample_msg), Some []] hello_sample_st \<lparr>calls = 0, live = 0\<rparr> = Inr (r', buf', st', m') \<and>
    map n_addr (hs_nlist st') = [ipv4 [10,0,0,2]] \<and> nlist_ok (hs_nlist st') \<and> live m' = 0"
proof -
  from hello_sample_run obtain r' buf' st' m' where
    r: "hello_reader_thread hello_sample_io (hello_reader_init hello_sample_env) (replicate 512 0)
      [Some (0 # hello_sample_msg), Some []] hello_sample_st \<lparr>calls = 0, live = 0\<rparr> = Inr (r', buf', st', m')"
    and n: "map n_addr (hs_nlist st') = [ipv4 [10,0,0,2]]"
    by (auto split: sum.splits)
  from hello_thread_keeps_table[OF r nlist_wf_ok[OF hello_sample_wf]] r n show ?thesis by auto
qed

text \<open>C21: A hello without an originator address (seven bytes) fails an assertion and ends the process, in
  every state of the daemon, once the table is locked.\<close>

theorem hello_without_originator_ends_daemon:
  assumes "ntable_mutex_lock (io_lock io) (ntable (hs_bprd st)) = Inr t"
  shows "hello_recv io (hello_reader_init env) ([0, 1, 0, 0, 6, 0, 0] @ rest) 7 st m = Inl AssertFail"
proof -
  let ?buf = "[0, 1, 0, 0, 6, 0, 0] @ rest"
  have up: "[0..<length [hello_msg_cons env, hello_addr_cons env]] = 0 # [1]" by simp
  have "schedule_msgtlv_consumer (hello_msg_cons env) buf ctx ts s = Inl AssertFail"
    if "\<not> has_origaddr ctx" for buf ctx ts and s :: "'a hello_st"
    using that by (simp add: schedule_msgtlv_consumer_def call_start_def hello_msg_cons_def zero_consumer_def
        hello_cons_msg_start_def Let_def)
  then have "deliver_message buf \<lparr>ms_ctx = ctx, ms_tlvs = ts, ms_blocks = bs,
      ms_cons = [hello_msg_cons env, hello_addr_cons env], ms_st = s\<rparr> = Inl AssertFail"
    if "\<not> has_origaddr ctx" "msg_type ctx = 1" for buf ctx ts bs and s :: "'a hello_st"
    using that unfolding deliver_message_def mstate.select_convs up consumers_loop.simps(2)[of buf 0 "[1]"]
    by (simp add: Let_def run_consumer_def hello_msg_cons_def zero_consumer_def)
  with assms show ?thesis
    by (simp add: hello_recv_def hello_reader_init_eq packet_run messages_loop.simps handle_message_def
        parse_message_def parse_message_header_def read_origaddr_def opt_u8_def parse_addrblocks.simps call_start_def
        zero_consumer_def)
qed

theorem hello_without_originator_ends_daemon_witness:
  "hello_recv hello_sample_io (hello_reader_init hello_sample_env) [0, 1, 0, 0, 6, 0, 0] 7 hello_sample_st
     \<lparr>calls = 0, live = 0\<rparr> = Inl AssertFail"
  using hello_without_originator_ends_daemon[of hello_sample_io hello_sample_st _ hello_sample_env "[]"]
  by (simp add: ntable_mutex_lock_def hello_sample_io_def)

text \<open>C19: A message with one address block whose head length is 17 (27 bytes; any message type, any 17 bytes of
  the head) makes the daemon's reader write past the 16 bytes of its address buffer: whatever state the daemon is
  in, once the table is locked and the address block allocated, the memory behind the buffer is overwritten.\<close>

theorem packet_buffer_overflow:
  assumes "ntable_mutex_lock (io_lock io) (ntable (hs_bprd st)) = Inr t" and "io_alloc io (calls m)" and "length h = 17"
  shows "hello_recv io (hello_reader_init env) ([0, ty, 3, 0, 26, 0, 0, 1, 0x80, 17] @ h @ rest) 27 st m = Inl OutOfBounds"
  using assms
  by (simp add: hello_recv_def hello_reader_init_eq packet_run messages_loop.simps handle_message_def
      parse_message_def parse_message_header_def read_origaddr_def opt_u8_def parse_addrblocks.simps parse_addrblock_def
      parse_addr_head_def empty_addrblock_def memcpy_def put_bytes_def sub_bytes_def PBB_MAX_ADDRLEN_def call_start_def
      zero_consumer_def)

theorem packet_buffer_overflow_witness:
  "hello_recv hello_sample_io (hello_reader_init hello_sample_env) ([0, 1, 3, 0, 26, 0, 0, 1, 0x80, 17] @ replicate 17 9) 27
     hello_sample_st \<lparr>calls = 0, live = 0\<rparr> = Inl OutOfBounds"
  using packet_buffer_overflow[of hello_sample_io hello_sample_st _ "\<lparr>calls = 0, live = 0\<rparr>" "replicate 17 9" hello_sample_env 1 "[]"]
  by (simp add: ntable_mutex_lock_def hello_sample_io_def)

end
