(* ===== verification/HelloMessage.thy ===== *)
theory HelloMessage
  imports HelloReader
begin

text \<open>
  The effect of one received hello message on the neighbor table, from the bytes to the entry of the
  message's originator: commodity TLVs become backlog reports, the daemon's own address among the
  addresses marks the link as bidirectional.
\<close>

section \<open>The commodity reports\<close>

definition report_all ::
  "commodity_short list \<Rightarrow> (netaddr \<Rightarrow> commodity option) \<Rightarrow> netaddr \<Rightarrow> commodity option" where
  "report_all cds M = fold (\<lambda>cd M. M(cs_addr cd \<mapsto> com_report cd (M (cs_addr cd)))) cds M"

text \<open>A TLV with the commodity that its value holds.\<close>

definition tlv_reports :: "bytes \<Rightarrow> tlv_entry \<Rightarrow> commodity_short \<Rightarrow> bool" where
  "tlv_reports buf t cd \<longleftrightarrow> t_type t = BPRD_MSGTLV_TYPE_COM \<and>
     (\<exists>p. single_value (set_multi_value 0 t) = Some p \<and> read_commodity_s buf p = Inr cd)"

text \<open>What a neighbor entry keeps while its commodities change.\<close>

definition same_link :: "neighbor \<Rightarrow> neighbor \<Rightarrow> bool" where
  "same_link n n' \<longleftrightarrow> n_addr n' = n_addr n \<and> bidir n' = bidir n \<and> update_time n' = update_time n"

lemma nlist_wf_at: "nlist_wf l \<Longrightarrow> i < length l \<Longrightarrow> clist_wf (n_clist (l ! i))"
  by (simp add: nlist_wf_def)

lemma deliver_tlvs_hello:
  assumes "deliver_tlvs (hello_cons_msg_tlv env) buf ctx 0 ts st = Inr (r, ts', st')"
    and "cur_neighbor st = Inr i" and "nlist_wf (hs_nlist st)"
  shows "\<exists>cds n'. r = PBB_OKAY \<and> list_all2 (tlv_reports buf) (filter (index_matches 0) ts) cds \<and>
    same_link (hs_nlist st ! i) n' \<and> clist_wf (n_clist n') \<and>
    clist_map (n_clist n') = report_all cds (clist_map (n_clist (hs_nlist st ! i))) \<and>
    hs_nlist st' = (hs_nlist st)[i := n'] \<and> cur_neighbor st' = Inr i \<and> hs_tick st' = hs_tick st \<and>
    hs_bprd st' = (hs_bprd st)\<lparr>ntable := (ntable (hs_bprd st))\<lparr>nlist := hs_nlist st'\<rparr>\<rparr>"
  using assms
proof (induction ts arbitrary: st ts' r)
  case Nil
  have i: "i < length (hs_nlist st)" using Nil.prems(2) by (simp add: cur_neighbor_Inr_iff)
  from Nil.prems i show ?case
    by (intro exI[of _ "[]"] exI[of _ "hs_nlist st ! i"])
      (simp add: same_link_def report_all_def nlist_wf_at)
next
  case (Cons t ts)
  have i: "i < length (hs_nlist st)" using Cons.prems(2) by (simp add: cur_neighbor_Inr_iff)
  show ?case
  proof (cases "index_matches 0 t")
    case False
    with Cons.prems(1) obtain ts2 where "deliver_tlvs (hello_cons_msg_tlv env) buf ctx 0 ts st = Inr (r, ts2, st')"
      by (auto simp: rbind_Inr_iff)
    from Cons.IH[OF this Cons.prems(2,3)] False show ?thesis by simp
  next
    case True
    with Cons.prems(1) obtain r1 st1 where
      c: "hello_cons_msg_tlv env buf (set_multi_value 0 t) ctx st = Inr (r1, st1)" by (auto simp: rbind_Inr_iff)
    from hello_cons_msg_tlv_effect[OF c nlist_wf_ok[OF Cons.prems(3)]] Cons.prems(2) obtain p cd n1 where
      e: "r1 = PBB_OKAY" "single_value (set_multi_value 0 t) = Some p" "read_commodity_s buf p = Inr cd"
      "t_type (set_multi_value 0 t) = BPRD_MSGTLV_TYPE_COM" "n_addr n1 = n_addr (hs_nlist st ! i)"
      "bidir n1 = bidir (hs_nlist st ! i)" "update_time n1 = update_time (hs_nlist st ! i)" "clist_wf (n_clist n1)"
      "clist_map (n_clist n1) = (clist_map (n_clist (hs_nlist st ! i)))
         (cs_addr cd \<mapsto> com_report cd (clist_map (n_clist (hs_nlist st ! i)) (cs_addr cd)))"
      "hs_nlist st1 = (hs_nlist st)[i := n1]" "hs_n st1 = hs_n st"
      "hs_bprd st1 = (hs_bprd st)\<lparr>ntable := (ntable (hs_bprd st))\<lparr>nlist := hs_nlist st1\<rparr>\<rparr>" "hs_tick st1 = hs_tick st"
      by fastforce
    have cur: "cur_neighbor st1 = Inr i" using Cons.prems(2) e(10,11) by (simp add: cur_neighbor_Inr_iff)
    have w: "nlist_wf (hs_nlist st1)" unfolding e(10) using i e(5,8) Cons.prems(3) by (intro nlist_wf_update)
    from Cons.prems(1) True c e(1) obtain ts2 where
      "deliver_tlvs (hello_cons_msg_tlv env) buf ctx 0 ts st1 = Inr (r, ts2, st')"
      by (auto simp: rbind_Inr_iff Let_def)
    note ih = Cons.IH[OF this cur w]
    have at: "hs_nlist st1 ! i = n1" "(hs_nlist st1)[i := x] = (hs_nlist st)[i := x]" for x
      using i by (simp_all add: e(10))
    from ih[unfolded at] obtain cds n' where
      h: "r = PBB_OKAY" "list_all2 (tlv_reports buf) (filter (index_matches 0) ts) cds"
      "same_link n1 n'" "clist_wf (n_clist n')" "clist_map (n_clist n') = report_all cds (clist_map (n_clist n1))"
      "hs_nlist st' = (hs_nlist st)[i := n']" "cur_neighbor st' = Inr i"
      "hs_bprd st' = (hs_bprd st1)\<lparr>ntable := (ntable (hs_bprd st1))\<lparr>nlist := hs_nlist st'\<rparr>\<rparr>" "hs_tick st' = hs_tick st1"
      by blast
    have "tlv_reports buf t cd" using e(2-4) by (simp add: tlv_reports_def)
    moreover have "same_link (hs_nlist st ! i) n'" using h(3) e(5-7) by (simp add: same_link_def)
    moreover have "clist_map (n_clist n') = report_all (cd # cds) (clist_map (n_clist (hs_nlist st ! i)))"
      using h(5) e(9) by (simp add: report_all_def)
    moreover have "hs_bprd st' = (hs_bprd st)\<lparr>ntable := (ntable (hs_bprd st))\<lparr>nlist := hs_nlist st'\<rparr>\<rparr>"
      using h(8) e(12)[unfolded e(10)] by simp
    ultimately show ?thesis
      using True h(1-7,9) e(13) by (intro exI[of _ "cd # cds"] exI[of _ n']) simp
  qed
qed

section \<open>The addresses\<close>

text \<open>The bytes of the \<open>i\<close>-th address of a block: its middle part put between head and tail.\<close>

definition block_addr :: "bytes \<Rightarrow> addrblock \<Rightarrow> nat \<Rightarrow> bytes" where
  "block_addr buf a i =
     put_bytes (unat (mid_start a)) (sub_bytes (mid_src a + unat (mid_len a) * i) (unat (mid_len a)) buf) (ab_addr a)"

definition block_addrs :: "bytes \<Rightarrow> addrblock \<Rightarrow> bytes list" where
  "block_addrs buf a =
     map (block_addr buf a) (filter (\<lambda>i. \<not> test_addrbitarray (dropAddr a) (of_nat i)) [0..<unat (num_addr a)])"

text \<open>Whether an address is the daemon's own, seen by the \<open>t\<close>-th call, and whether one of a list of
  addresses is, the calls from the \<open>t\<close>-th on. Uninitialised bytes of the variables only matter in two
  cases: for an address shorter than the daemon's IP version asks for, and for the half of an own IPv6
  address that \<open>nsaddr.std = *bprd.saddr\<close> does not copy.\<close>

definition is_me :: "hello_env \<Rightarrow> nat \<Rightarrow> 'm bprd \<Rightarrow> u8 \<Rightarrow> bytes \<Rightarrow> bool" where
  "is_me env t b len x \<longleftrightarrow>
     hello_addr (u_addr (he_local env t)) b x len = own_netaddr (saddr b) (he_local env t)"

definition heard_me :: "hello_env \<Rightarrow> nat \<Rightarrow> 'm bprd \<Rightarrow> u8 \<Rightarrow> bytes list \<Rightarrow> bool" where
  "heard_me env t b len xs \<longleftrightarrow> (\<exists>j<length xs. is_me env (t + j) b len (xs ! j))"

lemma heard_me_simps [simp]:
  "\<not> heard_me env t b len []"
  "heard_me env t b len (x # xs) \<longleftrightarrow> is_me env t b len x \<or> heard_me env (Suc t) b len xs"
  by (auto simp: heard_me_def less_Suc_eq_0_disj)

lemma heard_me_append:
  "heard_me env t b len (xs @ ys) \<longleftrightarrow> heard_me env t b len xs \<or> heard_me env (t + length xs) b len ys"
  by (induction xs arbitrary: t) simp_all

text \<open>The state after \<open>k\<close> addresses, one of which was the daemon's own if \<open>h\<close>.\<close>

definition mark_bidir :: "nat \<Rightarrow> bool \<Rightarrow> nat \<Rightarrow> 'm hello_st \<Rightarrow> 'm hello_st" where
  "mark_bidir i h k st =
     (if h then set_nlist ((hs_nlist st)[i := (hs_nlist st ! i)\<lparr>bidir := 1\<rparr>]) st else st)\<lparr>hs_tick := hs_tick st + k\<rparr>"

lemma mark_bidir_none [simp]: "mark_bidir i False 0 st = st"
  by (simp add: mark_bidir_def)

lemma mark_bidir_nlist:
  "hs_nlist (mark_bidir i h k st) = (if h then (hs_nlist st)[i := (hs_nlist st ! i)\<lparr>bidir := 1\<rparr>] else hs_nlist st)"
  by (simp add: mark_bidir_def)

lemma mark_bidir_sel:
  assumes "i < length (hs_nlist st)"
  shows "length (hs_nlist (mark_bidir i h k st)) = length (hs_nlist st)" "hs_n (mark_bidir i h k st) = hs_n st"
    "hs_tick (mark_bidir i h k st) = hs_tick st + k"
    "mark_bidir i h' k' (mark_bidir i h k st) = mark_bidir i (h \<or> h') (k + k') st"
  using assms by (cases st; simp add: mark_bidir_def set_nlist_def)+

lemma is_me_mark: "is_me env t (hs_bprd (mark_bidir i h k st)) len x \<longleftrightarrow> is_me env t (hs_bprd st) len x"
  by (simp add: is_me_def hello_addr_def mark_bidir_def)

lemma heard_me_mark: "heard_me env t (hs_bprd (mark_bidir i h k st)) len xs \<longleftrightarrow> heard_me env t (hs_bprd st) len xs"
  by (simp add: heard_me_def is_me_mark)

lemma hello_cons_addr_tlv_stops: "hello_cons_addr_tlv buf t ctx st \<noteq> Inr x"
  by (simp add: hello_cons_addr_tlv_def)

lemma hello_tlvs_in_address:
  assumes "deliver_tlvs hello_cons_addr_tlv buf ctx idx ts st = Inr (r, ts', st')"
  shows "r = PBB_OKAY \<and> ts' = ts \<and> st' = st"
  using assms
proof (induction ts arbitrary: r ts' st')
  case (Cons t ts)
  then show ?case
    by (cases "index_matches idx t") (auto simp: hello_cons_addr_tlv_stops rbind_Inr_iff)
qed simp

lemma hello_cons_sel [simp]:
  "consumer_entries (hello_addr_cons env) = []" "block_callback (hello_addr_cons env) = None"
  "tlv_callback (hello_addr_cons env) = Some hello_cons_addr_tlv"
  "end_callback (hello_addr_cons env) = None" "start_callback (hello_addr_cons env) = Some (hello_cons_addr_start env)"
  "consumer_entries (hello_msg_cons env) = []" "block_callback (hello_msg_cons env) = None"
  "tlv_callback (hello_msg_cons env) = Some (hello_cons_msg_tlv env)"
  "end_callback (hello_msg_cons env) = None" "start_callback (hello_msg_cons env) = Some (hello_cons_msg_start env)"
  "addrblock_consumer (hello_addr_cons env)" "\<not> addrblock_consumer (hello_msg_cons env)"
  "order (hello_addr_cons env) = 0" "order (hello_msg_cons env) = 0"
  "msg_id (hello_addr_cons env) = 1" "msg_id (hello_msg_cons env) = 1"
  "\<not> default_msg_consumer (hello_addr_cons env)" "\<not> default_msg_consumer (hello_msg_cons env)"
  by (simp_all add: hello_addr_cons_def hello_msg_cons_def zero_consumer_def)

lemma hello_addr_callbacks:
  assumes "addr_callbacks (hello_addr_cons env) buf ctx ts idx st = Inr (r, ts', con', st')"
    and "cur_neighbor st = Inr i" and "ctx_addr ctx = Some x"
  shows "r = PBB_OKAY \<and> ts' = ts \<and> con' = hello_addr_cons env \<and>
    st' = mark_bidir i (is_me env (hs_tick st) (hs_bprd st) (addr_len ctx) x) (Suc 0) st"
proof -
  let ?con = "hello_addr_cons env"
  note c = hello_cons_sel(1-5)
  from assms(1) obtain r1 st1 where s: "hello_cons_addr_start env ctx st = Inr (r1, st1)"
    by (auto simp: addr_callbacks_def call_start_def c rbind_Inr_iff)
  from hello_cons_addr_start_effect[OF s] assms(2,3) have e: "r1 = PBB_OKAY"
    "st1 = mark_bidir i (is_me env (hs_tick st) (hs_bprd st) (addr_len ctx) x) (Suc 0) st"
    by (auto simp: mark_bidir_def is_me_def)
  from assms(1) s e(1) obtain r2 ts2 con2 st2 where
    t: "schedule_tlvblock ?con buf ctx ts idx st1 = Inr (r2, ts2, con2, st2)"
    and f: "(case end_callback con2 of None \<Rightarrow> Inr (r2, st2)
       | Some cb \<Rightarrow> rbind (cb ctx (r2 \<noteq> PBB_OKAY) st2) (\<lambda>(r, st). Inr (if r2 < r then r else r2, st))) = Inr (r, st')"
      "ts' = ts2" "con' = con2"
    by (auto simp: addr_callbacks_def call_start_def c rbind_Inr_iff)
  from t obtain ts3 where "deliver_tlvs hello_cons_addr_tlv buf ctx idx ts st1 = Inr (r2, ts3, st2)"
    "ts2 = ts3" "con2 = ?con"
    by (auto simp: schedule_plain[OF c(1-3)] rbind_Inr_iff)
  with hello_tlvs_in_address[OF this(1)] f c e show ?thesis by auto
qed

lemma put_bytes_again:
  "length x = length y \<Longrightarrow> off + length y \<le> length d \<Longrightarrow> put_bytes off x (put_bytes off y d) = put_bytes off x d"
  by (simp add: put_bytes_def)

text \<open>A block while its addresses are delivered: only the buffer of the current address changes.\<close>

definition same_block :: "addrblock \<Rightarrow> addrblock \<Rightarrow> bool" where
  "same_block a a' \<longleftrightarrow> num_addr a' = num_addr a \<and> mid_start a' = mid_start a \<and> mid_len a' = mid_len a \<and>
     mid_src a' = mid_src a \<and> dropAddr a' = dropAddr a \<and> length (ab_addr a') = length (ab_addr a) \<and>
     (\<forall>x. length x = unat (mid_len a) \<longrightarrow> unat (mid_start a) + unat (mid_len a) \<le> length (ab_addr a) \<longrightarrow>
        put_bytes (unat (mid_start a)) x (ab_addr a') = put_bytes (unat (mid_start a)) x (ab_addr a))"

lemma same_block_refl: "same_block a a"
  by (simp add: same_block_def)

definition mid_inside :: "bytes \<Rightarrow> addrblock \<Rightarrow> bool" where
  "mid_inside buf a \<longleftrightarrow> mid_src a + unat (mid_len a) * unat (num_addr a) \<le> length buf"

lemma hello_addr_step:
  assumes "addr_step (hello_addr_cons env) buf ctx a' k st = Inr (r, ctx', a'', con', st')"
    and "cur_neighbor st = Inr i" and "same_block a a'" and "mid_inside buf a" and "k < unat (num_addr a)"
  shows "r = PBB_OKAY \<and> con' = hello_addr_cons env \<and> same_block a a'' \<and> addr_len ctx' = addr_len ctx \<and>
    ctx_type ctx' = ctx_type ctx \<and>
    st' = (if test_addrbitarray (dropAddr a) (of_nat k) then st
      else mark_bidir i (is_me env (hs_tick st) (hs_bprd st) (addr_len ctx) (block_addr buf a k)) (Suc 0) st)"
proof (cases "test_addrbitarray (dropAddr a') (of_nat k)")
  case True
  with assms(1,3) show ?thesis by (simp add: addr_step_def same_block_def)
next
  case False
  let ?mid = "sub_bytes (mid_src a' + unat (mid_len a') * k) (unat (mid_len a')) buf"
  from assms(1) False obtain full r1 ts1 con1 st1 where
    f: "memcpy (ab_addr a') (unat (mid_start a')) ?mid = Inr full"
    and c: "addr_callbacks (hello_addr_cons env) buf (addr_ctx buf a' full k ctx) (tlvblock a') (of_nat k) st =
      Inr (r1, ts1, con1, st1)"
    and e: "(if r1 = PBB_DROP_ADDRESS
            then Inr (PBB_OKAY, addr_ctx buf a' full k ctx,
                   a'\<lparr>ab_addr := full, tlvblock := ts1, dropAddr := set_addr_bitarray (dropAddr a') (of_nat k)\<rparr>, con1, st1)
            else Inr (r1, addr_ctx buf a' full k ctx, a'\<lparr>ab_addr := full, tlvblock := ts1\<rparr>, con1, st1)) =
          (Inr (r, ctx', a'', con', st') :: halt + _)"
    by (auto simp: addr_step_def rbind_Inr_iff)
  have x: "ctx_addr (addr_ctx buf a' full k ctx) = Some full" "addr_len (addr_ctx buf a' full k ctx) = addr_len ctx"
    "ctx_type (addr_ctx buf a' full k ctx) = ctx_type ctx"
    by (simp_all add: addr_ctx_def Let_def split: option.splits)
  note h = hello_addr_callbacks[OF c assms(2) x(1), unfolded x(2)]
  have sel: "mid_start a' = mid_start a" "mid_len a' = mid_len a" "mid_src a' = mid_src a" "dropAddr a' = dropAddr a"
    using assms(3) by (simp_all add: same_block_def)
  have "unat (mid_len a) * Suc k \<le> unat (mid_len a) * unat (num_addr a)" using assms(5) by (intro mult_le_mono2) simp
  then have l: "length ?mid = unat (mid_len a)"
    using assms(4) unfolding sel by (intro length_sub_bytes) (simp add: mid_inside_def)
  from f l have b: "unat (mid_start a) + unat (mid_len a) \<le> length (ab_addr a')"
    and full: "full = put_bytes (unat (mid_start a)) ?mid (ab_addr a')"
    by (auto simp: memcpy_def sel split: if_splits)
  have "length (ab_addr a') = length (ab_addr a)" using assms(3) by (simp add: same_block_def)
  then have "full = block_addr buf a k"
    using full l assms(3) b by (simp add: block_addr_def same_block_def sel)
  moreover have "same_block a (a'\<lparr>ab_addr := full, tlvblock := ts1\<rparr>)"
    using assms(3) b l by (auto simp: same_block_def full put_bytes_again)
  ultimately show ?thesis
    using e h x False sel by auto
qed

lemma cur_neighbor_mark:
  "cur_neighbor st = Inr i \<Longrightarrow> cur_neighbor (mark_bidir i h k st) = Inr i"
  by (auto simp: cur_neighbor_Inr_iff mark_bidir_def)

definition kept_addrs :: "bytes \<Rightarrow> addrblock \<Rightarrow> nat list \<Rightarrow> bytes list" where
  "kept_addrs buf a ks = map (block_addr buf a) (filter (\<lambda>i. \<not> test_addrbitarray (dropAddr a) (of_nat i)) ks)"

lemma hello_addr_loop:
  assumes "addr_loop (hello_addr_cons env) buf ctx a' ks st = Inr (r, ctx', a'', con', st')"
    and "cur_neighbor st = Inr i" and "same_block a a'" and "mid_inside buf a" and "\<forall>k\<in>set ks. k < unat (num_addr a)"
  shows "r = PBB_OKAY \<and> con' = hello_addr_cons env \<and> addr_len ctx' = addr_len ctx \<and> ctx_type ctx' = ctx_type ctx \<and>
    st' = mark_bidir i (heard_me env (hs_tick st) (hs_bprd st) (addr_len ctx) (kept_addrs buf a ks))
      (length (kept_addrs buf a ks)) st"
  using assms(1-3,5)
proof (induction ks arbitrary: ctx a' st)
  case Nil
  then show ?case by (simp add: kept_addrs_def)
next
  case (Cons k ks)
  from Cons.prems(1) obtain r1 ctx1 a1 con1 st1 where
    s: "addr_step (hello_addr_cons env) buf ctx a' k st = Inr (r1, ctx1, a1, con1, st1)" by (auto simp: rbind_Inr_iff)
  have k: "k < unat (num_addr a)" using Cons.prems(4) by simp
  note e = hello_addr_step[OF s Cons.prems(2,3) assms(4) k]
  then have e1: "r1 = PBB_OKAY" "con1 = hello_addr_cons env" "same_block a a1" "addr_len ctx1 = addr_len ctx"
    "ctx_type ctx1 = ctx_type ctx" by blast+
  from Cons.prems(1) s e1(1,2) have l: "addr_loop (hello_addr_cons env) buf ctx1 a1 ks st1 = Inr (r, ctx', a'', con', st')"
    by simp
  have ks: "\<forall>k\<in>set ks. k < unat (num_addr a)" using Cons.prems(4) by simp
  have len: "i < length (hs_nlist st)" using Cons.prems(2) by (simp add: cur_neighbor_Inr_iff)
  show ?case
  proof (cases "test_addrbitarray (dropAddr a) (of_nat k)")
    case True
    with e have "st1 = st" by simp
    with Cons.IH[OF l _ e1(3) ks] Cons.prems(2) e1 True show ?thesis by (simp add: kept_addrs_def)
  next
    case False
    with e have "st1 = mark_bidir i (is_me env (hs_tick st) (hs_bprd st) (addr_len ctx) (block_addr buf a k)) (Suc 0) st"
      by simp
    with Cons.IH[OF l _ e1(3) ks] cur_neighbor_mark[OF Cons.prems(2)] e1 False show ?thesis
      by (simp add: kept_addrs_def heard_me_mark mark_bidir_sel[OF len])
  qed
qed

lemma hello_addrblocks_loop:
  assumes "addrblocks_loop (hello_addr_cons env) buf ctx bs st = Inr (r, ctx', bs', con', st')"
    and "cur_neighbor st = Inr i" and "\<forall>a\<in>set bs. mid_inside buf a"
  shows "r = PBB_OKAY \<and> con' = hello_addr_cons env \<and>
    st' = mark_bidir i (heard_me env (hs_tick st) (hs_bprd st) (addr_len ctx) (concat (map (block_addrs buf) bs)))
      (length (concat (map (block_addrs buf) bs))) st"
  using assms
proof (induction bs arbitrary: ctx st r ctx' bs' con' st')
  case Nil
  then show ?case by simp
next
  case (Cons a bs)
  from Cons.prems(1) obtain r1 ctx1 a1 con1 st1 where
    s: "addr_loop (hello_addr_cons env) buf (ctx\<lparr>prefixlen := ab_prefixlen a\<rparr>) a [0..<unat (num_addr a)] st =
      Inr (r1, ctx1, a1, con1, st1)" by (auto simp: rbind_Inr_iff)
  have "block_addrs buf a = kept_addrs buf a [0..<unat (num_addr a)]" by (simp add: block_addrs_def kept_addrs_def)
  then have e: "r1 = PBB_OKAY \<and> con1 = hello_addr_cons env \<and> addr_len ctx1 = addr_len ctx \<and>
      st1 = mark_bidir i (heard_me env (hs_tick st) (hs_bprd st) (addr_len ctx) (block_addrs buf a))
        (length (block_addrs buf a)) st"
    using hello_addr_loop[OF s Cons.prems(2) same_block_refl] Cons.prems(3) by simp
  with Cons.prems(1) s obtain r2 ctx2 bs2 con2 st2 where
    l: "addrblocks_loop (hello_addr_cons env) buf ctx1 bs st1 = Inr (r2, ctx2, bs2, con2, st2)"
    and f: "r = r2" "con' = con2" "st' = st2" by (auto simp: rbind_Inr_iff)
  have len: "i < length (hs_nlist st)" using Cons.prems(2) by (simp add: cur_neighbor_Inr_iff)
  have cur: "cur_neighbor st1 = Inr i" using e cur_neighbor_mark[OF Cons.prems(2)] by simp
  from Cons.IH[OF l cur] Cons.prems(3) e f show ?case
    by (simp add: heard_me_mark mark_bidir_sel[OF len] heard_me_append)
qed

section \<open>A whole message\<close>

lemma hello_msgtlv:
  assumes "schedule_msgtlv_consumer (hello_msg_cons env) buf ctx ts st = Inr (r, ctx', ts', con', st')"
  shows "\<exists>st1. hello_cons_msg_start env (ctx\<lparr>ctx_type := PBB_CONTEXT_MESSAGE\<rparr>) st = Inr (PBB_OKAY, st1) \<and>
    deliver_tlvs (hello_cons_msg_tlv env) buf (ctx\<lparr>ctx_type := PBB_CONTEXT_MESSAGE\<rparr>) 0 ts st1 = Inr (r, ts', st') \<and>
    ctx' = ctx\<lparr>ctx_type := PBB_CONTEXT_MESSAGE\<rparr> \<and> con' = hello_msg_cons env"
proof -
  let ?ctx = "ctx\<lparr>ctx_type := PBB_CONTEXT_MESSAGE\<rparr>"
  from assms obtain r1 st1 where s: "hello_cons_msg_start env ?ctx st = Inr (r1, st1)"
    by (auto simp: schedule_msgtlv_consumer_def call_start_def rbind_Inr_iff Let_def)
  have r1: "r1 = PBB_OKAY"
    using s by (auto simp: hello_cons_msg_start_def Let_def split: if_splits option.splits prod.splits bool.splits)
  from assms s r1 show ?thesis
    by (auto simp: schedule_msgtlv_consumer_def call_start_def rbind_Inr_iff Let_def
        schedule_plain[OF hello_cons_sel(6-8)])
qed

lemma hello_deliver_eq:
  fixes st :: "'m hello_st"
  assumes "schedule_msgtlv_consumer (hello_msg_cons env) buf ctx ts st = Inr (PBB_OKAY, ctx1, ts1, hello_msg_cons env, st1)"
    and "msg_type ctx = BPRD_MSG_TYPE_HELLO" and "msg_type ctx1 = BPRD_MSG_TYPE_HELLO"
  shows "deliver_message buf \<lparr>ms_ctx = ctx, ms_tlvs = ts, ms_blocks = bs,
      ms_cons = [hello_msg_cons env, hello_addr_cons env], ms_st = st\<rparr> =
    rbind (schedule_msgaddr_consumer (hello_addr_cons env) buf ctx1 bs st1) (\<lambda>(r, ctx, bs, con, st).
      rbind (run_end_cbs 0 0 r \<lparr>ms_ctx = ctx, ms_tlvs = ts1, ms_blocks = bs,
        ms_cons = [hello_msg_cons env, con], ms_st = st\<rparr>) Inr)"
proof -
  have up: "[0..<length [hello_msg_cons env, hello_addr_cons env]] = [0, 1]" by simp
  have 0: "run_consumer buf 0 \<lparr>ms_ctx = ctx, ms_tlvs = ts, ms_blocks = bs,
      ms_cons = [hello_msg_cons env, hello_addr_cons env], ms_st = st\<rparr> =
    Inr (PBB_OKAY, \<lparr>ms_ctx = ctx1, ms_tlvs = ts1, ms_blocks = bs,
      ms_cons = [hello_msg_cons env, hello_addr_cons env], ms_st = st1\<rparr>)"
    using assms(1) by (simp add: run_consumer_def)
  have 1: "run_consumer buf 1 \<lparr>ms_ctx = ctx1, ms_tlvs = ts1, ms_blocks = bs,
      ms_cons = [hello_msg_cons env, hello_addr_cons env], ms_st = st1\<rparr> =
    rbind (schedule_msgaddr_consumer (hello_addr_cons env) buf ctx1 bs st1) (\<lambda>(r, ctx, bs, con, st).
      Inr (r, \<lparr>ms_ctx = ctx, ms_tlvs = ts1, ms_blocks = bs, ms_cons = [hello_msg_cons env, con], ms_st = st\<rparr>))"
    by (simp add: run_consumer_def)
  have l1: "consumers_loop buf [1] (Some (0, 0)) \<lparr>ms_ctx = ctx1, ms_tlvs = ts1, ms_blocks = bs,
      ms_cons = [hello_msg_cons env, hello_addr_cons env], ms_st = st1\<rparr> =
    rbind (schedule_msgaddr_consumer (hello_addr_cons env) buf ctx1 bs st1) (\<lambda>(r, ctx, bs, con, st).
      Inr (r, Some (0, 0), \<lparr>ms_ctx = ctx, ms_tlvs = ts1, ms_blocks = bs, ms_cons = [hello_msg_cons env, con], ms_st = st\<rparr>))"
    using assms(3)
    by (cases "schedule_msgaddr_consumer (hello_addr_cons env) buf ctx1 bs st1")
      (auto simp: 1[unfolded One_nat_def])
  have l0: "consumers_loop buf [0, 1] None \<lparr>ms_ctx = ctx, ms_tlvs = ts, ms_blocks = bs,
      ms_cons = [hello_msg_cons env, hello_addr_cons env], ms_st = st\<rparr> =
    rbind (schedule_msgaddr_consumer (hello_addr_cons env) buf ctx1 bs st1) (\<lambda>(r, ctx, bs, con, st).
      Inr (r, Some (0, 0), \<lparr>ms_ctx = ctx, ms_tlvs = ts1, ms_blocks = bs, ms_cons = [hello_msg_cons env, con], ms_st = st\<rparr>))"
    unfolding l1[symmetric] consumers_loop.simps(2)[of buf 0 "[1]"] using assms(2) 0 by (simp add: Let_def)
  show ?thesis
    unfolding deliver_message_def mstate.select_convs up l0
    by (cases "schedule_msgaddr_consumer (hello_addr_cons env) buf ctx1 bs st1") (auto simp: rbind_def split: sum.splits)
qed

text \<open>The middle parts of the addresses of a parsed block lie in the message.\<close>

lemma parse_addr_prefix_mid:
  "parse_addr_prefix buf eob flags al a p = Inr (Inr (a', p')) \<Longrightarrow>
     mid_src a' = mid_src a \<and> mid_len a' = mid_len a \<and> num_addr a' = num_addr a"
  by (auto simp: parse_addr_prefix_def Let_def split: if_splits)

lemma parse_addrblock_mid:
  assumes "parse_addrblock buf al a ptr eob = Inr (Inr (a', ptr'))"
  shows "mid_src a' + unat (mid_len a') * unat (num_addr a') \<le> eob"
proof -
  obtain n s1 where 1: "pbb_get_u8 buf eob (ptr, PBB_OKAY) = (n, s1)" by (metis surj_pair)
  obtain f s2 where 2: "pbb_get_u8 buf eob s1 = (f, s2)" by (metis surj_pair)
  have n: "n \<noteq> 0" using assms 1 by (auto simp: parse_addrblock_def)
  from parse_addrblock_steps[OF assms 1 2 n, symmetric] obtain a3 p4 where
    p: "parse_addr_prefix buf eob f al (a3\<lparr>mid_src := p4\<rparr>)
          (p4 + unat (mid_len a3) * unat (num_addr a3)) = Inr (Inr (a', ptr'))" and
    e: "p4 + unat (mid_len a3) * unat (num_addr a3) \<le> eob"
    unfolding rbind_Inr_iff ebind_ok_iff by (auto simp: ebind_ok_iff split: if_splits prod.splits)
  with parse_addr_prefix_mid[OF p] show ?thesis by simp
qed

lemma parse_addrblocks_mid:
  "parse_addrblocks alloc buf al ptr end bs m = Inr (r, bs', m') \<Longrightarrow> end \<le> length buf \<Longrightarrow>
     \<forall>a\<in>set bs. mid_inside buf a \<Longrightarrow> \<forall>a\<in>set bs'. mid_inside buf a"
proof (induction "end - ptr" arbitrary: ptr bs m rule: less_induct)
  case less
  from less.prems(1) show ?case
  proof (cases rule: parse_addrblocks_cases)
    case (step m1 a ptr1 tlvs ptr2 m2)
    have "end - ptr2 < end - ptr"
      using parse_addrblock_progress[OF step(3)] parse_tlvblock_progress[OF step(4)] step(1) by linarith
    have "mid_inside buf (a\<lparr>tlvblock := tlvs\<rparr>)"
      using parse_addrblock_mid[OF step(3)] less.prems(2) by (simp add: mid_inside_def)
    then have "\<forall>x\<in>set (bs @ [a\<lparr>tlvblock := tlvs\<rparr>]). mid_inside buf x" using less.prems(3) by simp
    from less.hyps[OF \<open>end - ptr2 < end - ptr\<close> step(5) less.prems(2) this] show ?thesis .
  qed (use less.prems in auto)
qed

lemma parse_message_mid:
  assumes "parse_message alloc buf junk ctx start eob m = Inr (PBB_OKAY, ctx', ts, bs, end, m')"
    and "eob \<le> length buf"
  shows "\<forall>a\<in>set bs. mid_inside buf a"
proof -
  obtain r1 ctx1 p1 e1 where h: "parse_message_header buf junk ctx start eob = (r1, ctx1, p1, e1)" by (metis surj_pair)
  have r1: "r1 = PBB_OKAY" using assms(1) h by (auto simp: parse_message_def split: if_splits)
  have "e1 \<le> length buf" using parse_message_header_end[OF h] r1 assms(2) by simp
  moreover from assms(1) h r1 obtain p2 m2 r3 where "parse_addrblocks alloc buf (addr_len ctx1) p2 e1 [] m2 = Inr (r3, bs, m')"
    by (auto simp: parse_message_def rbind_Inr_iff split: if_splits)
  ultimately show ?thesis using parse_addrblocks_mid by fastforce
qed

lemma netaddr_from_binary_indep:
  assumes "family_bytes f = Some k" and "k \<le> len"
  shows "netaddr_from_binary x b len f = netaddr_from_binary y b len f"
  using assms by (cases x; cases y) (auto simp: netaddr_from_binary_def Let_def family_bytes_Some_iff)

lemma hello_addr_indep:
  assumes "family_bytes (word_of_int (ipver b)) = Some k" and "k \<le> unat len"
  shows "hello_addr x b bin len = hello_addr y b bin len"
  unfolding hello_addr_def netaddr_from_binary_indep[OF assms, of x bin y] ..

text \<open>The entry of the originator after its hello: the reports applied, and the link bidirectional if
  it was or the daemon is among the addresses heard.\<close>

definition hello_entry ::
  "netaddr \<Rightarrow> timeval \<Rightarrow> commodity_short list \<Rightarrow> bool \<Rightarrow> neighbor option \<Rightarrow> neighbor \<Rightarrow> bool" where
  "hello_entry a now cds heard old n \<longleftrightarrow>
     n_addr n = a \<and> update_time n = now \<and> clist_wf (n_clist n) \<and>
     bidir n = (if heard then 1 else case old of None \<Rightarrow> 0 | Some o' \<Rightarrow> bidir o') \<and>
     clist_map (n_clist n) = report_all cds (case old of None \<Rightarrow> Map.empty | Some o' \<Rightarrow> clist_map (n_clist o'))"

lemma mark_bidir_entry:
  assumes "i < length (hs_nlist st)" and "nlist_wf (hs_nlist st)"
  shows "nlist_wf (hs_nlist (mark_bidir i h k st))"
    and "nlist_map (hs_nlist (mark_bidir i h k st)) = (nlist_map (hs_nlist st))
      (n_addr (hs_nlist st ! i) \<mapsto> (if h then (hs_nlist st ! i)\<lparr>bidir := 1\<rparr> else hs_nlist st ! i))"
proof -
  let ?n = "(hs_nlist st ! i)\<lparr>bidir := 1\<rparr>"
  have "nlist_wf ((hs_nlist st)[i := ?n])"
    using assms by (intro nlist_wf_update) (simp_all add: nlist_wf_at)
  then show "nlist_wf (hs_nlist (mark_bidir i h k st))" using assms by (simp add: mark_bidir_def)
  have "nlist_map (hs_nlist st) (n_addr (hs_nlist st ! i)) = Some (hs_nlist st ! i)"
    using nlist_map_update[OF assms, of "hs_nlist st ! i"] by (metis fun_upd_same list_update_id)
  then show "nlist_map (hs_nlist (mark_bidir i h k st)) = (nlist_map (hs_nlist st))
      (n_addr (hs_nlist st ! i) \<mapsto> (if h then (hs_nlist st ! i)\<lparr>bidir := 1\<rparr> else hs_nlist st ! i))"
    using nlist_map_update[OF assms, of ?n] by (auto simp: mark_bidir_def fun_upd_idem)
qed

lemma clist_map_Nil [simp]: "clist_map [] = Map.empty"
  by (simp add: clist_map_def fun_eq_iff)

lemma hello_deliver_stops:
  fixes st :: "'m hello_st"
  assumes "schedule_msgtlv_consumer (hello_msg_cons env) buf ctx ts st = Inl h" and "msg_type ctx = BPRD_MSG_TYPE_HELLO"
  shows "deliver_message buf \<lparr>ms_ctx = ctx, ms_tlvs = ts, ms_blocks = bs,
      ms_cons = [hello_msg_cons env, hello_addr_cons env], ms_st = st\<rparr> = Inl h"
proof -
  have up: "[0..<length [hello_msg_cons env, hello_addr_cons env]] = 0 # [1]" by simp
  have "run_consumer buf 0 \<lparr>ms_ctx = ctx, ms_tlvs = ts, ms_blocks = bs,
      ms_cons = [hello_msg_cons env, hello_addr_cons env], ms_st = st\<rparr> = Inl h"
    using assms(1) by (simp add: run_consumer_def)
  then show ?thesis
    using assms(2) unfolding deliver_message_def mstate.select_convs up consumers_loop.simps(2)[of buf 0 "[1]"]
    by (simp add: Let_def)
qed

text \<open>The message consumer: the originator's entry after the TLVs, before the addresses.\<close>

lemma hello_msgtlv_effect:
  fixes st :: "'m hello_st"
  assumes t: "schedule_msgtlv_consumer (hello_msg_cons env) buf ctx ts st = Inr (r, ctx', ts', con', st')"
    and "nlist_wf (hs_nlist st)" and ind: "\<forall>x. hello_addr x (hs_bprd st) (orig_addr ctx) (addr_len ctx) = a"
  shows "\<exists>cds i n. r = PBB_OKAY \<and> ctx' = ctx\<lparr>ctx_type := PBB_CONTEXT_MESSAGE\<rparr> \<and> con' = hello_msg_cons env \<and>
    list_all2 (tlv_reports buf) (filter (index_matches 0) ts) cds \<and> cur_neighbor st' = Inr i \<and> hs_nlist st' ! i = n \<and>
    nlist_wf (hs_nlist st') \<and> hello_entry a (he_clk env (hs_tick st)) cds False (nlist_map (hs_nlist st) a) n \<and>
    nlist_map (hs_nlist st') = (nlist_map (hs_nlist st))(a \<mapsto> n) \<and>
    hs_tick st' = Suc (hs_tick st) \<and>
    (\<forall>t len xs. heard_me env t (hs_bprd st') len xs \<longleftrightarrow> heard_me env t (hs_bprd st) len xs)"
proof -
  let ?c = "ctx\<lparr>ctx_type := PBB_CONTEXT_MESSAGE\<rparr>"
  from hello_msgtlv[OF t] obtain st0 where
    s: "hello_cons_msg_start env ?c st = Inr (PBB_OKAY, st0)"
    and dl: "deliver_tlvs (hello_cons_msg_tlv env) buf ?c 0 ts st0 = Inr (r, ts', st')"
    and c: "ctx' = ?c" "con' = hello_msg_cons env" by blast
  have ah: "hello_addr x (hs_bprd st) (orig_addr ?c) (addr_len ?c) = a" for x using ind by simp
  from hello_cons_msg_start_effect[OF s assms(2) ah ah] obtain i where
    i: "hs_n st0 = Some i" "i < length (hs_nlist st0)" "n_addr (hs_nlist st0 ! i) = a"
      "update_time (hs_nlist st0 ! i) = he_clk env (hs_tick st)"
      "bidir (hs_nlist st0 ! i) = (case nlist_map (hs_nlist st) a of None \<Rightarrow> 0 | Some m \<Rightarrow> bidir m)"
      "n_clist (hs_nlist st0 ! i) = (case nlist_map (hs_nlist st) a of None \<Rightarrow> [] | Some m \<Rightarrow> n_clist m)"
      "nlist_map (hs_nlist st0) = (nlist_map (hs_nlist st))(a \<mapsto> hs_nlist st0 ! i)" "nlist_wf (hs_nlist st0)"
      "hs_bprd st0 = (hs_bprd st)\<lparr>ntable := (ntable (hs_bprd st))\<lparr>nlist := hs_nlist st0\<rparr>\<rparr>"
      "hs_tick st0 = Suc (hs_tick st)"
    by blast
  have cur: "cur_neighbor st0 = Inr i" using i(1,2) by (simp add: cur_neighbor_Inr_iff)
  from deliver_tlvs_hello[OF dl cur i(8)] obtain cds n where
    n: "r = PBB_OKAY" "list_all2 (tlv_reports buf) (filter (index_matches 0) ts) cds"
      "same_link (hs_nlist st0 ! i) n" "clist_wf (n_clist n)"
      "clist_map (n_clist n) = report_all cds (clist_map (n_clist (hs_nlist st0 ! i)))"
      "hs_nlist st' = (hs_nlist st0)[i := n]" "cur_neighbor st' = Inr i"
      "hs_bprd st' = (hs_bprd st0)\<lparr>ntable := (ntable (hs_bprd st0))\<lparr>nlist := hs_nlist st'\<rparr>\<rparr>"
      "hs_tick st' = hs_tick st0"
    by blast
  have w: "nlist_wf (hs_nlist st')" unfolding n(6)
    using i(2,8) n(3,4) by (intro nlist_wf_update) (simp_all add: same_link_def)
  have n_a: "n_addr n = a" using n(3) i(3) by (simp add: same_link_def)
  have m: "nlist_map (hs_nlist st') = (nlist_map (hs_nlist st))(a \<mapsto> n)"
    unfolding n(6) using nlist_map_update[OF i(2,8), of n] n(3) i(3,7) n_a by (simp add: same_link_def)
  have b: "heard_me env t (hs_bprd st') len xs \<longleftrightarrow> heard_me env t (hs_bprd st) len xs" for t len xs
    using arg_cong[OF n(8), of ipver] arg_cong[OF i(9), of ipver] arg_cong[OF n(8), of saddr] arg_cong[OF i(9), of saddr]
    by (simp add: heard_me_def is_me_def hello_addr_def)
  have "hello_entry a (he_clk env (hs_tick st)) cds False (nlist_map (hs_nlist st) a) n"
    using n(3-5) i(3-6) by (auto simp: hello_entry_def same_link_def split: option.splits)
  moreover have "hs_nlist st' ! i = n" using i(2) by (simp add: n(6))
  ultimately show ?thesis using n(1,2,7) c w m b i(10) n(9) by metis
qed

lemma hello_message_effect:
  fixes st :: "'m hello_st"
  assumes "handle_message alloc buf junk None ctx0 start eob (message_consumer (hello_reader_init env)) st m =
      Inr (r, ctx', end, cons', st', m')"
    and "parse_message alloc buf junk ctx0 start eob m = Inr (PBB_OKAY, ctx, ts, bs, stop, m1)"
    and "msg_type ctx = BPRD_MSG_TYPE_HELLO" and "eob \<le> length buf" and "nlist_wf (hs_nlist st)"
    and ind: "\<forall>x. hello_addr x (hs_bprd st) (orig_addr ctx) (addr_len ctx) = a"
    and heard: "heard \<longleftrightarrow> heard_me env (Suc (hs_tick st)) (hs_bprd st) (addr_len ctx) (concat (map (block_addrs buf) bs))"
  shows "r = PBB_OKAY \<and> nlist_wf (hs_nlist st') \<and>
    (\<exists>cds n. list_all2 (tlv_reports buf) (filter (index_matches 0) ts) cds \<and>
      hello_entry a (he_clk env (hs_tick st)) cds heard (nlist_map (hs_nlist st) a) n \<and>
      nlist_map (hs_nlist st') = (nlist_map (hs_nlist st))(a \<mapsto> n))"
proof -
  let ?ms = "\<lparr>ms_ctx = ctx, ms_tlvs = ts, ms_blocks = bs, ms_cons = [hello_msg_cons env, hello_addr_cons env], ms_st = st\<rparr>"
  let ?c = "ctx\<lparr>ctx_type := PBB_CONTEXT_MESSAGE\<rparr>"
  from assms(1,2) obtain r0 ms where d: "deliver_message buf ?ms = Inr (r0, ms)"
    and e: "r = (if r0 = PBB_DROP_MESSAGE then PBB_OKAY else r0)" "st' = ms_st ms"
    by (auto simp: handle_message_def hello_reader_init_eq rbind_Inr_iff do_forward_def Let_def)
  have "\<exists>x. schedule_msgtlv_consumer (hello_msg_cons env) buf ctx ts st = Inr x"
    using hello_deliver_stops[OF _ assms(3), of env buf ts st _ bs] d
    by (cases "schedule_msgtlv_consumer (hello_msg_cons env) buf ctx ts st") auto
  then obtain r1 c1 ts1 con1 st1 where
    t: "schedule_msgtlv_consumer (hello_msg_cons env) buf ctx ts st = Inr (r1, c1, ts1, con1, st1)" by auto
  from hello_msgtlv_effect[OF t assms(5) ind] obtain cds i n where
    n: "r1 = PBB_OKAY" "c1 = ?c" "con1 = hello_msg_cons env" "list_all2 (tlv_reports buf) (filter (index_matches 0) ts) cds"
      "cur_neighbor st1 = Inr i" "hs_nlist st1 ! i = n" "nlist_wf (hs_nlist st1)"
      "hello_entry a (he_clk env (hs_tick st)) cds False (nlist_map (hs_nlist st) a) n"
      "nlist_map (hs_nlist st1) = (nlist_map (hs_nlist st))(a \<mapsto> n)"
      "hs_tick st1 = Suc (hs_tick st)"
      "\<forall>t len xs. heard_me env t (hs_bprd st1) len xs \<longleftrightarrow> heard_me env t (hs_bprd st) len xs"
    by blast
  from d hello_deliver_eq[OF t[unfolded n(1-3)] assms(3)] assms(3) obtain r2 c2 bs2 con2 st2 where
    b: "schedule_msgaddr_consumer (hello_addr_cons env) buf ?c bs st1 = Inr (r2, c2, bs2, con2, st2)"
    and re: "run_end_cbs 0 0 r2 \<lparr>ms_ctx = c2, ms_tlvs = ts1, ms_blocks = bs2,
        ms_cons = [hello_msg_cons env, con2], ms_st = st2\<rparr> = Inr (r0, ms)"
    by (auto simp: rbind_Inr_iff)
  from hello_addrblocks_loop[OF b[unfolded schedule_msgaddr_consumer_def] n(5)] parse_message_mid[OF assms(2,4)]
  have f: "r2 = PBB_OKAY" "\<exists>k. st2 = mark_bidir i heard k st1" by (auto simp: n(10,11) heard)
  then obtain k where f: "r2 = PBB_OKAY" "st2 = mark_bidir i heard k st1" by blast
  have g: "r0 = PBB_OKAY" "ms_st ms = st2"
    using re f(1) by (auto simp: run_end_cbs_def schedule_end_message_cbs_def rbind_Inr_iff Let_def)
  have i: "i < length (hs_nlist st1)" using n(5) by (simp add: cur_neighbor_Inr_iff)
  let ?n = "if heard then n\<lparr>bidir := 1\<rparr> else n"
  have "n_addr n = a" using n(8) by (simp add: hello_entry_def)
  then have "nlist_map (hs_nlist st') = (nlist_map (hs_nlist st))(a \<mapsto> ?n)"
    using mark_bidir_entry(2)[OF i n(7), of heard k] by (simp add: e(2) g(2) f(2) n(6,9))
  moreover have "hello_entry a (he_clk env (hs_tick st)) cds heard (nlist_map (hs_nlist st) a) ?n"
    using n(8) by (simp add: hello_entry_def)
  moreover have "nlist_wf (hs_nlist st')"
    using mark_bidir_entry(1)[OF i n(7), of heard k] by (simp add: e(2) g(2) f(2))
  moreover have "r = PBB_OKAY" using e(1) g(1) by simp
  ultimately show ?thesis using n(4) by blast
qed

text \<open>C8: A message that the parser accepts as a hello, with addresses at least as long as those of the
  daemon's IP version, and whose handling runs to its end, updates a neighbor table of one entry per address
  at its originator's address and nowhere else: the entry (new, or the one that was there) gets the time of reception, one
  backlog report per commodity TLV in order, and the bidirectional mark if one of the message's addresses
  is the daemon's own. The handling returns \<open>PBB_OKAY\<close>, so the next message of the packet is read, and the
  table still has one entry per address.\<close>

theorem hello_message_updates_originator:
  fixes st :: "'m hello_st"
  assumes "handle_message alloc buf junk None ctx0 start eob (message_consumer (hello_reader_init env)) st m =
      Inr (r, ctx', end, cons', st', m')"
    and "parse_message alloc buf junk ctx0 start eob m = Inr (PBB_OKAY, ctx, ts, bs, stop, m1)"
    and "msg_type ctx = BPRD_MSG_TYPE_HELLO" and "eob \<le> length buf" and "nlist_wf (hs_nlist st)"
    and "family_bytes (word_of_int (ipver (hs_bprd st))) = Some k" and "k \<le> unat (addr_len ctx)"
    and "a = hello_addr (he_heap env (calls (hs_mem st))) (hs_bprd st) (orig_addr ctx) (addr_len ctx)"
    and "heard \<longleftrightarrow> heard_me env (Suc (hs_tick st)) (hs_bprd st) (addr_len ctx) (concat (map (block_addrs buf) bs))"
  shows "r = PBB_OKAY \<and> nlist_wf (hs_nlist st') \<and>
    (\<exists>cds n. list_all2 (tlv_reports buf) (filter (index_matches 0) ts) cds \<and>
      hello_entry a (he_clk env (hs_tick st)) cds heard (nlist_map (hs_nlist st) a) n \<and>
      nlist_map (hs_nlist st') = (nlist_map (hs_nlist st))(a \<mapsto> n))"
proof -
  have "\<forall>x. hello_addr x (hs_bprd st) (orig_addr ctx) (addr_len ctx) = a"
    unfolding assms(8) using hello_addr_indep[OF assms(6,7)] by blast
  from hello_message_effect[OF assms(1-5) this assms(9)] show ?thesis .
qed

lemma hello_sample_handled:
  "case handle_message (\<lambda>_. True) hello_sample_msg 0 None empty_pctx 0 45
      (message_consumer (hello_reader_init hello_sample_env)) hello_sample_st \<lparr>calls = 0, live = 0\<rparr> of
     Inl _ \<Rightarrow> False
   | Inr (r, ctx, en, cons, st, m) \<Rightarrow> map (\<lambda>n. (n_addr n, bidir n, map cdata (n_clist n))) (hs_nlist st) =
       [(ipv4 [10,0,0,2], 1, [\<lparr>cs_addr = ipv4 [10,0,0,3], cs_backlog = 7\<rparr>])]"
  by code_simp

lemma hello_sample_parsed:
  "case parse_message (\<lambda>_. True) hello_sample_msg 0 empty_pctx 0 45 \<lparr>calls = 0, live = 0\<rparr> of
     Inl _ \<Rightarrow> False
   | Inr (r, ctx, ts, bs, en, m) \<Rightarrow> r = PBB_OKAY \<and> msg_type ctx = 1 \<and> addr_len ctx = 4"
  by code_simp

theorem hello_message_updates_originator_witness:
  "\<exists>ctx' en cons' st' m'. handle_message (\<lambda>_. True) hello_sample_msg 0 None empty_pctx 0 45
      (message_consumer (hello_reader_init hello_sample_env)) hello_sample_st \<lparr>calls = 0, live = 0\<rparr> =
        Inr (PBB_OKAY, ctx', en, cons', st', m') \<and> nlist_wf (hs_nlist st') \<and>
    map (\<lambda>n. (n_addr n, bidir n, map cdata (n_clist n))) (hs_nlist st') =
      [(ipv4 [10,0,0,2], 1, [\<lparr>cs_addr = ipv4 [10,0,0,3], cs_backlog = 7\<rparr>])]"
proof -
  from hello_sample_handled obtain r ctx' en cons' st' m' where
    h: "handle_message (\<lambda>_. True) hello_sample_msg 0 None empty_pctx 0 45
      (message_consumer (hello_reader_init hello_sample_env)) hello_sample_st \<lparr>calls = 0, live = 0\<rparr> =
        Inr (r, ctx', en, cons', st', m')"
    and n: "map (\<lambda>n. (n_addr n, bidir n, map cdata (n_clist n))) (hs_nlist st') =
      [(ipv4 [10,0,0,2], 1, [\<lparr>cs_addr = ipv4 [10,0,0,3], cs_backlog = 7\<rparr>])]"
    by (auto split: sum.splits)
  from hello_sample_parsed obtain ctx ts bs stop m1 where
    p: "parse_message (\<lambda>_. True) hello_sample_msg 0 empty_pctx 0 45 \<lparr>calls = 0, live = 0\<rparr> =
      Inr (PBB_OKAY, ctx, ts, bs, stop, m1)" "msg_type ctx = 1" "addr_len ctx = 4"
    by (auto split: sum.splits)
  have f: "family_bytes (word_of_int (ipver (hs_bprd hello_sample_st))) = Some 4"
    by (simp add: hello_sample_st_def hello_sample_bprd_def family_bytes_def)
  have r: "r = PBB_OKAY" "nlist_wf (hs_nlist st')"
    using hello_message_updates_originator[OF h p(1,2) _ hello_sample_wf f _ refl refl] p(3)
    by (simp_all add: hello_sample_msg_def)
  show ?thesis by (intro exI conjI, rule h[unfolded r(1)], rule r(2), rule n)
qed

end
