(* ===== verification/Avl.thy ===== *)
theory Avl
  imports SortedStore
begin

text \<open>
  \<open>lib/common/avl.c\<close>: the AVL tree with balance factors, and beside it the linked list of all elements in
  order. Elements with equal keys form a run of the list; its first element is the leader and the only
  one of the run in the tree. The parent pointers are the steps of a path from a node to the root
  (innermost first), so the procedures that climb the tree recurse over the path. An element stands
  for its node: no element is in the tree twice.
\<close>

section \<open>Trees and paths\<close>

datatype 'e avl_node = Leaf | Node (left: "'e avl_node") (elem: 'e) (balance: int) (right: "'e avl_node")

text \<open>A step to the parent: the node was its left or its right child.\<close>

datatype 'e step = IsLeft 'e int "'e avl_node" | IsRight "'e avl_node" 'e int

type_synonym 'e path = "'e step list"

fun rebuild :: "'e avl_node \<Rightarrow> 'e path \<Rightarrow> 'e avl_node" where
  "rebuild t [] = t"
| "rebuild t (IsLeft x b r # p) = rebuild (Node t x b r) p"
| "rebuild t (IsRight l x b # p) = rebuild (Node l x b t) p"

definition bal_of :: "'e avl_node \<Rightarrow> halt + int" where
  "bal_of t = (case t of Leaf \<Rightarrow> Inl NullDeref | Node l x b r \<Rightarrow> Inr b)"

section \<open>Rotations\<close>

definition avl_rotate_right :: "'e avl_node \<Rightarrow> halt + 'e avl_node" where
  "avl_rotate_right node =
     (case node of
        Node (Node ll lx lb lr) x b r \<Rightarrow>
          let b = b + 1; b = (if lb < 0 then b - lb else b);
              lb = lb + 1; lb = (if 0 < b then lb + b else lb)
          in Inr (Node ll lx lb (Node lr x b r))
      | _ \<Rightarrow> Inl NullDeref)"

definition avl_rotate_left :: "'e avl_node \<Rightarrow> halt + 'e avl_node" where
  "avl_rotate_left node =
     (case node of
        Node l x b (Node rl rx rb rr) \<Rightarrow>
          let b = b - 1; b = (if 0 < rb then b - rb else b);
              rb = rb - 1; rb = (if b < 0 then rb + b else rb)
          in Inr (Node (Node l x b rl) rx rb rr)
      | _ \<Rightarrow> Inl NullDeref)"

section \<open>Rebalancing\<close>

text \<open>\<open>_post_insert\<close> with the node, which has grown, and its path; the result is the whole tree.\<close>

fun post_insert :: "'e avl_node \<Rightarrow> 'e path \<Rightarrow> halt + 'e avl_node" where
  "post_insert node [] = Inr node"
| "post_insert node (IsLeft x b r # p) =
     (let b = b - 1
      in if b = 0 then Inr (rebuild (Node node x b r) p)
         else if b = -1 then post_insert (Node node x b r) p
         else
           rbind (bal_of node) (\<lambda>nb.
           if nb = -1 then rbind (avl_rotate_right (Node node x b r)) (\<lambda>t. Inr (rebuild t p))
           else
             rbind (avl_rotate_left node) (\<lambda>node.
             rbind (avl_rotate_right (Node node x b r)) (\<lambda>t. Inr (rebuild t p)))))"
| "post_insert node (IsRight l x b # p) =
     (let b = b + 1
      in if b = 0 then Inr (rebuild (Node l x b node) p)
         else if b = 1 then post_insert (Node l x b node) p
         else
           rbind (bal_of node) (\<lambda>nb.
           if nb = 1 then rbind (avl_rotate_left (Node l x b node)) (\<lambda>t. Inr (rebuild t p))
           else
             rbind (avl_rotate_right node) (\<lambda>node.
             rbind (avl_rotate_left (Node l x b node)) (\<lambda>t. Inr (rebuild t p)))))"

text \<open>\<open>_avl_post_remove\<close>: the node has shrunk.\<close>

fun avl_post_remove :: "'e avl_node \<Rightarrow> 'e path \<Rightarrow> halt + 'e avl_node" where
  "avl_post_remove node [] = Inr node"
| "avl_post_remove node (IsLeft x b r # p) =
     (let b = b + 1
      in if b = 0 then avl_post_remove (Node node x b r) p
         else if b = 1 then Inr (rebuild (Node node x b r) p)
         else
           rbind (bal_of r) (\<lambda>rb.
           if rb = 0 then rbind (avl_rotate_left (Node node x b r)) (\<lambda>t. Inr (rebuild t p))
           else if rb = 1 then rbind (avl_rotate_left (Node node x b r)) (\<lambda>t. avl_post_remove t p)
           else
             rbind (avl_rotate_right r) (\<lambda>r.
             rbind (avl_rotate_left (Node node x b r)) (\<lambda>t. avl_post_remove t p))))"
| "avl_post_remove node (IsRight l x b # p) =
     (let b = b - 1
      in if b = 0 then avl_post_remove (Node l x b node) p
         else if b = -1 then Inr (rebuild (Node l x b node) p)
         else
           rbind (bal_of l) (\<lambda>lb.
           if lb = 0 then rbind (avl_rotate_right (Node l x b node)) (\<lambda>t. Inr (rebuild t p))
           else if lb = -1 then rbind (avl_rotate_right (Node l x b node)) (\<lambda>t. avl_post_remove t p)
           else
             rbind (avl_rotate_left l) (\<lambda>l.
             rbind (avl_rotate_right (Node l x b node)) (\<lambda>t. avl_post_remove t p))))"

text \<open>\<open>_avl_local_min\<close>: the leftmost node, with its path.\<close>

fun avl_local_min :: "'e avl_node \<Rightarrow> 'e path \<Rightarrow> 'e avl_node \<times> 'e path" where
  "avl_local_min (Node (Node ll y c lr) x b r) p = avl_local_min (Node ll y c lr) (IsLeft x b r # p)"
| "avl_local_min t p = (t, p)"

text \<open>The elements in order, and the replacement of an element by another in its place.\<close>

fun inorder :: "'e avl_node \<Rightarrow> 'e list" where
  "inorder Leaf = []"
| "inorder (Node l x b r) = inorder l @ x # inorder r"

fun replace_elem :: "'e \<Rightarrow> 'e \<Rightarrow> 'e avl_node \<Rightarrow> 'e avl_node" where
  "replace_elem x y Leaf = Leaf"
| "replace_elem x y (Node l z b r) =
     Node (replace_elem x y l) (if z = x then y else z) b (replace_elem x y r)"

text \<open>\<open>_avl_remove_worker\<close> for a leaf: the steps of \<open>_avl_post_remove\<close> with the child pointer cleared.\<close>

definition remove_leaf :: "'e path \<Rightarrow> halt + 'e avl_node" where
  "remove_leaf p =
     (case p of
        [] \<Rightarrow> Inr Leaf
      | IsLeft x b r # p \<Rightarrow>
          let b = b + 1
          in if b = 1 then Inr (rebuild (Node Leaf x b r) p)
             else if b = 0 then avl_post_remove (Node Leaf x b r) p
             else
               rbind (bal_of r) (\<lambda>rb.
               if rb = 0 then rbind (avl_rotate_left (Node Leaf x b r)) (\<lambda>t. Inr (rebuild t p))
               else if rb = 1 then rbind (avl_rotate_left (Node Leaf x b r)) (\<lambda>t. avl_post_remove t p)
               else
                 rbind (avl_rotate_right r) (\<lambda>r.
                 rbind (avl_rotate_left (Node Leaf x b r)) (\<lambda>t. avl_post_remove t p)))
      | IsRight l x b # p \<Rightarrow>
          let b = b - 1
          in if b = -1 then Inr (rebuild (Node l x b Leaf) p)
             else if b = 0 then avl_post_remove (Node l x b Leaf) p
             else
               rbind (bal_of l) (\<lambda>lb.
               if lb = 0 then rbind (avl_rotate_right (Node l x b Leaf)) (\<lambda>t. Inr (rebuild t p))
               else if lb = -1 then rbind (avl_rotate_right (Node l x b Leaf)) (\<lambda>t. avl_post_remove t p)
               else
                 rbind (avl_rotate_left l) (\<lambda>l.
                 rbind (avl_rotate_right (Node l x b Leaf)) (\<lambda>t. avl_post_remove t p))))"

text \<open>A node with one child hands it to its parent.\<close>

definition remove_worker1 :: "'e avl_node \<Rightarrow> 'e avl_node \<Rightarrow> 'e path \<Rightarrow> halt + 'e avl_node" where
  "remove_worker1 l r p =
     (if l = Leaf \<and> r = Leaf then remove_leaf p
      else if l = Leaf then (if p = [] then Inr r else avl_post_remove r p)
      else (if p = [] then Inr l else avl_post_remove l p))"

text \<open>A node with two children: its successor is taken out of the tree, which may move the node, and
  then takes the node's place.\<close>

definition avl_remove_worker :: "'e avl_node \<Rightarrow> 'e path \<Rightarrow> halt + 'e avl_node" where
  "avl_remove_worker node p =
     (case node of
        Leaf \<Rightarrow> Inl NullDeref
      | Node l x b r \<Rightarrow>
          if l = Leaf \<or> r = Leaf then remove_worker1 l r p
          else
            case avl_local_min r (IsRight l x b # p) of
              (Leaf, q) \<Rightarrow> Inl NullDeref
            | (Node ml m mb mr, q) \<Rightarrow> rbind (remove_worker1 ml mr q) (\<lambda>t. Inr (replace_elem x m t)))"

section \<open>The container\<close>

text \<open>The list holds each element with its \<open>leader\<close> flag.\<close>

record ('e, 'k) avl_tree =
  list_head :: "('e \<times> bool) list"
  root :: "'e avl_node"
  count :: u32
  allow_dups :: bool
  comp :: "'k \<Rightarrow> 'k \<Rightarrow> int"

definition avl_init :: "('k \<Rightarrow> 'k \<Rightarrow> int) \<Rightarrow> bool \<Rightarrow> ('e, 'k) avl_tree" where
  "avl_init cmp dups = \<lparr>list_head = [], root = Leaf, count = 0, allow_dups = dups, comp = cmp\<rparr>"

text \<open>\<open>_avl_find_rec\<close>: the node where the search ends, its path and the last comparison.\<close>

fun avl_find_rec ::
  "('k \<Rightarrow> 'k \<Rightarrow> int) \<Rightarrow> ('e \<Rightarrow> 'k) \<Rightarrow> 'k \<Rightarrow> 'e avl_node \<Rightarrow> 'e path \<Rightarrow> ('e avl_node \<times> 'e path) \<times> int" where
  "avl_find_rec cmp key k Leaf p = ((Leaf, p), 0)"
| "avl_find_rec cmp key k (Node l x b r) p =
     (let diff = cmp k (key x)
      in if diff < 0 then (if l \<noteq> Leaf then avl_find_rec cmp key k l (IsLeft x b r # p) else ((Node l x b r, p), diff))
         else if 0 < diff then (if r \<noteq> Leaf then avl_find_rec cmp key k r (IsRight l x b # p) else ((Node l x b r, p), diff))
         else ((Node l x b r, p), diff))"

definition avl_find :: "('e \<Rightarrow> 'k) \<Rightarrow> ('e, 'k) avl_tree \<Rightarrow> 'k \<Rightarrow> 'e option" where
  "avl_find key tree k =
     (if root tree = Leaf then None
      else let ((node, p), diff) = avl_find_rec (comp tree) key k (root tree) []
           in if diff = 0 then Some (elem node) else None)"

text \<open>The list around an element: the elements before it (nearest first), itself, those behind it.\<close>

definition around :: "'e \<Rightarrow> ('e \<times> bool) list \<Rightarrow> 'e list \<times> 'e list" where
  "around x xs = (rev (takeWhile (\<lambda>y. y \<noteq> x) (map fst xs)), tl (dropWhile (\<lambda>y. y \<noteq> x) (map fst xs)))"

text \<open>The two loops of \<open>avl_find_lessequal\<close> and \<open>avl_find_greaterequal\<close>: step in one direction until the
  key fits, then in the other as long as it fits.\<close>

fun walk_on :: "('e \<Rightarrow> bool) \<Rightarrow> 'e \<Rightarrow> 'e list \<Rightarrow> 'e" where
  "walk_on P x [] = x"
| "walk_on P x (y # ys) = (if P y then walk_on P y ys else x)"

fun walk :: "('e \<Rightarrow> bool) \<Rightarrow> 'e \<Rightarrow> 'e list \<Rightarrow> 'e list \<Rightarrow> 'e option" where
  "walk P x bs [] = (if P x then Some (walk_on P x bs) else None)"
| "walk P x bs (y # ys) = (if P x then Some (walk_on P x bs) else walk P y (x # bs) ys)"

definition avl_find_lessequal :: "('e \<Rightarrow> 'k) \<Rightarrow> ('e, 'k) avl_tree \<Rightarrow> 'k \<Rightarrow> 'e option" where
  "avl_find_lessequal key tree k =
     (if root tree = Leaf then None
      else let ((node, p), diff) = avl_find_rec (comp tree) key k (root tree) [];
               (prev, succ) = around (elem node) (list_head tree)
           in walk (\<lambda>x. \<not> comp tree k (key x) < 0) (elem node) succ prev)"

definition avl_find_greaterequal :: "('e \<Rightarrow> 'k) \<Rightarrow> ('e, 'k) avl_tree \<Rightarrow> 'k \<Rightarrow> 'e option" where
  "avl_find_greaterequal key tree k =
     (if root tree = Leaf then None
      else let ((node, p), diff) = avl_find_rec (comp tree) key k (root tree) [];
               (prev, succ) = around (elem node) (list_head tree)
           in walk (\<lambda>x. \<not> comp tree k (key x) > 0) (elem node) prev succ)"

text \<open>The list, split at an element: the part before it, its flag, the part behind it.\<close>

definition split_at :: "'e \<Rightarrow> ('e \<times> bool) list \<Rightarrow> ('e \<times> bool) list \<times> ('e \<times> bool) list" where
  "split_at x xs = (takeWhile (\<lambda>y. fst y \<noteq> x) xs, dropWhile (\<lambda>y. fst y \<noteq> x) xs)"

definition add_before :: "'e \<Rightarrow> ('e \<times> bool) \<Rightarrow> ('e \<times> bool) list \<Rightarrow> ('e \<times> bool) list" where
  "add_before x e xs = (let (a, b) = split_at x xs in a @ e # b)"

text \<open>Behind the last element of \<open>x\<close>'s run: the list elements up to the next leader.\<close>

definition add_after_run :: "'e \<Rightarrow> ('e \<times> bool) \<Rightarrow> ('e \<times> bool) list \<Rightarrow> ('e \<times> bool) list" where
  "add_after_run x e xs =
     (let (a, b) = split_at x xs
      in a @ take 1 b @ takeWhile (\<lambda>y. \<not> snd y) (drop 1 b) @ e # dropWhile (\<lambda>y. \<not> snd y) (drop 1 b))"

definition avl_insert ::
  "('e \<Rightarrow> 'k) \<Rightarrow> ('e, 'k) avl_tree \<Rightarrow> 'e \<Rightarrow> halt + int \<times> ('e, 'k) avl_tree" where
  "avl_insert key tree new =
     (let xs = list_head tree; leaf = Node Leaf new 0 Leaf
      in case avl_find_rec (comp tree) key (key new) (root tree) [] of
        ((Leaf, p), _) \<Rightarrow> Inr (0, tree\<lparr>list_head := (new, True) # xs, count := 1, root := leaf\<rparr>)
      | ((Node l x b r, p), _) \<Rightarrow>
          let diff = comp tree (key new) (key x)
          in if diff = 0
             then
               if \<not> allow_dups tree then Inr (-1, tree)
               else Inr (0, tree\<lparr>list_head := add_after_run x (new, False) xs, count := count tree + 1\<rparr>)
             else if b = 1
             then Inr (0, tree\<lparr>list_head := add_before x (new, True) xs, count := count tree + 1,
                         root := rebuild (Node leaf x 0 r) p\<rparr>)
             else if b = -1
             then Inr (0, tree\<lparr>list_head := add_after_run x (new, True) xs, count := count tree + 1,
                         root := rebuild (Node l x 0 leaf) p\<rparr>)
             else if diff < 0
             then rbind (post_insert (Node leaf x (-1) r) p) (\<lambda>t.
               Inr (0, tree\<lparr>list_head := add_before x (new, True) xs, count := count tree + 1, root := t\<rparr>))
             else rbind (post_insert (Node l x 1 leaf) p) (\<lambda>t.
               Inr (0, tree\<lparr>list_head := add_after_run x (new, True) xs, count := count tree + 1, root := t\<rparr>)))"

text \<open>The node of an element, by its parent pointers: the subtree and the path.\<close>

fun node_of :: "'e \<Rightarrow> 'e avl_node \<Rightarrow> 'e path \<Rightarrow> ('e avl_node \<times> 'e path) option" where
  "node_of e Leaf p = None"
| "node_of e (Node l x b r) p =
     (if x = e then Some (Node l x b r, p)
      else case node_of e l (IsLeft x b r # p) of
             Some q \<Rightarrow> Some q
           | None \<Rightarrow> node_of e r (IsRight l x b # p))"

definition avl_remove :: "('e, 'k) avl_tree \<Rightarrow> 'e \<Rightarrow> halt + ('e, 'k) avl_tree" where
  "avl_remove tree node =
     (case split_at node (list_head tree) of
        (a, []) \<Rightarrow> Inl NullDeref
      | (a, (_, leader) # b) \<Rightarrow>
          let tree' = tree\<lparr>list_head := a @ b, count := count tree - 1\<rparr>
          in if \<not> leader then Inr tree'
             else
               case b of
                 (next_, False) # b' \<Rightarrow>
                   if allow_dups tree
                   then Inr (tree'\<lparr>list_head := a @ (next_, True) # b', root := replace_elem node next_ (root tree)\<rparr>)
                   else rbind (case node_of node (root tree) [] of None \<Rightarrow> Inl NullDeref | Some (n, p) \<Rightarrow> avl_remove_worker n p)
                          (\<lambda>t. Inr (tree'\<lparr>root := t\<rparr>))
               | _ \<Rightarrow>
                   rbind (case node_of node (root tree) [] of None \<Rightarrow> Inl NullDeref | Some (n, p) \<Rightarrow> avl_remove_worker n p)
                     (\<lambda>t. Inr (tree'\<lparr>root := t\<rparr>)))"

end
