(* ===== verification/AvlBalance.thy ===== *)
theory AvlBalance
  imports Avl
begin

text \<open>
  The rebalancing of \<open>lib/common/avl.c\<close> is correct: on a balanced tree every climb ends without touching
  a null pointer, the tree is balanced afterwards and its elements are in the same order.
\<close>

fun height :: "'e avl_node \<Rightarrow> nat" where
  "height Leaf = 0"
| "height (Node l x b r) = Suc (max (height l) (height r))"

fun avl_ok :: "'e avl_node \<Rightarrow> bool" where
  "avl_ok Leaf = True"
| "avl_ok (Node l x b r) \<longleftrightarrow> b = int (height r) - int (height l) \<and> \<bar>b\<bar> \<le> 1 \<and> avl_ok l \<and> avl_ok r"

text \<open>A path fits a subtree of height \<open>h\<close>.\<close>

fun path_ok :: "nat \<Rightarrow> 'e path \<Rightarrow> bool" where
  "path_ok h [] = True"
| "path_ok h (IsLeft x b r # p) \<longleftrightarrow>
     b = int (height r) - int h \<and> \<bar>b\<bar> \<le> 1 \<and> avl_ok r \<and> path_ok (Suc (max h (height r))) p"
| "path_ok h (IsRight l x b # p) \<longleftrightarrow>
     b = int h - int (height l) \<and> \<bar>b\<bar> \<le> 1 \<and> avl_ok l \<and> path_ok (Suc (max (height l) h)) p"

fun before :: "'e path \<Rightarrow> 'e list" where
  "before [] = []"
| "before (IsLeft x b r # p) = before p"
| "before (IsRight l x b # p) = before p @ inorder l @ [x]"

fun behind :: "'e path \<Rightarrow> 'e list" where
  "behind [] = []"
| "behind (IsLeft x b r # p) = x # inorder r @ behind p"
| "behind (IsRight l x b # p) = behind p"

lemma inorder_rebuild: "inorder (rebuild t p) = before p @ inorder t @ behind p"
  by (induction t p rule: rebuild.induct) simp_all

lemma rebuild_ok: "avl_ok t \<Longrightarrow> path_ok (height t) p \<Longrightarrow> avl_ok (rebuild t p)"
  by (induction t p rule: rebuild.induct) simp_all

lemma height_0_iff [simp]: "height t = 0 \<longleftrightarrow> t = Leaf"
  by (cases t) simp_all

section \<open>Rotations\<close>

text \<open>A tree whose one side is two levels higher than the other is balanced by one or two rotations.\<close>

lemma rotate_right_single:
  assumes "avl_ok (Node ll lx lb lr)" and "avl_ok r" and "height (Node ll lx lb lr) = height r + 2" and "lb \<le> 0"
  obtains t where "avl_rotate_right (Node (Node ll lx lb lr) x (-2) r) = Inr t" "avl_ok t"
    "inorder t = inorder (Node (Node ll lx lb lr) x (-2) r)" "height t = height r + 2 + (if lb = 0 then 1 else 0)"
proof -
  from assms have "lb = 0 \<or> lb = -1" by auto
  with assms show ?thesis
    by (intro that[of "if lb = 0 then Node ll lx 1 (Node lr x (-1) r) else Node ll lx 0 (Node lr x 0 r)"])
      (auto simp: avl_rotate_right_def)
qed

lemma rotate_left_single:
  assumes "avl_ok l" and "avl_ok (Node rl rx rb rr)" and "height (Node rl rx rb rr) = height l + 2" and "0 \<le> rb"
  obtains t where "avl_rotate_left (Node l x 2 (Node rl rx rb rr)) = Inr t" "avl_ok t"
    "inorder t = inorder (Node l x 2 (Node rl rx rb rr))" "height t = height l + 2 + (if rb = 0 then 1 else 0)"
proof -
  from assms have "rb = 0 \<or> rb = 1" by auto
  with assms show ?thesis
    by (intro that[of "if rb = 0 then Node (Node l x 1 rl) rx (-1) rr else Node (Node l x 0 rl) rx 0 rr"])
      (auto simp: avl_rotate_left_def)
qed

lemma rotate_right_double:
  assumes "avl_ok t" and "avl_ok r" and "height t = height r + 2" and "bal_of t = Inr 1"
  obtains t1 t2 where "avl_rotate_left t = Inr t1" "avl_rotate_right (Node t1 x (-2) r) = Inr t2" "avl_ok t2"
    "inorder t2 = inorder (Node t x (-2) r)" "height t2 = height r + 2"
proof -
  from assms(4) obtain ll lx m where t: "t = Node ll lx 1 m" by (cases t) (auto simp: bal_of_def)
  with assms obtain ml mx mb mr where m: "m = Node ml mx mb mr" by (cases m) auto
  with t assms have "mb = 0 \<or> mb = 1 \<or> mb = -1" by auto
  with t m assms show ?thesis
    by (intro that[of "Node (Node ll lx (if mb = 1 then -1 else 0) ml) mx (if mb = -1 then -2 else -1) mr"
          "Node (Node ll lx (if mb = 1 then -1 else 0) ml) mx 0 (Node mr x (if mb = -1 then 1 else 0) r)"])
      (auto simp: avl_rotate_left_def avl_rotate_right_def)
qed

lemma rotate_left_double:
  assumes "avl_ok l" and "avl_ok t" and "height t = height l + 2" and "bal_of t = Inr (-1)"
  obtains t1 t2 where "avl_rotate_right t = Inr t1" "avl_rotate_left (Node l x 2 t1) = Inr t2" "avl_ok t2"
    "inorder t2 = inorder (Node l x 2 t)" "height t2 = height l + 2"
proof -
  from assms(4) obtain m rx rr where t: "t = Node m rx (-1) rr" by (cases t) (auto simp: bal_of_def)
  with assms obtain ml mx mb mr where m: "m = Node ml mx mb mr" by (cases m) auto
  with t assms have "mb = 0 \<or> mb = 1 \<or> mb = -1" by auto
  with t m assms show ?thesis
    by (intro that[of "Node ml mx (if mb = 1 then 2 else 1) (Node mr rx (if mb = -1 then 1 else 0) rr)"
          "Node (Node l x (if mb = 1 then -1 else 0) ml) mx 0 (Node mr rx (if mb = -1 then 1 else 0) rr)"])
      (auto simp: avl_rotate_left_def avl_rotate_right_def)
qed

section \<open>Climbing the tree\<close>

lemma post_insert_ok:
  assumes "avl_ok t" and "height t = Suc h" and "path_ok h p" and "bal_of t \<in> {Inr 1, Inr (-1)}"
  shows "\<exists>t'. post_insert t p = Inr t' \<and> avl_ok t' \<and> inorder t' = before p @ inorder t @ behind p"
  using assms
proof (induction t p arbitrary: h rule: post_insert.induct)
  case (1 t)
  then show ?case by simp
next
  case (2 t x b r p)
  then have b: "b = int (height r) - int h" "\<bar>b\<bar> \<le> 1" "avl_ok r" "path_ok (Suc (max h (height r))) p"
    unfolding path_ok.simps by blast+
  from b(1,2) consider "height r = Suc h" | "height r = h" | "h = Suc (height r)" by linarith
  then show ?case
  proof cases
    case 1
    with "2.prems"(1,2) b have "avl_ok (rebuild (Node t x 0 r) p)" by (intro rebuild_ok) simp_all
    with 1 b show ?thesis by (simp add: inorder_rebuild)
  next
    case b0: 2
    have "\<exists>t'. post_insert (Node t x (b - 1) r) p = Inr t' \<and> avl_ok t' \<and>
        inorder t' = before p @ inorder (Node t x (b - 1) r) @ behind p"
      by (rule "2.IH"[where h = "Suc h"]) (use b0 b "2.prems"(1,2) in \<open>auto simp: bal_of_def\<close>)
    with b0 b show ?thesis by (simp add: Let_def)
  next
    case 3
    then have b1: "b = -1" using b(1) by simp
    show ?thesis
    proof (cases "bal_of t = Inr (-1)")
      case True
      then obtain ll lx lr where t: "t = Node ll lx (-1) lr" by (cases t) (auto simp: bal_of_def)
      obtain t1 where "avl_rotate_right (Node t x (-2) r) = Inr t1" "avl_ok t1" "inorder t1 = inorder (Node t x (-2) r)"
        "height t1 = height r + 2"
        using rotate_right_single[of ll lx "-1" lr r x] "2.prems"(1,2) b(3) 3 by (auto simp: t)
      with True b1 3 b(4) rebuild_ok[of t1 p] show ?thesis by (simp add: Let_def inorder_rebuild)
    next
      case False
      with "2.prems"(4) have t: "bal_of t = Inr 1" by simp
      obtain t1 t2 where "avl_rotate_left t = Inr t1" "avl_rotate_right (Node t1 x (-2) r) = Inr t2" "avl_ok t2"
        "inorder t2 = inorder (Node t x (-2) r)" "height t2 = height r + 2"
        using rotate_right_double[OF "2.prems"(1) b(3) _ t, of x] "2.prems"(2) 3 by auto
      with t b1 3 b(4) rebuild_ok[of t2 p] show ?thesis by (simp add: Let_def inorder_rebuild)
    qed
  qed
next
  case (3 t l x b p)
  then have b: "b = int h - int (height l)" "\<bar>b\<bar> \<le> 1" "avl_ok l" "path_ok (Suc (max (height l) h)) p"
    unfolding path_ok.simps by blast+
  from b(1,2) consider "height l = Suc h" | "height l = h" | "h = Suc (height l)" by linarith
  then show ?case
  proof cases
    case 1
    with "3.prems"(1,2) b have "avl_ok (rebuild (Node l x 0 t) p)" by (intro rebuild_ok) simp_all
    with 1 b show ?thesis by (simp add: inorder_rebuild)
  next
    case b0: 2
    have "\<exists>t'. post_insert (Node l x (b + 1) t) p = Inr t' \<and> avl_ok t' \<and>
        inorder t' = before p @ inorder (Node l x (b + 1) t) @ behind p"
      by (rule "3.IH"[where h = "Suc h"]) (use b0 b "3.prems"(1,2) in \<open>auto simp: bal_of_def\<close>)
    with b0 b show ?thesis by (simp add: Let_def)
  next
    case h: 3
    then have b1: "b = 1" using b(1) by simp
    show ?thesis
    proof (cases "bal_of t = Inr 1")
      case True
      then obtain rl rx rr where t: "t = Node rl rx 1 rr" by (cases t) (auto simp: bal_of_def)
      obtain t1 where "avl_rotate_left (Node l x 2 t) = Inr t1" "avl_ok t1" "inorder t1 = inorder (Node l x 2 t)"
        "height t1 = height l + 2"
        using rotate_left_single[of l rl rx 1 rr x] "3.prems"(1,2) b(3) h by (auto simp: t)
      with True b1 h b(4) rebuild_ok[of t1 p] show ?thesis by (simp add: Let_def inorder_rebuild)
    next
      case False
      with "3.prems"(4) have t: "bal_of t = Inr (-1)" by simp
      obtain t1 t2 where "avl_rotate_right t = Inr t1" "avl_rotate_left (Node l x 2 t1) = Inr t2" "avl_ok t2"
        "inorder t2 = inorder (Node l x 2 t)" "height t2 = height l + 2"
        using rotate_left_double[OF b(3) "3.prems"(1) _ t, of x] "3.prems"(2) h by auto
      with t b1 h b(4) rebuild_ok[of t2 p] show ?thesis by (simp add: Let_def inorder_rebuild)
    qed
  qed
qed

lemma avl_post_remove_ok:
  assumes "avl_ok t" and "height t = h" and "path_ok (Suc h) p"
  shows "\<exists>t'. avl_post_remove t p = Inr t' \<and> avl_ok t' \<and> inorder t' = before p @ inorder t @ behind p"
  using assms
proof (induction t p arbitrary: h rule: avl_post_remove.induct)
  case (1 t)
  then show ?case by simp
next
  case (2 t x b r p)
  then have b: "b = int (height r) - int (Suc h)" "\<bar>b\<bar> \<le> 1" "avl_ok r" "path_ok (Suc (max (Suc h) (height r))) p"
    unfolding path_ok.simps by blast+
  from b(1,2) consider "height r = h" | "height r = Suc h" | "height r = h + 2" by linarith
  then show ?case
  proof cases
    case h: 1
    have "\<exists>t'. avl_post_remove (Node t x (b + 1) r) p = Inr t' \<and> avl_ok t' \<and>
        inorder t' = before p @ inorder (Node t x (b + 1) r) @ behind p"
      by (rule "2.IH"(1)[where h = "Suc h"]) (use h b "2.prems"(1,2) in auto)
    with h b show ?thesis by (simp add: Let_def)
  next
    case h: 2
    with "2.prems"(1,2) b have "avl_ok (rebuild (Node t x 1 r) p)" by (intro rebuild_ok) simp_all
    with h b show ?thesis by (simp add: inorder_rebuild)
  next
    case h: 3
    then have b1: "b = 1" using b(1) by simp
    have pp: "path_ok (Suc (Suc (Suc h))) p" using b(4) h by (simp add: max_def)
    obtain rl rx rb rr where r: "r = Node rl rx rb rr" using h by (cases r) auto
    show ?thesis
    proof (cases "rb = -1")
      case False
      with b(3) have "0 \<le> rb" by (auto simp: r)
      then obtain t1 where t1: "avl_rotate_left (Node t x 2 r) = Inr t1" "avl_ok t1" "inorder t1 = inorder (Node t x 2 r)"
        "height t1 = h + 2 + (if rb = 0 then 1 else 0)"
        using rotate_left_single[of t rl rx rb rr x] "2.prems"(1,2) b(3) h by (auto simp: r)
      show ?thesis
      proof (cases "rb = 0")
        case True
        with t1 b1 h b(4) rebuild_ok[of t1 p] show ?thesis by (simp add: Let_def inorder_rebuild bal_of_def r)
      next
        case rb: False
        with \<open>0 \<le> rb\<close> b(3) have rb1: "rb = 1" by (auto simp: r)
        have "\<exists>t'. avl_post_remove t1 p = Inr t' \<and> avl_ok t' \<and> inorder t' = before p @ inorder t1 @ behind p"
          using rb rb1 t1(1,2,4) pp
          by (intro "2.IH"(2)[where h = "h + 2", OF refl]) (simp_all add: b1 bal_of_def r)
        with rb1 t1 b1 show ?thesis by (simp add: Let_def bal_of_def r)
      qed
    next
      case True
      then have rb: "bal_of r = Inr (-1)" by (simp add: r bal_of_def)
      obtain t1 t2 where t2: "avl_rotate_right r = Inr t1" "avl_rotate_left (Node t x 2 t1) = Inr t2" "avl_ok t2"
        "inorder t2 = inorder (Node t x 2 r)" "height t2 = h + 2"
        using rotate_left_double[OF "2.prems"(1) b(3) _ rb, of x] "2.prems"(2) h by auto
      have "\<exists>t'. avl_post_remove t2 p = Inr t' \<and> avl_ok t' \<and> inorder t' = before p @ inorder t2 @ behind p"
        using rb t2 b(4) h by (intro "2.IH"(3)[where h = "h + 2", OF refl]) (simp_all add: b1)+
      with rb t2 b1 show ?thesis by (simp add: Let_def)
    qed
  qed
next
  case (3 t l x b p)
  then have b: "b = int (Suc h) - int (height l)" "\<bar>b\<bar> \<le> 1" "avl_ok l" "path_ok (Suc (max (height l) (Suc h))) p"
    unfolding path_ok.simps by blast+
  from b(1,2) consider "height l = h" | "height l = Suc h" | "height l = h + 2" by linarith
  then show ?case
  proof cases
    case h: 1
    have "\<exists>t'. avl_post_remove (Node l x (b - 1) t) p = Inr t' \<and> avl_ok t' \<and>
        inorder t' = before p @ inorder (Node l x (b - 1) t) @ behind p"
      by (rule "3.IH"(1)[where h = "Suc h"]) (use h b "3.prems"(1,2) in auto)
    with h b show ?thesis by (simp add: Let_def)
  next
    case h: 2
    with "3.prems"(1,2) b have "avl_ok (rebuild (Node l x (-1) t) p)" by (intro rebuild_ok) simp_all
    with h b show ?thesis by (simp add: inorder_rebuild)
  next
    case h: 3
    then have b1: "b = -1" using b(1) by simp
    have pp: "path_ok (Suc (Suc (Suc h))) p" using b(4) h by (simp add: max_def)
    obtain ll lx lb lr where l: "l = Node ll lx lb lr" using h by (cases l) auto
    show ?thesis
    proof (cases "lb = 1")
      case False
      with b(3) have "lb \<le> 0" by (auto simp: l)
      then obtain t1 where t1: "avl_rotate_right (Node l x (-2) t) = Inr t1" "avl_ok t1" "inorder t1 = inorder (Node l x (-2) t)"
        "height t1 = h + 2 + (if lb = 0 then 1 else 0)"
        using rotate_right_single[of ll lx lb lr t x] "3.prems"(1,2) b(3) h by (auto simp: l)
      show ?thesis
      proof (cases "lb = 0")
        case True
        with t1 b1 h b(4) rebuild_ok[of t1 p] show ?thesis by (simp add: Let_def inorder_rebuild bal_of_def l)
      next
        case lb: False
        with \<open>lb \<le> 0\<close> b(3) have lb1: "lb = -1" by (auto simp: l)
        have "\<exists>t'. avl_post_remove t1 p = Inr t' \<and> avl_ok t' \<and> inorder t' = before p @ inorder t1 @ behind p"
          using lb lb1 t1(1,2,4) pp
          by (intro "3.IH"(2)[where h = "h + 2", OF refl]) (simp_all add: b1 bal_of_def l)
        with lb1 t1 b1 show ?thesis by (simp add: Let_def bal_of_def l)
      qed
    next
      case True
      then have lb: "bal_of l = Inr 1" by (simp add: l bal_of_def)
      obtain t1 t2 where t2: "avl_rotate_left l = Inr t1" "avl_rotate_right (Node t1 x (-2) t) = Inr t2" "avl_ok t2"
        "inorder t2 = inorder (Node l x (-2) t)" "height t2 = h + 2"
        using rotate_right_double[OF b(3) "3.prems"(1) _ lb, of x] "3.prems"(2) h by auto
      have "\<exists>t'. avl_post_remove t2 p = Inr t' \<and> avl_ok t' \<and> inorder t' = before p @ inorder t2 @ behind p"
        using lb t2 b(4) h by (intro "3.IH"(3)[where h = "h + 2", OF refl]) (simp_all add: b1)+
      with lb t2 b1 show ?thesis by (simp add: Let_def)
    qed
  qed
qed

section \<open>Removing a node\<close>

lemma avl_local_min_ok:
  assumes "avl_local_min t p = (t', q)" and "t \<noteq> Leaf"
  obtains m mb mr where "t' = Node Leaf m mb mr" "before q = before p"
    "m # inorder mr @ behind q = inorder t @ behind p"
    "avl_ok t \<Longrightarrow> path_ok (height t) p \<Longrightarrow> avl_ok t' \<and> path_ok (height t') q" "p \<noteq> [] \<Longrightarrow> q \<noteq> []"
proof -
  have "\<exists>m mb mr. t' = Node Leaf m mb mr \<and> before q = before p \<and> m # inorder mr @ behind q = inorder t @ behind p \<and>
      (avl_ok t \<longrightarrow> path_ok (height t) p \<longrightarrow> avl_ok t' \<and> path_ok (height t') q) \<and> (p \<noteq> [] \<longrightarrow> q \<noteq> [])"
    using assms by (induction t p rule: avl_local_min.induct) auto
  with that show thesis by blast
qed

lemma remove_leaf_post: "remove_leaf p = avl_post_remove Leaf p"
  by (induction "Leaf :: 'a avl_node" p rule: avl_post_remove.induct) (auto simp: remove_leaf_def Let_def)

lemma remove_worker1_ok:
  assumes "avl_ok (Node l x b r)" and "path_ok (height (Node l x b r)) p" and "l = Leaf \<or> r = Leaf"
  shows "\<exists>t'. remove_worker1 l r p = Inr t' \<and> avl_ok t' \<and> inorder t' = before p @ inorder l @ inorder r @ behind p"
proof -
  have "\<exists>t'. avl_post_remove t p = Inr t' \<and> avl_ok t' \<and> inorder t' = before p @ inorder t @ behind p"
    if "t = l \<and> r = Leaf \<or> t = r \<and> l = Leaf" for t
    using assms that by (intro avl_post_remove_ok[where h = "height t"]) auto
  from this[of l] this[of r] assms show ?thesis by (auto simp: remove_worker1_def remove_leaf_post)
qed

lemma inorder_replace: "inorder (replace_elem x y t) = map (\<lambda>z. if z = x then y else z) (inorder t)"
  by (induction t) simp_all

lemma replace_ok: "avl_ok t \<Longrightarrow> avl_ok (replace_elem x y t) \<and> height (replace_elem x y t) = height t"
proof -
  have h: "height (replace_elem x y t) = height t" for t by (induction t) simp_all
  show "avl_ok t \<Longrightarrow> avl_ok (replace_elem x y t) \<and> height (replace_elem x y t) = height t"
    by (induction t) (simp_all add: h)
qed

lemma map_replace_id: "x \<notin> set xs \<Longrightarrow> map (\<lambda>z. if z = x then y else z) xs = xs"
  by (induction xs) auto

lemma avl_remove_worker_ok:
  assumes "avl_ok (Node l x b r)" and "path_ok (height (Node l x b r)) p"
    and "distinct (before p @ inorder (Node l x b r) @ behind p)"
  shows "\<exists>t'. avl_remove_worker (Node l x b r) p = Inr t' \<and> avl_ok t' \<and>
    inorder t' = before p @ inorder l @ inorder r @ behind p"
proof (cases "l = Leaf \<or> r = Leaf")
  case True
  with remove_worker1_ok[OF assms(1,2)] show ?thesis by (simp add: avl_remove_worker_def)
next
  case False
  obtain n q where lm: "avl_local_min r (IsRight l x b # p) = (n, q)" by (metis surj_pair)
  from avl_local_min_ok[OF lm] False obtain m mb mr where n: "n = Node Leaf m mb mr" "before q = before p @ inorder l @ [x]"
    "m # inorder mr @ behind q = inorder r @ behind p"
    "avl_ok r \<Longrightarrow> path_ok (height r) (IsRight l x b # p) \<Longrightarrow> avl_ok n \<and> path_ok (height n) q" by (metis before.simps(3) behind.simps(3))
  have "avl_ok n \<and> path_ok (height n) q"
    using n(4) assms(1,2) unfolding avl_ok.simps path_ok.simps height.simps by blast
  with n(1) remove_worker1_ok[of Leaf m mb mr q] obtain t where
    t: "remove_worker1 Leaf mr q = Inr t" "avl_ok t" "inorder t = before q @ inorder mr @ behind q" by auto
  have d: "x \<notin> set (before p @ inorder l)" "x \<notin> set (m # inorder mr @ behind q)"
    unfolding n(3) using assms(3) by auto
  then have "inorder (replace_elem x m t) = before p @ inorder l @ m # inorder mr @ behind q"
    by (simp add: inorder_replace t(3) n(2) map_replace_id)
  with False lm n(1) t(1,2) replace_ok[of t x m] n(3) show ?thesis
    by (simp add: avl_remove_worker_def)
qed

section \<open>Searching\<close>

lemma node_of_Some:
  assumes "node_of e t p = Some (n, q)"
  shows "\<exists>l b r. n = Node l e b r \<and> before q @ inorder n @ behind q = before p @ inorder t @ behind p \<and>
    (avl_ok t \<longrightarrow> path_ok (height t) p \<longrightarrow> avl_ok n \<and> path_ok (height n) q)"
  using assms by (induction e t p rule: node_of.induct) (auto split: if_splits option.splits)

lemma node_of_None: "node_of e t p = None \<longleftrightarrow> e \<notin> set (inorder t)"
  by (induction e t p rule: node_of.induct) (auto split: option.splits)

end
