(* ===== verification/AvlStore.thy ===== *)
theory AvlStore
  imports AvlBalance
begin

text \<open>
  The AVL container (\<open>lib/common/avl.c\<close>) implements the sorted store that its users are written against:
  the list of all elements is the abstraction, and insertion, removal and search act on it as the
  specification says. The invariant \<open>avl_rep\<close> cuts the list into the runs of equal keys.
\<close>

section \<open>The invariant\<close>

type_synonym 'e group = "'e \<times> 'e list"

definition flat :: "'e group list \<Rightarrow> ('e \<times> bool) list" where
  "flat gs = concat (map (\<lambda>(x, ds). (x, True) # map (\<lambda>d. (d, False)) ds) gs)"

definition elems :: "('e, 'k) avl_tree \<Rightarrow> 'e list" where
  "elems tree = map fst (list_head tree)"

definition run_ok :: "('k \<Rightarrow> 'k \<Rightarrow> int) \<Rightarrow> ('e \<Rightarrow> 'k) \<Rightarrow> 'e group \<Rightarrow> bool" where
  "run_ok cmp key g \<longleftrightarrow> (\<forall>d\<in>set (snd g). cmp (key (fst g)) (key d) = 0)"

definition avl_rep :: "('e \<Rightarrow> 'k) \<Rightarrow> 'e group list \<Rightarrow> ('e, 'k) avl_tree \<Rightarrow> bool" where
  "avl_rep key gs tree \<longleftrightarrow>
     list_head tree = flat gs \<and> distinct (elems tree) \<and> avl_ok (root tree) \<and> inorder (root tree) = map fst gs \<and>
     sorted_wrt (\<lambda>x y. comp tree (key x) (key y) < 0) (map fst gs) \<and>
     (\<forall>g\<in>set gs. run_ok (comp tree) key g) \<and> count tree = of_nat (length (elems tree)) \<and>
     (\<not> allow_dups tree \<longrightarrow> (\<forall>g\<in>set gs. snd g = []))"

lemma flat_simps [simp]:
  "flat [] = []" "flat ((x, ds) # gs) = (x, True) # map (\<lambda>d. (d, False)) ds @ flat gs" "flat (gs @ hs) = flat gs @ flat hs"
  by (simp_all add: flat_def)

lemma elems_flat: "map fst (flat gs) = concat (map (\<lambda>g. fst g # snd g) gs)"
  by (induction gs) (auto simp: map_idI)

lemma set_flat: "set (map fst (flat gs)) = (\<Union>g\<in>set gs. set (fst g # snd g))"
  unfolding elems_flat by simp

lemma map_flag [simp]: "map (fst \<circ> (\<lambda>d. (d, f))) ds = ds"
  by (induction ds) simp_all

lemma leaders_distinct: "distinct (map fst (flat gs)) \<Longrightarrow> distinct (map fst gs)"
  unfolding elems_flat by (induction gs) auto

lemma takeWhile_flag: "takeWhile (\<lambda>y. \<not> snd y) (map (\<lambda>d. (d, False)) ds @ flat gs) = map (\<lambda>d. (d, False)) ds"
  by (induction ds) (cases gs; auto)+

lemma dropWhile_flag: "dropWhile (\<lambda>y. \<not> snd y) (map (\<lambda>d. (d, False)) ds @ flat gs) = flat gs"
  by (induction ds) (cases gs; auto)+

lemma split_flat:
  assumes "x \<notin> fst ` set a"
  shows "split_at x (a @ (x, f) # b) = (a, (x, f) # b)"
proof -
  have "takeWhile (\<lambda>y. fst y \<noteq> x) (a @ (x, f) # b) = a" "dropWhile (\<lambda>y. fst y \<noteq> x) (a @ (x, f) # b) = (x, f) # b"
    using assms by (auto simp: takeWhile_append dropWhile_append)
  then show ?thesis by (simp add: split_at_def)
qed

lemma add_before_flat:
  "x \<notin> fst ` set (flat g1) \<Longrightarrow> add_before x (new, True) (flat (g1 @ (x, ds) # g2)) = flat (g1 @ (new, []) # (x, ds) # g2)"
  by (simp add: add_before_def split_flat)

lemma add_after_flat:
  assumes "x \<notin> fst ` set (flat g1)"
  shows "add_after_run x (new, True) (flat (g1 @ (x, ds) # g2)) = flat (g1 @ (x, ds) # (new, []) # g2)"
    and "add_after_run x (new, False) (flat (g1 @ (x, ds) # g2)) = flat (g1 @ (x, ds @ [new]) # g2)"
  using assms by (simp_all add: add_after_run_def split_flat takeWhile_flag dropWhile_flag)

lemma avl_repD:
  assumes "avl_rep key gs tree"
  shows "list_head tree = flat gs" and "elems tree = map fst (flat gs)" and "distinct (map fst (flat gs))"
    and "avl_ok (root tree)" and "inorder (root tree) = map fst gs"
    and "sorted_wrt (\<lambda>x y. comp tree (key x) (key y) < 0) (map fst gs)"
    and "\<forall>g\<in>set gs. run_ok (comp tree) key g" and "count tree = of_nat (length (flat gs))"
    and "\<not> allow_dups tree \<Longrightarrow> \<forall>g\<in>set gs. snd g = []"
  using assms by (auto simp: avl_rep_def elems_def)

section \<open>Searching\<close>

context comparator
begin

abbreviation strictly :: "('e \<Rightarrow> 'k) \<Rightarrow> 'e list \<Rightarrow> bool" where
  "strictly key xs \<equiv> sorted_wrt (\<lambda>x y. cmp (key x) (key y) < 0) xs"

lemma find_rec_ok:
  assumes "avl_find_rec cmp key k t p = ((n, q), d)" and "t \<noteq> Leaf"
    and "strictly key (before p @ inorder t @ behind p)"
    and "\<forall>x\<in>set (before p). 0 < cmp k (key x)" and "\<forall>x\<in>set (behind p). cmp k (key x) < 0"
  shows "\<exists>l x b r. n = Node l x b r \<and> d = cmp k (key x) \<and>
    before q @ inorder n @ behind q = before p @ inorder t @ behind p \<and>
    (\<forall>y\<in>set (before q). 0 < cmp k (key y)) \<and> (\<forall>y\<in>set (behind q). cmp k (key y) < 0) \<and>
    (d < 0 \<longrightarrow> l = Leaf) \<and> (0 < d \<longrightarrow> r = Leaf) \<and>
    (avl_ok t \<longrightarrow> path_ok (height t) p \<longrightarrow> avl_ok n \<and> path_ok (height n) q)"
  using assms
proof (induction t arbitrary: p)
  case (Node l x b r)
  consider (l) "cmp k (key x) < 0" "l \<noteq> Leaf" | (r) "0 < cmp k (key x)" "r \<noteq> Leaf"
    | (stop) "cmp k (key x) < 0 \<longrightarrow> l = Leaf" "0 < cmp k (key x) \<longrightarrow> r = Leaf" by blast
  then show ?case
  proof cases
    case l
    let ?p = "IsLeft x b r # p"
    from l Node.prems(1) have f: "avl_find_rec cmp key k l ?p = ((n, q), d)" by (simp add: Let_def)
    have "cmp k (key y) < 0" if "y \<in> set (inorder r)" for y
    proof -
      have "cmp (key x) (key y) < 0" using Node.prems(3) that by (auto simp: sorted_wrt_append)
      then show ?thesis using l cmp_less_le_trans[of k "key x" "key y"] by simp
    qed
    then have s: "\<forall>y\<in>set (behind ?p). cmp k (key y) < 0" using l(1) Node.prems(5) by auto
    have e: "before ?p @ inorder l @ behind ?p = before p @ inorder (Node l x b r) @ behind p" by simp
    have h: "avl_ok (Node l x b r) \<Longrightarrow> path_ok (height (Node l x b r)) p \<Longrightarrow> avl_ok l \<and> path_ok (height l) ?p"
      unfolding avl_ok.simps path_ok.simps height.simps by blast
    have "strictly key (before ?p @ inorder l @ behind ?p)" "\<forall>y\<in>set (before ?p). 0 < cmp k (key y)"
      using Node.prems(3,4) unfolding e by simp_all
    from Node.IH(1)[OF f l(2) this s] h show ?thesis unfolding e by blast
  next
    case r
    let ?p = "IsRight l x b # p"
    from r Node.prems(1) have f: "avl_find_rec cmp key k r ?p = ((n, q), d)" by (simp add: Let_def)
    have "0 < cmp k (key y)" if "y \<in> set (inorder l)" for y
    proof -
      have "cmp (key y) (key x) < 0" using Node.prems(3) that by (auto simp: sorted_wrt_append)
      then show ?thesis
        using r cmp_pos_iff[of k "key x"] cmp_pos_iff[of k "key y"] cmp_less_le_trans[of "key y" "key x" k] by simp
    qed
    then have s: "\<forall>y\<in>set (before ?p). 0 < cmp k (key y)" using r(1) Node.prems(4) by auto
    have e: "before ?p @ inorder r @ behind ?p = before p @ inorder (Node l x b r) @ behind p" by simp
    have h: "avl_ok (Node l x b r) \<Longrightarrow> path_ok (height (Node l x b r)) p \<Longrightarrow> avl_ok r \<and> path_ok (height r) ?p"
      unfolding avl_ok.simps path_ok.simps height.simps by blast
    have "strictly key (before ?p @ inorder r @ behind ?p)" "\<forall>y\<in>set (behind ?p). cmp k (key y) < 0"
      using Node.prems(3,5) unfolding e by simp_all
    from Node.IH(2)[OF f r(2) this(1) s this(2)] h show ?thesis unfolding e by blast
  next
    case stop
    then have "n = Node l x b r" "q = p" "d = cmp k (key x)" using Node.prems(1) by (auto simp: Let_def split: if_splits)
    with stop Node.prems(4,5) show ?thesis by blast
  qed
qed simp

lemma takeWhile_split:
  "\<forall>x\<in>set xs. P x \<Longrightarrow> (ys = [] \<or> \<not> P (hd ys)) \<Longrightarrow> takeWhile P (xs @ ys) = xs \<and> dropWhile P (xs @ ys) = ys"
  by (cases ys) (auto simp: takeWhile_append dropWhile_append)

lemma store_insert_split:
  assumes "\<forall>y\<in>set xs. 0 \<le> cmp (key e) (key y)" and "ys = [] \<or> cmp (key e) (key (hd ys)) < 0"
    and "d \<or> (\<forall>y\<in>set (xs @ ys). cmp (key e) (key y) \<noteq> 0)"
  shows "store_insert cmp d key e (xs @ ys) = (0, xs @ e # ys)"
proof -
  from assms(2) have "ys = [] \<or> \<not> 0 \<le> cmp (key e) (key (hd ys))" by auto
  from takeWhile_split[OF assms(1) this] assms(3) show ?thesis unfolding store_insert_def by auto
qed

text \<open>All keys of a run compare like the key of its leader.\<close>

lemma run_cmp:
  assumes "run_ok cmp key g" and "y \<in> set (fst g # snd g)"
  shows "sgn (cmp k (key y)) = sgn (cmp k (key (fst g)))"
proof -
  have "cmp (key (fst g)) (key y) = 0" using assms by (auto simp: run_ok_def)
  from cmp_eq_left[OF this, of k] show ?thesis
    using cmp_antisym[of k "key (fst g)"] cmp_antisym[of k "key y"] by simp
qed

lemma runs_cmp:
  assumes "\<forall>g\<in>set gs. run_ok cmp key g" and "\<forall>x\<in>set (map fst gs). sgn (cmp k (key x)) = c"
  shows "\<forall>y\<in>set (map fst (flat gs)). sgn (cmp k (key y)) = c"
proof
  fix y assume "y \<in> set (map fst (flat gs))"
  then obtain g where g: "g \<in> set gs" "y \<in> set (fst g # snd g)" unfolding set_flat by blast
  then have "sgn (cmp k (key (fst g))) = c" using assms(2) by simp
  with run_cmp[OF bspec[OF assms(1) g(1)] g(2)] show "sgn (cmp k (key y)) = c" by simp
qed

section \<open>Insertion\<close>

text \<open>Where the search for a key ends: the node, its path, and the runs before and behind it.\<close>

definition search_end :: "('e \<Rightarrow> 'k) \<Rightarrow> 'k \<Rightarrow> ('e, 'k) avl_tree \<Rightarrow> 'e group list \<Rightarrow> 'e group list \<Rightarrow> 'e \<Rightarrow> 'e list \<Rightarrow>
    'e group list \<Rightarrow> 'e avl_node \<Rightarrow> int \<Rightarrow> 'e avl_node \<Rightarrow> 'e path \<Rightarrow> bool" where
  "search_end key k tree gs g1 x ds g2 l b r p \<longleftrightarrow>
     avl_find_rec cmp key k (root tree) [] = ((Node l x b r, p), cmp k (key x)) \<and> gs = g1 @ (x, ds) # g2 \<and>
     before p @ inorder l = map fst g1 \<and> inorder r @ behind p = map fst g2 \<and>
     (\<forall>y\<in>set (map fst g1). 0 < cmp k (key y)) \<and> (\<forall>y\<in>set (map fst g2). cmp k (key y) < 0) \<and>
     (cmp k (key x) < 0 \<longrightarrow> l = Leaf) \<and> (0 < cmp k (key x) \<longrightarrow> r = Leaf) \<and>
     avl_ok (Node l x b r) \<and> path_ok (height (Node l x b r)) p"

lemma search_endD:
  assumes "search_end key k tree gs g1 x ds g2 l b r p"
  shows "avl_find_rec cmp key k (root tree) [] = ((Node l x b r, p), cmp k (key x))" and "gs = g1 @ (x, ds) # g2"
    and "before p @ inorder l = map fst g1" and "inorder r @ behind p = map fst g2"
    and "\<forall>y\<in>set (map fst g1). 0 < cmp k (key y)" and "\<forall>y\<in>set (map fst g2). cmp k (key y) < 0"
    and "cmp k (key x) < 0 \<Longrightarrow> l = Leaf" and "0 < cmp k (key x) \<Longrightarrow> r = Leaf"
    and "avl_ok (Node l x b r)" and "path_ok (height (Node l x b r)) p"
  using assms unfolding search_end_def by blast+

lemma map_split3: "ys @ x # zs = map f gs \<Longrightarrow> \<exists>g1 g g2. gs = g1 @ g # g2 \<and> ys = map f g1 \<and> x = f g \<and> zs = map f g2"
  by (auto simp: append_eq_map_conv Cons_eq_map_conv)

lemma search_ends:
  assumes "avl_rep key gs tree" and "comp tree = cmp" and "gs \<noteq> []"
  obtains g1 x ds g2 l b r p where "search_end key k tree gs g1 x ds g2 l b r p"
proof -
  note rep = avl_repD[OF assms(1), unfolded assms(2)]
  have t: "root tree \<noteq> Leaf" using rep(5) assms(3) by auto
  obtain n q d where f: "avl_find_rec cmp key k (root tree) [] = ((n, q), d)" by (metis surj_pair)
  have "strictly key (before [] @ inorder (root tree) @ behind [])" using rep(5,6) by simp
  from find_rec_ok[OF f t this] obtain l x b r where n: "n = Node l x b r" "d = cmp k (key x)"
    "before q @ inorder n @ behind q = map fst gs" "\<forall>y\<in>set (before q). 0 < cmp k (key y)"
    "\<forall>y\<in>set (behind q). cmp k (key y) < 0" "d < 0 \<longrightarrow> l = Leaf" "0 < d \<longrightarrow> r = Leaf"
    "avl_ok n \<and> path_ok (height n) q" using rep(4,5) by auto
  have "(before q @ inorder l) @ x # inorder r @ behind q = map fst gs" using n(1,3) by simp
  then obtain g1 g g2 where gs: "gs = g1 @ g # g2" "before q @ inorder l = map fst g1" "x = fst g"
    "inorder r @ behind q = map fst g2" by (blast dest: map_split3)
  have s: "\<forall>y\<in>set (map fst g1). cmp (key y) (key x) < 0" "\<forall>y\<in>set (map fst g2). cmp (key x) (key y) < 0"
    using rep(6) gs by (auto simp: sorted_wrt_append)
  have "0 < cmp k (key y)" if "y \<in> set (inorder l)" for y
  proof -
    have "y \<in> set (map fst g1)" using that gs(2)[symmetric] by simp
    then show ?thesis using s(1) n(2,6) that cmp_less_le_trans[of "key y" "key x" k] cmp_pos_iff[of k "key y"]
      by (cases "d < 0") (auto simp: cmp_nonneg_iff not_less)
  qed
  then have g1: "\<forall>y\<in>set (map fst g1). 0 < cmp k (key y)" using n(4) unfolding gs(2)[symmetric] by auto
  have "cmp k (key y) < 0" if "y \<in> set (inorder r)" for y
  proof -
    have "y \<in> set (map fst g2)" using that gs(4)[symmetric] by simp
    then show ?thesis using s(2) n(2,7) that cmp_le_less_trans[of k "key x" "key y"] by (cases "0 < d") auto
  qed
  then have "\<forall>y\<in>set (map fst g2). cmp k (key y) < 0" using n(5) unfolding gs(4)[symmetric] by auto
  then have "search_end key k tree gs g1 x (snd g) g2 l b r q"
    unfolding search_end_def
    using f n(1,2,6-8) g1 gs by (simp del: avl_ok.simps path_ok.simps height.simps)
  then show thesis by (rule that)
qed

lemma run_sign:
  assumes "\<forall>g\<in>set gs. run_ok cmp key g" and "\<forall>y\<in>set (map fst gs). 0 < cmp k (key y)"
  shows "\<forall>y\<in>set (map fst (flat gs)). 0 < cmp k (key y)"
proof -
  from assms(2) have "\<forall>y\<in>set (map fst gs). sgn (cmp k (key y)) = 1" by (metis sgn_pos)
  from runs_cmp[OF assms(1) this] show ?thesis by (metis sgn_1_pos)
qed

lemma run_sign_neg:
  assumes "\<forall>g\<in>set gs. run_ok cmp key g" and "\<forall>y\<in>set (map fst gs). cmp k (key y) < 0"
  shows "\<forall>y\<in>set (map fst (flat gs)). cmp k (key y) < 0"
proof -
  from assms(2) have "\<forall>y\<in>set (map fst gs). sgn (cmp k (key y)) = -1" by (metis sgn_neg)
  from runs_cmp[OF assms(1) this] show ?thesis by (metis sgn_1_neg)
qed

lemma new_leader:
  assumes "avl_rep key (g1 @ g2) tree" and "comp tree = cmp" and "new \<notin> set (elems tree)"
    and "\<forall>y\<in>set (map fst g1). 0 < cmp (key new) (key y)" and "\<forall>y\<in>set (map fst g2). cmp (key new) (key y) < 0"
    and "avl_ok t" and "inorder t = map fst (g1 @ (new, []) # g2)"
    and "tree' = tree\<lparr>list_head := flat (g1 @ (new, []) # g2), count := count tree + 1, root := t\<rparr>"
  shows "avl_rep key (g1 @ (new, []) # g2) tree' \<and> store_insert cmp dups key new (elems tree) = (0, elems tree')"
proof
  note rep = avl_repD[OF assms(1), unfolded assms(2)]
  have "\<forall>y\<in>set (map fst g1). cmp (key y) (key new) < 0" using assms(4) cmp_pos_iff by blast
  then show "avl_rep key (g1 @ (new, []) # g2) tree'"
    unfolding avl_rep_def using assms(2-8) rep by (auto simp: elems_def run_ok_def sorted_wrt_append)
  have s: "\<forall>y\<in>set (map fst (flat g1)). 0 < cmp (key new) (key y)" "\<forall>y\<in>set (map fst (flat g2)). cmp (key new) (key y) < 0"
    using run_sign[OF _ assms(4)] run_sign_neg[OF _ assms(5)] rep(7) by auto
  have "store_insert cmp dups key new (map fst (flat g1) @ map fst (flat g2)) = (0, map fst (flat g1) @ new # map fst (flat g2))"
    by (rule store_insert_split; cases "flat g2") (use s in \<open>auto simp: less_imp_le\<close>)
  with rep(2) assms(8) show "store_insert cmp dups key new (elems tree) = (0, elems tree')" by (simp add: elems_def)
qed

text \<open>\<open>avl_insert\<close> inserts into the list of elements as \<open>store_insert\<close> does, on every branch: it answers
  a duplicate key, extends a run, or hangs a leaf below the node where the search ended.\<close>

abbreviation inserts :: "('e \<Rightarrow> 'k) \<Rightarrow> ('e, 'k) avl_tree \<Rightarrow> 'e \<Rightarrow> bool" where
  "inserts key tree new \<equiv>
     \<exists>r tree' gs'. avl_insert key tree new = Inr (r, tree') \<and> avl_rep key gs' tree' \<and> comp tree' = cmp \<and>
       allow_dups tree' = allow_dups tree \<and> (r, elems tree') = store_insert cmp (allow_dups tree) key new (elems tree)"

lemma insert_equal:
  assumes rep0: "avl_rep key gs tree" and cmp: "comp tree = cmp" and new: "new \<notin> set (elems tree)"
    and e: "search_end key (key new) tree gs g1 x ds g2 l b r p" and eq: "cmp (key new) (key x) = 0"
  shows "inserts key tree new"
proof (cases "allow_dups tree")
  case False
  have "x \<in> set (elems tree)" using avl_repD(2)[OF rep0] search_endD(2)[OF e] by simp
  with False search_endD(1)[OF e] eq cmp rep0 show ?thesis by (auto simp: avl_insert_def store_insert_def)
next
  case True
  note rep = avl_repD[OF rep0, unfolded cmp] and gs = search_endD(2)[OF e]
  have x: "x \<notin> fst ` set (flat g1)" using rep(3) unfolding gs by auto
  let ?gs = "g1 @ (x, ds @ [new]) # g2" and ?xs = "map fst (flat g1) @ x # ds"
  let ?tree = "tree\<lparr>list_head := flat ?gs, count := count tree + 1\<rparr>"
  have "avl_insert key tree new = Inr (0, ?tree)"
    using search_endD(1)[OF e] eq True add_after_flat(2)[OF x, of new ds g2] by (simp add: avl_insert_def cmp rep(1) gs)
  moreover have "avl_rep key ?gs ?tree"
    unfolding avl_rep_def using True rep new eq gs cmp_zero_iff[of "key x" "key new"]
    by (auto simp: elems_def cmp run_ok_def image_Un image_image)
  moreover have "store_insert cmp True key new (?xs @ map fst (flat g2)) = (0, ?xs @ new # map fst (flat g2))"
  proof (rule store_insert_split)
    have "\<forall>y\<in>set (map fst (flat g1)). 0 < cmp (key new) (key y)" using run_sign[OF _ search_endD(5)[OF e]] rep(7) gs by simp
    moreover have "cmp (key new) (key y) = 0" if "y \<in> set (x # ds)" for y
      using run_cmp[of key "(x, ds)" y "key new"] that rep(7) gs eq by (simp add: sgn_0_0)
    ultimately show "\<forall>y\<in>set ?xs. 0 \<le> cmp (key new) (key y)" by (auto simp: less_imp_le)
    show "map fst (flat g2) = [] \<or> cmp (key new) (key (hd (map fst (flat g2)))) < 0"
      using run_sign_neg[OF _ search_endD(6)[OF e]] rep(7) gs by (cases "flat g2") auto
  qed simp
  ultimately show ?thesis using True cmp rep(2) gs by (auto simp: elems_def map_idI)
qed

lemma insert_left:
  assumes rep0: "avl_rep key gs tree" and cmp: "comp tree = cmp" and new: "new \<notin> set (elems tree)"
    and e: "search_end key (key new) tree gs g1 x ds g2 l b r p" and lt: "cmp (key new) (key x) < 0"
  shows "inserts key tree new"
proof -
  note f = search_endD(1)[OF e] and gs = search_endD(2)[OF e] and io = search_endD(3,4)[OF e]
    and c = search_endD(5,6)[OF e] and ok = search_endD(9,10)[OF e] and rep = avl_repD[OF rep0, unfolded cmp]
  have x: "x \<notin> fst ` set (flat g1)" using rep(3) unfolding gs by auto
  let ?leaf = "Node Leaf new 0 Leaf"
  have b: "l = Leaf" "b = 0 \<or> b = 1" using search_endD(7)[OF e lt] ok(1) by (auto simp del: height_0_iff)
  obtain t where t: "avl_ok t" "inorder t = map fst (g1 @ (new, []) # (x, ds) # g2)"
    "avl_insert key tree new = Inr (0, tree\<lparr>list_head := add_before x (new, True) (list_head tree), count := count tree + 1, root := t\<rparr>)"
  proof (cases "b = 1")
    case True
    have "avl_ok (rebuild (Node ?leaf x 0 r) p)" using ok b True by (intro rebuild_ok) simp_all
    then show thesis using f lt b True io that[of "rebuild (Node ?leaf x 0 r) p"]
      by (simp add: avl_insert_def cmp inorder_rebuild)
  next
    case False
    with b have b0: "b = 0" by simp
    with ok b(1) have r: "r = Leaf" by simp
    have "\<exists>t. post_insert (Node ?leaf x (-1) Leaf) p = Inr t \<and> avl_ok t \<and>
        inorder t = before p @ inorder (Node ?leaf x (-1) Leaf) @ behind p"
      by (rule post_insert_ok[where h = 1]) (use ok b b0 r in \<open>simp_all add: bal_of_def\<close>)
    then show thesis using f lt b b0 r io that by (auto simp: avl_insert_def cmp)
  qed
  show ?thesis
    using new_leader[where ?g1.0 = g1 and ?g2.0 = "(x, ds) # g2" and t = t and dups = "allow_dups tree" and key = key,
        OF _ cmp new c(1) _ t(1,2) refl]
      rep0 lt c(2) gs t(3) add_before_flat[OF x, of new ds g2] by (auto simp: rep(1) cmp)
qed

lemma insert_right:
  assumes rep0: "avl_rep key gs tree" and cmp: "comp tree = cmp" and new: "new \<notin> set (elems tree)"
    and e: "search_end key (key new) tree gs g1 x ds g2 l b r p" and gt: "0 < cmp (key new) (key x)"
  shows "inserts key tree new"
proof -
  note f = search_endD(1)[OF e] and gs = search_endD(2)[OF e] and io = search_endD(3,4)[OF e]
    and c = search_endD(5,6)[OF e] and ok = search_endD(9,10)[OF e] and rep = avl_repD[OF rep0, unfolded cmp]
  have x: "x \<notin> fst ` set (flat g1)" using rep(3) unfolding gs by auto
  let ?leaf = "Node Leaf new 0 Leaf"
  have b: "r = Leaf" "b = 0 \<or> b = -1" using search_endD(8)[OF e gt] ok(1) by (auto simp del: height_0_iff)
  obtain t where t: "avl_ok t" "inorder t = map fst ((g1 @ [(x, ds)]) @ (new, []) # g2)"
    "avl_insert key tree new = Inr (0, tree\<lparr>list_head := add_after_run x (new, True) (list_head tree), count := count tree + 1, root := t\<rparr>)"
  proof (cases "b = -1")
    case True
    have "avl_ok (rebuild (Node l x 0 ?leaf) p)" using ok b True by (intro rebuild_ok) simp_all
    then show thesis using f gt b True io that[of "rebuild (Node l x 0 ?leaf) p"]
      by (simp add: avl_insert_def cmp inorder_rebuild)
  next
    case False
    with b have b0: "b = 0" by simp
    with ok b(1) have l: "l = Leaf" by simp
    have "\<exists>t. post_insert (Node Leaf x 1 ?leaf) p = Inr t \<and> avl_ok t \<and>
        inorder t = before p @ inorder (Node Leaf x 1 ?leaf) @ behind p"
      by (rule post_insert_ok[where h = 1]) (use ok b b0 l in \<open>simp_all add: bal_of_def\<close>)
    then show thesis using f gt b b0 l io that by (auto simp: avl_insert_def cmp)
  qed
  show ?thesis
    using new_leader[where ?g1.0 = "g1 @ [(x, ds)]" and ?g2.0 = g2 and t = t and dups = "allow_dups tree" and key = key,
        OF _ cmp new _ c(2) t(1,2) refl]
      rep0 gt c(1) gs t(3) add_after_flat(1)[OF x, of new ds g2] by (auto simp: rep(1) cmp)
qed

lemma avl_insert_ok:
  assumes rep: "avl_rep key gs tree" and cmp: "comp tree = cmp" and new: "new \<notin> set (elems tree)"
  shows "inserts key tree new"
proof (cases "gs = []")
  case True
  with rep have t: "root tree = Leaf" "list_head tree = []" "count tree = 0"
    by (auto simp: avl_rep_def elems_def) (cases "root tree"; simp)
  show ?thesis
    using new_leader[where ?g1.0 = "[]" and ?g2.0 = "[]" and t = "Node Leaf new 0 Leaf" and dups = "allow_dups tree",
        OF _ cmp new _ _ _ _ refl] rep True t
    by (auto simp: avl_insert_def cmp)
next
  case False
  from search_ends[OF rep cmp False] obtain g1 x ds g2 l b r p
    where e: "search_end key (key new) tree gs g1 x ds g2 l b r p" .
  show ?thesis
    using insert_equal[OF rep cmp new e] insert_left[OF rep cmp new e] insert_right[OF rep cmp new e]
    by (metis linorder_neqE_linordered_idom)
qed

section \<open>Removal\<close>

abbreviation removes :: "('e \<Rightarrow> 'k) \<Rightarrow> ('e, 'k) avl_tree \<Rightarrow> 'e \<Rightarrow> bool" where
  "removes key tree node \<equiv>
     \<exists>tree' gs'. avl_remove tree node = Inr tree' \<and> avl_rep key gs' tree' \<and> comp tree' = cmp \<and>
       allow_dups tree' = allow_dups tree \<and> elems tree' = remove1 node (elems tree)"

lemma remove1_split: "x \<notin> set xs \<Longrightarrow> remove1 x (xs @ x # ys) = xs @ ys"
  by (induction xs) auto

lemma remove_duplicate:
  assumes rep0: "avl_rep key (g1 @ (x, d1 @ node # d2) # g2) tree" and cmp: "comp tree = cmp"
  shows "removes key tree node"
proof -
  note rep = avl_repD[OF rep0, unfolded cmp]
  let ?a = "flat g1 @ (x, True) # map (\<lambda>d. (d, False)) d1" and ?b = "map (\<lambda>d. (d, False)) d2 @ flat g2"
  have n: "node \<notin> fst ` set ?a" using rep(3) by auto
  then have "split_at node (list_head tree) = (?a, (node, False) # ?b)"
    using split_flat[OF n, of False ?b] by (simp add: rep(1))
  moreover have "elems (tree\<lparr>list_head := ?a @ ?b, count := count tree - 1\<rparr>) = remove1 node (elems tree)"
    using remove1_split[of node "map fst ?a" "map fst ?b"] n by (simp add: rep(1) elems_def image_Un image_image)
  moreover have "avl_rep key (g1 @ (x, d1 @ d2) # g2) (tree\<lparr>list_head := ?a @ ?b, count := count tree - 1\<rparr>)"
    unfolding avl_rep_def using rep by (auto simp: elems_def cmp run_ok_def)
  ultimately show ?thesis using cmp by (auto simp: avl_remove_def Let_def)
qed

lemma remove_leader:
  assumes rep0: "avl_rep key (g1 @ (node, d # ds) # g2) tree" and cmp: "comp tree = cmp"
  shows "removes key tree node"
proof -
  note rep = avl_repD[OF rep0, unfolded cmp]
  let ?gs = "g1 @ (d, ds) # g2"
  let ?tree = "tree\<lparr>count := count tree - 1, list_head := flat ?gs, root := replace_elem node d (root tree)\<rparr>"
  have n: "node \<notin> fst ` set (flat g1)" "node \<notin> set (map fst (g1 @ g2))"
    using rep(3) leaders_distinct[OF rep(3)] by auto
  then have "split_at node (list_head tree) = (flat g1, (node, True) # (d, False) # map (\<lambda>d. (d, False)) ds @ flat g2)"
    using split_flat[OF n(1), of True "(d, False) # map (\<lambda>d. (d, False)) ds @ flat g2"] by (simp add: rep(1))
  moreover have "allow_dups tree" using rep(9) by auto
  moreover have "elems ?tree = remove1 node (elems tree)"
    using remove1_split[of node "map fst (flat g1)"] n(1) by (simp add: rep(1) elems_def)
  moreover have "avl_rep key ?gs ?tree"
  proof -
    have i: "inorder (replace_elem node d (root tree)) = map fst ?gs"
      using n(2) map_replace_id[of node "map fst g1" d] map_replace_id[of node "map fst g2" d]
      by (simp add: inorder_replace rep(5))
    have z: "cmp (key node) (key d) = 0" using rep(7) by (simp add: run_ok_def)
    have "sorted_wrt (\<lambda>x y. cmp (key x) (key y) < 0) (map fst ?gs)"
    proof -
      have "cmp (key y) (key d) < 0" if "y \<in> set (map fst g1)" for y
        using that rep(6) cmp_eq_left[OF z, of "key y"] cmp_antisym[of "key y" "key d"] cmp_antisym[of "key y" "key node"]
        by (auto simp: sorted_wrt_append sgn_if split: if_splits)
      moreover have "cmp (key d) (key y) < 0" if "y \<in> set (map fst g2)" for y
        using that rep(6) cmp_eq_left[OF z, of "key y"] by (auto simp: sorted_wrt_append sgn_if split: if_splits)
      ultimately show ?thesis using rep(6) by (auto simp: sorted_wrt_append)
    qed
    moreover have "\<forall>y\<in>set ds. cmp (key d) (key y) = 0"
    proof
      fix y assume "y \<in> set ds"
      with rep(7) have "cmp (key node) (key y) = 0" by (simp add: run_ok_def)
      with cmp_eq_left[OF z, of "key y"] show "cmp (key d) (key y) = 0" by (simp add: sgn_0_0)
    qed
    ultimately show ?thesis
    unfolding avl_rep_def using rep i replace_ok[of "root tree" node d] by (auto simp: elems_def cmp run_ok_def)
  qed
  ultimately show ?thesis using cmp by (auto simp: avl_remove_def Let_def)
qed

lemma remove_single:
  assumes rep0: "avl_rep key (g1 @ (node, []) # g2) tree" and cmp: "comp tree = cmp"
  shows "removes key tree node"
proof -
  note rep = avl_repD[OF rep0, unfolded cmp]
  have n: "node \<notin> fst ` set (flat g1)" using rep(3) by auto
  then have s: "split_at node (list_head tree) = (flat g1, (node, True) # flat g2)"
    using split_flat[OF n, of True "flat g2"] by (simp add: rep(1))
  obtain m q where m: "node_of node (root tree) [] = Some (m, q)"
    using node_of_None[of node "root tree" "[]"] rep(5) by fastforce
  from node_of_Some[OF this] rep(4,5) obtain l b r where w: "m = Node l node b r" "avl_ok m" "path_ok (height m) q"
    "before q @ inorder m @ behind q = map fst (g1 @ (node, []) # g2)" by auto
  have d: "distinct (map fst (g1 @ (node, []) # g2))" using leaders_distinct[OF rep(3)] .
  have "(before q @ inorder l) @ node # inorder r @ behind q = map fst g1 @ node # map fst g2"
    using w(1,4) by simp
  moreover have "remove1 node ((before q @ inorder l) @ node # inorder r @ behind q) = (before q @ inorder l) @ inorder r @ behind q"
    by (rule remove1_split) (use w(1) d[folded w(4)] in auto)
  moreover have "remove1 node (map fst g1 @ node # map fst g2) = map fst g1 @ map fst g2"
    by (rule remove1_split) (use d in auto)
  ultimately have io: "before q @ inorder l @ inorder r @ behind q = map fst (g1 @ g2)" by simp
  from avl_remove_worker_ok[of l node b r q] w d io obtain t where t: "avl_remove_worker m q = Inr t" "avl_ok t"
    "inorder t = map fst (g1 @ g2)" by (metis)
  let ?tree = "tree\<lparr>list_head := flat (g1 @ g2), count := count tree - 1, root := t\<rparr>"
  have "avl_remove tree node = Inr ?tree"
    using s m t(1) by (cases g2) (auto simp: avl_remove_def Let_def)
  moreover have "elems ?tree = remove1 node (elems tree)"
    using remove1_split[of node "map fst (flat g1)"] n by (simp add: rep(1) elems_def)
  moreover have "avl_rep key (g1 @ g2) ?tree"
    unfolding avl_rep_def using rep t by (auto simp: elems_def cmp sorted_wrt_append)
  ultimately show ?thesis using cmp by auto
qed

text \<open>\<open>avl_remove\<close> takes exactly the given element out.\<close>

lemma avl_remove_ok:
  assumes "avl_rep key gs tree" and "comp tree = cmp" and "node \<in> set (elems tree)"
  shows "removes key tree node"
proof -
  have "node \<in> (\<Union>g\<in>set gs. set (fst g # snd g))"
    using assms(3) unfolding avl_repD(2)[OF assms(1)] set_flat .
  then obtain g where "g \<in> set gs" "node \<in> set (fst g # snd g)" by blast
  moreover obtain x ds where "g = (x, ds)" by (cases g)
  ultimately obtain g1 g2 where gs: "gs = g1 @ (x, ds) # g2" "node = x \<or> node \<in> set ds"
    by (auto dest: split_list)
  show ?thesis
  proof (cases "node = x")
    case True
    with remove_leader[of key g1 node _ _ g2 tree] remove_single[of key g1 node g2 tree] gs(1) assms(1,2)
    show ?thesis by (cases ds) auto
  next
    case False
    with gs(2) obtain d1 d2 where "ds = d1 @ node # d2" by (auto dest: split_list)
    with remove_duplicate[of key g1 x d1 node d2 g2 tree] gs(1) assms(1,2) show ?thesis by auto
  qed
qed

section \<open>Lookup\<close>

lemma find_append: "find P (xs @ ys) = (case find P xs of None \<Rightarrow> find P ys | r \<Rightarrow> r)"
  by (induction xs) auto

text \<open>\<open>avl_find\<close> answers the first element of the list with the key.\<close>

lemma avl_find_ok:
  assumes rep0: "avl_rep key gs tree" and cmp: "comp tree = cmp"
  shows "avl_find key tree k = find (\<lambda>x. cmp k (key x) = 0) (elems tree)"
proof (cases "gs = []")
  case True
  with rep0 have "root tree = Leaf" "elems tree = []" by (auto simp: avl_rep_def elems_def) (cases "root tree"; simp)
  then show ?thesis by (simp add: avl_find_def)
next
  case False
  from search_ends[OF rep0 cmp False] obtain g1 x ds g2 l b r p
    where e: "search_end key k tree gs g1 x ds g2 l b r p" .
  note rep = avl_repD[OF rep0, unfolded cmp] and gs = search_endD(2)[OF e]
  have t: "root tree \<noteq> Leaf" using rep(5) False by auto
  have s: "\<forall>y\<in>set (map fst (flat g1)). cmp k (key y) \<noteq> 0" "\<forall>y\<in>set (map fst (flat g2)). cmp k (key y) \<noteq> 0"
    using run_sign[OF _ search_endD(5)[OF e]] run_sign_neg[OF _ search_endD(6)[OF e]] rep(7) gs by force+
  have "sgn (cmp k (key y)) = sgn (cmp k (key x))" if "y \<in> set ds" for y
    using run_cmp[of key "(x, ds)" y k] rep(7) gs that by simp
  then have d: "cmp k (key x) \<noteq> 0 \<Longrightarrow> \<forall>y\<in>set ds. cmp k (key y) \<noteq> 0" by (metis sgn_0_0)
  have n: "find (\<lambda>x. cmp k (key x) = 0) (map fst (flat g1)) = None" using s(1) by (simp add: find_None_iff)
  show ?thesis
  proof (cases "cmp k (key x) = 0")
    case True
    with search_endD(1)[OF e] t show ?thesis by (simp add: avl_find_def cmp rep(2) gs find_append n)
  next
    case False
    then have "find (\<lambda>x. cmp k (key x) = 0) (elems tree) = None"
      using s d by (auto simp: find_None_iff rep(2) gs)
    with False search_endD(1)[OF e] t show ?thesis by (simp add: avl_find_def cmp)
  qed
qed

text \<open>\<open>avl_find_lessequal\<close> and \<open>avl_find_greaterequal\<close>: the last element not above, the first not below the key.\<close>

lemma around_flat:
  assumes "avl_rep key gs tree" and "gs = g1 @ (x, ds) # g2"
  shows "around x (list_head tree) = (rev (map fst (flat g1)), ds @ map fst (flat g2))"
proof -
  have e: "map fst (list_head tree) = map fst (flat g1) @ x # ds @ map fst (flat g2)"
    using avl_repD(1)[OF assms(1)] assms(2) by simp
  have "x \<notin> set (map fst (flat g1))" using avl_repD(3)[OF assms(1)] assms(2) by auto
  then have "takeWhile (\<lambda>y. y \<noteq> x) (map fst (flat g1) @ x # ds @ map fst (flat g2)) = map fst (flat g1) \<and>
      dropWhile (\<lambda>y. y \<noteq> x) (map fst (flat g1) @ x # ds @ map fst (flat g2)) = x # ds @ map fst (flat g2)"
    by (intro takeWhile_split) auto
  then show ?thesis unfolding around_def e by simp
qed

lemma sorted_wrt_all: "(\<And>x y. x \<in> set xs \<Longrightarrow> y \<in> set xs \<Longrightarrow> R x y) \<Longrightarrow> sorted_wrt R xs"
  by (induction xs) auto

lemma runs_less:
  assumes "run_ok cmp key g" and "run_ok cmp key h" and "y \<in> set (fst g # snd g)" and "z \<in> set (fst h # snd h)"
  shows "sgn (cmp (key y) (key z)) = sgn (cmp (key (fst g)) (key (fst h)))"
  using run_cmp[OF assms(2,4), of "key y"] run_cmp[OF assms(1,3), of "key (fst h)"]
    cmp_antisym[of "key y" "key (fst h)"] cmp_antisym[of "key (fst g)" "key (fst h)"] by simp

lemma flat_sorted:
  assumes "\<forall>g\<in>set gs. run_ok cmp key g" and "strictly key (map fst gs)"
  shows "store_sorted cmp key (map fst (flat gs))"
  using assms
proof (induction gs)
  case (Cons g gs)
  have "store_sorted cmp key (fst g # snd g)"
    unfolding store_sorted_def using runs_less[of key g g] Cons.prems(1)
    by (intro sorted_wrt_all) (metis cmp_refl eq_refl list.set_intros(1) sgn_0_0)
  moreover have "cmp (key y) (key z) \<le> 0" if y: "y \<in> set (fst g # snd g)" and z: "z \<in> set (map fst (flat gs))" for y z
  proof -
    from z obtain h where h: "h \<in> set gs" "z \<in> set (fst h # snd h)" unfolding set_flat by blast
    with Cons.prems runs_less[of key g h y z] y have "sgn (cmp (key y) (key z)) = -1" by (simp add: sgn_neg)
    then show ?thesis by (simp add: sgn_1_neg)
  qed
  ultimately show ?case
    using Cons by (auto simp: store_sorted_def elems_flat sorted_wrt_append)
qed (simp add: store_sorted_def)

lemma avl_sorted: "avl_rep key gs tree \<Longrightarrow> comp tree = cmp \<Longrightarrow> store_sorted cmp key (elems tree)"
  using flat_sorted[of gs key] avl_repD(2,6,7)[of key gs tree] by simp

end

text \<open>On a list where \<open>P\<close> holds up to some element, the walk ends at the last element that satisfies it.\<close>

lemma walk_on_last:
  "sorted_wrt (\<lambda>x y. P y \<longrightarrow> P x) (x # ys) \<Longrightarrow> P x \<Longrightarrow> walk_on P x ys = last (filter P (x # ys))"
  by (induction P x ys rule: walk_on.induct) (auto simp: filter_empty_conv)

lemma walk_here:
  assumes "sorted_wrt (\<lambda>x y. P y \<longrightarrow> P x) (xs @ x # bs)"
  shows "P x \<Longrightarrow> filter P (xs @ x # bs) \<noteq> [] \<and> last (filter P (xs @ x # bs)) = walk_on P x bs"
    and "\<not> P x \<Longrightarrow> filter P (x # bs) = []"
  using assms walk_on_last[of P x bs] by (auto simp: sorted_wrt_append filter_empty_conv)

lemma walk_last:
  assumes "sorted_wrt (\<lambda>x y. P y \<longrightarrow> P x) (rev ys @ x # bs)"
  shows "walk P x bs ys = (let xs = filter P (rev ys @ x # bs) in if xs = [] then None else Some (last xs))"
  using assms
proof (induction P x bs ys rule: walk.induct)
  case (1 P x bs)
  then show ?case using walk_here[of P "[]" x bs] by (auto simp: Let_def)
next
  case (2 P x bs y ys)
  show ?case
  proof (cases "P x")
    case True
    with walk_here(1)[OF "2.prems"] show ?thesis by (simp add: Let_def)
  next
    case False
    with 2 show ?thesis by simp
  qed
qed

context comparator
begin

lemma around_search:
  assumes "avl_rep key gs tree" and "comp tree = cmp" and "gs \<noteq> []"
  obtains n p d prev succ where "avl_find_rec cmp key k (root tree) [] = ((n, p), d)"
    "around (elem n) (list_head tree) = (prev, succ)" "elems tree = rev prev @ elem n # succ"
proof -
  from search_ends[OF assms] obtain g1 x ds g2 l b r p where e: "search_end key k tree gs g1 x ds g2 l b r p" .
  from that[OF search_endD(1)[OF e]] around_flat[OF assms(1) search_endD(2)[OF e]] search_endD(2)[OF e]
  show thesis by (simp add: avl_repD(2)[OF assms(1)] rev_swap[symmetric])
qed

lemma avl_find_lessequal_ok:
  assumes "avl_rep key gs tree" and "comp tree = cmp"
  shows "avl_find_lessequal key tree k =
    (let xs = filter (\<lambda>x. cmp (key x) k \<le> 0) (elems tree) in if xs = [] then None else Some (last xs))"
proof (cases "gs = []")
  case True
  with assms(1) have "root tree = Leaf" "elems tree = []" by (auto simp: avl_rep_def elems_def) (cases "root tree"; simp)
  then show ?thesis by (simp add: avl_find_lessequal_def)
next
  case False
  from around_search[OF assms False] obtain n p d prev succ where
    s: "avl_find_rec cmp key k (root tree) [] = ((n, p), d)" "around (elem n) (list_head tree) = (prev, succ)"
    "elems tree = rev prev @ elem n # succ" .
  have P: "(\<lambda>x. \<not> cmp k (key x) < 0) = (\<lambda>x. cmp (key x) k \<le> 0)" by (auto simp: not_less cmp_nonneg_iff)
  have "sorted_wrt (\<lambda>x y. cmp (key y) k \<le> 0 \<longrightarrow> cmp (key x) k \<le> 0) (elems tree)"
    by (rule sorted_wrt_mono_rel[OF _ avl_sorted[OF assms, unfolded store_sorted_def]]) (blast intro: cmp_trans)
  moreover have "root tree \<noteq> Leaf" using avl_repD(5)[OF assms(1)] False by auto
  ultimately show ?thesis using s assms(2)
    by (simp add: avl_find_lessequal_def P walk_last)
qed

lemma find_filter: "find P xs = (let ys = filter P xs in if ys = [] then None else Some (hd ys))"
  by (induction xs) (auto simp: Let_def)

lemma avl_find_greaterequal_ok:
  assumes "avl_rep key gs tree" and "comp tree = cmp"
  shows "avl_find_greaterequal key tree k = find (\<lambda>x. 0 \<le> cmp (key x) k) (elems tree)"
proof (cases "gs = []")
  case True
  with assms(1) have "root tree = Leaf" "elems tree = []" by (auto simp: avl_rep_def elems_def) (cases "root tree"; simp)
  then show ?thesis by (simp add: avl_find_greaterequal_def)
next
  case False
  from around_search[OF assms False] obtain n p d prev succ where
    s: "avl_find_rec cmp key k (root tree) [] = ((n, p), d)" "around (elem n) (list_head tree) = (prev, succ)"
    "elems tree = rev prev @ elem n # succ" .
  have P: "(\<lambda>x. \<not> 0 < cmp k (key x)) = (\<lambda>x. 0 \<le> cmp (key x) k)" by (auto simp: not_less cmp_nonneg_iff)
  have "sorted_wrt (\<lambda>x y. 0 \<le> cmp (key x) k \<longrightarrow> 0 \<le> cmp (key y) k) (elems tree)"
    by (rule sorted_wrt_mono_rel[OF _ avl_sorted[OF assms, unfolded store_sorted_def]])
      (use cmp_nonneg_iff cmp_trans in blast)
  then have w: "sorted_wrt (\<lambda>x y. 0 \<le> cmp (key y) k \<longrightarrow> 0 \<le> cmp (key x) k) (rev (elems tree))"
    by (simp add: sorted_wrt_rev)
  have "root tree \<noteq> Leaf" using avl_repD(5)[OF assms(1)] False by auto
  with s assms(2) walk_last[of "\<lambda>x. 0 \<le> cmp (key x) k" succ "elem n" prev] w show ?thesis
    by (simp add: avl_find_greaterequal_def P find_filter s(3) Let_def rev_filter[symmetric] last_rev hd_rev)
qed

end

end
