(* ===== verification/AvlContainer.thy ===== *)
theory AvlContainer
  imports AvlStore
begin

text \<open>
  The interface of \<open>lib/common/avl.h\<close> as a contract, its consequences for any client, and its
  implementation by the tree: the properties of \<open>avl_insert\<close>, \<open>avl_remove\<close> and the three searches.
\<close>

section \<open>The contract\<close>

locale ordered_container = comparator cmp for cmp :: "'k \<Rightarrow> 'k \<Rightarrow> int" +
  fixes ins :: "'t \<Rightarrow> 'e \<Rightarrow> halt + int \<times> 't" and rem :: "'t \<Rightarrow> 'e \<Rightarrow> halt + 't"
    and look :: "'t \<Rightarrow> 'k \<Rightarrow> 'e option" and items :: "'t \<Rightarrow> 'e list" and inv :: "'t \<Rightarrow> bool"
    and dups :: bool and key :: "'e \<Rightarrow> 'k"
  assumes ins_spec: "inv t \<Longrightarrow> e \<notin> set (items t) \<Longrightarrow>
      \<exists>r t'. ins t e = Inr (r, t') \<and> inv t' \<and> (r, items t') = store_insert cmp dups key e (items t)"
    and rem_spec: "inv t \<Longrightarrow> e \<in> set (items t) \<Longrightarrow>
      \<exists>t'. rem t e = Inr t' \<and> inv t' \<and> items t' = remove1 e (items t)"
    and look_spec: "inv t \<Longrightarrow> look t k = find (\<lambda>x. cmp k (key x) = 0) (items t)"
begin

text \<open>Inserting one element after the other.\<close>

fun ins_all :: "'t \<Rightarrow> 'e list \<Rightarrow> halt + 't" where
  "ins_all t [] = Inr t"
| "ins_all t (e # es) = rbind (ins t e) (\<lambda>(r, t'). ins_all t' es)"

lemma store_insert_cases:
  "store_insert cmp dups key e xs = (r, ys) \<Longrightarrow> (r = 0 \<and> set ys = insert e (set xs)) \<or> (r = -1 \<and> ys = xs \<and> \<not> dups)"
  using store_insert_set[of cmp dups key e xs ys] by (auto simp: store_insert_def split: if_splits)

lemma ins_all_ok:
  assumes "inv t" and "distinct es" and "set es \<inter> set (items t) = {}"
    and "store_sorted cmp key (items t)"
  shows "\<exists>t'. ins_all t es = Inr t' \<and> inv t' \<and> store_sorted cmp key (items t') \<and>
    set (items t') \<subseteq> set es \<union> set (items t) \<and> (dups \<longrightarrow> set (items t') = set es \<union> set (items t))"
  using assms
proof (induction es arbitrary: t)
  case (Cons e es)
  then obtain r t' where t': "ins t e = Inr (r, t')" "inv t'" "(r, items t') = store_insert cmp dups key e (items t)"
    using ins_spec[of t e] by auto
  have c: "(r = 0 \<and> set (items t') = insert e (set (items t))) \<or> (r = -1 \<and> items t' = items t \<and> \<not> dups)"
    using store_insert_cases t'(3) by metis
  have "store_sorted cmp key (items t')"
    using store_insert_sorted[OF Cons.prems(4)] t'(3) by (metis snd_conv)
  moreover have "set es \<inter> set (items t') = {}" using Cons.prems(2,3) c by auto
  ultimately obtain u where "ins_all t' es = Inr u" "inv u" "store_sorted cmp key (items u)"
    "set (items u) \<subseteq> set es \<union> set (items t')" "dups \<longrightarrow> set (items u) = set es \<union> set (items t')"
    using Cons.IH[of t'] Cons.prems(2) t'(2) by auto
  with t'(1) c show ?case by auto
qed simp

lemma ins_rem:
  assumes "inv t" and "e \<notin> set (items t)" and "ins t e = Inr (0, t1)"
  shows "\<exists>t2. rem t1 e = Inr t2 \<and> inv t2 \<and> items t2 = items t"
proof -
  let ?P = "\<lambda>x. 0 \<le> cmp (key e) (key x)"
  from ins_spec[OF assms(1,2)] assms(3) have t1: "inv t1" "items t1 = takeWhile ?P (items t) @ e # dropWhile ?P (items t)"
    by (auto simp: store_insert_def split: if_splits)
  then obtain t2 where t2: "rem t1 e = Inr t2" "inv t2" "items t2 = remove1 e (items t1)"
    using rem_spec[of t1 e] by auto
  have "e \<notin> set (takeWhile ?P (items t))" using assms(2) set_takeWhileD by metis
  with t2 t1(2) show ?thesis using remove1_split[of e "takeWhile ?P (items t)"] by simp
qed

lemma ins_look:
  assumes "inv t" and "e \<notin> set (items t)" and "ins t e = Inr (0, t1)" and "look t (key e) = None"
  shows "look t1 (key e) = Some e"
proof -
  let ?P = "\<lambda>x. 0 \<le> cmp (key e) (key x)"
  from ins_spec[OF assms(1,2)] assms(3) have t1: "inv t1" "items t1 = takeWhile ?P (items t) @ e # dropWhile ?P (items t)"
    by (auto simp: store_insert_def split: if_splits)
  have "\<forall>x\<in>set (items t). cmp (key e) (key x) \<noteq> 0" using assms(4) by (simp add: look_spec[OF assms(1)] find_None_iff)
  then have "find (\<lambda>x. cmp (key e) (key x) = 0) (takeWhile ?P (items t)) = None"
    by (auto simp: find_None_iff dest: set_takeWhileD)
  then show ?thesis unfolding look_spec[OF t1(1)] t1(2) by (simp add: find_append)
qed

end

section \<open>The tree implements it\<close>

definition avl_inv :: "('k \<Rightarrow> 'k \<Rightarrow> int) \<Rightarrow> bool \<Rightarrow> ('e \<Rightarrow> 'k) \<Rightarrow> ('e, 'k) avl_tree \<Rightarrow> bool" where
  "avl_inv cmp dups key tree \<longleftrightarrow> comp tree = cmp \<and> allow_dups tree = dups \<and> (\<exists>gs. avl_rep key gs tree)"

lemma avl_init_inv: "avl_inv cmp dups key (avl_init cmp dups)" "elems (avl_init cmp dups) = []"
  unfolding avl_inv_def by (auto simp: avl_init_def avl_rep_def elems_def intro!: exI[of _ "[]"])

sublocale comparator \<subseteq> avl: ordered_container cmp "avl_insert key" avl_remove "avl_find key" elems "avl_inv cmp dups key" dups key
  for dups :: bool and key :: "'e \<Rightarrow> 'k"
proof
  fix t e assume t: "avl_inv cmp dups key t"
  then obtain gs where gs: "avl_rep key gs t" "comp t = cmp" "allow_dups t = dups" by (auto simp: avl_inv_def)
  show "\<exists>r t'. avl_insert key t e = Inr (r, t') \<and> avl_inv cmp dups key t' \<and> (r, elems t') = store_insert cmp dups key e (elems t)"
    if "e \<notin> set (elems t)"
    using avl_insert_ok[OF gs(1,2) that] gs(3) unfolding avl_inv_def by blast
  show "\<exists>t'. avl_remove t e = Inr t' \<and> avl_inv cmp dups key t' \<and> elems t' = remove1 e (elems t)" if "e \<in> set (elems t)"
    using avl_remove_ok[OF gs(1,2) that] gs(3) unfolding avl_inv_def by blast
next
  fix t k assume "avl_inv cmp dups key t"
  then show "avl_find key t k = find (\<lambda>x. cmp k (key x) = 0) (elems t)"
    using avl_find_ok unfolding avl_inv_def by blast
qed

context comparator
begin

lemma avl_container: "ordered_container cmp (avl_insert key) avl_remove (avl_find key) elems (avl_inv cmp dups key) dups key"
  by (rule avl.ordered_container_axioms)

end

interpretation avl32: ordered_container avl_comp_uint32 "avl_insert key" avl_remove "avl_find key" elems
  "avl_inv avl_comp_uint32 dups key" dups key for dups :: bool and key :: "'e \<Rightarrow> u32"
  by (rule avl_u32.avl.ordered_container_axioms)

interpretation avl8: ordered_container avl_comp_uint8 "avl_insert key" avl_remove "avl_find key" elems
  "avl_inv avl_comp_uint8 dups key" dups key for dups :: bool and key :: "'e \<Rightarrow> u8"
  by (rule avl_u8.avl.ordered_container_axioms)

section \<open>Depth\<close>

lemma avl_size: "avl_ok t \<Longrightarrow> 2 ^ (height t div 2) \<le> Suc (length (inorder t))"
proof (induction t)
  case (Node l x b r)
  have h: "Suc (max (height l) (height r)) div 2 - 1 \<le> height l div 2" "Suc (max (height l) (height r)) div 2 - 1 \<le> height r div 2"
    using Node.prems by auto
  have "(2::nat) ^ m \<le> 2 * 2 ^ (m - 1)" for m by (cases m) auto
  then have "(2::nat) ^ (Suc (max (height l) (height r)) div 2) \<le> 2 * 2 ^ (Suc (max (height l) (height r)) div 2 - 1)" .
  also have "\<dots> = 2 ^ (Suc (max (height l) (height r)) div 2 - 1) + 2 ^ (Suc (max (height l) (height r)) div 2 - 1)"
    by (rule mult_2)
  also have "\<dots> \<le> 2 ^ (height l div 2) + 2 ^ (height r div 2)"
    by (intro add_mono power_increasing h) simp_all
  finally show ?case using Node by simp
qed simp

lemma avl_find_rec_path:
  "avl_find_rec cmp key k t p = ((n, q), d) \<Longrightarrow> length q \<le> length p + (height t - 1)"
proof (induction t arbitrary: p)
  case (Node l x b r)
  from Node.prems consider "q = p" | "l \<noteq> Leaf" "avl_find_rec cmp key k l (IsLeft x b r # p) = ((n, q), d)"
    | "r \<noteq> Leaf" "avl_find_rec cmp key k r (IsRight l x b # p) = ((n, q), d)"
    by (auto simp: Let_def split: if_splits)
  then show ?case
  proof cases
    case 2
    from Node.IH(1)[OF 2(2)] 2(1) show ?thesis by (cases l) auto
  next
    case 3
    from Node.IH(2)[OF 3(2)] 3(1) show ?thesis by (cases r) auto
  qed simp
qed simp

text \<open>The trees that a client builds: from the empty tree by any sequence of insertions and removals.\<close>

inductive avl_built :: "('k \<Rightarrow> 'k \<Rightarrow> int) \<Rightarrow> bool \<Rightarrow> ('e \<Rightarrow> 'k) \<Rightarrow> ('e, 'k) avl_tree \<Rightarrow> bool" for cmp dups key where
  init: "avl_built cmp dups key (avl_init cmp dups)"
| ins: "avl_built cmp dups key t \<Longrightarrow> e \<notin> set (elems t) \<Longrightarrow> avl_insert key t e = Inr (r, t') \<Longrightarrow> avl_built cmp dups key t'"
| rem: "avl_built cmp dups key t \<Longrightarrow> e \<in> set (elems t) \<Longrightarrow> avl_remove t e = Inr t' \<Longrightarrow> avl_built cmp dups key t'"

lemma avl_built_inv:
  assumes "comparator cmp" and "avl_built cmp dups key t"
  shows "avl_inv cmp dups key t"
  using assms(2)
proof induction
  case init
  show ?case by (rule avl_init_inv)
next
  case (ins t e r t')
  from ordered_container.ins_spec[OF comparator.avl_container[OF assms(1)] ins.IH ins.hyps(2)] ins.hyps(3) show ?case
    by auto
next
  case (rem t e t')
  from ordered_container.rem_spec[OF comparator.avl_container[OF assms(1)] rem.IH rem.hyps(2)] rem.hyps(3) show ?case
    by auto
qed

lemma avl_search_path:
  assumes "avl_inv cmp dups key t" and "root t \<noteq> Leaf" and "avl_find_rec (comp t) key k (root t) [] = ((n, path), d)"
  shows "2 ^ (Suc (length path) div 2) \<le> Suc (length (elems t))"
proof -
  from assms(1) obtain gs where "avl_rep key gs t" by (auto simp: avl_inv_def)
  note rep = avl_repD[OF this]
  have "length gs \<le> length (flat gs)" by (induction gs) auto
  then have "length (inorder (root t)) \<le> length (elems t)" using rep(2,5) by simp
  moreover have "Suc (length path) \<le> height (root t)"
    using avl_find_rec_path[OF assms(3)] assms(2) by (cases "root t") auto
  then have "(2::nat) ^ (Suc (length path) div 2) \<le> 2 ^ (height (root t) div 2)"
    by (intro power_increasing div_le_mono) simp_all
  ultimately show ?thesis using avl_size[OF rep(4)] by linarith
qed

section \<open>Properties\<close>

text \<open>A sample: four elements, two of them with the same key.\<close>

definition sample_tree :: "(nat \<times> u32, u32) avl_tree" where
  "sample_tree = \<lparr>list_head = [((1, 5), True), ((2, 7), True), ((3, 7), False), ((4, 9), True)],
     root = Node (Node Leaf (1, 5) 0 Leaf) (2, 7) 0 (Node Leaf (4, 9) 0 Leaf), count = 4, allow_dups = True,
     comp = avl_comp_uint32\<rparr>"

lemma sample_rep: "avl_rep snd [((1, 5), []), ((2, 7), [(3, 7)]), ((4, 9), [])] sample_tree"
  by code_simp

lemma sample_inv: "avl_inv avl_comp_uint32 True snd sample_tree"
  using sample_rep unfolding avl_inv_def by (auto simp: sample_tree_def)


text \<open>C23: \<open>avl_insert\<close> of a new element keeps the invariant (balance, order, leader flags, count) and acts on the
  linked list as the specification: behind the smaller and equal elements, or -1 for a duplicate key
  in a container without duplicates. No null pointer is read.\<close>

theorem avl_insert_refines:
  assumes "comparator cmp" and "avl_inv cmp dups key tree" and "new \<notin> set (elems tree)"
  shows "\<exists>r tree'. avl_insert key tree new = Inr (r, tree') \<and> avl_inv cmp dups key tree' \<and>
    (r, elems tree') = store_insert cmp dups key new (elems tree)"
  using ordered_container.ins_spec[OF comparator.avl_container[OF assms(1)] assms(2,3)] .

theorem avl_insert_refines_witness:
  "\<exists>tree'. avl_insert snd sample_tree (5, 7) = Inr (0, tree') \<and>
     elems tree' = [(1, 5), (2, 7), (3, 7), (5, 7), (4, 9)]"
proof -
  have "(5, 7) \<notin> set (elems sample_tree)" by code_simp
  from avl_insert_refines[OF avl_u32.comparator_axioms sample_inv this]
  obtain r t where t: "avl_insert snd sample_tree (5, 7) = Inr (r, t)"
    "(r, elems t) = store_insert avl_comp_uint32 True snd (5, 7) (elems sample_tree)" by blast
  have "store_insert avl_comp_uint32 True snd (5, 7) (elems sample_tree) = (0, [(1, 5), (2, 7), (3, 7), (5, 7), (4, 9)])"
    by code_simp
  with t show ?thesis by simp
qed

text \<open>C24: \<open>avl_remove\<close> of a contained element keeps the invariant and takes exactly this element out of the
  list, also when it leads a run of equal keys and its successor has to take its place in the tree.\<close>

theorem avl_remove_refines:
  assumes "comparator cmp" and "avl_inv cmp dups key tree" and "node \<in> set (elems tree)"
  shows "\<exists>tree'. avl_remove tree node = Inr tree' \<and> avl_inv cmp dups key tree' \<and>
    elems tree' = remove1 node (elems tree)"
  using ordered_container.rem_spec[OF comparator.avl_container[OF assms(1)] assms(2,3)] .

theorem avl_remove_refines_witness:
  "\<exists>tree'. avl_remove sample_tree (2, 7) = Inr tree' \<and> elems tree' = [(1, 5), (3, 7), (4, 9)]"
proof -
  have "(2, 7) \<in> set (elems sample_tree)" by code_simp
  from avl_remove_refines[OF avl_u32.comparator_axioms sample_inv this]
  obtain t where t: "avl_remove sample_tree (2, 7) = Inr t" "elems t = remove1 (2, 7) (elems sample_tree)" by blast
  have "remove1 (2, 7) (elems sample_tree) = [(1, 5), (3, 7), (4, 9)]" by code_simp
  with t show ?thesis by simp
qed

text \<open>C25: The three searches answer from the list: the first element with the key, the last element not above
  it, the first element not below it.\<close>

theorem avl_searches:
  assumes "comparator cmp" and "avl_inv cmp dups key tree"
  shows "avl_find key tree k = find (\<lambda>x. cmp (key x) k = 0) (elems tree) \<and>
    avl_find_lessequal key tree k =
      (let xs = filter (\<lambda>x. cmp (key x) k \<le> 0) (elems tree) in if xs = [] then None else Some (last xs)) \<and>
    avl_find_greaterequal key tree k = find (\<lambda>x. 0 \<le> cmp (key x) k) (elems tree)"
proof -
  from assms(2) obtain gs where gs: "avl_rep key gs tree" "comp tree = cmp" by (auto simp: avl_inv_def)
  show ?thesis
    using comparator.avl_find_ok[OF assms(1) gs] comparator.avl_find_lessequal_ok[OF assms(1) gs]
      comparator.avl_find_greaterequal_ok[OF assms(1) gs]
    by (simp add: comparator.cmp_zero_iff[OF assms(1), of k])
qed

theorem avl_searches_witness:
  "avl_find snd sample_tree 7 = Some (2, 7) \<and> avl_find_lessequal snd sample_tree 8 = Some (3, 7) \<and>
   avl_find_greaterequal snd sample_tree 8 = Some (4, 9)"
proof -
  have "find (\<lambda>x. avl_comp_uint32 (snd x) 7 = 0) (elems sample_tree) = Some (2, 7)"
    "last (filter (\<lambda>x. avl_comp_uint32 (snd x) 8 \<le> 0) (elems sample_tree)) = (3, 7)"
    "filter (\<lambda>x. avl_comp_uint32 (snd x) 8 \<le> 0) (elems sample_tree) \<noteq> []"
    "find (\<lambda>x. 0 \<le> avl_comp_uint32 (snd x) 8) (elems sample_tree) = Some (4, 9)"
    by code_simp+
  with avl_searches[OF avl_u32.comparator_axioms sample_inv, of 7]
    avl_searches[OF avl_u32.comparator_axioms sample_inv, of 8] show ?thesis by (simp add: Let_def)
qed

text \<open>Inserting a fresh element and removing it again gives the same list.\<close>

theorem avl_insert_remove:
  assumes "comparator cmp" and "avl_inv cmp dups key tree" and "new \<notin> set (elems tree)"
    and "avl_insert key tree new = Inr (0, tree1)"
  shows "\<exists>tree2. avl_remove tree1 new = Inr tree2 \<and> avl_inv cmp dups key tree2 \<and> elems tree2 = elems tree"
  using ordered_container.ins_rem[OF comparator.avl_container[OF assms(1)] assms(2-4)] .

theorem avl_insert_remove_witness:
  "\<exists>tree1 tree2. avl_insert snd sample_tree (5, 6) = Inr (0, tree1) \<and> avl_remove tree1 (5, 6) = Inr tree2 \<and>
     elems tree2 = elems sample_tree"
proof -
  have n: "(5, 6) \<notin> set (elems sample_tree)" by code_simp
  have "case avl_insert snd sample_tree (5, 6) of Inl _ \<Rightarrow> False | Inr (r, t) \<Rightarrow> r = 0" by code_simp
  then obtain tree1 where i: "avl_insert snd sample_tree (5, 6) = Inr (0, tree1)" by (auto split: sum.splits)
  from avl_insert_remove[OF avl_u32.comparator_axioms sample_inv n i] i show ?thesis by blast
qed

text \<open>C26: Searching is cheap: in a non-empty tree that any sequence of insertions and removals has built from the empty one
  with a comparison function that orders the keys,
  the search for any key visits \<open>m\<close> nodes (the path it leaves and the node it ends at) only if the tree has at
  least \<open>2 ^ (m div 2) - 1\<close> elements, so with 32-bit counts at most 65.\<close>

theorem avl_search_cost:
  assumes "comparator cmp" and "avl_built cmp dups key tree" and "root tree \<noteq> Leaf"
    and "avl_find_rec (comp tree) key k (root tree) [] = ((n, path), diff)"
  shows "2 ^ (Suc (length path) div 2) \<le> Suc (length (elems tree)) \<and>
    (length (elems tree) < 2 ^ 32 \<longrightarrow> Suc (length path) \<le> 65)"
proof -
  have b: "(2::nat) ^ (Suc (length path) div 2) \<le> Suc (length (elems tree))"
    using avl_search_path[OF avl_built_inv[OF assms(1,2)] assms(3,4)] .
  moreover have "Suc (length path) \<le> 65" if "length (elems tree) < 2 ^ 32"
  proof -
    have "(2::nat) ^ (Suc (length path) div 2) < 2 ^ 33" using b that by simp
    then have "Suc (length path) div 2 < 33" by (rule power_less_imp_less_exp[rotated]) simp
    then show ?thesis by linarith
  qed
  ultimately show ?thesis by blast
qed

text \<open>Seven keys inserted in ascending order, so that every second insertion rotates, and one removed again.\<close>

fun sample_ins :: "nat list \<Rightarrow> (nat \<times> u32, u32) avl_tree \<Rightarrow> (nat \<times> u32, u32) avl_tree option" where
  "sample_ins [] t = Some t"
| "sample_ins (i # is) t = (if (i, of_nat i) \<in> set (elems t) then None
     else case avl_insert snd t (i, of_nat i) of Inl _ \<Rightarrow> None | Inr (_, t') \<Rightarrow> sample_ins is t')"

lemma sample_ins_built:
  "sample_ins xs t = Some t' \<Longrightarrow> avl_built avl_comp_uint32 True snd t \<Longrightarrow> avl_built avl_comp_uint32 True snd t'"
  by (induction xs arbitrary: t) (auto split: if_splits sum.splits prod.splits intro: avl_built.ins)

lemma sample_built:
  "case sample_ins [1, 2, 3, 4, 5, 6, 7] (avl_init avl_comp_uint32 True) of
     None \<Rightarrow> False
   | Some t \<Rightarrow> (4, 4) \<in> set (elems t) \<and> (case avl_remove t (4, 4) of Inl _ \<Rightarrow> False | Inr t \<Rightarrow>
       map fst (elems t) = [1, 2, 3, 5, 6, 7] \<and> root t \<noteq> Leaf \<and>
       length (snd (fst (avl_find_rec (comp t) snd 7 (root t) []))) = 2)"
  by code_simp

theorem avl_search_cost_witness:
  "\<exists>t. avl_built avl_comp_uint32 True snd t \<and> map fst (elems t) = [1 :: nat, 2, 3, 5, 6, 7] \<and>
     Suc (length (snd (fst (avl_find_rec (comp t) snd 7 (root t) [])))) = 3 \<and>
     (2 :: nat) ^ (Suc (length (snd (fst (avl_find_rec (comp t) snd 7 (root t) [])))) div 2) \<le> Suc (length (elems t))"
proof -
  from sample_built obtain t0 t where t0: "sample_ins [1, 2, 3, 4, 5, 6, 7] (avl_init avl_comp_uint32 True) = Some t0"
    and t: "(4, 4) \<in> set (elems t0)" "avl_remove t0 (4, 4) = Inr t" "map fst (elems t) = [1, 2, 3, 5, 6, 7]"
      "root t \<noteq> Leaf" "length (snd (fst (avl_find_rec (comp t) snd 7 (root t) []))) = 2"
    by (auto split: option.splits sum.splits)
  have b: "avl_built avl_comp_uint32 True snd t"
    by (rule avl_built.rem[OF sample_ins_built[OF t0 avl_built.init] t(1,2)])
  obtain n path d where f: "avl_find_rec (comp t) snd 7 (root t) [] = ((n, path), d)" by (metis surj_pair)
  from avl_search_cost[OF avl_u32.comparator_axioms b t(4) f] f t(3,5) b show ?thesis by auto
qed

end
