(* ===== verification/LinkedList.thy ===== *)
theory LinkedList
  imports Prelude
begin

text \<open>
  \<open>src/lib/common/list.h\<close>: doubly linked rings. The nodes and the heads of the lists are the addresses of a
  heap with a \<open>next\<close> and a \<open>prev\<close> pointer per address, \<open>None\<close> is the null pointer. The operations change
  pointers one assignment at a time; \<open>ring h head xs\<close> says which list of nodes they represent. The loop
  macros take the body of the loop as a function; they need not end on a damaged ring.
\<close>

section \<open>Operations\<close>

record 'r lheap =
  nx :: "'r \<Rightarrow> 'r option"
  pv :: "'r \<Rightarrow> 'r option"

definition set_next :: "'r \<Rightarrow> 'r option \<Rightarrow> 'r lheap \<Rightarrow> 'r lheap" where
  "set_next p v h = h\<lparr>nx := (nx h)(p := v)\<rparr>"

definition set_prev :: "'r \<Rightarrow> 'r option \<Rightarrow> 'r lheap \<Rightarrow> 'r lheap" where
  "set_prev p v h = h\<lparr>pv := (pv h)(p := v)\<rparr>"

lemma set_ptr_sel [simp]:
  "nx (set_next p v h) = (nx h)(p := v)" "pv (set_next p v h) = pv h"
  "pv (set_prev p v h) = (pv h)(p := v)" "nx (set_prev p v h) = nx h"
  by (simp_all add: set_next_def set_prev_def)

definition list_init_head :: "'r \<Rightarrow> 'r lheap \<Rightarrow> 'r lheap" where
  "list_init_head head h = set_next head (Some head) (set_prev head (Some head) h)"

definition list_init_node :: "'r \<Rightarrow> 'r lheap \<Rightarrow> 'r lheap" where
  "list_init_node entity h = set_next entity None (set_prev entity None h)"

definition list_add :: "'r \<Rightarrow> 'r \<Rightarrow> 'r \<Rightarrow> 'r lheap \<Rightarrow> 'r lheap" where
  "list_add prev next new h =
     (let h = set_next new (Some next) h; h = set_prev new (Some prev) h; h = set_prev next (Some new) h
      in set_next prev (Some new) h)"

definition list_add_head :: "'r \<Rightarrow> 'r \<Rightarrow> 'r lheap \<Rightarrow> halt + 'r lheap" where
  "list_add_head head new h = rbind (deref (nx h head)) (\<lambda>n. Inr (list_add head n new h))"

definition list_add_tail :: "'r \<Rightarrow> 'r \<Rightarrow> 'r lheap \<Rightarrow> halt + 'r lheap" where
  "list_add_tail head new h = rbind (deref (pv h head)) (\<lambda>p. Inr (list_add p head new h))"

definition list_add_before :: "'r \<Rightarrow> 'r \<Rightarrow> 'r lheap \<Rightarrow> halt + 'r lheap" where
  "list_add_before node new h = rbind (deref (pv h node)) (\<lambda>p. Inr (list_add p node new h))"

definition list_add_after :: "'r \<Rightarrow> 'r \<Rightarrow> 'r lheap \<Rightarrow> halt + 'r lheap" where
  "list_add_after node new h = rbind (deref (nx h node)) (\<lambda>n. Inr (list_add node n new h))"

definition list_unlink :: "'r \<Rightarrow> 'r \<Rightarrow> 'r lheap \<Rightarrow> 'r lheap" where
  "list_unlink prev next h = set_prev next (Some prev) (set_next prev (Some next) h)"

definition list_remove :: "'r \<Rightarrow> 'r lheap \<Rightarrow> halt + 'r lheap" where
  "list_remove entity h =
     rbind (deref (pv h entity)) (\<lambda>p.
     rbind (deref (nx h entity)) (\<lambda>n.
     let h = list_unlink p n h in Inr (set_prev entity None (set_next entity None h))))"

definition list_is_empty :: "'r \<Rightarrow> 'r lheap \<Rightarrow> bool" where
  "list_is_empty head h \<longleftrightarrow> nx h head = Some head \<and> pv h head = Some head"

definition list_node_added :: "'r \<Rightarrow> 'r lheap \<Rightarrow> bool" where
  "list_node_added node h \<longleftrightarrow> nx h node \<noteq> None \<and> pv h node \<noteq> None"

definition list_is_first :: "'r \<Rightarrow> 'r \<Rightarrow> 'r lheap \<Rightarrow> bool" where
  "list_is_first head entity h \<longleftrightarrow> nx h head = Some entity"

definition list_is_last :: "'r \<Rightarrow> 'r \<Rightarrow> 'r lheap \<Rightarrow> bool" where
  "list_is_last head entity h \<longleftrightarrow> pv h head = Some entity"

definition list_merge :: "'r \<Rightarrow> 'r \<Rightarrow> 'r lheap \<Rightarrow> halt + 'r lheap" where
  "list_merge add_to remove_from h =
     (if list_is_empty remove_from h then Inr h
      else
        rbind (deref (nx h add_to)) (\<lambda>n.
        let h = set_prev n (pv h remove_from) h
        in rbind (deref (pv h remove_from)) (\<lambda>p.
           let h = set_next p (nx h add_to) h; h = set_next add_to (nx h remove_from) h
           in rbind (deref (nx h remove_from)) (\<lambda>n.
              Inr (list_init_head remove_from (set_prev n (Some add_to) h))))))"

section \<open>Loops\<close>

text \<open>The state of a loop contains the heap; \<open>back\<close> and \<open>fwd\<close> read its pointers, \<open>stop\<close> is the expression
  for the last element, evaluated before every iteration.\<close>

partial_function (option) list_for_element_range ::
  "('s \<Rightarrow> 'r option) \<Rightarrow> ('s \<Rightarrow> 'r \<Rightarrow> 'r option) \<Rightarrow> ('s \<Rightarrow> 'r \<Rightarrow> 'r option) \<Rightarrow> ('r \<Rightarrow> 's \<Rightarrow> halt + 's) \<Rightarrow> 'r \<Rightarrow> 's \<Rightarrow>
     (halt + 's) option" where
  "list_for_element_range stop backw fwd body e s =
     (if backw s e = stop s then Some (Inr s)
      else
        case body e s of
          Inl h \<Rightarrow> Some (Inl h)
        | Inr s \<Rightarrow>
            (case fwd s e of
               None \<Rightarrow> Some (Inl NullDeref)
             | Some e \<Rightarrow> list_for_element_range stop backw fwd body e s))"

partial_function (option) list_for_element_range_safe ::
  "('s \<Rightarrow> 'r option) \<Rightarrow> ('s \<Rightarrow> 'r \<Rightarrow> 'r option) \<Rightarrow> ('s \<Rightarrow> 'r \<Rightarrow> 'r option) \<Rightarrow> ('r \<Rightarrow> 's \<Rightarrow> halt + 's) \<Rightarrow> 'r \<Rightarrow> 'r option \<Rightarrow> 's \<Rightarrow>
     (halt + 's) option" where
  "list_for_element_range_safe stop backw fwd body e ptr s =
     (if backw s e = stop s then Some (Inr s)
      else
        case body e s of
          Inl h \<Rightarrow> Some (Inl h)
        | Inr s \<Rightarrow>
            (case ptr of
               None \<Rightarrow> Some (Inl NullDeref)
             | Some e \<Rightarrow> list_for_element_range_safe stop backw fwd body e (fwd s e) s))"

definition list_for_each_element :: "('s \<Rightarrow> 'r lheap) \<Rightarrow> 'r \<Rightarrow> ('r \<Rightarrow> 's \<Rightarrow> halt + 's) \<Rightarrow> 's \<Rightarrow> (halt + 's) option" where
  "list_for_each_element hp head body s =
     (case nx (hp s) head of
        None \<Rightarrow> Some (Inl NullDeref)
      | Some e \<Rightarrow> list_for_element_range (\<lambda>s. pv (hp s) head) (\<lambda>s. pv (hp s)) (\<lambda>s. nx (hp s)) body e s)"

definition list_for_each_element_reverse :: "('s \<Rightarrow> 'r lheap) \<Rightarrow> 'r \<Rightarrow> ('r \<Rightarrow> 's \<Rightarrow> halt + 's) \<Rightarrow> 's \<Rightarrow> (halt + 's) option" where
  "list_for_each_element_reverse hp head body s =
     (case pv (hp s) head of
        None \<Rightarrow> Some (Inl NullDeref)
      | Some e \<Rightarrow> list_for_element_range (\<lambda>s. nx (hp s) head) (\<lambda>s. nx (hp s)) (\<lambda>s. pv (hp s)) body e s)"

definition list_for_each_element_safe :: "('s \<Rightarrow> 'r lheap) \<Rightarrow> 'r \<Rightarrow> ('r \<Rightarrow> 's \<Rightarrow> halt + 's) \<Rightarrow> 's \<Rightarrow> (halt + 's) option" where
  "list_for_each_element_safe hp head body s =
     (case nx (hp s) head of
        None \<Rightarrow> Some (Inl NullDeref)
      | Some e \<Rightarrow> list_for_element_range_safe (\<lambda>s. pv (hp s) head) (\<lambda>s. pv (hp s)) (\<lambda>s. nx (hp s)) body e (nx (hp s) e) s)"

definition list_for_each_element_reverse_safe :: "('s \<Rightarrow> 'r lheap) \<Rightarrow> 'r \<Rightarrow> ('r \<Rightarrow> 's \<Rightarrow> halt + 's) \<Rightarrow> 's \<Rightarrow> (halt + 's) option" where
  "list_for_each_element_reverse_safe hp head body s =
     (case pv (hp s) head of
        None \<Rightarrow> Some (Inl NullDeref)
      | Some e \<Rightarrow> list_for_element_range_safe (\<lambda>s. nx (hp s) head) (\<lambda>s. nx (hp s)) (\<lambda>s. pv (hp s)) body e (pv (hp s) e) s)"

definition list_for_element_to_last :: "('s \<Rightarrow> 'r lheap) \<Rightarrow> 'r \<Rightarrow> 'r \<Rightarrow> ('r \<Rightarrow> 's \<Rightarrow> halt + 's) \<Rightarrow> 's \<Rightarrow> (halt + 's) option" where
  "list_for_element_to_last hp head first body s =
     list_for_element_range (\<lambda>s. pv (hp s) head) (\<lambda>s. pv (hp s)) (\<lambda>s. nx (hp s)) body first s"

definition list_for_element_to_last_reverse :: "('s \<Rightarrow> 'r lheap) \<Rightarrow> 'r \<Rightarrow> 'r \<Rightarrow> ('r \<Rightarrow> 's \<Rightarrow> halt + 's) \<Rightarrow> 's \<Rightarrow> (halt + 's) option" where
  "list_for_element_to_last_reverse hp head first body s =
     (case pv (hp s) head of
        None \<Rightarrow> Some (Inl NullDeref)
      | Some e \<Rightarrow> list_for_element_range (\<lambda>s. Some first) (\<lambda>s. nx (hp s)) (\<lambda>s. pv (hp s)) body e s)"

definition list_for_first_to_element :: "('s \<Rightarrow> 'r lheap) \<Rightarrow> 'r \<Rightarrow> 'r \<Rightarrow> ('r \<Rightarrow> 's \<Rightarrow> halt + 's) \<Rightarrow> 's \<Rightarrow> (halt + 's) option" where
  "list_for_first_to_element hp head lst body s =
     (case nx (hp s) head of
        None \<Rightarrow> Some (Inl NullDeref)
      | Some e \<Rightarrow> list_for_element_range (\<lambda>s. Some lst) (\<lambda>s. pv (hp s)) (\<lambda>s. nx (hp s)) body e s)"

definition list_for_first_to_element_reverse :: "('s \<Rightarrow> 'r lheap) \<Rightarrow> 'r \<Rightarrow> 'r \<Rightarrow> ('r \<Rightarrow> 's \<Rightarrow> halt + 's) \<Rightarrow> 's \<Rightarrow> (halt + 's) option" where
  "list_for_first_to_element_reverse hp head lst body s =
     list_for_element_range (\<lambda>s. nx (hp s) head) (\<lambda>s. nx (hp s)) (\<lambda>s. pv (hp s)) body lst s"

section \<open>Rings\<close>

fun links :: "'r lheap \<Rightarrow> 'r list \<Rightarrow> bool" where
  "links h (x # y # zs) \<longleftrightarrow> nx h x = Some y \<and> pv h y = Some x \<and> links h (y # zs)"
| "links h xs \<longleftrightarrow> True"

definition ring :: "'r lheap \<Rightarrow> 'r \<Rightarrow> 'r list \<Rightarrow> bool" where
  "ring h head xs \<longleftrightarrow> distinct (head # xs) \<and> links h (head # xs @ [head])"

lemma links_append: "links h (xs @ y # zs) \<longleftrightarrow> links h (xs @ [y]) \<and> links h (y # zs)"
  by (induction h xs rule: links.induct) auto

lemma links_cong:
  "\<forall>x\<in>set (butlast xs). nx h' x = nx h x \<Longrightarrow> \<forall>x\<in>set (tl xs). pv h' x = pv h x \<Longrightarrow> links h' xs \<longleftrightarrow> links h xs"
  by (induction h xs rule: links.induct) auto

text \<open>A walk around a ring does not meet a node twice, up to its end points.\<close>

definition walk_ok :: "'r list \<Rightarrow> bool" where
  "walk_ok c \<longleftrightarrow> distinct (butlast c) \<and> distinct (tl c)"

lemma ring_walk: "ring h head xs \<Longrightarrow> walk_ok (head # xs @ [head])"
  by (simp add: ring_def walk_ok_def butlast_append)

text \<open>A stretch between two nodes is replaced, the pointers elsewhere stay.\<close>

lemma links_replace:
  assumes "links h (us @ p # ms @ n # vs)" and "walk_ok (us @ p # ms @ n # vs)" and "links h' (p # ms' @ [n])"
    and "\<forall>x. x \<notin> insert p A \<longrightarrow> nx h' x = nx h x" and "\<forall>x. x \<notin> insert n A \<longrightarrow> pv h' x = pv h x"
    and "A \<inter> set (us @ p # n # vs) = {}"
  shows "links h' (us @ p # ms' @ n # vs)"
proof -
  have l: "links h (us @ [p])" "links h (n # vs)"
    using assms(1) links_append[of h us p "ms @ n # vs"] links_append[of h "p # ms" n vs] by auto
  have d: "p \<notin> set us" "n \<notin> set vs" "p \<notin> set (butlast (n # vs))" "n \<notin> set (tl (us @ [p]))"
    using assms(2) by (cases us; auto simp: walk_ok_def butlast_append)+
  have "set (tl (us @ [p])) \<subseteq> set (us @ [p])" by (cases us) auto
  moreover have "set (butlast (n # vs)) \<subseteq> set (n # vs)" by (meson in_set_butlastD subsetI)
  ultimately have a: "A \<inter> set (tl (us @ [p])) = {}" "A \<inter> set (butlast (n # vs)) = {}"
    using assms(6) by auto
  have o: "\<forall>x\<in>set us. x \<notin> insert p A" "\<forall>x\<in>set vs. x \<notin> insert n A"
    "\<forall>x\<in>set (tl (us @ [p])). x \<notin> insert n A" "\<forall>x\<in>set (butlast (n # vs)). x \<notin> insert p A"
    using d(1,2) assms(6) a(1) d(4) a(2) d(3) by (auto simp del: tl_append2 butlast.simps)
  have "links h' (us @ [p])"
  proof (rule links_cong[THEN iffD2, OF _ _ l(1)])
    show "\<forall>x\<in>set (butlast (us @ [p])). nx h' x = nx h x" using o(1) assms(4) unfolding butlast_snoc by blast
    show "\<forall>x\<in>set (tl (us @ [p])). pv h' x = pv h x" using o(3) assms(5) by blast
  qed
  moreover have "links h' (n # vs)"
  proof (rule links_cong[THEN iffD2, OF _ _ l(2)])
    show "\<forall>x\<in>set (butlast (n # vs)). nx h' x = nx h x" using o(4) assms(4) by blast
    show "\<forall>x\<in>set (tl (n # vs)). pv h' x = pv h x" using o(2) assms(5) unfolding list.sel by blast
  qed
  ultimately show ?thesis
    using assms(3) links_append[of h' us p "ms' @ n # vs"] links_append[of h' "p # ms'" n vs] by simp
qed

lemma links_add:
  assumes "links h (us @ p # n # vs)" and "walk_ok (us @ p # n # vs)" and "new \<notin> set (us @ p # n # vs)"
  shows "links (list_add p n new h) (us @ p # new # n # vs)"
  using links_replace[of h us p "[]" n vs "list_add p n new h" "[new]" "{new}"] assms
  by (auto simp: list_add_def)

lemma links_unlink:
  assumes "links h (us @ p # x # n # vs)" and "walk_ok (us @ p # x # n # vs)" and "x \<notin> set (us @ p # n # vs)"
  shows "links (set_prev x None (set_next x None (list_unlink p n h))) (us @ p # n # vs)"
  using links_replace[of h us p "[x]" n vs "set_prev x None (set_next x None (list_unlink p n h))" "[]" "{x}"] assms
  by (auto simp: list_unlink_def)

text \<open>A position in a ring: the pointers there and how the walk is divided.\<close>

lemma ring_first: "ring h head xs \<Longrightarrow> nx h head = Some (hd (xs @ [head]))"
  by (cases xs) (auto simp: ring_def)

lemma ring_last: "ring h head xs \<Longrightarrow> pv h head = Some (last (head # xs))"
proof (cases xs rule: rev_cases)
  case (snoc ys y)
  assume "ring h head xs"
  then show ?thesis using snoc links_append[of h "head # ys" y "[head]"] by (simp add: ring_def)
qed (simp add: ring_def)

lemma ring_next: "ring h head (us @ x # vs) \<Longrightarrow> nx h x = Some (hd (vs @ [head]))"
  using links_append[of h "head # us" x "vs @ [head]"] by (cases vs) (auto simp: ring_def)

lemma ring_prev: "ring h head (us @ x # vs) \<Longrightarrow> pv h x = Some (last (head # us))"
proof (cases us rule: rev_cases)
  case (snoc ys y)
  assume "ring h head (us @ x # vs)"
  then show ?thesis using snoc links_append[of h "head # ys" y "x # vs @ [head]"] by (simp add: ring_def)
qed (simp add: ring_def)

text \<open>What an operation leaves alone.\<close>

definition same_outside :: "'r set \<Rightarrow> 'r lheap \<Rightarrow> 'r lheap \<Rightarrow> bool" where
  "same_outside A h h' \<longleftrightarrow> (\<forall>x. x \<notin> A \<longrightarrow> nx h' x = nx h x \<and> pv h' x = pv h x)"

lemma ring_frame:
  assumes "ring h head xs" and "same_outside A h h'" and "A \<inter> set (head # xs) = {}"
  shows "ring h' head xs"
proof -
  have "links h' (head # xs @ [head]) = links h (head # xs @ [head])"
    using assms(2,3) by (intro links_cong) (auto simp: same_outside_def butlast_append)
  with assms(1) show ?thesis by (simp add: ring_def)
qed

lemma list_add_ring:
  assumes "ring h head (us @ vs)" and "p = last (head # us)" and "n = hd (vs @ [head])" and "new \<notin> set (head # us @ vs)"
  shows "ring (list_add p n new h) head (us @ new # vs)"
    and "same_outside (set (head # new # us @ vs)) h (list_add p n new h)"
proof -
  let ?a = "butlast (head # us)" and ?b = "tl (vs @ [head])"
  have c: "head # (us @ vs) @ [head] = ?a @ p # n # ?b" "head # (us @ new # vs) @ [head] = ?a @ p # new # n # ?b"
    using append_butlast_last_id[of "head # us"] hd_Cons_tl[of "vs @ [head]"] unfolding assms(2,3) by force+
  have "new \<notin> set (?a @ p # n # ?b)" unfolding c(1)[symmetric] using assms(4) by auto
  from links_add[OF _ _ this, of h] ring_walk[OF assms(1)] assms(1)
  have "links (list_add p n new h) (head # (us @ new # vs) @ [head])" unfolding c by (simp add: ring_def c(1)[simplified])
  then show "ring (list_add p n new h) head (us @ new # vs)" using assms(1,4) by (auto simp: ring_def)
  have "p \<in> set (head # us)" "n \<in> set (vs @ [head])" unfolding assms(2,3) by (rule last_in_set, simp, rule hd_in_set, simp)
  then show "same_outside (set (head # new # us @ vs)) h (list_add p n new h)" by (auto simp: same_outside_def list_add_def)
qed

section \<open>The operations on rings\<close>

lemma list_init_head_ring: "ring (list_init_head head h) head [] \<and> same_outside {head} h (list_init_head head h)"
  by (simp add: list_init_head_def ring_def same_outside_def)

lemma list_is_empty_ring: "ring h head xs \<Longrightarrow> list_is_empty head h \<longleftrightarrow> xs = []"
  by (cases xs) (auto simp: ring_def list_is_empty_def)

lemma list_is_first_ring: "ring h head (x # xs) \<Longrightarrow> list_is_first head e h \<longleftrightarrow> e = x"
  using ring_first by (fastforce simp: list_is_first_def)

lemma list_is_last_ring: "ring h head (xs @ [x]) \<Longrightarrow> list_is_last head e h \<longleftrightarrow> e = x"
  using ring_last by (fastforce simp: list_is_last_def)

lemma list_node_added_ring: "ring h head xs \<Longrightarrow> x \<in> set xs \<Longrightarrow> list_node_added x h"
  using ring_next ring_prev by (fastforce simp: in_set_conv_decomp list_node_added_def)

text \<open>The heap \<open>h'\<close> has the ring \<open>ys\<close> where \<open>h\<close> has the ring \<open>xs\<close>; other nodes are not touched.\<close>

definition becomes :: "'r \<Rightarrow> 'r list \<Rightarrow> 'r list \<Rightarrow> 'r lheap \<Rightarrow> 'r lheap \<Rightarrow> bool" where
  "becomes head xs ys h h' \<longleftrightarrow> ring h' head ys \<and> same_outside (set (head # xs @ ys)) h h'"

lemma list_add_becomes:
  "ring h head (us @ vs) \<Longrightarrow> p = last (head # us) \<Longrightarrow> n = hd (vs @ [head]) \<Longrightarrow> new \<notin> set (head # us @ vs) \<Longrightarrow>
     becomes head (us @ vs) (us @ new # vs) h (list_add p n new h)"
  using list_add_ring[of h head us vs p n new] by (auto simp: becomes_def same_outside_def)

lemma list_add_head_ring:
  assumes "ring h head xs" and "new \<notin> set (head # xs)"
  shows "\<exists>h'. list_add_head head new h = Inr h' \<and> becomes head xs (new # xs) h h'"
  using list_add_becomes[of h head "[]" xs head "hd (xs @ [head])" new] assms ring_first[OF assms(1)]
  by (simp add: list_add_head_def)

lemma list_add_tail_ring:
  assumes "ring h head xs" and "new \<notin> set (head # xs)"
  shows "\<exists>h'. list_add_tail head new h = Inr h' \<and> becomes head xs (xs @ [new]) h h'"
  using list_add_becomes[of h head xs "[]" "last (head # xs)" head new] assms ring_last[OF assms(1)]
  by (simp add: list_add_tail_def del: last.simps)

lemma list_add_before_ring:
  assumes "ring h head (us @ x # vs)" and "new \<notin> set (head # us @ x # vs)"
  shows "\<exists>h'. list_add_before x new h = Inr h' \<and> becomes head (us @ x # vs) (us @ new # x # vs) h h'"
  using list_add_becomes[of h head us "x # vs" "last (head # us)" x new] assms ring_prev[OF assms(1)]
  by (simp add: list_add_before_def del: last.simps)

lemma list_add_after_ring:
  assumes "ring h head (us @ x # vs)" and "new \<notin> set (head # us @ x # vs)"
  shows "\<exists>h'. list_add_after x new h = Inr h' \<and> becomes head (us @ x # vs) (us @ x # new # vs) h h'"
  using list_add_becomes[of h head "us @ [x]" vs x "hd (vs @ [head])" new] assms ring_next[OF assms(1)]
  by (simp add: list_add_after_def)

lemma list_remove_ring:
  assumes "ring h head (us @ x # vs)"
  shows "\<exists>h'. list_remove x h = Inr h' \<and> becomes head (us @ x # vs) (us @ vs) h h' \<and> nx h' x = None \<and> pv h' x = None"
proof -
  let ?p = "last (head # us)" and ?n = "hd (vs @ [head])" and ?a = "butlast (head # us)" and ?b = "tl (vs @ [head])"
  let ?h = "set_prev x None (set_next x None (list_unlink ?p ?n h))"
  have r: "list_remove x h = Inr ?h"
    using ring_prev[OF assms] ring_next[OF assms] by (simp add: list_remove_def del: last.simps)
  have c: "head # (us @ x # vs) @ [head] = ?a @ ?p # x # ?n # ?b" "head # (us @ vs) @ [head] = ?a @ ?p # ?n # ?b"
    using append_butlast_last_id[of "head # us"] hd_Cons_tl[of "vs @ [head]"] by force+
  have x: "x \<notin> set (?a @ ?p # ?n # ?b)" unfolding c(2)[symmetric] using assms by (auto simp: ring_def)
  have l: "links h (?a @ ?p # x # ?n # ?b)" and w: "walk_ok (?a @ ?p # x # ?n # ?b)"
    unfolding c(1)[symmetric] using assms ring_walk[OF assms] unfolding ring_def by blast+
  have "links ?h (head # (us @ vs) @ [head])" unfolding c(2) by (rule links_unlink[OF l w x])
  then have "ring ?h head (us @ vs)" using assms by (auto simp: ring_def)
  moreover have "?p \<in> set (head # us)" "?n \<in> set (vs @ [head])" by (rule last_in_set, simp, rule hd_in_set, simp)
  then have "same_outside (set (head # (us @ x # vs) @ us @ vs)) h ?h" by (auto simp: same_outside_def list_unlink_def)
  ultimately show ?thesis using r by (auto simp: becomes_def)
qed

lemma links_ends:
  assumes "ys \<noteq> []"
  shows "links h (a # ys @ [n]) \<longleftrightarrow> nx h a = Some (hd ys) \<and> pv h (hd ys) = Some a \<and> links h ys \<and>
    nx h (last ys) = Some n \<and> pv h n = Some (last ys)"
proof (cases ys rule: rev_cases)
  case (snoc zs l)
  have "links h (a # ys @ [n]) \<longleftrightarrow> links h (a # ys) \<and> nx h l = Some n \<and> pv h n = Some l"
    using links_append[of h "a # zs" l "[n]"] by (simp add: snoc)
  moreover have "links h (a # ys) \<longleftrightarrow> nx h a = Some (hd ys) \<and> pv h (hd ys) = Some a \<and> links h ys"
    using assms by (cases ys) auto
  moreover have "last ys = l" by (simp add: snoc)
  ultimately show ?thesis by simp
qed (use assms in simp)

text \<open>Merging: the elements of the second list come before those of the first.\<close>

lemma list_merge_ring:
  assumes "ring h a xs" and "ring h b ys" and "set (a # xs) \<inter> set (b # ys) = {}"
  shows "\<exists>h'. list_merge a b h = Inr h' \<and> ring h' a (ys @ xs) \<and> ring h' b [] \<and>
    same_outside (set (a # xs) \<union> set (b # ys)) h h'"
proof (cases "ys = []")
  case True
  with assms list_is_empty_ring[OF assms(2)] show ?thesis by (simp add: list_merge_def same_outside_def)
next
  case False
  let ?n = "hd (xs @ [a])" and ?f = "hd ys" and ?l = "last ys"
  let ?h = "list_init_head b (set_prev ?f (Some a) (set_next a (Some ?f) (set_next ?l (Some ?n) (set_prev ?n (Some ?l) h))))"
  have d: "distinct (a # xs)" "distinct (b # ys)" using assms(1,2) by (simp_all add: ring_def)
  have m: "?n \<in> set (a # xs)" "?f \<in> set ys" "?l \<in> set ys" using False by (cases xs; simp)+
  have p: "nx h a = Some ?n" "pv h b = Some ?l" "nx h b = Some ?f"
    using ring_first[OF assms(1)] ring_first[OF assms(2)] ring_last[OF assms(2)] False by simp_all
  have ne: "a \<noteq> b" "?n \<noteq> b" "?l \<noteq> a" "?l \<noteq> b" "?f \<noteq> b" "?f \<noteq> ?n" using m assms(3) d by auto
  have r: "list_merge a b h = Inr ?h"
    using p ne list_is_empty_ring[OF assms(2)] False by (auto simp: list_merge_def Let_def)
  have s: "nx ?h x = (if x = b then Some b else if x = a then Some ?f else if x = ?l then Some ?n else nx h x)"
    "pv ?h x = (if x = b then Some b else if x = ?f then Some a else if x = ?n then Some ?l else pv h x)" for x
    by (simp_all add: list_init_head_def)
  have "links ?h ys = links h ys"
  proof (rule links_cong)
    have "?l \<notin> set (butlast ys)" using d(2) by (cases ys rule: rev_cases) auto
    moreover have "a \<notin> set (butlast ys)" "b \<notin> set (butlast ys)" using d(2) assms(3) by (auto dest: in_set_butlastD)
    ultimately show "\<forall>x\<in>set (butlast ys). nx ?h x = nx h x" unfolding s by auto
    have "?f \<notin> set (tl ys)" "b \<notin> set (tl ys)" "?n \<notin> set (tl ys)" using d(2) m(1) assms(3) by (cases ys; auto)+
    then show "\<forall>x\<in>set (tl ys). pv ?h x = pv h x" unfolding s by auto
  qed
  then have 1: "links ?h (a # ys @ [?n])"
    using assms(2) False ne unfolding links_ends[OF False] ring_def by (simp add: s links_ends[OF False, of h b b])
  have c: "[] @ a # [] @ ?n # tl (xs @ [a]) = a # xs @ [a]" "[] @ a # ys @ ?n # tl (xs @ [a]) = a # (ys @ xs) @ [a]"
    by (cases xs; simp)+
  have l: "links h ([] @ a # [] @ ?n # tl (xs @ [a]))" and w: "walk_ok ([] @ a # [] @ ?n # tl (xs @ [a]))"
    unfolding c using assms(1) ring_walk[OF assms(1)] by (simp_all add: ring_def)
  have i: "set (b # ys) \<inter> set ([] @ a # ?n # tl (xs @ [a])) = {}" using assms(3) m(1) by (cases xs) auto
  have "links ?h ([] @ a # ys @ ?n # tl (xs @ [a]))"
    by (rule links_replace[OF l w 1 _ _ i]) (use m in \<open>auto simp: s\<close>)
  then have "ring ?h a (ys @ xs)" unfolding c using d assms(3) by (auto simp: ring_def)
  moreover have "ring ?h b []" by (simp add: ring_def s)
  moreover have "same_outside (set (a # xs) \<union> set (b # ys)) h ?h" using m by (auto simp: same_outside_def s)
  ultimately show ?thesis using r by blast
qed

section \<open>The loops on rings\<close>

text \<open>A body that leaves the ring of the loop as it is, and one that may remove the node it is called for.\<close>

definition keeps_ring :: "('s \<Rightarrow> 'r lheap) \<Rightarrow> 'r \<Rightarrow> 'r list \<Rightarrow> ('r \<Rightarrow> 's \<Rightarrow> halt + 's) \<Rightarrow> bool" where
  "keeps_ring hp head xs body \<longleftrightarrow>
     (\<forall>x s s'. x \<in> set xs \<longrightarrow> ring (hp s) head xs \<longrightarrow> body x s = Inr s' \<longrightarrow> ring (hp s') head xs)"

definition drops_from_ring :: "('s \<Rightarrow> 'r lheap) \<Rightarrow> 'r \<Rightarrow> ('r \<Rightarrow> bool) \<Rightarrow> ('r \<Rightarrow> 's \<Rightarrow> halt + 's) \<Rightarrow> bool" where
  "drops_from_ring hp head rm body \<longleftrightarrow>
     (\<forall>us x vs s s'. ring (hp s) head (us @ x # vs) \<longrightarrow> body x s = Inr s' \<longrightarrow>
        ring (hp s') head (if rm x then us @ vs else us @ x # vs))"

lemma ring_inner:
  assumes "ring h head (us @ x # vs)"
  shows "pv h x \<noteq> pv h head"
proof -
  have "last (x # vs) \<in> set (x # vs)" "last (head # us) \<in> set (head # us)" by (rule last_in_set; simp)+
  moreover have "set (x # vs) \<inter> set (head # us) = {}" using assms by (auto simp: ring_def)
  moreover have "last (head # us @ x # vs) = last (x # vs)" by simp
  ultimately show ?thesis using ring_prev[OF assms] ring_last[OF assms] by (metis disjoint_iff option.inject)
qed

lemma range_over_ring:
  assumes "ring (hp s) head (us @ vs)" and "keeps_ring hp head (us @ vs) body"
  shows "list_for_element_range (\<lambda>s. pv (hp s) head) (\<lambda>s. pv (hp s)) (\<lambda>s. nx (hp s)) body (hd (vs @ [head])) s =
    Some (each body vs s)"
  using assms
proof (induction vs arbitrary: us s)
  case Nil
  then show ?case by (subst list_for_element_range.simps) simp
next
  case (Cons x vs)
  have go: "pv (hp s) x \<noteq> pv (hp s) head" by (rule ring_inner[OF Cons.prems(1)])
  show ?case
  proof (cases "body x s")
    case (Inl h)
    with go show ?thesis by (subst list_for_element_range.simps) simp
  next
    case (Inr s1)
    with Cons.prems have r: "ring (hp s1) head ((us @ [x]) @ vs)" unfolding keeps_ring_def by fastforce
    have "nx (hp s1) x = Some (hd (vs @ [head]))" using r by (intro ring_next[of _ _ us]) simp
    with Cons.IH[OF r] Cons.prems(2) go Inr show ?thesis by (subst list_for_element_range.simps) simp
  qed
qed

lemma list_for_each_element_ring:
  assumes "ring (hp s) head xs" and "keeps_ring hp head xs body"
  shows "list_for_each_element hp head body s = Some (each body xs s)"
  using range_over_ring[of hp s head "[]" xs body] assms ring_first[OF assms(1)]
  by (simp add: list_for_each_element_def)

text \<open>A ring read backwards is a ring with the two kinds of pointers exchanged.\<close>

definition mirror :: "'r lheap \<Rightarrow> 'r lheap" where
  "mirror h = \<lparr>nx = pv h, pv = nx h\<rparr>"

lemma mirror_sel [simp]: "nx (mirror h) = pv h" "pv (mirror h) = nx h"
  by (simp_all add: mirror_def)

lemma links_mirror: "links (mirror h) (rev xs) \<longleftrightarrow> links h xs"
proof (induction h xs rule: links.induct)
  case (1 h x y zs)
  then show ?case using links_append[of "mirror h" "rev zs" y "[x]"] by auto
qed simp_all

lemma ring_mirror: "ring (mirror h) head (rev xs) \<longleftrightarrow> ring h head xs"
  using links_mirror[of h "head # xs @ [head]"] by (simp add: ring_def)

lemma list_for_each_element_reverse_ring:
  assumes "ring (hp s) head xs" and "keeps_ring hp head xs body"
  shows "list_for_each_element_reverse hp head body s = Some (each body (rev xs) s)"
proof -
  have "list_for_each_element_reverse hp head body s = list_for_each_element (\<lambda>s. mirror (hp s)) head body s"
    by (cases "pv (hp s) head") (simp_all add: list_for_each_element_reverse_def list_for_each_element_def)
  also have "\<dots> = Some (each body (rev xs) s)"
    using assms by (intro list_for_each_element_ring) (simp_all add: ring_mirror keeps_ring_def)
  finally show ?thesis .
qed

lemma range_safe_over_ring:
  assumes "ring (hp s) head (us @ vs)" and "drops_from_ring hp head rm body"
  shows "list_for_element_range_safe (\<lambda>s. pv (hp s) head) (\<lambda>s. pv (hp s)) (\<lambda>s. nx (hp s)) body (hd (vs @ [head]))
      (nx (hp s) (hd (vs @ [head]))) s = Some (each body vs s) \<and>
    (\<forall>s'. each body vs s = Inr s' \<longrightarrow> ring (hp s') head (us @ filter (\<lambda>x. \<not> rm x) vs))"
  using assms(1)
proof (induction vs arbitrary: us s)
  case Nil
  then show ?case by (subst list_for_element_range_safe.simps) simp
next
  case (Cons x vs)
  have go: "pv (hp s) x \<noteq> pv (hp s) head" by (rule ring_inner[OF Cons.prems])
  have ptr: "nx (hp s) x = Some (hd (vs @ [head]))" by (rule ring_next[OF Cons.prems])
  show ?case
  proof (cases "body x s")
    case (Inl h)
    with go show ?thesis by (subst list_for_element_range_safe.simps) simp
  next
    case (Inr s1)
    let ?us = "if rm x then us else us @ [x]"
    have "ring (hp s1) head (?us @ vs)"
      using assms(2) Cons.prems Inr unfolding drops_from_ring_def by fastforce
    from Cons.IH[OF this] go Inr ptr show ?thesis by (subst list_for_element_range_safe.simps) (simp split: if_splits)
  qed
qed

lemma list_for_each_element_safe_ring:
  assumes "ring (hp s) head xs" and "drops_from_ring hp head rm body"
  shows "list_for_each_element_safe hp head body s = Some (each body xs s)"
    and "each body xs s = Inr s' \<Longrightarrow> ring (hp s') head (filter (\<lambda>x. \<not> rm x) xs)"
  using range_safe_over_ring[of hp s head "[]" xs rm body] assms ring_first[OF assms(1)]
  by (simp_all add: list_for_each_element_safe_def)

lemma list_for_each_element_reverse_safe_ring:
  assumes "ring (hp s) head xs" and "drops_from_ring (\<lambda>s. mirror (hp s)) head rm body"
  shows "list_for_each_element_reverse_safe hp head body s = Some (each body (rev xs) s)"
proof -
  have "list_for_each_element_reverse_safe hp head body s = list_for_each_element_safe (\<lambda>s. mirror (hp s)) head body s"
    by (cases "pv (hp s) head") (simp_all add: list_for_each_element_reverse_safe_def list_for_each_element_safe_def)
  also have "\<dots> = Some (each body (rev xs) s)"
    using assms by (intro list_for_each_element_safe_ring(1)) (simp_all add: ring_mirror)
  finally show ?thesis .
qed

lemma keeps_ring_step:
  "keeps_ring hp head xs body \<Longrightarrow> x \<in> set xs \<Longrightarrow> ring (hp s) head xs \<Longrightarrow> body x s = Inr s' \<Longrightarrow> ring (hp s') head xs"
  unfolding keeps_ring_def by blast

text \<open>The loops that begin or end at a given element.\<close>

lemma range_to_element:
  assumes "ring (hp s) head (us @ ws @ x # vs)" and "keeps_ring hp head (us @ ws @ x # vs) body"
  shows "list_for_element_range (\<lambda>s. Some x) (\<lambda>s. pv (hp s)) (\<lambda>s. nx (hp s)) body (hd (ws @ [x])) s =
    Some (each body (ws @ [x]) s)"
  using assms
proof (induction ws arbitrary: us s)
  case Nil
  have "last (head # us) \<in> set (head # us)" by (rule last_in_set) simp
  moreover have "x \<notin> set (head # us)" using Nil(1) by (auto simp: ring_def)
  ultimately have go: "pv (hp s) x \<noteq> Some x" using ring_prev[of "hp s" head us x vs] Nil(1) by auto
  show ?case
  proof (cases "body x s")
    case (Inl h)
    with go show ?thesis by (subst list_for_element_range.simps) simp
  next
    case (Inr s1)
    have r: "ring (hp s1) head (us @ x # vs)" using keeps_ring_step[where hp = hp, OF Nil(2) _ Nil(1) Inr] by simp
    have n: "nx (hp s1) x = Some (hd (vs @ [head]))" by (rule ring_next[OF r])
    have p: "pv (hp s1) (hd (vs @ [head])) = Some x"
      using r ring_prev[of "hp s1" head "us @ [x]" "hd vs" "tl vs"] ring_last[OF r] by (cases vs) auto
    have "list_for_element_range (\<lambda>s. Some x) (\<lambda>s. pv (hp s)) (\<lambda>s. nx (hp s)) body (hd (vs @ [head])) s1 = Some (Inr s1)"
      by (subst list_for_element_range.simps) (simp add: p)
    with go n Inr show ?thesis by (subst list_for_element_range.simps) simp
  qed
next
  case (Cons y ws)
  have "last (head # us) \<in> set (head # us)" by (rule last_in_set) simp
  moreover have "x \<notin> set (head # us)" using Cons.prems(1) by (auto simp: ring_def)
  ultimately have go: "pv (hp s) y \<noteq> Some x" using ring_prev[of "hp s" head us y "ws @ x # vs"] Cons.prems(1) by auto
  show ?case
  proof (cases "body y s")
    case (Inl h)
    with go show ?thesis by (subst list_for_element_range.simps) simp
  next
    case (Inr s1)
    have r: "ring (hp s1) head ((us @ [y]) @ ws @ x # vs)"
      using keeps_ring_step[where hp = hp, OF Cons.prems(2) _ Cons.prems(1) Inr] by simp
    have "nx (hp s1) y = Some (hd (ws @ [x]))" using ring_next[of "hp s1" head us y "ws @ x # vs"] r by (cases ws) simp_all
    with Cons.IH[OF r] Cons.prems(2) go Inr show ?thesis by (subst list_for_element_range.simps) simp
  qed
qed

lemma list_for_element_to_last_ring:
  assumes "ring (hp s) head (us @ x # vs)" and "keeps_ring hp head (us @ x # vs) body"
  shows "list_for_element_to_last hp head x body s = Some (each body (x # vs) s)"
  using range_over_ring[of hp s head us "x # vs" body] assms by (simp add: list_for_element_to_last_def)

lemma list_for_first_to_element_ring:
  assumes "ring (hp s) head (us @ x # vs)" and "keeps_ring hp head (us @ x # vs) body"
  shows "list_for_first_to_element hp head x body s = Some (each body (us @ [x]) s)"
proof -
  have "nx (hp s) head = Some (hd (us @ [x]))" using ring_first[OF assms(1)] by (cases us) simp_all
  then show ?thesis using range_to_element[of hp s head "[]" us x vs body] assms
    by (simp add: list_for_first_to_element_def)
qed

lemma list_loops_reverse_to_element:
  assumes "ring (hp s) head (us @ x # vs)" and "keeps_ring hp head (us @ x # vs) body"
  shows "list_for_element_to_last_reverse hp head x body s = Some (each body (rev (x # vs)) s)"
    and "list_for_first_to_element_reverse hp head x body s = Some (each body (rev (us @ [x])) s)"
proof -
  let ?m = "\<lambda>s. mirror (hp s)"
  have m: "ring (mirror h) head (rev vs @ x # rev us) \<longleftrightarrow> ring h head (us @ x # vs)" for h
    using ring_mirror[of h head "us @ x # vs"] by simp
  have r: "ring (?m s) head (rev vs @ x # rev us)" unfolding m by (rule assms(1))
  have "set (rev vs @ x # rev us) = set (us @ x # vs)" by auto
  then have k: "keeps_ring ?m head (rev vs @ x # rev us) body"
    using assms(2) unfolding keeps_ring_def m by (simp only:)
  have "list_for_element_to_last_reverse hp head x body s = list_for_first_to_element ?m head x body s"
    by (cases "pv (hp s) head") (simp_all add: list_for_element_to_last_reverse_def list_for_first_to_element_def)
  with list_for_first_to_element_ring[where hp = ?m, OF r k]
  show "list_for_element_to_last_reverse hp head x body s = Some (each body (rev (x # vs)) s)" by simp
  have "list_for_first_to_element_reverse hp head x body s = list_for_element_to_last ?m head x body s"
    by (simp add: list_for_first_to_element_reverse_def list_for_element_to_last_def)
  with list_for_element_to_last_ring[where hp = ?m, OF r k]
  show "list_for_first_to_element_reverse hp head x body s = Some (each body (rev (us @ [x])) s)" by simp
qed

section \<open>Registries\<close>

text \<open>What the writer does with its lists of interfaces, packet handlers, TLV types and addresses: elements
  are appended, and removed one by one in any order. The contract is that of a sequence.\<close>

locale registry =
  fixes rep :: "'h \<Rightarrow> 'r \<Rightarrow> 'r list \<Rightarrow> bool"
    and add :: "'r \<Rightarrow> 'r \<Rightarrow> 'h \<Rightarrow> halt + 'h"
    and rem :: "'r \<Rightarrow> 'h \<Rightarrow> halt + 'h"
  assumes add_rep: "rep h head xs \<Longrightarrow> x \<notin> set (head # xs) \<Longrightarrow> \<exists>h'. add head x h = Inr h' \<and> rep h' head (xs @ [x])"
    and rem_rep: "rep h head (us @ x # vs) \<Longrightarrow> \<exists>h'. rem x h = Inr h' \<and> rep h' head (us @ vs)"
    and rep_distinct: "rep h head xs \<Longrightarrow> distinct (head # xs)"
begin

lemma add_all:
  assumes "rep h head xs" and "distinct ys" and "set ys \<inter> set (head # xs) = {}"
  shows "\<exists>h'. each (add head) ys h = Inr h' \<and> rep h' head (xs @ ys)"
  using assms
proof (induction ys arbitrary: h xs)
  case (Cons y ys)
  from add_rep[OF Cons.prems(1), of y] Cons.prems(3) obtain h1 where
    "add head y h = Inr h1" "rep h1 head (xs @ [y])" by auto
  with Cons.IH[of h1 "xs @ [y]"] Cons.prems(2,3) show ?case by auto
qed simp

lemma rem_all:
  assumes "rep h head xs" and "distinct ys" and "set ys \<subseteq> set xs"
  shows "\<exists>h'. each rem ys h = Inr h' \<and> rep h' head (filter (\<lambda>x. x \<notin> set ys) xs)"
  using assms
proof (induction ys arbitrary: h xs)
  case (Cons y ys)
  from Cons.prems(3) obtain us vs where x: "xs = us @ y # vs" by (auto simp: in_set_conv_decomp)
  from rem_rep[OF Cons.prems(1)[unfolded x]] obtain h1 where r: "rem y h = Inr h1" "rep h1 head (us @ vs)" by blast
  have d: "y \<notin> set us" "y \<notin> set vs" using rep_distinct[OF Cons.prems(1)] by (auto simp: x)
  from Cons.IH[OF r(2)] Cons.prems(2,3) obtain h' where
    "each rem ys h1 = Inr h'" "rep h' head (filter (\<lambda>x. x \<notin> set ys) (us @ vs))" by (auto simp: x)
  moreover have "filter (\<lambda>x. x \<notin> set ys) (us @ vs) = filter (\<lambda>x. x \<notin> set (y # ys)) xs"
    using d by (auto simp: x intro!: arg_cong2[where f = append] filter_cong)
  ultimately show ?case using r(1) by simp
qed simp

end

interpretation rings: registry ring list_add_tail list_remove
proof
  show "\<exists>h'. list_add_tail head x h = Inr h' \<and> ring h' head (xs @ [x])" if "ring h head xs" "x \<notin> set (head # xs)" for h head xs x
    using list_add_tail_ring[OF that] by (auto simp: becomes_def)
  show "\<exists>h'. list_remove x h = Inr h' \<and> ring h' head (us @ vs)" if "ring h head (us @ x # vs)" for h head us x vs
    using list_remove_ring[OF that] by (auto simp: becomes_def)
  show "distinct (head # xs)" if "ring h head xs" for h head xs
    using that by (simp add: ring_def)
qed

section \<open>Properties\<close>

lemma list_remove_drops: "drops_from_ring id head (\<lambda>_. True) list_remove"
proof -
  have "ring h' head (us @ vs)" if "ring h head (us @ x # vs)" "list_remove x h = Inr h'" for us x vs h h'
    using list_remove_ring[OF that(1)] that(2) by (auto simp: becomes_def)
  then show ?thesis unfolding drops_from_ring_def by simp
qed

definition null_heap :: "nat lheap" where
  "null_heap = \<lparr>nx = (\<lambda>_. None), pv = (\<lambda>_. None)\<rparr>"

text \<open>C31: The ring operations implement sequences: the tests answer whether the sequence is empty, a node its
  first or last, or an element added; the four insertions put a new node at the front, at the end, before and
  after a given node, removal takes a node out and clears both its pointers; other nodes keep their
  pointers, so that a ring of other nodes is not affected.\<close>

theorem list_refines_sequence:
  assumes "ring h head (us @ vs)" and "new \<notin> set (head # us @ vs)"
  shows "(list_is_empty head h \<longleftrightarrow> us @ vs = []) \<and>
    (us @ vs \<noteq> [] \<longrightarrow> (\<forall>e. (list_is_first head e h \<longleftrightarrow> e = hd (us @ vs)) \<and> (list_is_last head e h \<longleftrightarrow> e = last (us @ vs)))) \<and>
    (\<forall>x\<in>set (us @ vs). list_node_added x h) \<and>
    (us = [] \<longrightarrow> (\<exists>h'. list_add_head head new h = Inr h' \<and> becomes head (us @ vs) (new # vs) h h')) \<and>
    (vs = [] \<longrightarrow> (\<exists>h'. list_add_tail head new h = Inr h' \<and> becomes head (us @ vs) (us @ [new]) h h')) \<and>
    (vs \<noteq> [] \<longrightarrow> (\<exists>h'. list_add_before (hd vs) new h = Inr h' \<and> becomes head (us @ vs) (us @ new # vs) h h')) \<and>
    (us \<noteq> [] \<longrightarrow> (\<exists>h'. list_add_after (last us) new h = Inr h' \<and> becomes head (us @ vs) (us @ new # vs) h h')) \<and>
    (vs \<noteq> [] \<longrightarrow> (\<exists>h'. list_remove (hd vs) h = Inr h' \<and> becomes head (us @ vs) (us @ tl vs) h h' \<and>
      nx h' (hd vs) = None \<and> pv h' (hd vs) = None)) \<and>
    (\<forall>ys h' head2 zs. becomes head (us @ vs) ys h h' \<longrightarrow> ring h head2 zs \<longrightarrow>
      set (head # us @ vs @ ys) \<inter> set (head2 # zs) = {} \<longrightarrow> ring h' head2 zs)"
proof (intro conjI impI allI ballI)
  show "list_is_empty head h \<longleftrightarrow> us @ vs = []" using list_is_empty_ring[OF assms(1)] .
  show "list_node_added x h" if "x \<in> set (us @ vs)" for x using list_node_added_ring[OF assms(1) that] .
  show "list_is_first head e h \<longleftrightarrow> e = hd (us @ vs)" "list_is_last head e h \<longleftrightarrow> e = last (us @ vs)" if "us @ vs \<noteq> []" for e
  proof -
    have c: "us @ vs = hd (us @ vs) # tl (us @ vs)" "us @ vs = butlast (us @ vs) @ [last (us @ vs)]"
      using that by (metis list.collapse, metis append_butlast_last_id)
    show "list_is_first head e h \<longleftrightarrow> e = hd (us @ vs)"
      using list_is_first_ring[of h head "hd (us @ vs)" "tl (us @ vs)"] assms(1) c(1) by simp
    show "list_is_last head e h \<longleftrightarrow> e = last (us @ vs)"
      using list_is_last_ring[of h head "butlast (us @ vs)" "last (us @ vs)"] assms(1) c(2) by simp
  qed
  show "\<exists>h'. list_add_after (last us) new h = Inr h' \<and> becomes head (us @ vs) (us @ new # vs) h h'" if "us \<noteq> []"
  proof -
    have e: "butlast us @ last us # w = us @ w" for w using append_butlast_last_id[OF that] by (metis append.assoc append_Cons append_Nil)
    show ?thesis using list_add_after_ring[of h head "butlast us" "last us" vs new] assms unfolding e by simp
  qed
  show "\<exists>h'. list_add_before (hd vs) new h = Inr h' \<and> becomes head (us @ vs) (us @ new # vs) h h'" if "vs \<noteq> []"
    using list_add_before_ring[of h head us "hd vs" "tl vs" new] assms that by simp
  show "\<exists>h'. list_remove (hd vs) h = Inr h' \<and> becomes head (us @ vs) (us @ tl vs) h h' \<and>
      nx h' (hd vs) = None \<and> pv h' (hd vs) = None"
    if "vs \<noteq> []"
    using list_remove_ring[of h head us "hd vs" "tl vs"] assms(1) that by auto
  show "ring h' head2 zs" if "becomes head (us @ vs) ys h h'" "ring h head2 zs" "set (head # us @ vs @ ys) \<inter> set (head2 # zs) = {}"
    for ys h' head2 zs
    using ring_frame[OF that(2), of "set (head # (us @ vs) @ ys)" h'] that(1,3) unfolding becomes_def by simp
  show "\<exists>h'. list_add_head head new h = Inr h' \<and> becomes head (us @ vs) (new # vs) h h'" if "us = []"
    using list_add_head_ring[of h head vs new] assms that by simp
  show "\<exists>h'. list_add_tail head new h = Inr h' \<and> becomes head (us @ vs) (us @ [new]) h h'" if "vs = []"
    using list_add_tail_ring[of h head us new] assms that by simp
qed

definition sample_ring :: "nat \<Rightarrow> nat list \<Rightarrow> nat lheap \<Rightarrow> halt + nat lheap" where
  "sample_ring head xs h = each (list_add_tail head) xs (list_init_head head h)"

lemma sample_ring: "distinct (head # xs) \<Longrightarrow> \<exists>h'. sample_ring head xs h = Inr h' \<and> ring h' head xs"
  using rings.add_all[of "list_init_head head h" head "[]" xs] list_init_head_ring[of head h]
  by (auto simp: sample_ring_def)

theorem list_refines_sequence_witness:
  "\<exists>h h1 h2. ring h (0 :: nat) [1, 2] \<and> list_add_before 2 3 h = Inr h1 \<and> ring h1 0 [1, 3, 2] \<and>
     list_remove 2 h = Inr h2 \<and> ring h2 0 [1] \<and> nx h2 2 = None \<and> pv h2 2 = None \<and> list_is_first 0 1 h"
proof -
  obtain h where h: "ring h (0 :: nat) [1, 2]" using sample_ring[of 0 "[1, 2]" null_heap] by auto
  with list_refines_sequence[of h 0 "[1]" "[2]" 3] show ?thesis by (auto simp: becomes_def)
qed

text \<open>\<open>list_merge\<close> puts the elements of the second list in front of those of the first, in their order,
  and leaves the second list empty.\<close>

theorem list_merge_prepends:
  assumes "ring h add_to xs" and "ring h remove_from ys" and "set (add_to # xs) \<inter> set (remove_from # ys) = {}"
  shows "\<exists>h'. list_merge add_to remove_from h = Inr h' \<and> ring h' add_to (ys @ xs) \<and> ring h' remove_from [] \<and>
    same_outside (set (add_to # xs) \<union> set (remove_from # ys)) h h'"
  using assms by (rule list_merge_ring)

lemma two_rings: "\<exists>h. ring h (0 :: nat) [1, 2] \<and> ring h 10 [11, 12]"
proof -
  have "case rbind (sample_ring 0 [1, 2] null_heap) (sample_ring 10 [11, 12]) of
      Inl _ \<Rightarrow> False | Inr h \<Rightarrow> ring h 0 [1, 2] \<and> ring h 10 [11, 12]" by code_simp
  then show ?thesis by (auto split: sum.splits)
qed

theorem list_merge_prepends_witness:
  "\<exists>h h'. ring h (0 :: nat) [1, 2] \<and> ring h 10 [11, 12] \<and> list_merge 0 10 h = Inr h' \<and> ring h' 0 [11, 12, 1, 2]"
proof -
  obtain h where "ring h (0 :: nat) [1, 2]" "ring h 10 [11, 12]" using two_rings by blast
  with list_merge_prepends[OF this] show ?thesis by auto
qed

text \<open>C32: The loops end and visit every element once: the plain loop in order and the backward loop in reverse
  order as long as the body keeps the ring, the safe loop also when the body removes the current element.\<close>

theorem list_loops_visit_all:
  assumes "ring (hp s) head xs"
  shows "(keeps_ring hp head xs body \<longrightarrow>
      list_for_each_element hp head body s = Some (each body xs s) \<and>
      list_for_each_element_reverse hp head body s = Some (each body (rev xs) s)) \<and>
    (drops_from_ring hp head rm body \<longrightarrow>
      list_for_each_element_safe hp head body s = Some (each body xs s) \<and>
      (\<forall>s'. each body xs s = Inr s' \<longrightarrow> ring (hp s') head (filter (\<lambda>x. \<not> rm x) xs)))"
  by (simp add: list_for_each_element_ring[where hp = hp, OF assms] list_for_each_element_reverse_ring[where hp = hp, OF assms]
      list_for_each_element_safe_ring[where hp = hp, OF assms])

theorem list_loops_visit_all_witness:
  "\<exists>h h'. ring h (0 :: nat) [1, 2] \<and> list_for_each_element_safe id 0 list_remove h = Some (Inr h') \<and> ring h' 0 []"
proof -
  obtain h where h: "ring h (0 :: nat) [1, 2]" using sample_ring[of 0 "[1, 2]" null_heap] by auto
  have r: "ring (id h) 0 [1, 2]" using h by simp
  have d: "drops_from_ring id (0 :: nat) (\<lambda>_. True) list_remove" by (rule list_remove_drops)
  obtain h' where "each list_remove [1, 2] h = Inr h'"
    using rings.rem_all[OF h, of "[1, 2]"] by auto
  with list_loops_visit_all[where hp = id and s = h, OF r, of list_remove "\<lambda>_. True"] d h show ?thesis by auto
qed

end
