(* ===== verification/AvlLoops.thy ===== *)
theory AvlLoops
  imports LinkedList
begin

text \<open>
  \<open>src/lib/common/avl.h\<close>: walking over the elements of an AVL tree. A tree in memory is the heap with the
  linked list of its elements, the pointer to its root and its counter; \<open>head\<close> is the address of the list
  head inside the tree. An element and its node are the same address. What the rotations do to the tree itself
  is in \<open>Avl\<close>; here only the list matters, which the loops follow.
\<close>

section \<open>Neighbors in the list\<close>

record 'r avl_mem =
  am_list :: "'r lheap"
  am_root :: "'r option"
  am_count :: u32

definition avl_is_first :: "'r \<Rightarrow> 'r \<Rightarrow> 'r avl_mem \<Rightarrow> bool" where
  "avl_is_first head node t \<longleftrightarrow> nx (am_list t) head = Some node"

definition avl_is_last :: "'r \<Rightarrow> 'r \<Rightarrow> 'r avl_mem \<Rightarrow> bool" where
  "avl_is_last head node t \<longleftrightarrow> pv (am_list t) head = Some node"

definition avl_is_empty :: "'r avl_mem \<Rightarrow> bool" where
  "avl_is_empty t \<longleftrightarrow> am_count t = 0"

definition avl_first_element :: "'r \<Rightarrow> 'r avl_mem \<Rightarrow> 'r option" where
  "avl_first_element head t = nx (am_list t) head"

definition avl_first_element_safe :: "'r \<Rightarrow> 'r avl_mem \<Rightarrow> 'r option" where
  "avl_first_element_safe head t = (if avl_is_empty t then None else avl_first_element head t)"

definition avl_last_element :: "'r \<Rightarrow> 'r avl_mem \<Rightarrow> 'r option" where
  "avl_last_element head t = pv (am_list t) head"

definition avl_last_element_safe :: "'r \<Rightarrow> 'r avl_mem \<Rightarrow> 'r option" where
  "avl_last_element_safe head t = (if avl_is_empty t then None else avl_last_element head t)"

definition avl_next_element :: "'r \<Rightarrow> 'r avl_mem \<Rightarrow> 'r option" where
  "avl_next_element element t = nx (am_list t) element"

definition avl_next_element_safe :: "'r \<Rightarrow> 'r option \<Rightarrow> 'r avl_mem \<Rightarrow> 'r option" where
  "avl_next_element_safe head element t =
     (case element of None \<Rightarrow> None | Some e \<Rightarrow> if avl_is_last head e t then None else avl_next_element e t)"

definition avl_prev_element :: "'r \<Rightarrow> 'r avl_mem \<Rightarrow> 'r option" where
  "avl_prev_element element t = pv (am_list t) element"

definition avl_prev_element_safe :: "'r \<Rightarrow> 'r option \<Rightarrow> 'r avl_mem \<Rightarrow> 'r option" where
  "avl_prev_element_safe head element t =
     (case element of None \<Rightarrow> None | Some e \<Rightarrow> if avl_is_first head e t then None else avl_prev_element e t)"

section \<open>Loops\<close>

text \<open>The expressions for the last element are evaluated in every iteration, as the macros do; the loops of
  \<open>list.h\<close> have the same control flow.\<close>

definition avl_for_element_range ::
  "('s \<Rightarrow> 'r avl_mem) \<Rightarrow> 'r option \<Rightarrow> ('s \<Rightarrow> 'r option) \<Rightarrow> ('r \<Rightarrow> 's \<Rightarrow> halt + 's) \<Rightarrow> 's \<Rightarrow> (halt + 's) option" where
  "avl_for_element_range tr first lst body s =
     (case first of
        None \<Rightarrow> Some (Inl NullDeref)
      | Some e \<Rightarrow> list_for_element_range lst (\<lambda>s e. avl_prev_element e (tr s)) (\<lambda>s e. avl_next_element e (tr s)) body e s)"

definition avl_for_element_range_reverse ::
  "('s \<Rightarrow> 'r avl_mem) \<Rightarrow> ('s \<Rightarrow> 'r option) \<Rightarrow> 'r option \<Rightarrow> ('r \<Rightarrow> 's \<Rightarrow> halt + 's) \<Rightarrow> 's \<Rightarrow> (halt + 's) option" where
  "avl_for_element_range_reverse tr first lst body s =
     (case lst of
        None \<Rightarrow> Some (Inl NullDeref)
      | Some e \<Rightarrow> list_for_element_range first (\<lambda>s e. avl_next_element e (tr s)) (\<lambda>s e. avl_prev_element e (tr s)) body e s)"

definition avl_for_each_element ::
  "('s \<Rightarrow> 'r avl_mem) \<Rightarrow> 'r \<Rightarrow> ('r \<Rightarrow> 's \<Rightarrow> halt + 's) \<Rightarrow> 's \<Rightarrow> (halt + 's) option" where
  "avl_for_each_element tr head body s =
     avl_for_element_range tr (avl_first_element head (tr s)) (\<lambda>s. avl_last_element head (tr s)) body s"

definition avl_for_each_element_reverse ::
  "('s \<Rightarrow> 'r avl_mem) \<Rightarrow> 'r \<Rightarrow> ('r \<Rightarrow> 's \<Rightarrow> halt + 's) \<Rightarrow> 's \<Rightarrow> (halt + 's) option" where
  "avl_for_each_element_reverse tr head body s =
     avl_for_element_range_reverse tr (\<lambda>s. avl_first_element head (tr s)) (avl_last_element head (tr s)) body s"

definition avl_for_element_to_last ::
  "('s \<Rightarrow> 'r avl_mem) \<Rightarrow> 'r \<Rightarrow> 'r \<Rightarrow> ('r \<Rightarrow> 's \<Rightarrow> halt + 's) \<Rightarrow> 's \<Rightarrow> (halt + 's) option" where
  "avl_for_element_to_last tr head e body s =
     avl_for_element_range tr (Some e) (\<lambda>s. avl_last_element head (tr s)) body s"

definition avl_for_element_to_last_reverse ::
  "('s \<Rightarrow> 'r avl_mem) \<Rightarrow> 'r \<Rightarrow> 'r \<Rightarrow> ('r \<Rightarrow> 's \<Rightarrow> halt + 's) \<Rightarrow> 's \<Rightarrow> (halt + 's) option" where
  "avl_for_element_to_last_reverse tr head e body s =
     avl_for_element_range_reverse tr (\<lambda>s. Some e) (avl_last_element head (tr s)) body s"

definition avl_for_first_to_element ::
  "('s \<Rightarrow> 'r avl_mem) \<Rightarrow> 'r \<Rightarrow> 'r \<Rightarrow> ('r \<Rightarrow> 's \<Rightarrow> halt + 's) \<Rightarrow> 's \<Rightarrow> (halt + 's) option" where
  "avl_for_first_to_element tr head e body s =
     avl_for_element_range tr (avl_first_element head (tr s)) (\<lambda>s. Some e) body s"

definition avl_for_first_to_element_reverse ::
  "('s \<Rightarrow> 'r avl_mem) \<Rightarrow> 'r \<Rightarrow> 'r \<Rightarrow> ('r \<Rightarrow> 's \<Rightarrow> halt + 's) \<Rightarrow> 's \<Rightarrow> (halt + 's) option" where
  "avl_for_first_to_element_reverse tr head e body s =
     avl_for_element_range_reverse tr (\<lambda>s. avl_first_element head (tr s)) (Some e) body s"

text \<open>The loops that survive the removal of the current element.\<close>

definition avl_for_element_range_safe ::
  "('s \<Rightarrow> 'r avl_mem) \<Rightarrow> 'r option \<Rightarrow> ('s \<Rightarrow> 'r option) \<Rightarrow> ('r \<Rightarrow> 's \<Rightarrow> halt + 's) \<Rightarrow> 's \<Rightarrow> (halt + 's) option" where
  "avl_for_element_range_safe tr first lst body s =
     (case first of
        None \<Rightarrow> Some (Inl NullDeref)
      | Some e \<Rightarrow> list_for_element_range_safe lst (\<lambda>s e. avl_prev_element e (tr s)) (\<lambda>s e. avl_next_element e (tr s)) body e
          (avl_next_element e (tr s)) s)"

definition avl_for_element_range_reverse_safe ::
  "('s \<Rightarrow> 'r avl_mem) \<Rightarrow> ('s \<Rightarrow> 'r option) \<Rightarrow> 'r option \<Rightarrow> ('r \<Rightarrow> 's \<Rightarrow> halt + 's) \<Rightarrow> 's \<Rightarrow> (halt + 's) option" where
  "avl_for_element_range_reverse_safe tr first lst body s =
     (case lst of
        None \<Rightarrow> Some (Inl NullDeref)
      | Some e \<Rightarrow> list_for_element_range_safe first (\<lambda>s e. avl_next_element e (tr s)) (\<lambda>s e. avl_prev_element e (tr s)) body e
          (avl_prev_element e (tr s)) s)"

definition avl_for_each_element_safe ::
  "('s \<Rightarrow> 'r avl_mem) \<Rightarrow> 'r \<Rightarrow> ('r \<Rightarrow> 's \<Rightarrow> halt + 's) \<Rightarrow> 's \<Rightarrow> (halt + 's) option" where
  "avl_for_each_element_safe tr head body s =
     avl_for_element_range_safe tr (avl_first_element head (tr s)) (\<lambda>s. avl_last_element head (tr s)) body s"

definition avl_for_each_element_reverse_safe ::
  "('s \<Rightarrow> 'r avl_mem) \<Rightarrow> 'r \<Rightarrow> ('r \<Rightarrow> 's \<Rightarrow> halt + 's) \<Rightarrow> 's \<Rightarrow> (halt + 's) option" where
  "avl_for_each_element_reverse_safe tr head body s =
     avl_for_element_range_reverse_safe tr (\<lambda>s. avl_first_element head (tr s)) (avl_last_element head (tr s)) body s"

text \<open>The loop that empties a tree: \<open>upd\<close> writes the tree in the state of the loop. The list head and the root
  are reset before the first iteration, the counter goes down by one after each.\<close>

partial_function (option) remove_all_loop ::
  "('s \<Rightarrow> 'r avl_mem) \<Rightarrow> (('r avl_mem \<Rightarrow> 'r avl_mem) \<Rightarrow> 's \<Rightarrow> 's) \<Rightarrow> ('r \<Rightarrow> 's \<Rightarrow> halt + 's) \<Rightarrow> 'r \<Rightarrow> 'r option \<Rightarrow> 's \<Rightarrow>
     (halt + 's) option" where
  "remove_all_loop tr upd body element ptr s =
     (if 0 < am_count (tr s)
      then case body element s of
          Inl h \<Rightarrow> Some (Inl h)
        | Inr s \<Rightarrow>
            (case ptr of
               None \<Rightarrow> Some (Inl NullDeref)
             | Some p \<Rightarrow>
                 remove_all_loop tr upd body p (avl_next_element p (tr s)) (upd (\<lambda>t. t\<lparr>am_count := am_count t - 1\<rparr>) s))
      else Some (Inr s))"

definition avl_remove_all_elements ::
  "('s \<Rightarrow> 'r avl_mem) \<Rightarrow> (('r avl_mem \<Rightarrow> 'r avl_mem) \<Rightarrow> 's \<Rightarrow> 's) \<Rightarrow> 'r \<Rightarrow> ('r \<Rightarrow> 's \<Rightarrow> halt + 's) \<Rightarrow> 's \<Rightarrow>
     (halt + 's) option" where
  "avl_remove_all_elements tr upd head body s =
     (case avl_first_element head (tr s) of
        None \<Rightarrow> Some (Inl NullDeref)
      | Some e \<Rightarrow>
          let ptr = avl_next_element e (tr s); s = upd (\<lambda>t. t\<lparr>am_list := list_init_head head (am_list t)\<rparr>) s;
              s = upd (\<lambda>t. t\<lparr>am_root := None\<rparr>) s
          in remove_all_loop tr upd body e ptr s)"

section \<open>The loops on the list of a tree\<close>

lemmas avl_element_defs = avl_first_element_def avl_last_element_def avl_next_element_def avl_prev_element_def

lemma avl_loops_list:
  "avl_for_each_element tr head = list_for_each_element (\<lambda>s. am_list (tr s)) head"
  "avl_for_each_element_reverse tr head = list_for_each_element_reverse (\<lambda>s. am_list (tr s)) head"
  "avl_for_element_to_last tr head = list_for_element_to_last (\<lambda>s. am_list (tr s)) head"
  "avl_for_element_to_last_reverse tr head = list_for_element_to_last_reverse (\<lambda>s. am_list (tr s)) head"
  "avl_for_first_to_element tr head = list_for_first_to_element (\<lambda>s. am_list (tr s)) head"
  "avl_for_first_to_element_reverse tr head = list_for_first_to_element_reverse (\<lambda>s. am_list (tr s)) head"
  "avl_for_each_element_safe tr head = list_for_each_element_safe (\<lambda>s. am_list (tr s)) head"
  "avl_for_each_element_reverse_safe tr head = list_for_each_element_reverse_safe (\<lambda>s. am_list (tr s)) head"
  by (auto simp: fun_eq_iff avl_element_defs
      avl_for_each_element_def list_for_each_element_def avl_for_each_element_reverse_def list_for_each_element_reverse_def
      avl_for_element_to_last_def list_for_element_to_last_def avl_for_element_to_last_reverse_def
      list_for_element_to_last_reverse_def avl_for_first_to_element_def list_for_first_to_element_def
      avl_for_first_to_element_reverse_def list_for_first_to_element_reverse_def
      avl_for_each_element_safe_def list_for_each_element_safe_def
      avl_for_each_element_reverse_safe_def list_for_each_element_reverse_safe_def
      avl_for_element_range_def avl_for_element_range_reverse_def avl_for_element_range_safe_def
      avl_for_element_range_reverse_safe_def split: option.split)

text \<open>Walking by hand with the safe element macros gives the next and the previous element, and the null pointer
  at the ends.\<close>

lemma avl_next_element_safe_ring:
  assumes "ring (am_list t) head (us @ x # vs)"
  shows "avl_next_element_safe head (Some x) t = (case vs of [] \<Rightarrow> None | y # _ \<Rightarrow> Some y)"
proof (cases vs)
  case Nil
  then have "avl_is_last head x t" using ring_last[OF assms] by (simp add: avl_is_last_def)
  then show ?thesis by (simp add: avl_next_element_safe_def Nil)
next
  case (Cons y ys)
  have "last (y # ys) \<noteq> x" using assms Cons last_in_set[of "y # ys"] by (auto simp: ring_def)
  then have "\<not> avl_is_last head x t" using ring_last[OF assms] by (simp add: avl_is_last_def Cons)
  then show ?thesis using ring_next[OF assms] by (simp add: avl_next_element_safe_def avl_next_element_def Cons)
qed

lemma avl_prev_element_safe_ring:
  assumes "ring (am_list t) head (us @ x # vs)"
  shows "avl_prev_element_safe head (Some x) t = (if us = [] then None else Some (last us))"
proof (cases us)
  case Nil
  then have "avl_is_first head x t" using ring_first[OF assms] by (simp add: avl_is_first_def)
  then show ?thesis by (simp add: avl_prev_element_safe_def Nil)
next
  case (Cons y ys)
  have "y \<noteq> x" using assms Cons by (auto simp: ring_def)
  then have "\<not> avl_is_first head x t" using ring_first[OF assms] by (simp add: avl_is_first_def Cons)
  then show ?thesis using ring_prev[OF assms] by (simp add: avl_prev_element_safe_def avl_prev_element_def Cons)
qed

section \<open>Emptying a tree\<close>

text \<open>The body may do what it likes to the element it is called for, which it frees as a rule; the rest of the list
  and the counter it leaves alone. \<open>lens\<close> says that \<open>upd\<close> writes what \<open>tr\<close> reads.\<close>

definition lens :: "('s \<Rightarrow> 't) \<Rightarrow> (('t \<Rightarrow> 't) \<Rightarrow> 's \<Rightarrow> 's) \<Rightarrow> bool" where
  "lens tr upd \<longleftrightarrow> (\<forall>f s. tr (upd f s) = f (tr s))"

definition frees :: "('s \<Rightarrow> 'r avl_mem) \<Rightarrow> ('r \<Rightarrow> 's \<Rightarrow> halt + 's) \<Rightarrow> bool" where
  "frees tr body \<longleftrightarrow> (\<forall>e s s'. body e s = Inr s' \<longrightarrow>
     same_outside {e} (am_list (tr s)) (am_list (tr s')) \<and> am_count (tr s') = am_count (tr s) \<and> am_root (tr s') = am_root (tr s))"

definition count_down :: "(('r avl_mem \<Rightarrow> 'r avl_mem) \<Rightarrow> 's \<Rightarrow> 's) \<Rightarrow> ('r \<Rightarrow> 's \<Rightarrow> halt + 's) \<Rightarrow> 'r \<Rightarrow> 's \<Rightarrow> halt + 's" where
  "count_down upd body e s = rbind (body e s) (\<lambda>s. Inr (upd (\<lambda>t. t\<lparr>am_count := am_count t - 1\<rparr>) s))"

definition emptied :: "('s \<Rightarrow> 'r avl_mem) \<Rightarrow> 'r \<Rightarrow> 's \<Rightarrow> bool" where
  "emptied tr head s \<longleftrightarrow> ring (am_list (tr s)) head [] \<and> avl_is_empty (tr s) \<and> am_root (tr s) = None"

fun chain :: "'r lheap \<Rightarrow> 'r list \<Rightarrow> bool" where
  "chain h (x # y # zs) \<longleftrightarrow> nx h x = Some y \<and> chain h (y # zs)"
| "chain h xs \<longleftrightarrow> True"

lemma links_chain: "links h xs \<Longrightarrow> chain h xs"
  by (induction h xs rule: links.induct) auto

lemma chain_cong: "\<forall>x\<in>set (butlast xs). nx h' x = nx h x \<Longrightarrow> chain h' xs \<longleftrightarrow> chain h xs"
  by (induction h xs rule: chain.induct) auto

lemma chain_next: "chain h (x # xs @ [y]) \<Longrightarrow> nx h x = Some (hd (xs @ [y])) \<and> chain h (xs @ [y])"
  by (cases xs) simp_all

lemma ring_Nil_iff: "ring h head [] \<longleftrightarrow> nx h head = Some head \<and> pv h head = Some head"
  by (simp add: ring_def)

lemma remove_all_loop_ring:
  assumes "chain (am_list (tr s)) (xs @ [head])" and "distinct (head # xs)" and "ring (am_list (tr s)) head []"
    and "unat (am_count (tr s)) = length xs" and "am_root (tr s) = None" and "frees tr body" and "lens tr upd"
  shows "remove_all_loop tr upd body (hd (xs @ [head])) (nx (am_list (tr s)) (hd (xs @ [head]))) s =
      Some (each (count_down upd body) xs s) \<and>
    (\<forall>s'. each (count_down upd body) xs s = Inr s' \<longrightarrow> emptied tr head s')"
  using assms(1-5)
proof (induction xs arbitrary: s)
  case Nil
  then have "am_count (tr s) = 0" by (simp add: word_unat_eq_iff)
  with Nil show ?case by (subst remove_all_loop.simps) (simp add: emptied_def avl_is_empty_def)
next
  case (Cons x xs)
  let ?p = "hd (xs @ [head])"
  have go: "0 < am_count (tr s)" using Cons.prems(4) by (simp add: word_less_nat_alt)
  have n: "nx (am_list (tr s)) x = Some ?p" and c: "chain (am_list (tr s)) (xs @ [head])"
    using chain_next[of _ x xs head] Cons.prems(1) by simp_all
  show ?case
  proof (cases "body x s")
    case (Inl h)
    with go n show ?thesis by (subst remove_all_loop.simps) (simp add: count_down_def)
  next
    case (Inr s1)
    let ?s2 = "upd (\<lambda>t. t\<lparr>am_count := am_count t - 1\<rparr>) s1"
    have f: "same_outside {x} (am_list (tr s)) (am_list (tr s1))" "am_count (tr s1) = am_count (tr s)" "am_root (tr s1) = am_root (tr s)"
      using assms(6) Inr unfolding frees_def by blast+
    have t: "tr ?s2 = (tr s1)\<lparr>am_count := am_count (tr s1) - 1\<rparr>" using assms(7) by (simp add: lens_def)
    have "chain (am_list (tr ?s2)) (xs @ [head])"
      using c f(1) Cons.prems(2) by (subst chain_cong[of _ _ "am_list (tr s)"]) (auto simp: t same_outside_def butlast_append)
    moreover have "ring (am_list (tr ?s2)) head []"
      using Cons.prems(2,3) f(1) by (auto simp: t ring_Nil_iff same_outside_def)
    moreover have "1 \<le> am_count (tr s)" using go by (simp add: word_le_nat_alt word_less_nat_alt)
    then have "unat (am_count (tr ?s2)) = length xs" using Cons.prems(4) by (simp add: t f(2) unat_sub)
    ultimately have IH: "remove_all_loop tr upd body ?p (nx (am_list (tr ?s2)) ?p) ?s2 = Some (each (count_down upd body) xs ?s2) \<and>
        (\<forall>s'. each (count_down upd body) xs ?s2 = Inr s' \<longrightarrow> emptied tr head s')"
      using Cons.IH[of ?s2] Cons.prems(2,5) by (simp add: t f(3))
    have cd: "count_down upd body x s = Inr ?s2" using Inr by (simp add: count_down_def)
    have "remove_all_loop tr upd body x (Some ?p) s = remove_all_loop tr upd body ?p (nx (am_list (tr s1)) ?p) ?s2"
      using go Inr by (subst remove_all_loop.simps) (simp add: avl_next_element_def)
    with IH n cd show ?thesis by (simp add: t)
  qed
qed

lemma avl_remove_all_ring:
  assumes "ring (am_list (tr s)) head xs" and "unat (am_count (tr s)) = length xs" and "frees tr body" and "lens tr upd"
  defines "s0 \<equiv> upd (\<lambda>t. t\<lparr>am_root := None\<rparr>) (upd (\<lambda>t. t\<lparr>am_list := list_init_head head (am_list t)\<rparr>) s)"
  shows "avl_remove_all_elements tr upd head body s = Some (each (count_down upd body) xs s0) \<and>
    (\<forall>s'. each (count_down upd body) xs s0 = Inr s' \<longrightarrow> emptied tr head s')"
proof -
  let ?e = "hd (xs @ [head])" and ?h = "am_list (tr s)"
  have d: "distinct (head # xs)" using assms(1) by (simp add: ring_def)
  have t: "tr s0 = (tr s)\<lparr>am_list := list_init_head head ?h, am_root := None\<rparr>" using assms(4) by (simp add: s0_def lens_def)
  have "chain ?h (head # xs @ [head])" using assms(1) by (simp add: ring_def links_chain)
  from chain_next[OF this] have "chain ?h (xs @ [head])" by simp
  then have c: "chain (am_list (tr s0)) (xs @ [head])"
    using d by (subst chain_cong[of _ _ ?h]) (auto simp: t list_init_head_def butlast_append)
  have r: "ring (am_list (tr s0)) head []" by (simp add: t list_init_head_ring)
  have n: "nx (am_list (tr s0)) ?e = nx ?h ?e \<or> xs = []" using d by (cases xs) (auto simp: t list_init_head_def)
  moreover have "nx (am_list (tr s0)) head = Some head" using r by (simp add: ring_Nil_iff)
  moreover have "xs = [] \<Longrightarrow> nx ?h head = Some head" using ring_first[OF assms(1)] by simp
  ultimately have n: "nx (am_list (tr s0)) ?e = nx ?h ?e" by auto
  have f: "avl_first_element head (tr s) = Some ?e" using ring_first[OF assms(1)] by (simp add: avl_first_element_def)
  have "avl_remove_all_elements tr upd head body s = remove_all_loop tr upd body ?e (nx (am_list (tr s0)) ?e) s0"
    unfolding n by (simp add: avl_remove_all_elements_def f s0_def avl_next_element_def Let_def)
  with remove_all_loop_ring[OF c d r _ _ assms(3,4)] assms(2) show ?thesis by (simp add: t)
qed

section \<open>Properties\<close>

text \<open>C33: The loop that clears a tree ends: with the counter equal to the number of elements it runs the body exactly
  once for every element, in list order, although the body may destroy the element it is called for, and
  leaves the tree empty.\<close>

theorem avl_remove_all_visits:
  assumes "ring (am_list (tr s)) head xs" and "unat (am_count (tr s)) = length xs" and "frees tr body" and "lens tr upd"
    and "s0 = upd (\<lambda>t. t\<lparr>am_root := None\<rparr>) (upd (\<lambda>t. t\<lparr>am_list := list_init_head head (am_list t)\<rparr>) s)"
  shows "avl_remove_all_elements tr upd head body s = Some (each (count_down upd body) xs s0) \<and>
    (\<forall>s'. each (count_down upd body) xs s0 = Inr s' \<longrightarrow> emptied tr head s')"
  using avl_remove_all_ring[OF assms(1-4)] unfolding assms(5) .

text \<open>A body that overwrites the pointers of the element and notes its address.\<close>

definition note_free :: "'r \<Rightarrow> 'r avl_mem \<times> 'r list \<Rightarrow> halt + 'r avl_mem \<times> 'r list" where
  "note_free e s = (case s of (t, l) \<Rightarrow> Inr (t\<lparr>am_list := list_init_node e (am_list t)\<rparr>, l @ [e]))"

theorem avl_remove_all_visits_witness:
  "\<exists>h t. ring h (0 :: nat) [3, 1, 2] \<and>
    avl_remove_all_elements fst apfst 0 note_free (\<lparr>am_list = h, am_root = Some 1, am_count = 3\<rparr>, []) = Some (Inr (t, [3, 1, 2])) \<and>
    ring (am_list t) 0 [] \<and> am_count t = 0"
proof -
  obtain h where h: "ring h (0 :: nat) [3, 1, 2]" using sample_ring[of 0 "[3, 1, 2]" null_heap] by auto
  let ?s = "(\<lparr>am_list = h, am_root = Some 1, am_count = 3\<rparr>, [] :: nat list)"
  have r: "ring (am_list (fst ?s)) 0 [3, 1, 2]" "unat (am_count (fst ?s)) = length [3, 1, 2 :: nat]" using h by simp_all
  have f: "frees fst (note_free :: nat \<Rightarrow> _)" by (auto simp: frees_def note_free_def same_outside_def list_init_node_def)
  have l: "lens fst apfst" by (simp add: lens_def)
  have "\<exists>t. each (count_down apfst note_free) [3, 1, 2] (apfst (\<lambda>t. t\<lparr>am_root := None\<rparr>)
      (apfst (\<lambda>t. t\<lparr>am_list := list_init_head 0 (am_list t)\<rparr>) ?s)) = Inr (t, [3, 1, 2])"
    by (simp add: count_down_def note_free_def)
  with avl_remove_all_visits[OF r f l refl] h show ?thesis
    by (auto simp: emptied_def avl_is_empty_def)
qed

end
