(* ===== verification/TlvWriter.thy ===== *)
theory TlvWriter
  imports PbbParse
begin

text \<open>
  \<open>lib/packetbb/pbb_tlv_writer.c\<close>: the buffer in which a message or a packet is put together, with the
  bytes reserved for its header, the TLVs added so far, the space allocated for later TLVs and the part
  of it that is set. Every write is checked against the size of the buffer. A TLV that the writer puts
  into a buffer is read back by the reader's \<open>parse_tlv\<close>.
\<close>

section \<open>The buffer\<close>

record tlv_writer_data =
  tw_buffer :: bytes
  tw_header :: nat
  tw_added :: nat
  tw_allocated :: nat
  tw_set :: nat
  tw_max :: nat

definition pbb_tlv_writer_init :: "tlv_writer_data \<Rightarrow> nat \<Rightarrow> tlv_writer_data" where
  "pbb_tlv_writer_init data mx =
     data\<lparr>tw_header := 0, tw_added := 0, tw_allocated := 0, tw_set := 0, tw_max := mx\<rparr>"

definition calc_tlv_size :: "bool \<Rightarrow> nat \<Rightarrow> nat" where
  "calc_tlv_size exttype len =
     (let s = 2; s = (if exttype then s + 1 else s); s = s + len
      in if 255 < len then s + 2 else if 0 < len then s + 1 else s)"

section \<open>One TLV\<close>

definition tlv_flags :: "u8 \<Rightarrow> u8 \<Rightarrow> u8 \<Rightarrow> nat \<Rightarrow> u8" where
  "tlv_flags exttype idx1 idx2 len =
     (let flags = (if 0 < exttype then PBB_TLV_FLAG_TYPEEXT else 0);
          flags = (if idx1 = idx2 then flags OR PBB_TLV_FLAG_SINGLE_IDX
                   else if 0 < idx1 \<or> idx2 < 255 then flags OR PBB_TLV_FLAG_MULTI_IDX else flags);
          flags = (if 255 < len then flags OR PBB_TLV_FLAG_EXTVALUE else flags)
      in if 0 < len then flags OR PBB_TLV_FLAG_VALUE else flags)"

text \<open>The bytes that \<open>_write_tlv\<close> puts at \<open>ptr\<close>, in order.\<close>

definition tlv_bytes :: "u8 \<Rightarrow> u8 \<Rightarrow> u8 \<Rightarrow> u8 \<Rightarrow> bytes \<Rightarrow> bytes" where
  "tlv_bytes type exttype idx1 idx2 val =
     [type, tlv_flags exttype idx1 idx2 (length val)] @
     (if exttype \<noteq> 0 then [exttype] else []) @
     (if 0 < idx1 \<or> idx2 < 255 then idx1 # (if idx1 \<noteq> idx2 then [idx2] else []) else []) @
     (if 255 < length val then [of_nat (length val div 256)] else []) @
     (if 0 < length val then of_nat (length val mod 256) # val else [])"

definition write_tlv :: "bytes \<Rightarrow> nat \<Rightarrow> u8 \<Rightarrow> u8 \<Rightarrow> u8 \<Rightarrow> u8 \<Rightarrow> bytes \<Rightarrow> halt + bytes" where
  "write_tlv buf ptr type exttype idx1 idx2 val = memcpy buf ptr (tlv_bytes type exttype idx1 idx2 val)"

section \<open>Adding, allocating and setting\<close>

definition pbb_tlv_writer_add ::
  "tlv_writer_data \<Rightarrow> u8 \<Rightarrow> u8 \<Rightarrow> bytes \<Rightarrow> halt + pbb_result \<times> tlv_writer_data" where
  "pbb_tlv_writer_add data type exttype val =
     (let s = calc_tlv_size (exttype \<noteq> 0) (length val)
      in if tw_max data < tw_header data + tw_added data + tw_allocated data + s then Inr (PBB_MTU_TOO_SMALL, data)
         else rbind (write_tlv (tw_buffer data) (tw_header data + tw_added data) type exttype 0 255 val) (\<lambda>buf.
           Inr (PBB_OKAY, data\<lparr>tw_buffer := buf, tw_added := tw_added data + s\<rparr>)))"

definition pbb_tlv_writer_allocate ::
  "tlv_writer_data \<Rightarrow> bool \<Rightarrow> nat \<Rightarrow> pbb_result \<times> tlv_writer_data" where
  "pbb_tlv_writer_allocate data has_exttype len =
     (let s = calc_tlv_size has_exttype len
      in if tw_max data < tw_header data + tw_added data + tw_allocated data + s then (PBB_MTU_TOO_SMALL, data)
         else (PBB_OKAY, data\<lparr>tw_allocated := tw_allocated data + s\<rparr>))"

text \<open>Subtraction of \<open>size_t\<close> values (64 bits).\<close>

definition size_sub :: "nat \<Rightarrow> nat \<Rightarrow> nat" where
  "size_sub a b = (if b \<le> a then a - b else 2 ^ 64 - (b - a))"

definition pbb_tlv_writer_set ::
  "tlv_writer_data \<Rightarrow> u8 \<Rightarrow> u8 \<Rightarrow> bytes \<Rightarrow> halt + pbb_result \<times> tlv_writer_data" where
  "pbb_tlv_writer_set data type exttype val =
     (let s = calc_tlv_size (exttype \<noteq> 0) (length val)
      in if size_sub (tw_allocated data) (tw_set data) < s then Inr (PBB_MTU_TOO_SMALL, data)
         else rbind (write_tlv (tw_buffer data) (tw_header data + tw_added data + tw_set data) type exttype 0 255 val)
           (\<lambda>buf. Inr (PBB_OKAY, data\<lparr>tw_buffer := buf, tw_set := tw_set data + s\<rparr>)))"

section \<open>The invariant of the buffer\<close>

definition tw_inv :: "tlv_writer_data \<Rightarrow> bool" where
  "tw_inv data \<longleftrightarrow> tw_header data + tw_added data + tw_allocated data \<le> tw_max data \<and>
     tw_set data \<le> tw_allocated data \<and> tw_max data \<le> length (tw_buffer data)"

lemma length_tlv_bytes: "length (tlv_bytes type exttype 0 255 val) = calc_tlv_size (exttype \<noteq> 0) (length val)"
  by (simp add: tlv_bytes_def calc_tlv_size_def Let_def)

lemma tlv_add_ok:
  assumes "tw_inv data"
  shows "\<exists>r data'. pbb_tlv_writer_add data type exttype val = Inr (r, data') \<and> tw_inv data' \<and>
    (r = PBB_OKAY \<longrightarrow>
       sub_bytes (tw_header data) (tw_added data') (tw_buffer data') =
         sub_bytes (tw_header data) (tw_added data) (tw_buffer data) @ tlv_bytes type exttype 0 255 val \<and>
       tw_header data' = tw_header data \<and> tw_allocated data' = tw_allocated data \<and> tw_set data' = tw_set data) \<and>
    (r \<noteq> PBB_OKAY \<longrightarrow> r = PBB_MTU_TOO_SMALL \<and> data' = data)"
proof -
  let ?s = "calc_tlv_size (exttype \<noteq> 0) (length val)" and ?b = "tlv_bytes type exttype 0 255 val"
  show ?thesis
  proof (cases "tw_max data < tw_header data + tw_added data + tw_allocated data + ?s")
    case True
    with assms show ?thesis by (simp add: pbb_tlv_writer_add_def Let_def)
  next
    case False
    have l: "tw_header data + tw_added data + length ?b \<le> length (tw_buffer data)"
      using False assms unfolding tw_inv_def length_tlv_bytes by linarith
    have "sub_bytes (tw_header data) (tw_added data + ?s) (put_bytes (tw_header data + tw_added data) ?b (tw_buffer data)) =
        sub_bytes (tw_header data) (tw_added data) (tw_buffer data) @ ?b"
      using sub_put_extend[OF l] by (simp only: length_tlv_bytes)
    with False l assms show ?thesis
      by (simp add: pbb_tlv_writer_add_def write_tlv_def memcpy_def Let_def tw_inv_def length_tlv_bytes)
  qed
qed

section \<open>Reading back what was written\<close>

text \<open>The bytes \<open>bs\<close> are in the buffer at position \<open>p\<close>.\<close>

primrec bytes_at :: "bytes \<Rightarrow> nat \<Rightarrow> bytes \<Rightarrow> bool" where
  "bytes_at buf p [] \<longleftrightarrow> p \<le> length buf"
| "bytes_at buf p (x # xs) \<longleftrightarrow> p < length buf \<and> buf ! p = x \<and> bytes_at buf (Suc p) xs"

lemma bytes_at_bound: "bytes_at buf p bs \<Longrightarrow> p + length bs \<le> length buf"
  by (induction bs arbitrary: p) force+

lemma bytes_at_append: "bytes_at buf p (xs @ ys) \<longleftrightarrow> bytes_at buf p xs \<and> bytes_at buf (p + length xs) ys"
  by (induction xs arbitrary: p) (auto dest: bytes_at_bound)

lemma bytes_at_sub: "bytes_at buf p bs \<longleftrightarrow> p + length bs \<le> length buf \<and> sub_bytes p (length bs) buf = bs"
proof (induction bs arbitrary: p)
  case (Cons b bs)
  show ?case
  proof (cases "p < length buf")
    case True
    then have "drop p buf = buf ! p # drop (Suc p) buf" by (simp add: Cons_nth_drop_Suc)
    with True Cons[of "Suc p"] show ?thesis by (auto simp: sub_bytes_def)
  qed simp
qed (simp add: sub_bytes_def)

lemma get_u8_at: "bytes_at buf p (x # xs) \<Longrightarrow> p < eob \<Longrightarrow> pbb_get_u8 buf eob (p, PBB_OKAY) = (x, p + 1, PBB_OKAY)"
  by (simp add: pbb_get_u8_def)

lemma get_u16_at:
  "bytes_at buf p (h # l # xs) \<Longrightarrow> Suc p < eob \<Longrightarrow> pbb_get_u16 buf eob (p, PBB_OKAY) = (mk16 h l, p + 2, PBB_OKAY)"
  by (simp add: pbb_get_u16_def pbb_get_u8_def)

text \<open>The flag byte answers the reader's questions.\<close>

lemma tlv_flags_bits:
  "tlv_flags ext i1 i2 n AND PBB_TLV_FLAG_TYPEEXT \<noteq> 0 \<longleftrightarrow> ext \<noteq> 0"
  "tlv_flags ext i1 i2 n AND PBB_TLV_FLAG_MULTIVALUE = 0"
  "tlv_flags ext i1 i2 n AND 0x60 =
     (if i1 = i2 then PBB_TLV_FLAG_SINGLE_IDX else if 0 < i1 \<or> i2 < 255 then PBB_TLV_FLAG_MULTI_IDX else 0)"
  "tlv_flags ext i1 i2 n AND 0x18 =
     (if 255 < n then 0x18 else if 0 < n then PBB_TLV_FLAG_VALUE else 0)"
  by (auto simp: tlv_flags_def Let_def word_gt_0)

text \<open>Type, index range and length of a written TLV, one after the other.\<close>

definition tlv_head :: "u8 \<Rightarrow> u8 \<Rightarrow> nat \<Rightarrow> u8 \<Rightarrow> u8 \<Rightarrow> bytes" where
  "tlv_head type ext n i1 i2 = [type, tlv_flags ext i1 i2 n] @ (if ext \<noteq> 0 then [ext] else [])"

definition tlv_index :: "u8 \<Rightarrow> u8 \<Rightarrow> bytes" where
  "tlv_index i1 i2 = (if 0 < i1 \<or> i2 < 255 then i1 # (if i1 \<noteq> i2 then [i2] else []) else [])"

definition tlv_len :: "nat \<Rightarrow> bytes" where
  "tlv_len n = (if 255 < n then [of_nat (n div 256)] else []) @ (if 0 < n then [of_nat (n mod 256)] else [])"

lemma tlv_bytes_parts:
  "tlv_bytes type ext i1 i2 val = tlv_head type ext (length val) i1 i2 @ tlv_index i1 i2 @ tlv_len (length val) @ val"
  by (simp add: tlv_bytes_def tlv_head_def tlv_index_def tlv_len_def)

lemma parse_tlv_type_at:
  assumes "bytes_at buf p (tlv_head type ext n i1 i2)" and "p + length (tlv_head type ext n i1 i2) \<le> eob"
  shows "parse_tlv_type buf eob e (p, PBB_OKAY) =
    (e\<lparr>t_type := type, t_flags := tlv_flags ext i1 i2 n, t_type_ext := ext,
       int_order := word_of_int (calc_tlv_intorder type ext)\<rparr>, p + length (tlv_head type ext n i1 i2), PBB_OKAY)"
  using assms
  by (auto simp: parse_tlv_type_def tlv_head_def pbb_get_u8_def tlv_flags_bits Let_def split: if_splits)

lemma parse_tlv_index_at:
  assumes "bytes_at buf p (tlv_index i1 i2)" and "p + length (tlv_index i1 i2) \<le> eob"
    and "t_flags e = tlv_flags ext i1 i2 n"
  shows "parse_tlv_index buf eob e (p, PBB_OKAY) = (e\<lparr>index1 := i1, index2 := i2\<rparr>, p + length (tlv_index i1 i2), PBB_OKAY)"
proof -
  have "i2 = 255" if "\<not> i2 < 255"
  proof -
    have "unat i2 = 255" using that unat_u8[of i2] by (simp add: word_less_nat_alt)
    then show ?thesis by (simp add: word_unat_eq_iff)
  qed
  moreover have "\<not> 0 < i1 \<Longrightarrow> i1 = 0" by (simp add: word_gt_0)
  ultimately have "\<not> (0 < i1 \<or> i2 < 255) \<Longrightarrow> i1 = 0 \<and> i2 = 255" by blast
  note no_idx = this
  consider "0 < i1 \<or> i2 < 255" "i1 = i2" | "0 < i1 \<or> i2 < 255" "i1 \<noteq> i2" | "i1 = 0" "i2 = 255" using no_idx by blast
  then show ?thesis
    by cases (use assms in \<open>simp_all add: parse_tlv_index_def tlv_index_def pbb_get_u8_def tlv_flags_bits\<close>)
qed

lemma mk16_of_nat: "n < 65536 \<Longrightarrow> mk16 (of_nat (n div 256)) (of_nat (n mod 256)) = of_nat n"
  by (rule word_unat_eq_iff[THEN iffD2]) (simp add: unat_mk16 unat_of_nat less_mult_imp_div_less)

lemma parse_tlv_length_at:
  assumes "bytes_at buf p (tlv_len n)" and "p + length (tlv_len n) \<le> eob"
    and "t_flags e = tlv_flags ext i1 i2 n" and "n < 65536"
  shows "parse_tlv_length buf eob e (p, PBB_OKAY) = (e\<lparr>t_length := of_nat n\<rparr>, p + length (tlv_len n), PBB_OKAY)"
proof -
  have "\<not> 255 < n \<Longrightarrow> ucast (of_nat n :: u8) = (of_nat n :: u16)"
    by (rule word_unat_eq_iff[THEN iffD2]) (simp add: unat_of_nat)
  with assms mk16_of_nat[of n] show ?thesis
    by (auto simp: parse_tlv_length_def tlv_len_def pbb_get_u16_def pbb_get_u8_def tlv_flags_bits Let_def split: if_splits)
qed

text \<open>The entry that the reader makes of a written TLV: it points at the value in the packet.\<close>

definition tlv_read :: "tlv_entry \<Rightarrow> nat \<Rightarrow> u8 \<Rightarrow> u8 \<Rightarrow> u8 \<Rightarrow> u8 \<Rightarrow> bytes \<Rightarrow> tlv_entry" where
  "tlv_read e p type ext i1 i2 val =
     (let vp = (if val = [] then None else Some (p + length (tlv_bytes type ext i1 i2 val) - length val))
      in e\<lparr>t_type := type, t_flags := tlv_flags ext i1 i2 (length val), t_type_ext := ext,
           t_length := of_nat (length val), single_value := (if val = [] then single_value e else vp), index1 := i1,
           index2 := i2, int_order := word_of_int (calc_tlv_intorder type ext), int_value := vp,
           int_multivalue_tlv := False\<rparr>)"

lemma of_nat_zero_iff: "n < 65536 \<Longrightarrow> (of_nat n :: u16) = 0 \<longleftrightarrow> n = 0"
  by (simp add: word_unat_eq_iff unat_of_nat)

lemma parse_tlv_at:
  assumes "bytes_at buf p (tlv_bytes type ext i1 i2 val)" and "p + length (tlv_bytes type ext i1 i2 val) \<le> eob"
    and n: "length val < 65536"
  shows "parse_tlv buf eob e p =
    Inr (PBB_OKAY, tlv_read e p type ext i1 i2 val, p + length (tlv_bytes type ext i1 i2 val))"
proof -
  let ?h = "tlv_head type ext (length val) i1 i2" and ?i = "tlv_index i1 i2" and ?l = "tlv_len (length val)"
  have at: "bytes_at buf p ?h" "bytes_at buf (p + length ?h) ?i" "bytes_at buf (p + length ?h + length ?i) ?l"
    and b: "p + length ?h + length ?i + length ?l + length val \<le> eob"
    using assms(1,2) by (simp_all add: tlv_bytes_parts bytes_at_append add.assoc)
  let ?e1 = "e\<lparr>t_type := type, t_flags := tlv_flags ext i1 i2 (length val), t_type_ext := ext,
       int_order := word_of_int (calc_tlv_intorder type ext)\<rparr>"
  let ?e2 = "?e1\<lparr>index1 := i1, index2 := i2\<rparr>" let ?e3 = "?e2\<lparr>t_length := of_nat (length val)\<rparr>"
  have 1: "parse_tlv_type buf eob e (p, PBB_OKAY) = (?e1, p + length ?h, PBB_OKAY)"
    using b by (intro parse_tlv_type_at at) simp
  have 2: "parse_tlv_index buf eob ?e1 (p + length ?h, PBB_OKAY) = (?e2, p + length ?h + length ?i, PBB_OKAY)"
    using b by (intro parse_tlv_index_at[where ext = ext and n = "length val"] at) simp_all
  have 3: "parse_tlv_length buf eob ?e2 (p + length ?h + length ?i, PBB_OKAY) =
      (?e3, p + length ?h + length ?i + length ?l, PBB_OKAY)"
    using b n by (intro parse_tlv_length_at[where ext = ext and ?i1.0 = i1 and ?i2.0 = i2] at) simp_all
  have u: "unat (of_nat (length val) :: u16) = length val" using n by (simp add: unat_of_nat)
  show ?thesis
    using b of_nat_zero_iff[OF n]
    by (simp add: parse_tlv_def 1 2 3 Let_def u parse_tlv_value_def tlv_flags_bits tlv_read_def tlv_bytes_parts)
qed

section \<open>Blocks of TLVs\<close>

type_synonym wire_tlv = "u8 \<times> u8 \<times> bytes"

definition wire_bytes :: "wire_tlv \<Rightarrow> bytes" where
  "wire_bytes = (\<lambda>(type, ext, val). tlv_bytes type ext 0 255 val)"

definition block_bytes :: "wire_tlv list \<Rightarrow> bytes" where
  "block_bytes ts = concat (map wire_bytes ts)"

text \<open>The entries of the TLVs at a position, in wire order.\<close>

primrec block_read :: "tlv_entry \<Rightarrow> nat \<Rightarrow> wire_tlv list \<Rightarrow> tlv_entry list" where
  "block_read e p [] = []"
| "block_read e p (t # ts) =
     (let e' = tlv_read e p (fst t) (fst (snd t)) 0 255 (snd (snd t))
      in e' # block_read e' (p + length (wire_bytes t)) ts)"

definition sort_in :: "tlv_entry list \<Rightarrow> tlv_entry list \<Rightarrow> tlv_entry list" where
  "sort_in ts es = foldl (\<lambda>ts e. snd (store_insert avl_comp_int True (\<lambda>e. uint (int_order e)) e ts)) ts es"

lemma block_bytes_simps [simp]: "block_bytes [] = []" "block_bytes (t # ts) = wire_bytes t @ block_bytes ts"
  by (simp_all add: block_bytes_def)

lemma wire_bytes_pos: "0 < length (wire_bytes t)"
  by (auto simp: wire_bytes_def tlv_bytes_def split: prod.split)

lemma tlvblock_loop_at:
  assumes "bytes_at buf p (block_bytes ts)" and "p + length (block_bytes ts) = stop" and "stop \<le> eob"
    and "\<forall>t\<in>set ts. length (snd (snd t)) < 65536" and "\<forall>k. alloc k" and "ts = [] \<Longrightarrow> r = PBB_OKAY"
  shows "tlvblock_loop alloc buf stop eob e r tlvs p m =
    Inr (PBB_OKAY, sort_in tlvs (block_read e p ts), stop,
      \<lparr>calls = calls m + length ts, live = live m + int (length ts)\<rparr>)"
  using assms
proof (induction ts arbitrary: e p r tlvs m)
  case Nil
  then show ?case by (simp add: tlvblock_loop.simps sort_in_def)
next
  case (Cons t ts)
  obtain type ext val where t: "t = (type, ext, val)" by (cases t)
  have at: "bytes_at buf p (tlv_bytes type ext 0 255 val)" "bytes_at buf (p + length (wire_bytes t)) (block_bytes ts)"
    using Cons.prems(1) by (simp_all add: t wire_bytes_def bytes_at_append)
  have "parse_tlv buf eob e p = Inr (PBB_OKAY, tlv_read e p type ext 0 255 val, p + length (wire_bytes t))"
    using parse_tlv_at[OF at(1)] Cons.prems(2-4) by (simp add: t wire_bytes_def)
  moreover have "mem_alloc alloc m = (True, \<lparr>calls = calls m + 1, live = live m + 1\<rparr>)"
    using Cons.prems(5) by (simp add: mem_alloc_def)
  moreover have "\<not> stop \<le> p" using Cons.prems(2) wire_bytes_pos[of t] unfolding block_bytes_simps length_append by linarith
  moreover have "tlvblock_loop alloc buf stop eob e' PBB_OKAY tlvs' (p + length (wire_bytes t)) m' =
    Inr (PBB_OKAY, sort_in tlvs' (block_read e' (p + length (wire_bytes t)) ts), stop,
      \<lparr>calls = calls m' + length ts, live = live m' + int (length ts)\<rparr>)" for e' tlvs' m'
    by (rule Cons.IH[OF at(2) _ Cons.prems(3) _ Cons.prems(5)]) (use Cons.prems(2,4) in simp_all)
  ultimately show ?case
    by (subst tlvblock_loop.simps) (simp add: t Let_def sort_in_def)
qed

text \<open>A block with its length in front.\<close>

lemma parse_tlvblock_at:
  assumes "bytes_at buf p (hi8 (of_nat n) # lo8 (of_nat n) # block_bytes ts)" and "n = length (block_bytes ts)"
    and "n < 65536" and "p + 2 + n \<le> eob" and "\<forall>k. alloc k"
  shows "parse_tlvblock alloc buf [] p eob m =
    Inr (PBB_OKAY, sort_in [] (block_read empty_tlv (p + 2) ts), p + 2 + n,
      \<lparr>calls = calls m + length ts, live = live m + int (length ts)\<rparr>)"
proof -
  have g: "pbb_get_u16 buf eob (p, PBB_OKAY) = (of_nat n, p + 2, PBB_OKAY)"
    using get_u16_at[of buf p "hi8 (of_nat n)" "lo8 (of_nat n)" "block_bytes ts" eob] assms(1,4) by simp
  have u: "unat (of_nat n :: u16) = n" using assms(3) by (simp add: unat_of_nat)
  have "length (snd (snd t)) \<le> n" if "t \<in> set ts" for t
  proof -
    have "length (wire_bytes t) \<le> length (block_bytes ts)"
      using that by (induction ts) auto
    then show ?thesis unfolding assms(2) by (cases t) (simp add: wire_bytes_def tlv_bytes_def split: if_splits)
  qed
  with assms(3) have "\<forall>t\<in>set ts. length (snd (snd t)) < 65536" by (meson le_less_trans)
  from tlvblock_loop_at[OF _ _ _ this assms(5), of buf "p + 2" "p + 2 + n" eob PBB_OKAY empty_tlv "[]" m] assms(1,2,4) g u
  show ?thesis by (simp add: parse_tlvblock_def Let_def)
qed

section \<open>Properties\<close>

text \<open>C27: A TLV that was added is in the buffer behind the earlier ones, which are unchanged; the reader's
  \<open>parse_tlv\<close> reads back its type, extension, length and value and stops right behind it.\<close>

theorem tlv_written_is_read:
  assumes "tw_inv data" and "pbb_tlv_writer_add data type exttype val = Inr (PBB_OKAY, data')" and "length val < 65536"
  shows "tw_inv data' \<and>
    sub_bytes (tw_header data) (tw_added data) (tw_buffer data') = sub_bytes (tw_header data) (tw_added data) (tw_buffer data) \<and>
    (\<exists>e'. parse_tlv (tw_buffer data') (tw_header data' + tw_added data') e (tw_header data + tw_added data) =
       Inr (PBB_OKAY, e', tw_header data' + tw_added data') \<and>
     t_type e' = type \<and> t_type_ext e' = exttype \<and> unat (t_length e') = length val \<and> index1 e' = 0 \<and> index2 e' = 255 \<and>
     (if val = [] then int_value e' = None
      else single_value e' = int_value e' \<and> sub_bytes (the (int_value e')) (length val) (tw_buffer data') = val))"
proof -
  let ?b = "tlv_bytes type exttype 0 255 val" and ?p = "tw_header data + tw_added data"
  from assms(2) have w: "memcpy (tw_buffer data) ?p ?b = Inr (tw_buffer data')"
    and d: "data' = data\<lparr>tw_buffer := tw_buffer data', tw_added := tw_added data + length ?b\<rparr>"
    by (auto simp: pbb_tlv_writer_add_def write_tlv_def Let_def rbind_Inr_iff length_tlv_bytes split: if_splits)
  have hd: "tw_header data' = tw_header data" "tw_added data' = tw_added data + length ?b" 
    using arg_cong[OF d, of tw_header] arg_cong[OF d, of tw_added] by simp_all
  from w have l: "?p + length ?b \<le> length (tw_buffer data)" and p: "tw_buffer data' = put_bytes ?p ?b (tw_buffer data)"
    by (auto simp: memcpy_def split: if_splits)
  have at: "bytes_at (tw_buffer data') ?p ?b" using l by (simp add: bytes_at_sub p)
  have v: "bytes_at (tw_buffer data') (?p + length ?b - length val) val"
    using at unfolding tlv_bytes_parts append_assoc[symmetric] bytes_at_append by (simp add: add.assoc)
  have u: "unat (of_nat (length val) :: u16) = length val" using assms(3) by (simp add: unat_of_nat)
  have "tw_inv data'" using tlv_add_ok[OF assms(1), of type exttype val] assms(2) by auto
  moreover have "sub_bytes (tw_header data) (tw_added data) (tw_buffer data') =
      sub_bytes (tw_header data) (tw_added data) (tw_buffer data)"
    using l by (simp add: p sub_put_before)
  ultimately show ?thesis
    using parse_tlv_at[OF at _ assms(3), of "tw_header data' + tw_added data'" e] v u
    by (simp add: hd tlv_read_def Let_def bytes_at_sub)
qed

definition sample_buffer :: tlv_writer_data where
  "sample_buffer = \<lparr>tw_buffer = replicate 32 0, tw_header = 6, tw_added = 0, tw_allocated = 0, tw_set = 0, tw_max = 32\<rparr>"

theorem tlv_written_is_read_witness:
  "\<exists>data' e'. pbb_tlv_writer_add sample_buffer 1 7 [10, 20, 30] = Inr (PBB_OKAY, data') \<and>
     parse_tlv (tw_buffer data') 13 empty_tlv 6 = Inr (PBB_OKAY, e', 13) \<and>
     t_type e' = 1 \<and> t_type_ext e' = 7 \<and> unat (t_length e') = 3"
proof -
  have i: "tw_inv sample_buffer" by code_simp
  have "case pbb_tlv_writer_add sample_buffer 1 7 [10, 20, 30] of
      Inl _ \<Rightarrow> False | Inr (r, d) \<Rightarrow> r = PBB_OKAY \<and> tw_header d + tw_added d = 13" by code_simp
  then obtain d where d: "pbb_tlv_writer_add sample_buffer 1 7 [10, 20, 30] = Inr (PBB_OKAY, d)"
    "tw_header d + tw_added d = 13" by (auto split: sum.splits)
  have "tw_header sample_buffer + tw_added sample_buffer = 6" by code_simp
  with tlv_written_is_read[OF i d(1), of empty_tlv] d show ?thesis by auto
qed

end
