(* ===== verification/PbbWriter.thy ===== *)
theory PbbWriter
  imports TlvWriter AvlContainer
begin

text \<open>
  \<open>lib/packetbb/pbb_writer.c\<close>: the state of a writer (message types with their content providers, TLV
  types and collected addresses; interfaces with their packet buffers) and the functions that register
  and collect. A message type is identified by its number, an interface, a provider and a packet handler
  by the number of its structure, an address by its position in the message's list. The trees of message
  types, providers and addresses are ordered lists as the container's contract says (\<open>store_insert\<close>,
  \<open>find\<close>); the tree of the TLVs of a type is an AVL tree proper, because its keys (the indexes of the
  addresses) change while elements are in it. The blocks in use are counted in \<open>wr_mem\<close>.
\<close>

section \<open>State\<close>

record writer_addrtlv =
  at_tlvtype :: "u8 \<times> u8"
  at_address :: nat
  at_length :: u16
  at_value :: bytes
  same_length :: bool
  same_value :: bool

record writer_address =
  wa_addrtlv_tree :: "nat list"
  wa_index :: int
  wa_addr :: bytes
  wa_prefixlen :: u8
  block_end :: "nat option"
  block_headlen :: u8
  block_multiple_prefixlen :: bool

record writer_tlvtype =
  usage_counter :: int
  tt_type :: u8
  tt_exttype :: u8
  tlv_tree :: "(nat, u32) avl_tree"

record writer_provider =
  pr_id :: nat
  priority :: u32

record writer_message =
  provider_tree :: "writer_provider list"
  registered :: bool
  if_specific :: bool
  specific_if :: "nat option"
  wm_type :: u8
  wm_addr_len :: u8
  wm_has_hopcount :: bool
  wm_hopcount :: u8
  wm_has_hoplimit :: bool
  wm_hoplimit :: u8
  wm_has_origaddr :: bool
  wm_orig_addr :: bytes
  wm_seqno :: u16
  wm_has_seqno :: bool
  addr_head :: "writer_address list"
  addr_tree :: "nat list"
  tlvtype_head :: "writer_tlvtype list"
  wm_addrtlvs :: "writer_addrtlv list"
  bin_addr_size :: nat

record writer_interface =
  if_id :: nat
  if_mtu :: nat
  is_flushed :: bool
  pkt :: tlv_writer_data
  bin_msgs_size :: nat
  if_has_seqno :: bool
  if_seqno :: u16

record pbb_writer =
  msgcreators :: "writer_message list"
  pkthandlers :: "nat list"
  interfaces :: "writer_interface list"
  msg_mtu :: nat
  wmsg :: tlv_writer_data
  addrtlv_size :: nat
  addrtlv_used :: nat
  wr_mem :: mem

text \<open>A fresh block of the writer's allocator, and the return of one.\<close>

definition wr_alloc :: "(nat \<Rightarrow> bool) \<Rightarrow> pbb_writer \<Rightarrow> bool \<times> pbb_writer" where
  "wr_alloc alloc w = (let (ok, m) = mem_alloc alloc (wr_mem w) in (ok, w\<lparr>wr_mem := m\<rparr>))"

definition wr_free :: "nat \<Rightarrow> pbb_writer \<Rightarrow> pbb_writer" where
  "wr_free n w = w\<lparr>wr_mem := mem_free n (wr_mem w)\<rparr>"

definition pbb_writer_init :: "(nat \<Rightarrow> bool) \<Rightarrow> pbb_writer \<Rightarrow> nat \<Rightarrow> nat \<Rightarrow> int \<times> pbb_writer" where
  "pbb_writer_init alloc w mtu addrtlv_data =
     (case wr_alloc alloc w of
        (False, w) \<Rightarrow> (-1, w)
      | (True, w) \<Rightarrow>
          let w = w\<lparr>wmsg := (wmsg w)\<lparr>tw_buffer := replicate mtu 0\<rparr>\<rparr>
          in case wr_alloc alloc w of
               (False, w) \<Rightarrow> (-1, wr_free 1 w)
             | (True, w) \<Rightarrow>
                 (0, w\<lparr>interfaces := [], msg_mtu := mtu, wmsg := pbb_tlv_writer_init (wmsg w) 0,
                        addrtlv_size := addrtlv_data, pkthandlers := [], msgcreators := []\<rparr>))"

section \<open>Message types\<close>

definition find_message :: "pbb_writer \<Rightarrow> u8 \<Rightarrow> writer_message option" where
  "find_message w msgid = find (\<lambda>m. avl_comp_uint8 msgid (wm_type m) = 0) (msgcreators w)"

text \<open>A write through a message pointer.\<close>

definition put_message :: "writer_message \<Rightarrow> pbb_writer \<Rightarrow> pbb_writer" where
  "put_message msg w =
     w\<lparr>msgcreators := map (\<lambda>m. if wm_type m = wm_type msg then msg else m) (msgcreators w)\<rparr>"

definition new_message :: "u8 \<Rightarrow> writer_message" where
  "new_message msgid =
     \<lparr>provider_tree = [], registered = False, if_specific = False, specific_if = None, wm_type = msgid,
      wm_addr_len = of_nat PBB_MAX_ADDRLEN, wm_has_hopcount = False, wm_hopcount = 0, wm_has_hoplimit = False,
      wm_hoplimit = 0, wm_has_origaddr = False, wm_orig_addr = replicate PBB_MAX_ADDRLEN 0, wm_seqno = 0,
      wm_has_seqno = False, addr_head = [], addr_tree = [], tlvtype_head = [], wm_addrtlvs = [], bin_addr_size = 0\<rparr>"

definition get_message :: "(nat \<Rightarrow> bool) \<Rightarrow> pbb_writer \<Rightarrow> u8 \<Rightarrow> writer_message option \<times> pbb_writer" where
  "get_message alloc w msgid =
     (case find_message w msgid of
        Some msg \<Rightarrow> (Some msg, w)
      | None \<Rightarrow>
          (case wr_alloc alloc w of
             (False, w) \<Rightarrow> (None, w)
           | (True, w) \<Rightarrow>
               (case store_insert avl_comp_uint8 False wm_type (new_message msgid) (msgcreators w) of
                  (r, l) \<Rightarrow> if r \<noteq> 0 then (None, wr_free 1 w)
                            else (Some (new_message msgid), w\<lparr>msgcreators := l\<rparr>))))"

text \<open>\<open>_lazy_free_message\<close>: a message type that nothing refers to goes away.\<close>

definition lazy_free_message :: "u8 \<Rightarrow> pbb_writer \<Rightarrow> pbb_writer" where
  "lazy_free_message msgid w =
     (case find_message w msgid of
        None \<Rightarrow> w
      | Some msg \<Rightarrow>
          if \<not> registered msg \<and> addr_head msg = [] \<and> tlvtype_head msg = [] \<and> provider_tree msg = []
          then wr_free 1 (w\<lparr>msgcreators := filter (\<lambda>m. wm_type m \<noteq> msgid) (msgcreators w)\<rparr>) else w)"

definition pbb_writer_register_message ::
  "(nat \<Rightarrow> bool) \<Rightarrow> pbb_writer \<Rightarrow> u8 \<Rightarrow> bool \<Rightarrow> u8 \<Rightarrow> writer_message option \<times> pbb_writer" where
  "pbb_writer_register_message alloc w msgid specific addr_len =
     (case get_message alloc w msgid of
        (None, w) \<Rightarrow> (None, w)
      | (Some msg, w) \<Rightarrow>
          if registered msg then (None, w)
          else let msg = msg\<lparr>registered := True, wm_addr_len := addr_len, if_specific := specific\<rparr>
               in (Some msg, put_message msg w))"

definition pbb_writer_register_msgcontentprovider ::
  "(nat \<Rightarrow> bool) \<Rightarrow> pbb_writer \<Rightarrow> nat \<Rightarrow> u8 \<Rightarrow> int \<Rightarrow> int \<times> pbb_writer" where
  "pbb_writer_register_msgcontentprovider alloc w cpr msgid prio =
     (case get_message alloc w msgid of
        (None, w) \<Rightarrow> (-1, w)
      | (Some msg, w) \<Rightarrow>
          let p = \<lparr>pr_id = cpr, priority = word_of_int prio\<rparr>
          in (0, put_message (msg\<lparr>provider_tree :=
                   snd (store_insert avl_comp_uint32 True priority p (provider_tree msg))\<rparr>) w))"

definition pbb_writer_unregister_content_provider :: "pbb_writer \<Rightarrow> nat \<Rightarrow> u8 \<Rightarrow> halt + pbb_writer" where
  "pbb_writer_unregister_content_provider w cpr msgid =
     rbind (deref (find_message w msgid)) (\<lambda>msg.
       Inr (lazy_free_message msgid
         (put_message (msg\<lparr>provider_tree := filter (\<lambda>p. pr_id p \<noteq> cpr) (provider_tree msg)\<rparr>) w)))"

section \<open>Interfaces and packet handlers\<close>

definition pbb_writer_register_pkthandler :: "pbb_writer \<Rightarrow> nat \<Rightarrow> pbb_writer" where
  "pbb_writer_register_pkthandler w h = w\<lparr>pkthandlers := pkthandlers w @ [h]\<rparr>"

definition pbb_writer_unregister_pkthandler :: "pbb_writer \<Rightarrow> nat \<Rightarrow> pbb_writer" where
  "pbb_writer_unregister_pkthandler w h = w\<lparr>pkthandlers := filter (\<lambda>p. p \<noteq> h) (pkthandlers w)\<rparr>"

text \<open>\<open>bin_msgs_size\<close> and the sequence number fields keep what the caller's structure held.\<close>

definition pbb_writer_register_interface ::
  "(nat \<Rightarrow> bool) \<Rightarrow> pbb_writer \<Rightarrow> writer_interface \<Rightarrow> nat \<Rightarrow> int \<times> pbb_writer" where
  "pbb_writer_register_interface alloc w interf mtu =
     (case wr_alloc alloc w of
        (False, w) \<Rightarrow> (-1, w)
      | (True, w) \<Rightarrow>
          let interf = interf\<lparr>pkt := pbb_tlv_writer_init ((pkt interf)\<lparr>tw_buffer := replicate mtu 0\<rparr>) mtu,
                         is_flushed := True, if_mtu := mtu\<rparr>
          in (0, w\<lparr>interfaces := interfaces w @ [interf]\<rparr>))"

definition pbb_writer_unregister_interface :: "pbb_writer \<Rightarrow> nat \<Rightarrow> pbb_writer" where
  "pbb_writer_unregister_interface w interf =
     wr_free 1 (w\<lparr>interfaces := filter (\<lambda>i. if_id i \<noteq> interf) (interfaces w)\<rparr>)"

section \<open>Addresses\<close>

text \<open>\<open>_msgaddr_avl_comp\<close> compares as many bytes as the message's addresses have.\<close>

definition msgaddr_avl_comp :: "writer_message \<Rightarrow> bytes \<Rightarrow> bytes \<Rightarrow> int" where
  "msgaddr_avl_comp msg k1 k2 = memcmp (take (unat (wm_addr_len msg)) k1) (take (unat (wm_addr_len msg)) k2)"

definition addr_key :: "writer_message \<Rightarrow> nat \<Rightarrow> bytes" where
  "addr_key msg i = wa_addr (addr_head msg ! i)"

definition new_address :: "bytes \<Rightarrow> u8 \<Rightarrow> writer_address" where
  "new_address a prefix =
     \<lparr>wa_addrtlv_tree = [], wa_index = 0, wa_addr = a, wa_prefixlen = prefix, block_end = None, block_headlen = 0,
      block_multiple_prefixlen = False\<rparr>"

text \<open>The argument has to hold as many bytes as the message's addresses have.\<close>

definition pbb_writer_add_address ::
  "(nat \<Rightarrow> bool) \<Rightarrow> pbb_writer \<Rightarrow> u8 \<Rightarrow> bytes \<Rightarrow> u8 \<Rightarrow> halt + nat option \<times> pbb_writer" where
  "pbb_writer_add_address alloc w msgid addr prefix =
     rbind (deref (find_message w msgid)) (\<lambda>msg.
     if length addr < unat (wm_addr_len msg) then Inl OutOfBounds
     else case find (\<lambda>i. msgaddr_avl_comp msg addr (addr_key msg i) = 0) (addr_tree msg) of
       Some i \<Rightarrow> Inr (Some i, w)
     | None \<Rightarrow>
         (case wr_alloc alloc w of
            (False, w) \<Rightarrow> Inr (None, w)
          | (True, w) \<Rightarrow>
              rbind (memcpy (replicate PBB_MAX_ADDRLEN 0) 0 (take (unat (wm_addr_len msg)) addr)) (\<lambda>a.
              let i = length (addr_head msg); msg = msg\<lparr>addr_head := addr_head msg @ [new_address a prefix]\<rparr>;
                  msg = msg\<lparr>addr_tree :=
                    snd (store_insert (msgaddr_avl_comp msg) False (addr_key msg) i (addr_tree msg))\<rparr>
              in Inr (Some i, put_message msg w))))"

section \<open>TLVs of addresses\<close>

definition tt_int_type :: "u8 \<times> u8 \<Rightarrow> u32" where
  "tt_int_type t = ucast (fst t) * 256 + ucast (snd t)"

text \<open>The key of a TLV in the tree of its type: the current index of its address.\<close>

definition tlv_key :: "writer_message \<Rightarrow> nat \<Rightarrow> u32" where
  "tlv_key msg t = word_of_int (wa_index (addr_head msg ! at_address (wm_addrtlvs msg ! t)))"

definition tt_of :: "writer_tlvtype \<Rightarrow> u8 \<times> u8" where
  "tt_of tt = (tt_type tt, tt_exttype tt)"

definition put_tlvtype :: "writer_tlvtype \<Rightarrow> writer_message \<Rightarrow> writer_message" where
  "put_tlvtype tt msg =
     msg\<lparr>tlvtype_head := map (\<lambda>t. if tt_of t = tt_of tt then tt else t) (tlvtype_head msg)\<rparr>"

definition find_tlvtype :: "writer_message \<Rightarrow> u8 \<times> u8 \<Rightarrow> writer_tlvtype option" where
  "find_tlvtype msg t = find (\<lambda>tt. tt_of tt = t) (tlvtype_head msg)"

definition pbb_writer_register_addrtlvtype ::
  "(nat \<Rightarrow> bool) \<Rightarrow> pbb_writer \<Rightarrow> u8 \<Rightarrow> u8 \<Rightarrow> u8 \<Rightarrow> writer_tlvtype option \<times> pbb_writer" where
  "pbb_writer_register_addrtlvtype alloc w msgtype tlv tlvext =
     (case get_message alloc w msgtype of
        (None, w) \<Rightarrow> (None, w)
      | (Some msg, w) \<Rightarrow>
          (case find_tlvtype msg (tlv, tlvext) of
             Some tt \<Rightarrow>
               let tt = tt\<lparr>usage_counter := usage_counter tt + 1\<rparr> in (Some tt, put_message (put_tlvtype tt msg) w)
           | None \<Rightarrow>
               (case wr_alloc alloc w of
                  (False, w) \<Rightarrow> (None, lazy_free_message msgtype w)
                | (True, w) \<Rightarrow>
                    let tt = \<lparr>usage_counter = 1, tt_type = tlv, tt_exttype = tlvext,
                              tlv_tree = avl_init avl_comp_uint32 True\<rparr>
                    in (Some tt, put_message (msg\<lparr>tlvtype_head := tlvtype_head msg @ [tt]\<rparr>) w))))"

text \<open>\<open>_copy_addrtlv_value\<close> reserves room in the value buffer.\<close>

definition copy_addrtlv_value :: "pbb_writer \<Rightarrow> bytes \<Rightarrow> bool \<times> pbb_writer" where
  "copy_addrtlv_value w val =
     (if addrtlv_size w < addrtlv_used w + length val then (False, w)
      else (True, w\<lparr>addrtlv_used := addrtlv_used w + length val\<rparr>))"

definition pbb_writer_add_addrtlv ::
  "(nat \<Rightarrow> bool) \<Rightarrow> pbb_writer \<Rightarrow> u8 \<Rightarrow> nat \<Rightarrow> u8 \<times> u8 \<Rightarrow> bytes \<Rightarrow> bool \<Rightarrow> halt + pbb_result \<times> pbb_writer" where
  "pbb_writer_add_addrtlv alloc w msgid addr tlvtype val allow_dup =
     rbind (deref (find_message w msgid)) (\<lambda>msg.
     rbind (deref (find_tlvtype msg tlvtype)) (\<lambda>tt.
     if length (addr_head msg) \<le> addr then Inl OutOfBounds
     else
       let a = addr_head msg ! addr; key = (\<lambda>t. tt_int_type (at_tlvtype (wm_addrtlvs msg ! t)))
       in if \<not> allow_dup \<and> find (\<lambda>t. avl_comp_uint32 (tt_int_type tlvtype) (key t) = 0) (wa_addrtlv_tree a) \<noteq> None
          then Inr (PBB_DUPLICATE_TLV, w)
          else
            (case wr_alloc alloc w of
               (False, w) \<Rightarrow> Inr (PBB_OUT_OF_MEMORY, w)
             | (True, w) \<Rightarrow>
                 (case (if 0 < length val then copy_addrtlv_value w val else (True, w)) of
                    (False, w) \<Rightarrow> Inr (PBB_OUT_OF_ADDRTLV_MEM, wr_free 1 w)
                  | (True, w) \<Rightarrow>
                      let t = length (wm_addrtlvs msg);
                          e = \<lparr>at_tlvtype = tlvtype, at_address = addr, at_length = of_nat (length val), at_value = val,
                               same_length = False, same_value = False\<rparr>;
                          msg = msg\<lparr>wm_addrtlvs := wm_addrtlvs msg @ [e]\<rparr>;
                          key = (\<lambda>t. tt_int_type (at_tlvtype (wm_addrtlvs msg ! t)));
                          a = a\<lparr>wa_addrtlv_tree := snd (store_insert avl_comp_uint32 True key t (wa_addrtlv_tree a))\<rparr>;
                          msg = msg\<lparr>addr_head := (addr_head msg)[addr := a]\<rparr>
                      in rbind (avl_insert (tlv_key msg) (tlv_tree tt) t) (\<lambda>(r, tree).
                           Inr (PBB_OKAY, put_message (put_tlvtype (tt\<lparr>tlv_tree := tree\<rparr>) msg) w))))))"

section \<open>Freeing\<close>

text \<open>The TLVs of an address leave the trees of their types.\<close>

fun free_addrtlvs :: "nat list \<Rightarrow> writer_message \<Rightarrow> halt + writer_message" where
  "free_addrtlvs [] msg = Inr msg"
| "free_addrtlvs (t # ts) msg =
     rbind (deref (find_tlvtype msg (at_tlvtype (wm_addrtlvs msg ! t)))) (\<lambda>tt.
     rbind (avl_remove (tlv_tree tt) t) (\<lambda>tree. free_addrtlvs ts (put_tlvtype (tt\<lparr>tlv_tree := tree\<rparr>) msg)))"

definition pbb_writer_free_addresses :: "pbb_writer \<Rightarrow> u8 \<Rightarrow> halt + pbb_writer" where
  "pbb_writer_free_addresses w msgid =
     rbind (deref (find_message w msgid)) (\<lambda>msg.
     let tlvs = concat (map (\<lambda>i. wa_addrtlv_tree (addr_head msg ! i)) (addr_tree msg));
         rest = filter (\<lambda>i. i \<notin> set (addr_tree msg)) [0..<length (addr_head msg)]
     in rbind (free_addrtlvs tlvs msg) (\<lambda>msg'.
          let msg' = msg'\<lparr>addr_head := map ((!) (addr_head msg)) rest, addr_tree := [], wm_addrtlvs := []\<rparr>
          in Inr ((wr_free (length tlvs + length (addr_tree msg)) (put_message msg' w))\<lparr>addrtlv_used := 0\<rparr>)))"

text \<open>\<open>_free_tlvtype_tlvs\<close>: the TLVs of a type leave the trees of their addresses.\<close>

definition free_tlvtype_tlvs :: "writer_tlvtype \<Rightarrow> writer_message \<Rightarrow> pbb_writer \<Rightarrow> writer_message \<times> pbb_writer" where
  "free_tlvtype_tlvs tt msg w =
     (let ts = elems (tlv_tree tt);
          drop_tlv = (\<lambda>a. a\<lparr>wa_addrtlv_tree := filter (\<lambda>t. t \<notin> set ts) (wa_addrtlv_tree a)\<rparr>)
      in (put_tlvtype (tt\<lparr>tlv_tree := avl_init avl_comp_uint32 True\<rparr>)
            (msg\<lparr>addr_head := map drop_tlv (addr_head msg)\<rparr>), wr_free (length ts) w))"

definition pbb_writer_unregister_addrtlvtype :: "pbb_writer \<Rightarrow> u8 \<Rightarrow> u8 \<times> u8 \<Rightarrow> halt + pbb_writer" where
  "pbb_writer_unregister_addrtlvtype w msgid t =
     rbind (deref (find_message w msgid)) (\<lambda>msg.
     rbind (deref (find_tlvtype msg t)) (\<lambda>tt.
     let tt = tt\<lparr>usage_counter := usage_counter tt - 1\<rparr>
     in if usage_counter tt \<noteq> 0 then Inr (put_message (put_tlvtype tt msg) w)
        else
          let (msg, w) = free_tlvtype_tlvs tt msg w;
              msg = msg\<lparr>tlvtype_head := filter (\<lambda>tt. tt_of tt \<noteq> t) (tlvtype_head msg)\<rparr>
          in Inr (wr_free 1 (lazy_free_message msgid (put_message msg w)))))"

definition pbb_writer_unregister_message :: "pbb_writer \<Rightarrow> u8 \<Rightarrow> halt + pbb_writer" where
  "pbb_writer_unregister_message w msgid =
     rbind (pbb_writer_free_addresses w msgid) (\<lambda>w.
     rbind (deref (find_message w msgid)) (\<lambda>msg.
       Inr (lazy_free_message msgid (put_message (msg\<lparr>registered := False\<rparr>) w))))"

text \<open>\<open>pbb_writer_cleanup\<close>, from the handlers and interfaces to the message types and the two buffers.\<close>

fun unregister_providers :: "nat list \<Rightarrow> u8 \<Rightarrow> pbb_writer \<Rightarrow> halt + pbb_writer" where
  "unregister_providers [] msgid w = Inr w"
| "unregister_providers (p # ps) msgid w =
     rbind (pbb_writer_unregister_content_provider w p msgid) (unregister_providers ps msgid)"

fun unregister_tlvtypes :: "(u8 \<times> u8) list \<Rightarrow> u8 \<Rightarrow> pbb_writer \<Rightarrow> halt + pbb_writer" where
  "unregister_tlvtypes [] msgid w = Inr w"
| "unregister_tlvtypes (t # ts) msgid w =
     rbind (deref (find_message w msgid)) (\<lambda>msg.
     rbind (deref (find_tlvtype msg t)) (\<lambda>tt.
     rbind (pbb_writer_unregister_addrtlvtype (put_message (put_tlvtype (tt\<lparr>usage_counter := 1\<rparr>) msg) w) msgid t)
       (unregister_tlvtypes ts msgid)))"

fun cleanup_messages :: "u8 list \<Rightarrow> pbb_writer \<Rightarrow> halt + pbb_writer" where
  "cleanup_messages [] w = Inr w"
| "cleanup_messages (m # ms) w =
     rbind (deref (find_message w m)) (\<lambda>msg.
     rbind (unregister_providers (map pr_id (provider_tree msg)) m (put_message (msg\<lparr>registered := True\<rparr>) w)) (\<lambda>w.
     rbind (unregister_tlvtypes (map tt_of (tlvtype_head msg)) m w) (\<lambda>w.
     rbind (pbb_writer_unregister_message w m) (cleanup_messages ms))))"

definition pbb_writer_cleanup :: "pbb_writer \<Rightarrow> halt + pbb_writer" where
  "pbb_writer_cleanup w =
     (let w = foldl pbb_writer_unregister_pkthandler w (pkthandlers w);
          w = foldl pbb_writer_unregister_interface w (map if_id (interfaces w))
      in rbind (cleanup_messages (map wm_type (msgcreators w)) w) (\<lambda>w. Inr (wr_free 2 w)))"

section \<open>Message contents\<close>

text \<open>The functions for the callbacks of a message: its TLVs and the fields of its header.\<close>

definition put_wmsg :: "halt + pbb_result \<times> tlv_writer_data \<Rightarrow> pbb_writer \<Rightarrow> halt + pbb_result \<times> pbb_writer" where
  "put_wmsg d w = rbind d (\<lambda>(r, data). Inr (r, w\<lparr>wmsg := data\<rparr>))"

definition pbb_writer_add_messagetlv :: "pbb_writer \<Rightarrow> u8 \<Rightarrow> u8 \<Rightarrow> bytes \<Rightarrow> halt + pbb_result \<times> pbb_writer" where
  "pbb_writer_add_messagetlv w type exttype val = put_wmsg (pbb_tlv_writer_add (wmsg w) type exttype val) w"

definition pbb_writer_allocate_messagetlv :: "pbb_writer \<Rightarrow> bool \<Rightarrow> nat \<Rightarrow> pbb_result \<times> pbb_writer" where
  "pbb_writer_allocate_messagetlv w has_exttype len =
     (let (r, d) = pbb_tlv_writer_allocate (wmsg w) has_exttype len in (r, w\<lparr>wmsg := d\<rparr>))"

definition pbb_writer_set_messagetlv :: "pbb_writer \<Rightarrow> u8 \<Rightarrow> u8 \<Rightarrow> bytes \<Rightarrow> halt + pbb_result \<times> pbb_writer" where
  "pbb_writer_set_messagetlv w type exttype val = put_wmsg (pbb_tlv_writer_set (wmsg w) type exttype val) w"

definition on_message :: "pbb_writer \<Rightarrow> u8 \<Rightarrow> (writer_message \<Rightarrow> writer_message) \<Rightarrow> halt + pbb_writer" where
  "on_message w msgid f = rbind (deref (find_message w msgid)) (\<lambda>msg. Inr (put_message (f msg) w))"

definition pbb_writer_set_msg_addrlen :: "pbb_writer \<Rightarrow> u8 \<Rightarrow> u8 \<Rightarrow> halt + pbb_writer" where
  "pbb_writer_set_msg_addrlen w msgid addrlen =
     (if \<not> (unat addrlen \<le> PBB_MAX_ADDRLEN \<and> 1 \<le> addrlen) then Inl AssertFail
      else
        rbind (deref (find_message w msgid)) (\<lambda>msg.
        let w = (if wm_has_origaddr msg \<and> wm_addr_len msg \<noteq> addrlen
                 then w\<lparr>wmsg := (wmsg w)\<lparr>tw_header := tw_header (wmsg w) + unat addrlen - unat (wm_addr_len msg)\<rparr>\<rparr>
                 else w)
        in Inr (put_message (msg\<lparr>wm_addr_len := addrlen\<rparr>) w)))"

definition pbb_writer_set_msg_header ::
  "pbb_writer \<Rightarrow> u8 \<Rightarrow> bool \<Rightarrow> bool \<Rightarrow> bool \<Rightarrow> bool \<Rightarrow> halt + pbb_writer" where
  "pbb_writer_set_msg_header w msgid has_originator has_hopcount has_hoplimit has_seqno =
     rbind (deref (find_message w msgid)) (\<lambda>msg.
     let msg = msg\<lparr>wm_has_origaddr := has_originator, wm_has_hoplimit := has_hoplimit,
                 wm_has_hopcount := has_hopcount, wm_has_seqno := has_seqno\<rparr>;
         n = 6 + (if has_originator then unat (wm_addr_len msg) else 0) + (if has_hoplimit then 1 else 0) +
             (if has_hopcount then 1 else 0) + (if has_seqno then 2 else 0)
     in Inr ((put_message msg w)\<lparr>wmsg := (wmsg w)\<lparr>tw_header := n\<rparr>\<rparr>))"

definition pbb_writer_set_msg_originator :: "pbb_writer \<Rightarrow> u8 \<Rightarrow> bytes \<Rightarrow> halt + pbb_writer" where
  "pbb_writer_set_msg_originator w msgid originator =
     rbind (deref (find_message w msgid)) (\<lambda>msg.
     if length originator < unat (wm_addr_len msg) then Inl OutOfBounds
     else
       rbind (memcpy (wm_orig_addr msg) 0 (take (unat (wm_addr_len msg)) originator)) (\<lambda>a.
         Inr (put_message (msg\<lparr>wm_orig_addr := a\<rparr>) w)))"

definition pbb_writer_set_msg_hopcount :: "pbb_writer \<Rightarrow> u8 \<Rightarrow> u8 \<Rightarrow> halt + pbb_writer" where
  "pbb_writer_set_msg_hopcount w msgid n = on_message w msgid (\<lambda>msg. msg\<lparr>wm_hopcount := n\<rparr>)"

definition pbb_writer_set_msg_hoplimit :: "pbb_writer \<Rightarrow> u8 \<Rightarrow> u8 \<Rightarrow> halt + pbb_writer" where
  "pbb_writer_set_msg_hoplimit w msgid n = on_message w msgid (\<lambda>msg. msg\<lparr>wm_hoplimit := n\<rparr>)"

definition pbb_writer_set_msg_seqno :: "pbb_writer \<Rightarrow> u8 \<Rightarrow> u16 \<Rightarrow> halt + pbb_writer" where
  "pbb_writer_set_msg_seqno w msgid n = on_message w msgid (\<lambda>msg. msg\<lparr>wm_seqno := n\<rparr>)"

end
