(* ===== verification/PktGenerator.thy ===== *)
theory PktGenerator
  imports PbbWriter
begin

text \<open>
  \<open>lib/packetbb/pbb_pkt_generator.c\<close>: the packet buffer of an interface, from the start of a packet to the
  moment it is sent. The callbacks of interfaces, packet handlers, message types and content providers
  are collected in one record; each works on the writer together with the client's state \<open>'st\<close>.
\<close>

section \<open>Callbacks\<close>

type_synonym 'st wr = "pbb_writer \<times> 'st"
type_synonym 'st wcb = "('st wr \<Rightarrow> halt + 'st wr) option"

record 'st writer_cbs =
  addPacketHeader :: "nat \<Rightarrow> 'st wcb"
  finishPacketHeader :: "nat \<Rightarrow> 'st wcb"
  sendPacket :: "nat \<Rightarrow> (bytes \<Rightarrow> 'st wr \<Rightarrow> halt + 'st wr) option"
  addPacketTLVs :: "nat \<Rightarrow> nat \<Rightarrow> 'st wcb"
  finishPacketTLVs :: "nat \<Rightarrow> nat \<Rightarrow> 'st wcb"
  addMessageHeader :: "u8 \<Rightarrow> 'st wcb"
  finishMessageHeader :: "u8 \<Rightarrow> nat option \<Rightarrow> nat option \<Rightarrow> bool \<Rightarrow> 'st wcb"
  addMessageTLVs :: "nat \<Rightarrow> 'st wcb"
  addAddresses :: "nat \<Rightarrow> 'st wcb"
  finishMessageTLVs :: "nat \<Rightarrow> nat option \<Rightarrow> nat option \<Rightarrow> bool \<Rightarrow> 'st wcb"

text \<open>A callback that may be absent, and one that is called without a test.\<close>

definition call_cb :: "'st wcb \<Rightarrow> 'st wr \<Rightarrow> halt + 'st wr" where
  "call_cb cb s = (case cb of None \<Rightarrow> Inr s | Some f \<Rightarrow> f s)"

definition must_cb :: "'st wcb \<Rightarrow> 'st wr \<Rightarrow> halt + 'st wr" where
  "must_cb cb s = rbind (deref cb) (\<lambda>f. f s)"

definition find_interface :: "pbb_writer \<Rightarrow> nat \<Rightarrow> writer_interface option" where
  "find_interface w i = find (\<lambda>f. if_id f = i) (interfaces w)"

definition put_interface :: "writer_interface \<Rightarrow> pbb_writer \<Rightarrow> pbb_writer" where
  "put_interface f w = w\<lparr>interfaces := map (\<lambda>g. if if_id g = if_id f then f else g) (interfaces w)\<rparr>"

text \<open>A change of an interface, and of its packet buffer.\<close>

definition on_interface :: "nat \<Rightarrow> (writer_interface \<Rightarrow> writer_interface) \<Rightarrow> pbb_writer \<Rightarrow> halt + pbb_writer" where
  "on_interface i g w = rbind (deref (find_interface w i)) (\<lambda>f. Inr (put_interface (g f) w))"

definition put_pkt ::
  "(tlv_writer_data \<Rightarrow> halt + pbb_result \<times> tlv_writer_data) \<Rightarrow> nat \<Rightarrow> pbb_writer \<Rightarrow> halt + pbb_result \<times> pbb_writer" where
  "put_pkt g i w =
     rbind (deref (find_interface w i)) (\<lambda>f. rbind (g (pkt f)) (\<lambda>(r, d). Inr (r, put_interface (f\<lparr>pkt := d\<rparr>) w)))"

section \<open>Packet contents\<close>

definition pbb_writer_add_packettlv :: "pbb_writer \<Rightarrow> nat \<Rightarrow> u8 \<Rightarrow> u8 \<Rightarrow> bytes \<Rightarrow> halt + pbb_result \<times> pbb_writer" where
  "pbb_writer_add_packettlv w i type exttype val = put_pkt (\<lambda>d. pbb_tlv_writer_add d type exttype val) i w"

definition pbb_writer_allocate_packettlv :: "pbb_writer \<Rightarrow> nat \<Rightarrow> bool \<Rightarrow> nat \<Rightarrow> halt + pbb_result \<times> pbb_writer" where
  "pbb_writer_allocate_packettlv w i has_exttype len = put_pkt (\<lambda>d. Inr (pbb_tlv_writer_allocate d has_exttype len)) i w"

definition pbb_writer_set_packettlv :: "pbb_writer \<Rightarrow> nat \<Rightarrow> u8 \<Rightarrow> u8 \<Rightarrow> bytes \<Rightarrow> halt + pbb_result \<times> pbb_writer" where
  "pbb_writer_set_packettlv w i type exttype val = put_pkt (\<lambda>d. pbb_tlv_writer_set d type exttype val) i w"

definition pbb_writer_set_pkt_header :: "pbb_writer \<Rightarrow> nat \<Rightarrow> bool \<Rightarrow> halt + pbb_writer" where
  "pbb_writer_set_pkt_header w i has_seqno =
     on_interface i (\<lambda>f. f\<lparr>pkt := (pkt f)\<lparr>tw_header := 1 + 2 + (if has_seqno then 2 else 0)\<rparr>, if_has_seqno := has_seqno\<rparr>) w"

definition pbb_writer_set_pkt_seqno :: "pbb_writer \<Rightarrow> nat \<Rightarrow> u16 \<Rightarrow> halt + pbb_writer" where
  "pbb_writer_set_pkt_seqno w i n = on_interface i (\<lambda>f. f\<lparr>if_seqno := n\<rparr>) w"

section \<open>Beginning and flushing a packet\<close>

definition pbb_writer_begin_packet :: "'st writer_cbs \<Rightarrow> nat \<Rightarrow> 'st wr \<Rightarrow> halt + 'st wr" where
  "pbb_writer_begin_packet cbs i s =
     (let (w, st) = s
      in rbind (on_interface i (\<lambda>f. f\<lparr>pkt := pbb_tlv_writer_init (pkt f) (if_mtu f)\<rparr>) w) (\<lambda>w.
         rbind (case addPacketHeader cbs i of
                  Some f \<Rightarrow> f (w, st)
                | None \<Rightarrow> rbind (pbb_writer_set_pkt_header w i False) (\<lambda>w. Inr (w, st))) (\<lambda>(w, st).
         rbind (each (\<lambda>h. must_cb (addPacketTLVs cbs h i)) (pkthandlers w) (w, st)) (\<lambda>(w, st).
         rbind (on_interface i (\<lambda>f. f\<lparr>is_flushed := False\<rparr>) w) (\<lambda>w. Inr (w, st))))))"

text \<open>The bytes of the packet header: flags, sequence number, length of the TLV block.\<close>

definition pktheader_bytes :: "writer_interface \<Rightarrow> bytes" where
  "pktheader_bytes f =
     (let len = tw_added (pkt f) + tw_set (pkt f)
      in [(if if_has_seqno f then PBB_PKT_FLAG_SEQNO else 0) OR (if 0 < len then PBB_PKT_FLAG_TLV else 0)] @
         (if if_has_seqno f then [hi8 (if_seqno f), lo8 (if_seqno f)] else []) @
         (if 0 < len then [of_nat (len div 256), of_nat (len mod 256)] else []))"

definition write_pktheader :: "writer_interface \<Rightarrow> halt + writer_interface" where
  "write_pktheader f =
     rbind (memcpy (tw_buffer (pkt f)) 0 (pktheader_bytes f)) (\<lambda>b. Inr (f\<lparr>pkt := (pkt f)\<lparr>tw_buffer := b\<rparr>\<rparr>))"

text \<open>The messages move up behind the header and the TLVs.\<close>

definition compress_packet :: "nat \<Rightarrow> writer_interface \<Rightarrow> halt + bytes" where
  "compress_packet len f =
     (let d = pkt f; start = tw_header d + tw_added d + tw_allocated d
      in if bin_msgs_size f = 0 then Inr (tw_buffer d)
         else if length (tw_buffer d) < start + bin_msgs_size f then Inl OutOfBounds
         else memcpy (tw_buffer d) (len + tw_added d + tw_set d) (sub_bytes start (bin_msgs_size f) (tw_buffer d)))"

definition pbb_writer_flush :: "'st writer_cbs \<Rightarrow> nat \<Rightarrow> bool \<Rightarrow> 'st wr \<Rightarrow> halt + 'st wr" where
  "pbb_writer_flush cbs i force s =
     (case sendPacket cbs i of
        None \<Rightarrow> Inl AssertFail
      | Some send \<Rightarrow>
          rbind (deref (find_interface (fst s) i)) (\<lambda>f.
          if is_flushed f \<and> \<not> force then Inr s
          else
            rbind (if is_flushed f then pbb_writer_begin_packet cbs i s else Inr s) (\<lambda>(w, st).
            rbind (each (\<lambda>h. must_cb (finishPacketTLVs cbs h i)) (rev (pkthandlers w)) (w, st)) (\<lambda>s.
            rbind (call_cb (finishPacketHeader cbs i) s) (\<lambda>(w, st).
            rbind (deref (find_interface w i)) (\<lambda>f.
            rbind (write_pktheader f) (\<lambda>f.
            let len = 1 + (if if_has_seqno f then 2 else 0) + (if 0 < tw_added (pkt f) + tw_set (pkt f) then 2 else 0);
                total = len + tw_added (pkt f) + tw_set (pkt f) + bin_msgs_size f
            in rbind (compress_packet len f) (\<lambda>b.
               if length b < total then Inl OutOfBounds
               else
                 let f = f\<lparr>pkt := (pkt f)\<lparr>tw_buffer := b\<rparr>\<rparr>
                 in rbind (send (take total b) (put_interface f w, st)) (\<lambda>(w, st).
                    rbind (on_interface i (\<lambda>f. f\<lparr>pkt := (pkt f)\<lparr>tw_set := 0\<rparr>, bin_msgs_size := 0,
                                                is_flushed := True\<rparr>) w) (\<lambda>w. Inr (w, st)))))))))))"

end
