(* ===== verification/MsgGenerator.thy ===== *)
theory MsgGenerator
  imports PktGenerator
begin

text \<open>
  \<open>lib/packetbb/pbb_msg_generator.c\<close>: a message is collected from the callbacks, its addresses are divided
  into blocks and written behind the message TLVs, the header is put in front, and the result is copied
  into the packet buffers of the chosen interfaces. The library is built without
  \<open>DO_ADDR_COMPRESSION\<close>: every address is a block of its own, and the cost of continuing a block plays no
  role.
\<close>

section \<open>Address compression sessions\<close>

record acs =
  ac_ptr :: "nat option"
  ac_total :: int
  ac_current :: int
  ac_multiplen :: bool

definition empty_acs :: acs where
  "empty_acs = \<lparr>ac_ptr = None, ac_total = 0, ac_current = 0, ac_multiplen = False\<rparr>"

definition put_address :: "nat \<Rightarrow> writer_address \<Rightarrow> writer_message \<Rightarrow> writer_message" where
  "put_address i a msg = msg\<lparr>addr_head := (addr_head msg)[i := a]\<rparr>"

definition tlv_index_of :: "writer_message \<Rightarrow> nat \<Rightarrow> int" where
  "tlv_index_of msg t = wa_index (addr_head msg ! at_address (wm_addrtlvs msg ! t))"

text \<open>\<open>_close_addrblock\<close> with \<open>common_head = 0\<close>: the session's block ends at the last address.\<close>

definition close_addrblock :: "acs list \<Rightarrow> nat \<Rightarrow> writer_message \<Rightarrow> halt + writer_message" where
  "close_addrblock acs last_addr msg =
     rbind (deref (ac_ptr (acs ! 0))) (\<lambda>i.
       Inr (put_address i ((addr_head msg ! i)\<lparr>block_end := Some last_addr,
              block_multiple_prefixlen := ac_multiplen (acs ! 0), block_headlen := 0\<rparr>) msg))"

text \<open>\<open>_calculate_tlv_flags\<close>: whether a TLV continues the one before it in the tree of its type.\<close>

definition tlv_flags_of :: "bool \<Rightarrow> writer_message \<Rightarrow> nat \<Rightarrow> halt + bool \<times> bool" where
  "tlv_flags_of first msg t =
     (if first then Inr (False, False)
      else
        let tlv = wm_addrtlvs msg ! t
        in rbind (deref (find_tlvtype msg (at_tlvtype tlv))) (\<lambda>tt.
           case rev (takeWhile (\<lambda>u. u \<noteq> t) (elems (tlv_tree tt))) of
             [] \<Rightarrow> Inr (False, False)
           | p # ps \<Rightarrow>
               let prev = wm_addrtlvs msg ! p
               in if tlv_index_of msg p + 1 < tlv_index_of msg t then Inr (False, False)
                  else
                    let sl = (at_length tlv = at_length prev);
                        n = unat (at_length tlv)
                    in Inr (sl, sl \<and> (at_length tlv = 0 \<or> memcmp (take n (at_value tlv)) (take n (at_value prev)) = 0))))"

fun calculate_tlv_flags :: "bool \<Rightarrow> nat list \<Rightarrow> writer_message \<Rightarrow> halt + writer_message" where
  "calculate_tlv_flags first [] msg = Inr msg"
| "calculate_tlv_flags first (t # ts) msg =
     rbind (tlv_flags_of first msg t) (\<lambda>(sl, sv).
     calculate_tlv_flags first ts
       (msg\<lparr>wm_addrtlvs := (wm_addrtlvs msg)[t := (wm_addrtlvs msg ! t)\<lparr>same_length := sl, same_value := sv\<rparr>]\<rparr>))"

text \<open>The cost of an address with its TLVs in a new block.\<close>

definition tlv_cost :: "writer_message \<Rightarrow> nat \<Rightarrow> int" where
  "tlv_cost msg t =
     (let tlv = wm_addrtlvs msg ! t; len = uint (at_length tlv)
      in 2 + (if snd (at_tlvtype tlv) \<noteq> 0 then 1 else 0) + 2 + len +
         (if 255 < len then 1 else 0) + (if 0 < len then 1 else 0))"

definition new_cost :: "writer_message \<Rightarrow> writer_address \<Rightarrow> int" where
  "new_cost msg a =
     2 + uint (wm_addr_len msg) + (if uint (wa_prefixlen a) \<noteq> uint (wm_addr_len msg) * 8 then 1 else 0) +
     sum_list (map (tlv_cost msg) (wa_addrtlv_tree a))"

text \<open>\<open>_compress_address\<close>: the block of the previous address is closed, this address starts a new one. The
  new total is that of the session for the longest head (\<open>acs[addrlen - 1]\<close>).\<close>

definition compress_address ::
  "acs list \<Rightarrow> nat \<Rightarrow> bool \<Rightarrow> writer_message \<Rightarrow> halt + acs list \<times> writer_message" where
  "compress_address acs addr first msg =
     (let k = unat (wm_addr_len msg)
      in if k = 0 \<or> length acs < k \<or> (\<not> first \<and> addr = 0) then Inl OutOfBounds
         else
           rbind (if first then Inr msg else close_addrblock acs (addr - 1) msg) (\<lambda>msg.
           Inr (acs[0 := \<lparr>ac_ptr = Some addr, ac_total = ac_total (acs ! (k - 1)),
                          ac_current = new_cost msg (addr_head msg ! addr), ac_multiplen = False\<rparr>], msg)))"

section \<open>Writing the addresses\<close>

text \<open>The TLVs of one type that are written together: from the first one on, the later ones of the block
  with the same length.\<close>

fun tlv_group :: "writer_message \<Rightarrow> int \<Rightarrow> nat \<Rightarrow> nat list \<Rightarrow> bool \<Rightarrow> nat list \<Rightarrow> nat \<times> nat list \<times> bool" where
  "tlv_group msg stop e rest sv [] = (e, rest, sv)"
| "tlv_group msg stop e rest sv (t # ts) =
     (if tlv_index_of msg t \<le> stop \<and> same_length (wm_addrtlvs msg ! t)
      then tlv_group msg stop t ts (sv \<and> same_value (wm_addrtlvs msg ! t)) ts
      else tlv_group msg stop e rest sv ts)"

lemma tlv_group_length:
  "tlv_group msg stop e rest sv ts = (l, r, v) \<Longrightarrow> length ts \<le> length rest \<Longrightarrow> length r \<le> length rest"
  by (induction msg stop e rest sv ts rule: tlv_group.induct) (fastforce split: if_splits)+

text \<open>The bytes of such a group.\<close>

definition group_bytes ::
  "writer_message \<Rightarrow> writer_tlvtype \<Rightarrow> nat \<Rightarrow> nat \<Rightarrow> nat \<Rightarrow> nat \<Rightarrow> nat list \<Rightarrow> bool \<Rightarrow> bytes" where
  "group_bytes msg tt addr_start addr_end tlv_start tlv_end members sv =
     (let tlv = (\<lambda>t. wm_addrtlvs msg ! t); base = wa_index (addr_head msg ! addr_start);
          idx = (\<lambda>t. word_of_int (tlv_index_of msg t - base) :: u8);
          len = at_length (tlv tlv_start);
          flags = (if tt_exttype tt \<noteq> 0 then PBB_TLV_FLAG_TYPEEXT else 0);
          (flags, idxs, total_len) =
            (if at_address (tlv tlv_start) = addr_start \<and> at_address (tlv tlv_end) = addr_end then (flags, [], len)
             else if tlv_start = tlv_end then (flags OR PBB_TLV_FLAG_SINGLE_IDX, [idx tlv_start], len)
             else
               let flags = flags OR PBB_TLV_FLAG_MULTI_IDX
               in if sv then (flags, [idx tlv_start, idx tlv_end], len)
                  else (flags OR PBB_TLV_FLAG_MULTIVALUE, [idx tlv_start, idx tlv_end],
                        len * word_of_int (tlv_index_of msg tlv_end - tlv_index_of msg tlv_start + 1)));
          flags = (if 255 < total_len then flags OR PBB_TLV_FLAG_EXTVALUE else flags);
          flags = (if 0 < total_len then flags OR PBB_TLV_FLAG_VALUE else flags);
          val = (\<lambda>t. take (unat (at_length (tlv t))) (at_value (tlv t)))
      in [tt_type tt, flags] @ (if tt_exttype tt \<noteq> 0 then [tt_exttype tt] else []) @ idxs @
         (if 255 < total_len then [hi8 total_len] else []) @ (if 0 < total_len then [lo8 total_len] else []) @
         (if 0 < len then if sv then val tlv_start else concat (map val members) else []))"

function type_tlvs :: "writer_message \<Rightarrow> writer_tlvtype \<Rightarrow> nat \<Rightarrow> nat \<Rightarrow> nat list \<Rightarrow> bytes" where
  "type_tlvs msg tt addr_start addr_end [] = []"
| "type_tlvs msg tt addr_start addr_end (t # ts) =
     (let stop = wa_index (addr_head msg ! addr_end)
      in if stop < tlv_index_of msg t then []
         else
           case tlv_group msg stop t ts True ts of
             (e, rest, sv) \<Rightarrow>
               group_bytes msg tt addr_start addr_end t e (t # take (length ts - length rest) ts) sv @
               type_tlvs msg tt addr_start addr_end rest)"
  by pat_completeness auto
termination
  by (relation "measure (\<lambda>(msg, tt, a, b, ts). length ts)") (auto dest!: tlv_group_length[OF sym])

declare type_tlvs.simps [simp del]

text \<open>All address TLVs of a block, type by type; the search for the first one is
  \<open>avl_find_greaterequal\<close>.\<close>

definition block_tlvs :: "writer_message \<Rightarrow> nat \<Rightarrow> nat \<Rightarrow> bytes" where
  "block_tlvs msg addr_start addr_end =
     concat (map (\<lambda>tt.
       case avl_find_greaterequal (tlv_key msg) (tlv_tree tt) (word_of_int (wa_index (addr_head msg ! addr_start))) of
         None \<Rightarrow> []
       | Some t \<Rightarrow> type_tlvs msg tt addr_start addr_end (dropWhile (\<lambda>u. u \<noteq> t) (elems (tlv_tree tt))))
       (tlvtype_head msg))"

text \<open>One address block: number of addresses, flags, the addresses, the prefix lengths, the TLV block with its
  length.\<close>

definition addrblock_bytes :: "writer_message \<Rightarrow> nat \<Rightarrow> nat \<Rightarrow> bytes" where
  "addrblock_bytes msg addr_start addr_end =
     (let addrs = map (\<lambda>i. addr_head msg ! i) [addr_start..<Suc addr_end]; a = addr_head msg ! addr_start;
          num = word_of_int (wa_index (addr_head msg ! addr_end) - wa_index a + 1) :: u8;
          multi = block_multiple_prefixlen a;
          single = (uint (wa_prefixlen a) \<noteq> uint (wm_addr_len msg) * 8);
          flags = (if multi then PBB_ADDR_FLAG_MULTIPLEN else if single then PBB_ADDR_FLAG_SINGLEPLEN else 0);
          tlvs = block_tlvs msg addr_start addr_end
      in [num, flags] @ concat (map (\<lambda>a. take (unat (wm_addr_len msg)) (wa_addr a)) addrs) @
         (if multi then map wa_prefixlen addrs else if single then [wa_prefixlen a] else []) @
         [of_nat (length tlvs div 256), of_nat (length tlvs mod 256)] @ tlvs)"

text \<open>The loop over the blocks. It leaves the list of addresses, or goes on in circles, when a block's end
  is not behind its start; then the accesses are out of bounds.\<close>

function write_blocks :: "writer_message \<Rightarrow> nat \<Rightarrow> nat \<Rightarrow> nat \<Rightarrow> bytes \<Rightarrow> halt + nat \<times> bytes" where
  "write_blocks msg addr_start last_addr ptr buf =
     (if length (addr_head msg) \<le> addr_start then Inl OutOfBounds
      else
        case block_end (addr_head msg ! addr_start) of
          None \<Rightarrow> Inl NullDeref
        | Some addr_end \<Rightarrow>
            if addr_end < addr_start \<or> length (addr_head msg) \<le> addr_end then Inl OutOfBounds
            else
              let b = addrblock_bytes msg addr_start addr_end
              in case memcpy buf ptr b of
                   Inl h \<Rightarrow> Inl h
                 | Inr buf \<Rightarrow>
                     if addr_end = last_addr then Inr (ptr + length b, buf)
                     else write_blocks msg (Suc addr_end) last_addr (ptr + length b) buf)"
  by pat_completeness auto
termination
  by (relation "measure (\<lambda>(msg, a, l, p, b). length (addr_head msg) - a)") auto

declare write_blocks.simps [simp del]

definition write_addresses :: "pbb_writer \<Rightarrow> u8 \<Rightarrow> nat \<Rightarrow> nat \<Rightarrow> halt + pbb_writer" where
  "write_addresses w msgid first_addr last_addr =
     rbind (deref (find_message w msgid)) (\<lambda>msg.
     if length (addr_head msg) \<le> first_addr then Inl OutOfBounds
     else if block_end (addr_head msg ! first_addr) = None then Inl AssertFail
     else
       let start = tw_header (wmsg w) + tw_added (wmsg w) + tw_set (wmsg w)
       in rbind (write_blocks msg first_addr last_addr start (tw_buffer (wmsg w))) (\<lambda>(ptr, buf).
            Inr ((put_message (msg\<lparr>bin_addr_size := ptr - start\<rparr>) w)\<lparr>wmsg := (wmsg w)\<lparr>tw_buffer := buf\<rparr>\<rparr>)))"

section \<open>The message header\<close>

definition msgheader_bytes :: "tlv_writer_data \<Rightarrow> writer_message \<Rightarrow> bytes" where
  "msgheader_bytes d msg =
     (let total_size = of_nat (tw_header d + tw_added d + tw_set d + bin_addr_size msg) :: u16;
          tlv_size = of_nat (tw_added d + tw_set d) :: u16;
          flags = wm_addr_len msg - 1;
          flags = (if wm_has_origaddr msg then flags OR PBB_MSG_FLAG_ORIGINATOR else flags);
          flags = (if wm_has_hoplimit msg then flags OR PBB_MSG_FLAG_HOPLIMIT else flags);
          flags = (if wm_has_hopcount msg then flags OR PBB_MSG_FLAG_HOPCOUNT else flags);
          flags = (if wm_has_seqno msg then flags OR PBB_MSG_FLAG_SEQNO else flags)
      in [wm_type msg, flags, hi8 total_size, lo8 total_size] @
         (if wm_has_origaddr msg then take (unat (wm_addr_len msg)) (wm_orig_addr msg) else []) @
         (if wm_has_hoplimit msg then [wm_hoplimit msg] else []) @
         (if wm_has_hopcount msg then [wm_hopcount msg] else []) @
         (if wm_has_seqno msg then [hi8 (wm_seqno msg), lo8 (wm_seqno msg)] else []) @
         [hi8 tlv_size, lo8 tlv_size])"

definition write_msgheader :: "pbb_writer \<Rightarrow> u8 \<Rightarrow> halt + pbb_writer" where
  "write_msgheader w msgid =
     rbind (deref (find_message w msgid)) (\<lambda>msg.
     rbind (memcpy (tw_buffer (wmsg w)) 0 (msgheader_bytes (wmsg w) msg)) (\<lambda>b.
       Inr (w\<lparr>wmsg := (wmsg w)\<lparr>tw_buffer := b\<rparr>\<rparr>)))"

section \<open>Finishing a message\<close>

text \<open>The selection of interfaces: one, all, or the client's choice (\<open>pbb_writer_ifselector\<close>).\<close>

datatype ifselector = SingleIf nat | AllIf | UserIf "pbb_writer \<Rightarrow> nat \<Rightarrow> bool"

primrec use_if :: "ifselector \<Rightarrow> pbb_writer \<Rightarrow> nat \<Rightarrow> bool" where
  "use_if (SingleIf j) w i \<longleftrightarrow> i = j"
| "use_if AllIf w i \<longleftrightarrow> True"
| "use_if (UserIf f) w i \<longleftrightarrow> f w i"

text \<open>The message goes into the packet of one interface; the packet is sent first when it does not fit.
  \<open>len\<close> is the size of the message header and the added TLVs.\<close>

definition append_message :: "'st writer_cbs \<Rightarrow> u8 \<Rightarrow> nat \<Rightarrow> nat \<Rightarrow> 'st wr \<Rightarrow> halt + 'st wr" where
  "append_message cbs msgid len i s =
     rbind (deref (find_message (fst s) msgid)) (\<lambda>msg.
     rbind (deref (find_interface (fst s) i)) (\<lambda>f.
     let d = wmsg (fst s); p = pkt f;
         size = tw_header d + tw_added d + tw_set d + bin_addr_size msg
     in rbind (if tw_max p < tw_header p + tw_added p + tw_set p + bin_msgs_size f + size
               then rbind (pbb_writer_flush cbs i False s) (pbb_writer_begin_packet cbs i) else Inr s) (\<lambda>(w, st).
        rbind (deref (find_message w msgid)) (\<lambda>msg.
        rbind (deref (find_interface w i)) (\<lambda>f.
        let d = wmsg w; p = pkt f; ptr = tw_header p + tw_added p + tw_allocated p + bin_msgs_size f;
            n = len + tw_set d; src = tw_buffer d
        in if length src < n \<or> length src < len + tw_allocated d + bin_addr_size msg then Inl OutOfBounds
           else
             rbind (memcpy (tw_buffer p) ptr (take n src)) (\<lambda>b.
             rbind (memcpy b (ptr + n) (sub_bytes (len + tw_allocated d) (bin_addr_size msg) src)) (\<lambda>b.
             Inr (put_interface (f\<lparr>pkt := p\<lparr>tw_buffer := b\<rparr>, bin_msgs_size := bin_msgs_size f + n + bin_addr_size msg\<rparr>) w,
                  st))))))))"

definition finalize_message_fragment ::
  "'st writer_cbs \<Rightarrow> u8 \<Rightarrow> (nat \<times> nat) option \<Rightarrow> bool \<Rightarrow> ifselector \<Rightarrow> 'st wr \<Rightarrow> halt + 'st wr" where
  "finalize_message_fragment cbs msgid fragment not_fragmented useIf s =
     (let (w, st) = s; w = w\<lparr>wmsg := (wmsg w)\<lparr>tw_set := 0\<rparr>\<rparr>; first = map_option fst fragment; final = map_option snd fragment
      in rbind (deref (find_message w msgid)) (\<lambda>msg.
         rbind (each (\<lambda>p. call_cb (finishMessageTLVs cbs (pr_id p) first final not_fragmented)) (rev (provider_tree msg)) (w, st))
           (\<lambda>(w, st).
         rbind (case fragment of None \<Rightarrow> Inr w | Some (a, b) \<Rightarrow> write_addresses w msgid a b) (\<lambda>w.
         rbind (call_cb (finishMessageHeader cbs msgid first final not_fragmented) (w, st)) (\<lambda>(w, st).
         rbind (write_msgheader w msgid) (\<lambda>w.
         let len = tw_header (wmsg w) + tw_added (wmsg w)
         in rbind (each (\<lambda>i s. if use_if useIf (fst s) i then append_message cbs msgid len i s else Inr s)
                     (map if_id (interfaces w)) (w, st)) (\<lambda>(w, st).
            rbind (on_message w msgid (\<lambda>msg. msg\<lparr>bin_addr_size := 0\<rparr>)) (\<lambda>w.
            Inr (w\<lparr>wmsg := (wmsg w)\<lparr>tw_set := 0\<rparr>\<rparr>, st)))))))))"

section \<open>Creating a message\<close>

text \<open>The state of the loop over the addresses: the compression sessions, the next index, the first address of
  the fragment and whether the message is still in one piece. An address that starts a new fragment is
  given a second index.\<close>

record gen =
  g_acs :: "acs list"
  g_idx :: int
  g_first :: nat
  g_whole :: bool

text \<open>One address enters the sessions; the result says whether it still fits. \<open>best_size\<close> starts as the
  maximal size of a message plus one; the sizes are those of the address blocks alone.\<close>

definition try_address ::
  "nat \<Rightarrow> int \<Rightarrow> int \<Rightarrow> bool \<Rightarrow> acs list \<Rightarrow> writer_message \<Rightarrow> halt + bool \<times> acs list \<times> writer_message" where
  "try_address addr idx mx first acs msg =
     (let acs = (if first then replicate PBB_MAX_ADDRLEN empty_acs else acs);
          msg = put_address addr ((addr_head msg ! addr)\<lparr>wa_index := idx\<rparr>) msg
      in rbind (calculate_tlv_flags first (wa_addrtlv_tree (addr_head msg ! addr)) msg) (\<lambda>msg.
         rbind (compress_address acs addr first msg) (\<lambda>(acs, msg).
         rbind (deref (ac_ptr (acs ! 0))) (\<lambda>i.
         let s = acs ! 0; size = ac_total s + ac_current s;
             cnt = wa_index (addr_head msg ! addr) - wa_index (addr_head msg ! i)
         in if size < mx + 1 \<and> cnt \<le> 254
            then Inr (True, acs[0 := s\<lparr>ac_total := ac_total s + ac_current s\<rparr>], msg)
            else Inr (False, acs, msg)))))"

text \<open>The loop over the addresses. When one does not fit, the fragment before it is written and the address
  starts the next fragment; the function returns -1 (\<open>PBB_UNSUPPORTED_VERSION\<close>) when it does not even fit
  alone. The callbacks add addresses only while they are asked for them, so the positions are fixed.\<close>

fun addresses_loop ::
  "'st writer_cbs \<Rightarrow> u8 \<Rightarrow> ifselector \<Rightarrow> nat list \<Rightarrow> gen \<Rightarrow> 'st wr \<Rightarrow> halt + bool \<times> gen \<times> 'st wr" where
  "addresses_loop cbs msgid useIf [] g s = Inr (True, g, s)"
| "addresses_loop cbs msgid useIf (addr # addrs) g (w, st) =
     rbind (deref (find_message w msgid)) (\<lambda>msg.
     rbind (try_address addr (g_idx g) (int (tw_max (wmsg w))) (g_first g = addr) (g_acs g) msg) (\<lambda>(fits, acs, msg).
     let w = put_message msg w; idx = g_idx g + 1
     in if fits then addresses_loop cbs msgid useIf addrs (g\<lparr>g_acs := acs, g_idx := idx\<rparr>) (w, st)
        else if g_first g = addr then Inr (False, g, (w, st))
        else
          rbind (close_addrblock acs (addr - 1) msg) (\<lambda>msg.
          rbind (finalize_message_fragment cbs msgid (Some (g_first g, addr - 1)) False useIf (put_message msg w, st))
            (\<lambda>(w, st).
          rbind (deref (find_message w msgid)) (\<lambda>msg.
          rbind (try_address addr idx (int (tw_max (wmsg w))) True acs msg) (\<lambda>(fits, acs, msg).
          let w = put_message msg w; g = \<lparr>g_acs = acs, g_idx = idx + 1, g_first = addr, g_whole = False\<rparr>
          in if fits then addresses_loop cbs msgid useIf addrs g (w, st) else Inr (False, g, (w, st))))))))"

text \<open>The space for a message: the message buffer, and what the packets of the interfaces have left.\<close>

fun begin_packets ::
  "'st writer_cbs \<Rightarrow> ifselector \<Rightarrow> nat list \<Rightarrow> nat \<Rightarrow> 'st wr \<Rightarrow> halt + nat \<times> 'st wr" where
  "begin_packets cbs useIf [] mx s = Inr (mx, s)"
| "begin_packets cbs useIf (i # is) mx s =
     (if \<not> use_if useIf (fst s) i then begin_packets cbs useIf is mx s
      else
        rbind (deref (find_interface (fst s) i)) (\<lambda>f.
        rbind (if is_flushed f then pbb_writer_begin_packet cbs i s else Inr s) (\<lambda>s.
        rbind (deref (find_interface (fst s) i)) (\<lambda>f.
        let m = size_sub (if_mtu f) (tw_header (pkt f) + tw_added (pkt f) + tw_allocated (pkt f))
        in begin_packets cbs useIf is (min mx m) s))))"

text \<open>The second half of the creation: the collected addresses, in one fragment or several.\<close>

definition write_collected :: "'st writer_cbs \<Rightarrow> u8 \<Rightarrow> ifselector \<Rightarrow> 'st wr \<Rightarrow> halt + pbb_result \<times> 'st wr" where
  "write_collected cbs msgid useIf s =
     rbind (deref (find_message (fst s) msgid)) (\<lambda>msg.
     rbind
       (if addr_head msg = []
        then rbind (finalize_message_fragment cbs msgid None True useIf s) (\<lambda>s. Inr (True, s))
        else
          rbind (addresses_loop cbs msgid useIf [0..<length (addr_head msg)]
                   \<lparr>g_acs = [], g_idx = 0, g_first = 0, g_whole = True\<rparr> s) (\<lambda>(ok, g, w, st).
          if \<not> ok then Inr (False, w, st)
          else
            rbind (deref (find_message w msgid)) (\<lambda>msg.
            let n = length (addr_head msg) - 1
            in rbind (close_addrblock (g_acs g) n msg) (\<lambda>msg.
               rbind (finalize_message_fragment cbs msgid (Some (g_first g, n)) (g_whole g) useIf (put_message msg w, st))
                 (\<lambda>s. Inr (True, s))))))
       (\<lambda>(ok, w, st).
     rbind (pbb_writer_free_addresses w msgid) (\<lambda>w. Inr (if ok then PBB_OKAY else PBB_UNSUPPORTED_VERSION, w, st))))"

text \<open>The creation of one message, after the interface is settled.\<close>

definition create_one :: "'st writer_cbs \<Rightarrow> u8 \<Rightarrow> ifselector \<Rightarrow> 'st wr \<Rightarrow> halt + pbb_result \<times> 'st wr" where
  "create_one cbs msgid useIf s =
     rbind (begin_packets cbs useIf (map if_id (interfaces (fst s))) (msg_mtu (fst s)) s) (\<lambda>(mx, w, st).
     rbind (pbb_writer_set_msg_header (w\<lparr>wmsg := pbb_tlv_writer_init (wmsg w) mx\<rparr>) msgid False False False False) (\<lambda>w.
     rbind (call_cb (addMessageHeader cbs msgid) (w, st)) (\<lambda>(w, st).
     rbind (deref (find_message w msgid)) (\<lambda>msg.
     rbind (each (\<lambda>p. call_cb (addMessageTLVs cbs (pr_id p))) (provider_tree msg) (w, st)) (\<lambda>s.
     rbind (each (\<lambda>p. call_cb (addAddresses cbs (pr_id p))) (provider_tree msg) s) (write_collected cbs msgid useIf))))))"

text \<open>A message type that is interface specific is created once for every chosen interface.\<close>

fun create_for_each ::
  "'st writer_cbs \<Rightarrow> u8 \<Rightarrow> ifselector \<Rightarrow> nat list \<Rightarrow> 'st wr \<Rightarrow> halt + pbb_result \<times> 'st wr" where
  "create_for_each cbs msgid useIf [] s = Inr (PBB_OKAY, s)"
| "create_for_each cbs msgid useIf (i # is) (w, st) =
     (if \<not> use_if useIf w i then create_for_each cbs msgid useIf is (w, st)
      else
        rbind (on_message w msgid (\<lambda>msg. msg\<lparr>specific_if := Some i\<rparr>)) (\<lambda>w.
        rbind (create_one cbs msgid (SingleIf i) (w, st)) (\<lambda>(r, s).
        if r \<noteq> PBB_OKAY then Inr (r, s) else create_for_each cbs msgid useIf is s)))"

definition pbb_writer_create_message ::
  "'st writer_cbs \<Rightarrow> u8 \<Rightarrow> ifselector \<Rightarrow> 'st wr \<Rightarrow> halt + pbb_result \<times> 'st wr" where
  "pbb_writer_create_message cbs msgid useIf s =
     (let (w, st) = s
      in if interfaces w = [] then Inr (PBB_OKAY, s)
         else
           case find_message w msgid of
             None \<Rightarrow> Inr (PBB_NO_MSGCREATOR, s)
           | Some msg \<Rightarrow>
               if \<not> if_specific msg
               then create_one cbs msgid useIf (put_message (msg\<lparr>specific_if := None\<rparr>) w, st)
               else
                 case useIf of
                   SingleIf i \<Rightarrow> create_one cbs msgid useIf (put_message (msg\<lparr>specific_if := Some i\<rparr>) w, st)
                 | _ \<Rightarrow> create_for_each cbs msgid useIf (map if_id (interfaces w)) s)"

text \<open>The two short forms of \<open>pbb_writer.h\<close>.\<close>

definition pbb_writer_create_message_singleif :: "'st writer_cbs \<Rightarrow> u8 \<Rightarrow> nat \<Rightarrow> 'st wr \<Rightarrow> halt + pbb_result \<times> 'st wr" where
  "pbb_writer_create_message_singleif cbs msgid interf s = pbb_writer_create_message cbs msgid (SingleIf interf) s"

definition pbb_writer_create_message_allif :: "'st writer_cbs \<Rightarrow> u8 \<Rightarrow> 'st wr \<Rightarrow> halt + pbb_result \<times> 'st wr" where
  "pbb_writer_create_message_allif cbs msgid s = pbb_writer_create_message cbs msgid AllIf s"

section \<open>Forwarding\<close>

text \<open>The header fields are located with the flags of the message as \<open>pbb_writer_forward_msg\<close> does it.\<close>

definition fw_fields :: "u8 \<Rightarrow> nat \<times> nat option \<times> nat option" where
  "fw_fields flags =
     (let cnt = 2;
          cnt = (if flags AND PBB_MSG_FLAG_ORIGINATOR \<noteq> 0 then cnt + unat (flags AND PBB_MSG_FLAG_ADDRLENMASK) else cnt);
          (hoplimit, cnt) = (if flags AND PBB_MSG_FLAG_HOPLIMIT \<noteq> 0 then (Some cnt, cnt + 1) else (None, cnt));
          (hopcount, cnt) = (if flags AND PBB_MSG_FLAG_HOPCOUNT \<noteq> 0 then (Some cnt, cnt + 1) else (None, cnt));
          cnt = (if flags AND PBB_MSG_FLAG_SEQNO \<noteq> 0 then cnt + 2 else cnt)
      in (cnt, hoplimit, hopcount))"

definition bump :: "nat option \<Rightarrow> u8 \<Rightarrow> bytes \<Rightarrow> bytes" where
  "bump pos d bs = (case pos of None \<Rightarrow> bs | Some i \<Rightarrow> bs[i := bs ! i + d])"

definition forward_one :: "'st writer_cbs \<Rightarrow> bytes \<Rightarrow> nat option \<Rightarrow> nat option \<Rightarrow> nat \<Rightarrow> 'st wr \<Rightarrow> halt + 'st wr" where
  "forward_one cbs msg hoplimit hopcount i s =
     rbind (deref (find_interface (fst s) i)) (\<lambda>f.
     let p = pkt f
     in rbind (if tw_max p < tw_header p + tw_added p + tw_set p + bin_msgs_size f + length msg
               then rbind (pbb_writer_flush cbs i False s) (pbb_writer_begin_packet cbs i) else Inr s) (\<lambda>(w, st).
        rbind (deref (find_interface w i)) (\<lambda>f.
        let p = pkt f; ptr = tw_header p + tw_added p + tw_allocated p + bin_msgs_size f
        in rbind (memcpy (tw_buffer p) ptr (bump hopcount 1 (bump hoplimit (-1) msg))) (\<lambda>b.
           Inr (put_interface (f\<lparr>pkt := p\<lparr>tw_buffer := b\<rparr>\<rparr>) w, st)))))"

definition pbb_writer_forward_msg ::
  "'st writer_cbs \<Rightarrow> bytes \<Rightarrow> ifselector \<Rightarrow> 'st wr \<Rightarrow> halt + pbb_result \<times> 'st wr" where
  "pbb_writer_forward_msg cbs msg useIf s =
     (let w = fst s;
          left = (\<lambda>f. size_sub (tw_max (pkt f)) (tw_header (pkt f) + tw_added (pkt f) + tw_allocated (pkt f)));
          mx = foldl (\<lambda>m f. if use_if useIf w (if_id f) then min m (left f) else m) (tw_max (wmsg w)) (interfaces w)
      in if mx < length msg then Inr (PBB_FW_MESSAGE_TOO_LONG, s)
         else if length msg < 2 then Inl OutOfBounds
         else
           let (cnt, hoplimit, hopcount) = fw_fields (msg ! 1)
           in if length msg \<le> cnt + 1 then Inl OutOfBounds
              else if unat (mk16 (msg ! cnt) (msg ! (cnt + 1))) \<noteq> length msg then Inr (PBB_FW_BAD_SIZE, s)
              else if (case hoplimit of None \<Rightarrow> False | Some i \<Rightarrow> msg ! i \<le> 1) then Inr (PBB_OKAY, s)
              else
                rbind (each (\<lambda>i s. if use_if useIf (fst s) i then forward_one cbs msg hoplimit hopcount i s else Inr s)
                         (map if_id (interfaces w)) s) (\<lambda>s. Inr (PBB_OKAY, s)))"

end
