(* ===== verification/HelloWriter.thy ===== *)
theory HelloWriter
  imports HelloWire MsgGenerator
begin

text \<open>
  \<open>src/hello_writer.c\<close>: the thread that announces the daemon. Its callbacks fill each hello with the
  daemon's address as originator, the sequence number, one TLV per commodity and one address block per
  neighbor; the interface callback sends the packet to the multicast address. The surroundings are in
  \<open>hw_env\<close>: the clock, the allocator, the mutex, the results of \<open>sendto\<close>, what uninitialised
  variables and padding bytes hold. The writer's single interface and single content provider are the
  structures with number 0.
\<close>

section \<open>State\<close>

record 'm hw_st =
  hw_bprd :: "'m bprd"
  hw_tick :: nat
  hw_freed :: "freed list"
  hw_sent :: "(int \<times> bytes \<times> bytes) list"

record 'm hw_env =
  hw_clk :: "nat \<Rightarrow> timeval"
  hw_alloc :: "nat \<Rightarrow> bool"
  hw_lock :: "'m \<Rightarrow> int \<times> 'm"
  hw_unlock :: "'m \<Rightarrow> int \<times> 'm"
  hw_sendto :: "nat \<Rightarrow> int"
  hw_pad :: "commodity \<Rightarrow> u8 \<times> u8"
  hw_local :: uninit

definition set_bprd :: "'m bprd \<Rightarrow> 'm hw_st \<Rightarrow> 'm hw_st" where
  "set_bprd b st = st\<lparr>hw_bprd := b\<rparr>"

definition hello_addr_len :: "'m bprd \<Rightarrow> halt + u8" where
  "hello_addr_len b =
     (if ipver b = 2 then Inr 4 else if ipver b = 10 then Inr 16 else Inl (LogErr ''Unrecognized IP version''))"

section \<open>Callbacks\<close>

text \<open>A datagram leaves with the socket and the address it goes to.\<close>

definition hello_send :: "'m hw_env \<Rightarrow> bytes \<Rightarrow> 'm hw_st wr \<Rightarrow> halt + 'm hw_st wr" where
  "hello_send env buffer s =
     (let (w, st) = s; b = hw_bprd st
      in if hw_sendto env (length (hw_sent st)) < 0 then Inl (LogErr ''Unable to send hello!'')
         else Inr (w, st\<lparr>hw_sent := hw_sent st @ [(sockfd b, take (unat (maddrlen b)) (maddr b), buffer)]\<rparr>))"

definition hello_add_msg_header :: "'m hw_env \<Rightarrow> 'm hw_st wr \<Rightarrow> halt + 'm hw_st wr" where
  "hello_add_msg_header env s =
     (let (w, st) = s; b = hw_bprd st
      in rbind (pbb_writer_set_msg_header w BPRD_MSG_TYPE_HELLO True False False True) (\<lambda>w.
         rbind (hello_addr_len b) (\<lambda>_.
         if length (saddr b) < unat (saddrlen b) then Inl OutOfBounds
         else
           rbind (memcpy (u_sock (hw_local env)) 0 (take (unat (saddrlen b)) (saddr b))) (\<lambda>snaddr.
           let naddr = snd (netaddr_from_socket (u_addr (hw_local env)) snaddr)
           in rbind (pbb_writer_set_msg_originator w BPRD_MSG_TYPE_HELLO (na_addr naddr)) (\<lambda>w. Inr (w, st))))))"

definition hello_fin_msg_header :: "'m hw_st wr \<Rightarrow> halt + 'm hw_st wr" where
  "hello_fin_msg_header s =
     (let (w, st) = s; b = hw_bprd st
      in rbind (pbb_writer_set_msg_seqno w BPRD_MSG_TYPE_HELLO (hello_seqno b)) (\<lambda>w.
         Inr (w, set_bprd (b\<lparr>hello_seqno := hello_seqno b + 1\<rparr>) st)))"

text \<open>The results of the calls that add a TLV or an address are not looked at.\<close>

fun add_commodities :: "'m hw_env \<Rightarrow> commodity list \<Rightarrow> pbb_writer \<Rightarrow> halt + pbb_writer" where
  "add_commodities env [] w = Inr w"
| "add_commodities env (c # cs) w =
     (case hw_pad env c of
        (p, q) \<Rightarrow>
          rbind (pbb_writer_add_messagetlv w BPRD_MSGTLV_TYPE_COM 0 (commodity_s_to_bytes p q (cdata c)))
            (\<lambda>(_, w). add_commodities env cs w))"

definition hello_add_msgtlvs :: "'m hw_env \<Rightarrow> 'm hw_st wr \<Rightarrow> halt + 'm hw_st wr" where
  "hello_add_msgtlvs env s =
     (let (w, st) = s
      in rbind (hello_addr_len (hw_bprd st)) (\<lambda>_.
         rbind (add_commodities env (clist (hw_bprd st)) w) (\<lambda>w. Inr (w, st))))"

fun add_neighbors :: "'m hw_env \<Rightarrow> neighbor list \<Rightarrow> pbb_writer \<Rightarrow> halt + pbb_writer" where
  "add_neighbors env [] w = Inr w"
| "add_neighbors env (n # ns) w =
     rbind (pbb_writer_add_address (hw_alloc env) w BPRD_MSG_TYPE_HELLO (na_addr (n_addr n)) (na_prefix_len (n_addr n)))
       (\<lambda>(_, w). add_neighbors env ns w)"

definition hello_add_addresses :: "'m hw_env \<Rightarrow> 'm hw_st wr \<Rightarrow> halt + 'm hw_st wr" where
  "hello_add_addresses env s =
     (let (w, st) = s; b = hw_bprd st
      in rbind (ntable_mutex_lock (hw_lock env) (ntable b)) (\<lambda>nt.
         case ntable_refresh (hw_clk env) (neighbor_timeout b) nt (hw_tick st) of
           (nt, freed, t) \<Rightarrow>
             rbind (add_neighbors env (nlist nt) w) (\<lambda>w.
             rbind (ntable_mutex_unlock (hw_unlock env) nt) (\<lambda>nt.
             Inr (w, (set_bprd (b\<lparr>ntable := nt\<rparr>) st)\<lparr>hw_tick := t, hw_freed := hw_freed st @ freed\<rparr>)))))"

definition hello_cbs :: "'m hw_env \<Rightarrow> 'm hw_st writer_cbs" where
  "hello_cbs env =
     \<lparr>addPacketHeader = (\<lambda>_. None), finishPacketHeader = (\<lambda>_. None), sendPacket = (\<lambda>_. Some (hello_send env)),
      addPacketTLVs = (\<lambda>_ _. None), finishPacketTLVs = (\<lambda>_ _. None),
      addMessageHeader = (\<lambda>_. Some (hello_add_msg_header env)),
      finishMessageHeader = (\<lambda>_ _ _ _. Some hello_fin_msg_header),
      addMessageTLVs = (\<lambda>_. Some (hello_add_msgtlvs env)), addAddresses = (\<lambda>_. Some (hello_add_addresses env)),
      finishMessageTLVs = (\<lambda>_ _ _ _. None)\<rparr>"

definition useAllIf :: "pbb_writer \<Rightarrow> nat \<Rightarrow> bool" where
  "useAllIf w iface = True"

section \<open>Initialisation\<close>

text \<open>The static structures start as zeros.\<close>

definition zero_data :: tlv_writer_data where
  "zero_data = \<lparr>tw_buffer = [], tw_header = 0, tw_added = 0, tw_allocated = 0, tw_set = 0, tw_max = 0\<rparr>"

definition zero_writer :: pbb_writer where
  "zero_writer = \<lparr>msgcreators = [], pkthandlers = [], interfaces = [], msg_mtu = 0, wmsg = zero_data, addrtlv_size = 0,
     addrtlv_used = 0, wr_mem = \<lparr>calls = 0, live = 0\<rparr>\<rparr>"

definition zero_interface :: writer_interface where
  "zero_interface = \<lparr>if_id = 0, if_mtu = 0, is_flushed = False, pkt = zero_data, bin_msgs_size = 0,
     if_has_seqno = False, if_seqno = 0\<rparr>"

definition hello_writer_init :: "(nat \<Rightarrow> bool) \<Rightarrow> 'm bprd \<Rightarrow> halt + pbb_writer" where
  "hello_writer_init alloc b =
     rbind (hello_addr_len b) (\<lambda>addr_len.
     case pbb_writer_init alloc zero_writer 512 (3 * 512) of (r, w) \<Rightarrow>
     if r < 0 then Inl (LogErr ''Unable to initialize packetbb writer'')
     else
       case pbb_writer_register_interface alloc w zero_interface 512 of (r, w) \<Rightarrow>
       if r < 0 then Inl (LogErr ''Unable to register packetbb interface'')
       else
         rbind (on_interface 0 (\<lambda>f. f\<lparr>bin_msgs_size := 0\<rparr>) w) (\<lambda>w.
         case pbb_writer_register_message alloc w BPRD_MSG_TYPE_HELLO False addr_len of
           (None, w) \<Rightarrow> Inl (LogErr ''Unable to register hello message type'')
         | (Some msg, w) \<Rightarrow>
             Inr (snd (pbb_writer_register_msgcontentprovider alloc w 0 BPRD_MSG_TYPE_HELLO 1))))"

section \<open>The thread\<close>

text \<open>One round of the loop, and the first \<open>n\<close> rounds of the thread.\<close>

definition hello_round :: "'m hw_env \<Rightarrow> 'm hw_st wr \<Rightarrow> halt + 'm hw_st wr" where
  "hello_round env s =
     rbind (pbb_writer_create_message (hello_cbs env) BPRD_MSG_TYPE_HELLO (UserIf useAllIf) s) (\<lambda>(_, s).
       pbb_writer_flush (hello_cbs env) 0 False s)"

fun hello_rounds :: "'m hw_env \<Rightarrow> nat \<Rightarrow> 'm hw_st wr \<Rightarrow> halt + 'm hw_st wr" where
  "hello_rounds env 0 s = Inr s"
| "hello_rounds env (Suc n) s = rbind (hello_round env s) (hello_rounds env n)"

definition hello_writer_thread :: "'m hw_env \<Rightarrow> nat \<Rightarrow> 'm hw_st \<Rightarrow> halt + 'm hw_st wr" where
  "hello_writer_thread env n st =
     rbind (hello_writer_init (hw_alloc env) (hw_bprd st)) (\<lambda>w. hello_rounds env n (w, st))"

end
