(* ===== verification/HelloSend.thy ===== *)
theory HelloSend
  imports HelloWriter
begin

text \<open>
  What a round of the hello writer's thread sends: the packet is determined byte by byte by the state of
  the daemon, as long as it fits into the buffers of 512 bytes; a longer one is written past their end.
\<close>

section \<open>A writer with one message type and one interface\<close>

abbreviation wr1 :: "writer_message \<Rightarrow> writer_interface \<Rightarrow> nat \<Rightarrow> tlv_writer_data \<Rightarrow> nat \<Rightarrow> nat \<Rightarrow> mem \<Rightarrow> pbb_writer" where
  "wr1 m f mtu d x y mm \<equiv> \<lparr>msgcreators = [m], pkthandlers = [], interfaces = [f], msg_mtu = mtu, wmsg = d,
     addrtlv_size = x, addrtlv_used = y, wr_mem = mm\<rparr>"

lemma find_message_wr1 [simp]: "wm_type m = i \<Longrightarrow> find_message (wr1 m f mtu d x y mm) i = Some m"
  by (simp add: find_message_def)

lemma put_message_wr1 [simp]:
  "wm_type m = wm_type m' \<Longrightarrow> put_message m' (wr1 m f mtu d x y mm) = wr1 m' f mtu d x y mm"
  by (simp add: put_message_def)

lemma find_interface_wr1 [simp]: "if_id f = i \<Longrightarrow> find_interface (wr1 m f mtu d x y mm) i = Some f"
  by (simp add: find_interface_def)

lemma put_interface_wr1 [simp]:
  "if_id f = if_id f' \<Longrightarrow> put_interface f' (wr1 m f mtu d x y mm) = wr1 m f' mtu d x y mm"
  by (simp add: put_interface_def)

lemma each_end [simp]: "rbind m (each g []) = m"
  by (cases m) simp_all

lemma hello_cbs_sel [simp]:
  "addPacketHeader (hello_cbs env) i = None" "finishPacketHeader (hello_cbs env) i = None"
  "sendPacket (hello_cbs env) i = Some (hello_send env)" "addMessageHeader (hello_cbs env) k = Some (hello_add_msg_header env)"
  "finishMessageHeader (hello_cbs env) k a b c = Some hello_fin_msg_header"
  "addMessageTLVs (hello_cbs env) j = Some (hello_add_msgtlvs env)"
  "addAddresses (hello_cbs env) j = Some (hello_add_addresses env)" "finishMessageTLVs (hello_cbs env) j a b c = None"
  by (simp_all add: hello_cbs_def)

lemma put_bytes_append:
  "ptr + length b + length c \<le> length buf \<Longrightarrow>
     put_bytes (ptr + length b) c (put_bytes ptr b buf) = put_bytes ptr (b @ c) buf"
  by (simp add: put_bytes_def add_ac)

section \<open>Message TLVs\<close>

lemma tlv_add_fits:
  assumes "tw_inv d" and "tw_header d + tw_added d + tw_allocated d + length (tlv_bytes type exttype 0 255 val) \<le> tw_max d"
  shows "pbb_tlv_writer_add d type exttype val = Inr (PBB_OKAY,
    d\<lparr>tw_buffer := put_bytes (tw_header d + tw_added d) (tlv_bytes type exttype 0 255 val) (tw_buffer d),
      tw_added := tw_added d + length (tlv_bytes type exttype 0 255 val)\<rparr>)"
proof -
  let ?b = "tlv_bytes type exttype 0 255 val"
  have "tw_header d + tw_added d + length ?b \<le> length (tw_buffer d)"
    using assms unfolding tw_inv_def by linarith
  then have "memcpy (tw_buffer d) (tw_header d + tw_added d) ?b =
      Inr (put_bytes (tw_header d + tw_added d) ?b (tw_buffer d))" by (simp add: memcpy_def)
  with assms(2) show ?thesis
    by (simp add: pbb_tlv_writer_add_def write_tlv_def Let_def length_tlv_bytes)
qed

definition com_tlv :: "'m hw_env \<Rightarrow> commodity \<Rightarrow> wire_tlv" where
  "com_tlv env c = (case hw_pad env c of (p, q) \<Rightarrow> (BPRD_MSGTLV_TYPE_COM, 0, commodity_s_to_bytes p q (cdata c)))"

lemma wire_bytes_com_tlv:
  "hw_pad env c = (p, q) \<Longrightarrow> wire_bytes (com_tlv env c) = tlv_bytes 1 0 0 255 (commodity_s_to_bytes p q (cdata c))"
  by (simp add: com_tlv_def wire_bytes_def)

lemma length_com_tlv: "netaddr_wf (c_addr c) \<Longrightarrow> length (wire_bytes (com_tlv env c)) = 27"
  by (cases "hw_pad env c")
    (simp add: com_tlv_def wire_bytes_def length_tlv_bytes calc_tlv_size_def sizeof_commodity_s_def)

lemma add_commodities_fit:
  assumes "tw_inv d" and "tw_allocated d = 0"
    and "tw_header d + tw_added d + length (block_bytes (map (com_tlv env) cs)) \<le> tw_max d"
  shows "add_commodities env cs (wr1 m f mtu d x y mm) = Inr (wr1 m f mtu
    (d\<lparr>tw_buffer := put_bytes (tw_header d + tw_added d) (block_bytes (map (com_tlv env) cs)) (tw_buffer d),
       tw_added := tw_added d + length (block_bytes (map (com_tlv env) cs))\<rparr>) x y mm)"
  using assms
proof (induction cs arbitrary: d)
  case Nil
  then show ?case by (simp add: put_bytes_def)
next
  case (Cons c cs)
  obtain p q where pq: "hw_pad env c = (p, q)" by (cases "hw_pad env c")
  let ?b = "wire_bytes (com_tlv env c)"
  let ?d = "d\<lparr>tw_buffer := put_bytes (tw_header d + tw_added d) ?b (tw_buffer d), tw_added := tw_added d + length ?b\<rparr>"
  have l: "tw_header d + tw_added d + length ?b + length (block_bytes (map (com_tlv env) cs)) \<le> length (tw_buffer d)"
    using Cons.prems unfolding tw_inv_def by simp
  have fits: "tw_header d + tw_added d + tw_allocated d + length ?b \<le> tw_max d" using Cons.prems(2,3) by simp
  have "pbb_tlv_writer_add d 1 0 (commodity_s_to_bytes p q (cdata c)) = Inr (PBB_OKAY, ?d)"
    using tlv_add_fits[OF Cons.prems(1) fits[unfolded wire_bytes_com_tlv[OF pq]]] by (simp add: wire_bytes_com_tlv[OF pq])
  then have a: "pbb_writer_add_messagetlv (wr1 m f mtu d x y mm) 1 0 (commodity_s_to_bytes p q (cdata c)) =
      Inr (PBB_OKAY, wr1 m f mtu ?d x y mm)"
    by (simp add: pbb_writer_add_messagetlv_def put_wmsg_def)
  have i: "tw_inv ?d" using fits l Cons.prems(1) by (simp add: tw_inv_def)
  have "tw_header ?d + tw_added ?d + length (block_bytes (map (com_tlv env) cs)) \<le> tw_max ?d"
    using Cons.prems(3) by simp
  from Cons.IH[OF i _ this] Cons.prems(2) show ?case
    using put_bytes_append[OF l] by (simp add: pq a add.assoc)
qed

section \<open>Addresses\<close>

definition nbr_address :: "u8 \<Rightarrow> neighbor \<Rightarrow> writer_address" where
  "nbr_address alen n =
     new_address (put_bytes 0 (take (unat alen) (na_addr (n_addr n))) (replicate 16 0)) (na_prefix_len (n_addr n))"

abbreviation nbr_key :: "u8 \<Rightarrow> neighbor \<Rightarrow> bytes" where
  "nbr_key alen n \<equiv> take (unat alen) (na_addr (n_addr n))"

text \<open>The neighbors of a list can be announced: their addresses are long enough and different.\<close>

definition announceable :: "u8 \<Rightarrow> neighbor list \<Rightarrow> bool" where
  "announceable alen ns \<longleftrightarrow> unat alen \<le> 16 \<and> distinct (map (nbr_key alen) ns) \<and>
     (\<forall>n\<in>set ns. unat alen \<le> length (na_addr (n_addr n)))"

lemma nbr_address_key: "unat alen \<le> length (na_addr (n_addr n)) \<Longrightarrow> unat alen \<le> 16 \<Longrightarrow>
    take (unat alen) (wa_addr (nbr_address alen n)) = nbr_key alen n"
  by (simp add: nbr_address_def new_address_def put_bytes_def)

lemma add_neighbors_fit:
  assumes "announceable alen (old @ ns)" and "\<forall>k. hw_alloc env k" and "wm_type m = 1" and "wm_addr_len m = alen"
    and "addr_head m = map (nbr_address alen) old" and "set (addr_tree m) = {..<length old}"
  shows "\<exists>t mm'. add_neighbors env ns (wr1 m f mtu d x y mm) =
      Inr (wr1 (m\<lparr>addr_head := map (nbr_address alen) (old @ ns), addr_tree := t\<rparr>) f mtu d x y mm') \<and>
    set t = {..<length (old @ ns)}"
  using assms
proof (induction ns arbitrary: m old mm)
  case Nil
  then show ?case by (intro exI[of _ "addr_tree m"] exI[of _ mm]) simp
next
  case (Cons n ns)
  have an: "unat alen \<le> 16" "unat alen \<le> length (na_addr (n_addr n))" "nbr_key alen n \<notin> nbr_key alen ` set old"
    "\<forall>n\<in>set old. unat alen \<le> length (na_addr (n_addr n))"
    using Cons.prems(1) by (auto simp: announceable_def)
  let ?a = "na_addr (n_addr n)" and ?m = "m\<lparr>addr_head := addr_head m @ [nbr_address alen n]\<rparr>"
  have key: "take (unat alen) (addr_key m i) = nbr_key alen (old ! i)" if "i < length old" for i
    using that an(1,4) Cons.prems(5) by (simp add: addr_key_def nbr_address_key)
  have "msgaddr_avl_comp m ?a (addr_key m i) \<noteq> 0" if "i < length old" for i
  proof -
    have "nbr_key alen (old ! i) \<in> nbr_key alen ` set old" using that by simp
    with an(3) have "nbr_key alen n \<noteq> nbr_key alen (old ! i)" by metis
    then show ?thesis using key[OF that] Cons.prems(4) by (simp add: msgaddr_avl_comp_def memcmp_zero_iff)
  qed
  then have none: "find (\<lambda>i. msgaddr_avl_comp m ?a (addr_key m i) = 0) (addr_tree m) = None"
    using Cons.prems(6) by (auto simp: find_None_iff)
  have cmp: "msgaddr_avl_comp ?m (addr_key ?m (length old)) (addr_key ?m i) \<noteq> 0" if "i < length old" for i
  proof -
    have "addr_key ?m i = addr_key m i" "addr_key ?m (length old) = wa_addr (nbr_address alen n)"
      using that Cons.prems(5) by (simp_all add: addr_key_def nth_append)
    moreover have "msgaddr_avl_comp m ?a (addr_key m i) \<noteq> 0"
      using none that Cons.prems(6) by (auto simp: find_None_iff)
    ultimately show ?thesis
      using an(1,2) Cons.prems(4) by (simp add: msgaddr_avl_comp_def nbr_address_key)
  qed
  define t where "t = snd (store_insert (msgaddr_avl_comp ?m) False (addr_key ?m) (length old) (addr_tree m))"
  have "store_insert (msgaddr_avl_comp ?m) False (addr_key ?m) (length old) (addr_tree m) = (0, t)"
    using cmp Cons.prems(6) by (auto simp: t_def store_insert_def)
  from store_insert_set[OF this] have t: "set t = {..<length (old @ [n])}" using Cons.prems(6) by auto
  let ?m' = "m\<lparr>addr_head := map (nbr_address alen) (old @ [n]), addr_tree := t\<rparr>"
  have lold: "length (addr_head m) = length old" using Cons.prems(5) by simp
  have "memcpy (replicate PBB_MAX_ADDRLEN 0) 0 (nbr_key alen n) = Inr (put_bytes 0 (nbr_key alen n) (replicate 16 0))"
    using an(1,2) by (simp add: memcpy_def PBB_MAX_ADDRLEN_def)
  then have "\<exists>mm'. pbb_writer_add_address (hw_alloc env) (wr1 m f mtu d x y mm) 1 ?a (na_prefix_len (n_addr n)) =
      Inr (Some (length old), wr1 ?m' f mtu d x y mm')"
    using an(2) none Cons.prems(2-5) t_def lold
    by (simp add: pbb_writer_add_address_def wr_alloc_def mem_alloc_def Let_def nbr_address_def)
  then obtain mm1 where a: "pbb_writer_add_address (hw_alloc env) (wr1 m f mtu d x y mm) 1 ?a (na_prefix_len (n_addr n)) =
      Inr (Some (length old), wr1 ?m' f mtu d x y mm1)" by blast
  have "announceable alen ((old @ [n]) @ ns)" using Cons.prems(1) by simp
  from Cons.IH[OF this Cons.prems(2), of ?m'] t Cons.prems(3,4) obtain t' mm2 where
    "add_neighbors env ns (wr1 ?m' f mtu d x y mm1) =
      Inr (wr1 (?m'\<lparr>addr_head := map (nbr_address alen) (old @ n # ns), addr_tree := t'\<rparr>) f mtu d x y mm2) \<and>
      set t' = {..<length (old @ n # ns)}" by force
  with a show ?case by auto
qed

section \<open>One block per address\<close>

text \<open>An address whose block is closed at itself, and the list of addresses when the first \<open>j\<close> have
  passed the loop: the last of them is still open.\<close>

definition closed :: "nat \<Rightarrow> writer_address \<Rightarrow> writer_address" where
  "closed i a = a\<lparr>wa_index := int i, block_end := Some i, block_multiple_prefixlen := False, block_headlen := 0\<rparr>"

definition passed :: "nat \<Rightarrow> nat \<Rightarrow> writer_address \<Rightarrow> writer_address" where
  "passed j i a = (if i + 1 < j then closed i a else if i < j then a\<lparr>wa_index := int i\<rparr> else a)"

definition prog :: "nat \<Rightarrow> writer_address list \<Rightarrow> writer_address list" where
  "prog j as = map (\<lambda>i. passed j i (as ! i)) [0..<length as]"

lemma length_prog [simp]: "length (prog j as) = length as"
  by (simp add: prog_def)

lemma nth_prog [simp]: "i < length as \<Longrightarrow> prog j as ! i = passed j i (as ! i)"
  by (simp add: prog_def)

lemma prog_0 [simp]: "prog 0 as = as"
  by (rule nth_equalityI) (simp_all add: passed_def)

lemma prog_1: "as \<noteq> [] \<Longrightarrow> (prog 0 as)[0 := (prog 0 as ! 0)\<lparr>wa_index := 0\<rparr>] = prog 1 as"
  by (rule nth_equalityI) (auto simp: passed_def nth_list_update)

text \<open>The next address enters and closes the one before.\<close>

lemma prog_Suc:
  assumes "Suc k < length as"
  shows "(let l = (prog (Suc k) as)[Suc k := (prog (Suc k) as ! Suc k)\<lparr>wa_index := int (Suc k)\<rparr>]
    in l[k := (l ! k)\<lparr>block_end := Some k, block_multiple_prefixlen := False, block_headlen := 0\<rparr>]) = prog (Suc (Suc k)) as"
  using assms by (intro nth_equalityI) (auto simp: Let_def passed_def closed_def nth_list_update less_Suc_eq)

text \<open>The compression sessions while every address starts a block of its own.\<close>

definition sessions :: "nat \<Rightarrow> acs list \<Rightarrow> bool" where
  "sessions j acs \<longleftrightarrow> length acs = PBB_MAX_ADDRLEN \<and> ac_ptr (acs ! 0) = Some j \<and> \<not> ac_multiplen (acs ! 0) \<and>
     (\<forall>k. 0 < k \<longrightarrow> k < PBB_MAX_ADDRLEN \<longrightarrow> acs ! k = empty_acs)"

definition plain_addrs :: "u8 \<Rightarrow> nat \<Rightarrow> writer_address list \<Rightarrow> bool" where
  "plain_addrs alen mx as \<longleftrightarrow> 2 \<le> unat alen \<and> unat alen \<le> PBB_MAX_ADDRLEN \<and> 3 + unat alen \<le> mx \<and>
     (\<forall>a\<in>set as. wa_addrtlv_tree a = [])"

lemma new_cost_plain:
  assumes "plain_addrs alen mx as" and "wm_addr_len m = alen" and "wa_addrtlv_tree a = []"
  shows "new_cost m a \<le> int mx"
proof -
  have "uint alen = int (unat alen)" by simp
  moreover have "unat alen + 3 \<le> mx" using assms(1) by (simp add: plain_addrs_def)
  ultimately have "uint alen + 3 \<le> int mx" by linarith
  with assms(2,3) show ?thesis by (simp add: new_cost_def)
qed

lemma plain_at: "plain_addrs alen mx as \<Longrightarrow> i < length as \<Longrightarrow> wa_addrtlv_tree (as ! i) = []"
  by (simp add: plain_addrs_def)

lemma try_first_address:
  assumes "plain_addrs alen mx as" and "as \<noteq> []" and "wm_addr_len m = alen" and "addr_head m = prog 0 as"
  shows "\<exists>acs'. try_address 0 0 (int mx) True acs m = Inr (True, acs', m\<lparr>addr_head := prog 1 as\<rparr>) \<and> sessions 0 acs'"
proof -
  let ?m = "m\<lparr>addr_head := prog 1 as\<rparr>" and ?k = "unat alen - 1"
  have a: "unat alen \<noteq> 0" "unat alen \<le> PBB_MAX_ADDRLEN" "?k < PBB_MAX_ADDRLEN" "?k \<noteq> 0" using assms(1) by (auto simp: plain_addrs_def)
  have t: "wa_addrtlv_tree (prog 1 as ! 0) = []"
    using plain_at[OF assms(1), of 0] assms(2) by (simp add: passed_def)
  have p: "put_address 0 ((addr_head m ! 0)\<lparr>wa_index := 0\<rparr>) m = ?m"
    using prog_1[OF assms(2)] assms(4) by (simp add: put_address_def)
  have c: "new_cost ?m (prog 1 as ! 0) \<le> int mx"
    by (rule new_cost_plain[OF assms(1)]) (simp add: assms(3), rule t)
  let ?acs = "(replicate PBB_MAX_ADDRLEN empty_acs)[0 := \<lparr>ac_ptr = Some 0, ac_total = 0,
    ac_current = new_cost ?m (prog 1 as ! 0), ac_multiplen = False\<rparr>]"
  have z: "compress_address (replicate PBB_MAX_ADDRLEN empty_acs) 0 True ?m = Inr (?acs, ?m)"
    using a assms(3) by (simp add: compress_address_def Let_def empty_acs_def)
  show ?thesis
    using c t z by (simp add: try_address_def p PBB_MAX_ADDRLEN_def sessions_def nth_list_update)
qed

lemma try_next_address:
  assumes "plain_addrs alen mx as" and "Suc k < length as" and "wm_addr_len m = alen" and "addr_head m = prog (Suc k) as"
    and "sessions k acs"
  shows "\<exists>acs'. try_address (Suc k) (int (Suc k)) (int mx) False acs m =
      Inr (True, acs', m\<lparr>addr_head := prog (Suc (Suc k)) as\<rparr>) \<and> sessions (Suc k) acs'"
proof -
  let ?m = "m\<lparr>addr_head := prog (Suc (Suc k)) as\<rparr>" and ?n = "unat alen - 1"
  let ?l = "(prog (Suc k) as)[Suc k := (prog (Suc k) as ! Suc k)\<lparr>wa_index := int (Suc k)\<rparr>]"
  have a: "unat alen \<noteq> 0" "unat alen \<le> PBB_MAX_ADDRLEN" "?n < PBB_MAX_ADDRLEN" "?n \<noteq> 0" using assms(1) by (auto simp: plain_addrs_def)
  have s: "length acs = PBB_MAX_ADDRLEN" "ac_ptr (acs ! 0) = Some k" "\<not> ac_multiplen (acs ! 0)" "acs ! ?n = empty_acs"
    "\<And>i. 0 < i \<Longrightarrow> i < PBB_MAX_ADDRLEN \<Longrightarrow> acs ! i = empty_acs"
    using assms(5) a by (auto simp: sessions_def)
  have t: "wa_addrtlv_tree (prog j as ! Suc k) = []" for j
    using plain_at[OF assms(1,2)] assms(2) by (simp add: passed_def closed_def)
  have c: "new_cost ?m (prog (Suc (Suc k)) as ! Suc k) \<le> int mx"
    by (rule new_cost_plain[OF assms(1)]) (simp add: assms(3), rule t)
  have cl: "close_addrblock acs k (m\<lparr>addr_head := ?l\<rparr>) = Inr ?m"
    using prog_Suc[OF assms(2)] s(2,3) by (simp add: close_addrblock_def put_address_def Let_def)
  let ?acs = "acs[0 := \<lparr>ac_ptr = Some (Suc k), ac_total = 0,
    ac_current = new_cost ?m (prog (Suc (Suc k)) as ! Suc k), ac_multiplen = False\<rparr>]"
  have z: "compress_address acs (Suc k) False (m\<lparr>addr_head := ?l\<rparr>) = Inr (?acs, ?m)"
    using a s(1,4) assms(3) cl by (simp add: compress_address_def Let_def empty_acs_def)
  have l: "wa_addrtlv_tree (?l ! Suc k) = []" using t assms(2) by simp
  have p: "put_address (Suc k) ((addr_head m ! Suc k)\<lparr>wa_index := int (Suc k)\<rparr>) m = m\<lparr>addr_head := ?l\<rparr>"
    by (simp add: put_address_def assms(4))
  have acs0: "0 < length acs" using s(1) by (simp add: PBB_MAX_ADDRLEN_def)
  show ?thesis
    unfolding try_address_def if_False Let_def p
    using c l z acs0 s(1,5) by (simp add: sessions_def)
qed

lemma addresses_loop_rest:
  assumes "plain_addrs alen (tw_max d) as" and "Suc k \<le> length as" and "wm_type m = 1" and "wm_addr_len m = alen"
    and "addr_head m = prog (Suc k) as" and "sessions k (g_acs g)" and "g_idx g = int (Suc k)" and "g_first g = 0"
    and "g_whole g"
  shows "\<exists>g'. addresses_loop cbs 1 useIf [Suc k..<length as] g (wr1 m f mtu d x y mm, st) =
      Inr (True, g', wr1 (m\<lparr>addr_head := prog (length as) as\<rparr>) f mtu d x y mm, st) \<and>
    g_first g' = 0 \<and> g_whole g' \<and> sessions (length as - 1) (g_acs g')"
  using assms
proof (induction "length as - Suc k" arbitrary: k m g)
  case 0
  then have "length as = Suc k" by simp
  with 0 show ?case by (intro exI[of _ g]) simp
next
  case (Suc u)
  then have k: "Suc k < length as" by simp
  then have up: "[Suc k..<length as] = Suc k # [Suc (Suc k)..<length as]" by (simp add: upt_conv_Cons)
  from try_next_address[OF Suc.prems(1) k Suc.prems(4-6)] obtain acs' where
    t: "try_address (Suc k) (int (Suc k)) (int (tw_max d)) False (g_acs g) m =
      Inr (True, acs', m\<lparr>addr_head := prog (Suc (Suc k)) as\<rparr>)" "sessions (Suc k) acs'" by blast
  let ?m = "m\<lparr>addr_head := prog (Suc (Suc k)) as\<rparr>" and ?g = "g\<lparr>g_acs := acs', g_idx := int (Suc (Suc k))\<rparr>"
  have e: "addresses_loop cbs 1 useIf [Suc k..<length as] g (wr1 m f mtu d x y mm, st) =
      addresses_loop cbs 1 useIf [Suc (Suc k)..<length as] ?g (wr1 ?m f mtu d x y mm, st)"
    using t(1) Suc.prems(3,7,8) unfolding up by (simp add: Let_def add.commute)
  have u: "u = length as - Suc (Suc k)" using Suc.hyps(2) by simp
  show ?case unfolding e
    using Suc.hyps(1)[OF u Suc.prems(1), of ?m ?g] k Suc.prems(3,4,8,9) t(2) by simp
qed

lemma addresses_loop_fits:
  assumes "plain_addrs alen (tw_max d) as" and "as \<noteq> []" and "wm_type m = 1" and "wm_addr_len m = alen"
    and "addr_head m = as"
  shows "\<exists>g'. addresses_loop cbs 1 useIf [0..<length as] \<lparr>g_acs = [], g_idx = 0, g_first = 0, g_whole = True\<rparr>
      (wr1 m f mtu d x y mm, st) =
      Inr (True, g', wr1 (m\<lparr>addr_head := prog (length as) as\<rparr>) f mtu d x y mm, st) \<and>
    g_first g' = 0 \<and> g_whole g' \<and> sessions (length as - 1) (g_acs g')"
proof -
  have up: "[0..<length as] = 0 # [Suc 0..<length as]" using assms(2) by (simp add: upt_conv_Cons)
  from try_first_address[OF assms(1,2,4), of "[]"] assms(5) obtain acs' where
    t: "try_address 0 0 (int (tw_max d)) True [] m = Inr (True, acs', m\<lparr>addr_head := prog 1 as\<rparr>)" "sessions 0 acs'"
    by auto
  let ?m = "m\<lparr>addr_head := prog (Suc 0) as\<rparr>" and ?g = "\<lparr>g_acs = acs', g_idx = 1, g_first = 0, g_whole = True\<rparr>"
  have e: "addresses_loop cbs 1 useIf [0..<length as] \<lparr>g_acs = [], g_idx = 0, g_first = 0, g_whole = True\<rparr>
      (wr1 m f mtu d x y mm, st) =
    addresses_loop cbs 1 useIf [Suc 0..<length as] ?g (wr1 ?m f mtu d x y mm, st)"
    using t(1) assms(3) unfolding up by (simp add: Let_def)
  show ?thesis unfolding e
    using addresses_loop_rest[OF assms(1), of 0 ?m ?g] assms(2-4) t(2) by (simp add: Suc_le_eq)
qed

text \<open>The list with every block closed.\<close>

definition all_closed :: "writer_address list \<Rightarrow> writer_address list" where
  "all_closed as = map (\<lambda>i. closed i (as ! i)) [0..<length as]"

lemma length_all_closed [simp]: "length (all_closed as) = length as"
  by (simp add: all_closed_def)

lemma all_closed_Nil_iff [simp]: "all_closed as = [] \<longleftrightarrow> as = []"
  by (metis length_0_conv length_all_closed)

lemma nth_all_closed [simp]: "i < length as \<Longrightarrow> all_closed as ! i = closed i (as ! i)"
  by (simp add: all_closed_def)

lemma close_last:
  assumes "sessions (length as - 1) acs" and "as \<noteq> []"
  shows "close_addrblock acs (length as - 1) (m\<lparr>addr_head := prog (length as) as\<rparr>) =
    Inr (m\<lparr>addr_head := all_closed as\<rparr>)"
proof -
  let ?n = "length as - 1"
  have n: "?n < length as" using assms(2) by simp
  have "(prog (length as) as)[?n := (prog (length as) as ! ?n)\<lparr>block_end := Some ?n, block_multiple_prefixlen := False,
      block_headlen := 0\<rparr>] = all_closed as"
    using n by (intro nth_equalityI) (auto simp: passed_def closed_def nth_list_update)
  then show ?thesis using assms(1) by (simp add: close_addrblock_def sessions_def put_address_def)
qed

section \<open>The blocks in the message buffer\<close>

text \<open>The bytes of an address with its prefix length in a block of its own.\<close>

definition wire_addr :: "u8 \<Rightarrow> bytes \<times> u8 \<Rightarrow> bytes" where
  "wire_addr alen = (\<lambda>(a, p). let special = (uint p \<noteq> uint alen * 8)
     in [1, if special then PBB_ADDR_FLAG_SINGLEPLEN else 0] @ a @ (if special then [p] else []) @ [0, 0])"

definition addr_of :: "u8 \<Rightarrow> writer_address \<Rightarrow> bytes \<times> u8" where
  "addr_of alen a = (take (unat alen) (wa_addr a), wa_prefixlen a)"

definition addr_bytes :: "u8 \<Rightarrow> (bytes \<times> u8) list \<Rightarrow> bytes" where
  "addr_bytes alen as = concat (map (wire_addr alen) as)"

lemma addr_bytes_simps [simp]:
  "addr_bytes alen [] = []" "addr_bytes alen (a # as) = wire_addr alen a @ addr_bytes alen as"
  by (simp_all add: addr_bytes_def)

lemma addrblock_bytes_plain:
  assumes "addr_head m = all_closed as" and "i < length as" and "tlvtype_head m = []" and "wm_addr_len m = alen"
  shows "addrblock_bytes m i i = wire_addr alen (addr_of alen (as ! i))"
  using assms
  by (simp add: addrblock_bytes_def block_tlvs_def Let_def closed_def wire_addr_def addr_of_def)

lemma write_blocks_plain:
  assumes "addr_head m = all_closed as" and "i < length as" and "tlvtype_head m = []" and "wm_addr_len m = alen"
    and "bs = addr_bytes alen (map (addr_of alen) (drop i as))"
  shows "write_blocks m i (length as - 1) ptr buf =
    (if ptr + length bs \<le> length buf then Inr (ptr + length bs, put_bytes ptr bs buf) else Inl OutOfBounds)"
  using assms(2,5)
proof (induction "length as - i" arbitrary: i ptr buf bs)
  case (Suc u)
  let ?b = "wire_addr alen (addr_of alen (as ! i))" and ?c = "addr_bytes alen (map (addr_of alen) (drop (Suc i) as))"
  note b = addrblock_bytes_plain[OF assms(1) Suc.prems(1) assms(3,4)]
  have bs: "bs = ?b @ ?c" using Suc.prems by (simp add: Cons_nth_drop_Suc[symmetric])
  have step: "write_blocks m i (length as - 1) ptr buf =
      (case memcpy buf ptr ?b of Inl h \<Rightarrow> Inl h
       | Inr buf \<Rightarrow> if i = length as - 1 then Inr (ptr + length ?b, buf)
                  else write_blocks m (Suc i) (length as - 1) (ptr + length ?b) buf)"
    using Suc.prems(1) assms(1) by (subst write_blocks.simps) (simp add: b Let_def closed_def)
  show ?case
  proof (cases "ptr + length ?b \<le> length buf")
    case False
    then have "memcpy buf ptr ?b = Inl OutOfBounds" by (simp add: memcpy_def)
    with False show ?thesis unfolding step by (simp add: bs)
  next
    case True
    then have m: "memcpy buf ptr ?b = Inr (put_bytes ptr ?b buf)" by (simp add: memcpy_def)
    show ?thesis
    proof (cases "Suc i = length as")
      case True
      then have "?c = []" "i = length as - 1" by simp_all
      with m \<open>ptr + length ?b \<le> length buf\<close> show ?thesis unfolding step by (simp add: bs)
    next
      case False
      then have i: "Suc i < length as" "u = length as - Suc i" using Suc.hyps(2) Suc.prems(1) by simp_all
      then have "i \<noteq> length as - 1" by simp
      with m Suc.hyps(1)[OF i(2,1) refl, of "ptr + length ?b" "put_bytes ptr ?b buf"] True
      show ?thesis unfolding step by (simp add: bs put_bytes_append add.assoc)
    qed
  qed
qed simp

text \<open>All blocks of a message: into the buffer behind its header and TLVs, or beyond the buffer.\<close>

lemma write_addresses_plain:
  assumes "addr_head m = all_closed as" and "as \<noteq> []" and "tlvtype_head m = []" and "wm_addr_len m = alen" and "wm_type m = 1"
    and "bs = addr_bytes alen (map (addr_of alen) as)" and "p = tw_header d + tw_added d + tw_set d"
  shows "write_addresses (wr1 m f mtu d x y mm) 1 0 (length as - 1) =
    (if p + length bs \<le> length (tw_buffer d)
     then Inr (wr1 (m\<lparr>bin_addr_size := length bs\<rparr>) f mtu (d\<lparr>tw_buffer := put_bytes p bs (tw_buffer d)\<rparr>) x y mm)
     else Inl OutOfBounds)"
  using write_blocks_plain[OF assms(1) _ assms(3,4), of 0 bs p "tw_buffer d"] assms(1,2,5-7)
  by (simp add: write_addresses_def Let_def closed_def)

section \<open>The message\<close>

definition hello_header :: "u8 \<Rightarrow> bytes \<Rightarrow> u16 \<Rightarrow> nat \<Rightarrow> nat \<Rightarrow> bytes" where
  "hello_header alen orig seqno len tlvs =
     [BPRD_MSG_TYPE_HELLO, ((alen - 1) OR PBB_MSG_FLAG_ORIGINATOR) OR PBB_MSG_FLAG_SEQNO,
      hi8 (of_nat len), lo8 (of_nat len)] @ orig @
     [hi8 seqno, lo8 seqno, hi8 (of_nat tlvs), lo8 (of_nat tlvs)]"

definition hello_message :: "u8 \<Rightarrow> bytes \<Rightarrow> u16 \<Rightarrow> wire_tlv list \<Rightarrow> (bytes \<times> u8) list \<Rightarrow> bytes" where
  "hello_message alen orig seqno ts as =
     (let tl = block_bytes ts; bs = addr_bytes alen as
      in hello_header alen orig seqno (8 + length orig + length tl + length bs) (length tl) @ tl @ bs)"

lemma length_hello_header [simp]: "length (hello_header alen orig seqno n k) = 8 + length orig"
  by (simp add: hello_header_def)

lemma length_hello_message: "length (hello_message alen orig seqno ts as) =
    8 + length orig + length (block_bytes ts) + length (addr_bytes alen as)"
  by (simp add: hello_message_def Let_def)

text \<open>Header, TLVs and blocks lie behind each other in the buffer.\<close>

lemma put_message_parts:
  assumes "sub_bytes (length h) (length ts) buf = ts" and "length h + length ts + length bs \<le> length buf"
  shows "take (length h + length ts + length bs) (put_bytes 0 h (put_bytes (length h + length ts) bs buf)) = h @ ts @ bs"
proof -
  define u v where "u = take (length h) buf" and "v = drop (length h + length ts) buf"
  have "buf = u @ sub_bytes (length h) (length ts) buf @ v"
    by (simp add: u_def v_def sub_bytes_def) (metis append_take_drop_id drop_drop add.commute)
  then have buf: "buf = u @ ts @ v" using assms(1) by simp
  have u: "length u = length h" and v: "length bs \<le> length v" using assms(2) by (simp_all add: u_def v_def)
  show ?thesis using v by (simp add: buf put_bytes_def u)
qed

text \<open>A message type as the hello writer sets it up: originator and sequence number, no hop fields.\<close>

definition hello_type :: "u8 \<Rightarrow> writer_message \<Rightarrow> bool" where
  "hello_type alen m \<longleftrightarrow> wm_type m = 1 \<and> wm_addr_len m = alen \<and> wm_has_origaddr m \<and> \<not> wm_has_hoplimit m \<and>
     \<not> wm_has_hopcount m \<and> wm_has_seqno m \<and> tlvtype_head m = [] \<and> (\<exists>pr. provider_tree m = [pr])"

lemma msgheader_bytes_hello:
  assumes "hello_type alen m" and "tw_set d = 0"
  shows "msgheader_bytes d m = hello_header alen (take (unat alen) (wm_orig_addr m)) (wm_seqno m)
    (tw_header d + tw_added d + bin_addr_size m) (tw_added d)"
  using assms by (simp add: hello_type_def msgheader_bytes_def hello_header_def Let_def)

text \<open>The interface with a packet that holds a message, and between two packets.\<close>

definition packet_holds :: "nat \<Rightarrow> bytes \<Rightarrow> writer_interface \<Rightarrow> bool" where
  "packet_holds mtu msg f \<longleftrightarrow> if_id f = 0 \<and> if_mtu f = mtu \<and> \<not> is_flushed f \<and> \<not> if_has_seqno f \<and>
     bin_msgs_size f = length msg \<and> tw_header (pkt f) = 3 \<and> tw_added (pkt f) = 0 \<and> tw_allocated (pkt f) = 0 \<and>
     tw_set (pkt f) = 0 \<and> tw_max (pkt f) = mtu \<and> length (tw_buffer (pkt f)) = mtu \<and> 3 + length msg \<le> mtu \<and>
     sub_bytes 3 (length msg) (tw_buffer (pkt f)) = msg"

definition idle_interface :: "nat \<Rightarrow> writer_interface \<Rightarrow> bool" where
  "idle_interface mtu f \<longleftrightarrow> if_id f = 0 \<and> if_mtu f = mtu \<and> is_flushed f \<and> bin_msgs_size f = 0 \<and>
     length (tw_buffer (pkt f)) = mtu"

lemma begin_packet_starts:
  assumes "if_id f = 0" and "if_mtu f = mtu" and "bin_msgs_size f = 0" and "length (tw_buffer (pkt f)) = mtu" and "3 \<le> mtu"
  shows "\<exists>f'. pbb_writer_begin_packet (hello_cbs env) 0 (wr1 m f mt d x y mm, st) = Inr (wr1 m f' mt d x y mm, st) \<and>
    packet_holds mtu [] f'"
  using assms
  by (simp add: pbb_writer_begin_packet_def on_interface_def pbb_writer_set_pkt_header_def
      packet_holds_def pbb_tlv_writer_init_def sub_bytes_def)

text \<open>A flush sends the flag byte of the packet header and the message.\<close>

lemma flush_sends:
  assumes "packet_holds mtu msg f" and "0 \<le> hw_sendto env (length (hw_sent st))"
  shows "\<exists>f'. pbb_writer_flush (hello_cbs env) 0 False (wr1 m f mt d x y mm, st) =
      Inr (wr1 m f' mt d x y mm, st\<lparr>hw_sent := hw_sent st @
        [(sockfd (hw_bprd st), take (unat (maddrlen (hw_bprd st))) (maddr (hw_bprd st)), 0 # msg)]\<rparr>) \<and>
    idle_interface mtu f'"
proof -
  let ?b0 = "put_bytes 0 [0] (tw_buffer (pkt f))"
  have f: "if_id f = 0" "\<not> is_flushed f" "\<not> if_has_seqno f" "bin_msgs_size f = length msg" "tw_header (pkt f) = 3"
    "tw_added (pkt f) = 0" "tw_allocated (pkt f) = 0" "tw_set (pkt f) = 0" "length (tw_buffer (pkt f)) = mtu" "if_mtu f = mtu"
    "3 + length msg \<le> mtu" "sub_bytes 3 (length msg) (tw_buffer (pkt f)) = msg"
    using assms(1) by (auto simp: packet_holds_def)
  have h: "write_pktheader f = Inr (f\<lparr>pkt := (pkt f)\<lparr>tw_buffer := ?b0\<rparr>\<rparr>)"
    using f by (simp add: write_pktheader_def pktheader_bytes_def memcpy_def Let_def)
  have s: "sub_bytes 3 (length msg) ?b0 = msg" using f by (simp add: sub_put_after)
  have b: "compress_packet 1 (f\<lparr>pkt := (pkt f)\<lparr>tw_buffer := ?b0\<rparr>\<rparr>) = Inr (put_bytes 1 msg ?b0)"
  proof (cases "msg = []")
    case True
    with f show ?thesis by (simp add: compress_packet_def put_bytes_def)
  next
    case False
    with f s show ?thesis by (simp add: compress_packet_def Let_def memcpy_def)
  qed
  have t: "take (1 + length msg) (put_bytes 1 msg ?b0) = 0 # msg" "length (put_bytes 1 msg ?b0) = mtu"
    using f(9,11) by (simp_all add: put_bytes_def)
  show ?thesis
    using f h b t assms(2)
    by (simp add: pbb_writer_flush_def call_cb_def hello_send_def on_interface_def Let_def idle_interface_def)
qed

lemma append_message_fits:
  assumes "packet_holds mtu [] f" and "wm_type m = 1" and "tw_set d = 0" and "tw_allocated d = 0"
    and "n = tw_header d + tw_added d" and "3 + n + bin_addr_size m \<le> mtu" and "n + bin_addr_size m \<le> length (tw_buffer d)"
    and "msg = take (n + bin_addr_size m) (tw_buffer d)"
  shows "append_message cbs 1 n 0 (wr1 m f mtu d x y mm, st) = Inr (wr1 m
      (f\<lparr>pkt := (pkt f)\<lparr>tw_buffer := put_bytes 3 msg (tw_buffer (pkt f))\<rparr>, bin_msgs_size := length msg\<rparr>) mtu d x y mm, st)"
proof -
  let ?s = "tw_buffer d" and ?b = "tw_buffer (pkt f)"
  have msg: "take n ?s @ sub_bytes n (bin_addr_size m) ?s = msg"
    by (simp add: assms(8) sub_bytes_def take_add)
  have "put_bytes (3 + length (take n ?s)) (sub_bytes n (bin_addr_size m) ?s) (put_bytes 3 (take n ?s) ?b) =
      put_bytes 3 (take n ?s @ sub_bytes n (bin_addr_size m) ?s) ?b"
    using assms(1,6,7) by (intro put_bytes_append) (simp add: packet_holds_def)
  then have pp: "put_bytes (3 + n) (sub_bytes n (bin_addr_size m) ?s) (put_bytes 3 (take n ?s) ?b) = put_bytes 3 msg ?b"
    using assms(7) msg by simp
  have m1: "memcpy ?b 3 (take n ?s) = Inr (put_bytes 3 (take n ?s) ?b)"
    using assms(1,6,7) by (simp add: memcpy_def packet_holds_def)
  have "length (put_bytes 3 (take n ?s) ?b) = mtu"
    using assms(1,6,7) by (simp add: packet_holds_def)
  then have m2: "memcpy (put_bytes 3 (take n ?s) ?b) (3 + n) (sub_bytes n (bin_addr_size m) ?s) = Inr (put_bytes 3 msg ?b)"
    using assms(6,7) pp by (simp add: memcpy_def)
  have "length msg = n + bin_addr_size m" using assms(7,8) by simp
  with m1 m2 assms(1-7) show ?thesis
    by (simp add: append_message_def Let_def packet_holds_def add.assoc)
qed

lemma append_message_ok:
  assumes "packet_holds mtu [] f" and "wm_type m = 1" and "tw_set d = 0" and "tw_allocated d = 0"
    and "n = tw_header d + tw_added d" and "3 + n + bin_addr_size m \<le> mtu" and "n + bin_addr_size m \<le> length (tw_buffer d)"
    and "msg = take (n + bin_addr_size m) (tw_buffer d)"
  shows "\<exists>f'. append_message cbs 1 n 0 (wr1 m f mtu d x y mm, st) = Inr (wr1 m f' mtu d x y mm, st) \<and>
    packet_holds mtu msg f'"
proof -
  have l: "length msg = n + bin_addr_size m" using assms(7,8) by simp
  have "sub_bytes 3 (length msg) (put_bytes 3 msg (tw_buffer (pkt f))) = msg"
    using assms(1,6) l by (simp add: packet_holds_def)
  with assms(1,6) l have "packet_holds mtu msg
      (f\<lparr>pkt := (pkt f)\<lparr>tw_buffer := put_bytes 3 msg (tw_buffer (pkt f))\<rparr>, bin_msgs_size := length msg\<rparr>)"
    by (simp add: packet_holds_def)
  with append_message_fits[OF assms, of cbs x y mm st] show ?thesis by blast
qed

text \<open>A message that is too long for the packet: the empty packet is sent and started again, and the
  message is copied past the end of its buffer.\<close>

lemma append_message_overflow:
  assumes "packet_holds mtu [] f" and "wm_type m = 1" and "tw_set d = 0" and "tw_allocated d = 0"
    and "n = tw_header d + tw_added d" and "mtu < 3 + n + bin_addr_size m" and "n + bin_addr_size m \<le> length (tw_buffer d)"
    and "\<forall>k. 0 \<le> hw_sendto env k"
  shows "append_message (hello_cbs env) 1 n 0 (wr1 m f mtu d x y mm, st) = Inl OutOfBounds"
proof -
  let ?s = "tw_buffer d"
  have mtu: "3 \<le> mtu" using assms(1) by (simp add: packet_holds_def)
  from flush_sends[OF assms(1), of env st m mtu d x y mm] assms(8) obtain f1 st1 where
    f1: "pbb_writer_flush (hello_cbs env) 0 False (wr1 m f mtu d x y mm, st) = Inr (wr1 m f1 mtu d x y mm, st1)"
      "idle_interface mtu f1" by blast
  from begin_packet_starts[OF _ _ _ _ mtu, of f1 env m mtu d x y mm st1] f1(2) obtain f2 where
    f2: "pbb_writer_begin_packet (hello_cbs env) 0 (wr1 m f1 mtu d x y mm, st1) = Inr (wr1 m f2 mtu d x y mm, st1)"
      "packet_holds mtu [] f2" by (auto simp: idle_interface_def)
  have p: "if_id f = 0" "bin_msgs_size f = 0" "tw_header (pkt f) = 3" "tw_added (pkt f) = 0" "tw_set (pkt f) = 0"
      "tw_max (pkt f) = mtu" "if_id f2 = 0" "bin_msgs_size f2 = 0" "tw_header (pkt f2) = 3" "tw_added (pkt f2) = 0"
      "tw_allocated (pkt f2) = 0" "length (tw_buffer (pkt f2)) = mtu"
    using assms(1) f2(2) by (auto simp: packet_holds_def)
  show ?thesis
  proof (cases "3 + n \<le> mtu")
    case True
    then have "memcpy (tw_buffer (pkt f2)) 3 (take n ?s) = Inr (put_bytes 3 (take n ?s) (tw_buffer (pkt f2)))"
      "length (put_bytes 3 (take n ?s) (tw_buffer (pkt f2))) = mtu"
      using p(12) assms(7) by (simp_all add: memcpy_def)
    then have "rbind (memcpy (tw_buffer (pkt f2)) 3 (take n ?s)) (\<lambda>b. rbind (memcpy b (3 + n) (sub_bytes n (bin_addr_size m) ?s)) g)
        = Inl OutOfBounds" for g :: "_ \<Rightarrow> halt + 'a hw_st wr"
      using assms(6,7) by (simp add: memcpy_def)
    with assms(2-7) p f1(1) f2(1) show ?thesis by (simp add: append_message_def Let_def add.assoc)
  next
    case False
    then have "memcpy (tw_buffer (pkt f2)) 3 (take n ?s) = Inl OutOfBounds"
      using p(12) assms(7) by (simp add: memcpy_def)
    with assms(2-7) p f1(1) f2(1) show ?thesis by (simp add: append_message_def Let_def add.assoc)
  qed
qed

section \<open>Finishing the message\<close>

text \<open>What is in the buffers before the message is finished: the TLVs behind the space for the header, and
  the closed addresses, of which \<open>fragment\<close> covers all.\<close>

definition collected ::
  "nat \<Rightarrow> u8 \<Rightarrow> wire_tlv list \<Rightarrow> writer_address list \<Rightarrow> (nat \<times> nat) option \<Rightarrow> writer_message \<Rightarrow> tlv_writer_data \<Rightarrow> bool" where
  "collected mtu alen ts as fragment m d \<longleftrightarrow> hello_type alen m \<and> unat alen \<le> length (wm_orig_addr m) \<and>
     addr_head m = all_closed as \<and> bin_addr_size m = 0 \<and>
     fragment = (if as = [] then None else Some (0, length as - 1)) \<and>
     tw_header d = 8 + unat alen \<and> tw_added d = length (block_bytes ts) \<and> tw_set d = 0 \<and> tw_allocated d = 0 \<and>
     length (tw_buffer d) = mtu \<and> tw_header d + tw_added d \<le> mtu \<and>
     sub_bytes (tw_header d) (tw_added d) (tw_buffer d) = block_bytes ts"

lemma write_fragment:
  assumes "collected mtu alen ts as fragment m d" and "bs = addr_bytes alen (map (addr_of alen) as)"
    and "p = tw_header d + tw_added d"
  shows "(case fragment of None \<Rightarrow> Inr (wr1 m f mt d x y mm) | Some (a, b) \<Rightarrow> write_addresses (wr1 m f mt d x y mm) 1 a b) =
    (if p + length bs \<le> mtu
     then Inr (wr1 (m\<lparr>bin_addr_size := length bs\<rparr>) f mt (d\<lparr>tw_buffer := put_bytes p bs (tw_buffer d)\<rparr>) x y mm)
     else Inl OutOfBounds)"
proof (cases "as = []")
  case True
  have "m\<lparr>bin_addr_size := 0\<rparr> = m" using assms(1) by (cases m) (simp add: collected_def)
  moreover have "d\<lparr>tw_buffer := put_bytes p [] (tw_buffer d)\<rparr> = d" by (cases d) (simp add: put_bytes_def)
  ultimately show ?thesis using assms True by (simp add: collected_def)
next
  case False
  then show ?thesis
    using write_addresses_plain[of m as alen bs p d f mt x y mm] assms
    by (simp add: collected_def hello_type_def)
qed

lemma finalize_hello:
  fixes st :: "'m hw_st"
  assumes "collected mtu alen ts as fragment m d" and "packet_holds mtu [] f" and "\<forall>k. 0 \<le> hw_sendto env k"
    and "b = hw_bprd st"
    and "msg = hello_message alen (take (unat alen) (wm_orig_addr m)) (hello_seqno b) ts (map (addr_of alen) as)"
  shows "if 3 + length msg \<le> mtu
    then \<exists>f' d'. finalize_message_fragment (hello_cbs env) 1 fragment whole (UserIf useAllIf) (wr1 m f mtu d x y mm, st) =
        Inr (wr1 (m\<lparr>bin_addr_size := 0, wm_seqno := hello_seqno b\<rparr>) f' mtu d' x y mm,
          set_bprd (b\<lparr>hello_seqno := hello_seqno b + 1\<rparr>) st) \<and>
      packet_holds mtu msg f' \<and> length (tw_buffer d') = mtu
    else finalize_message_fragment (hello_cbs env) 1 fragment whole (UserIf useAllIf) (wr1 m f mtu d x y mm, st) =
      Inl OutOfBounds"
proof -
  define bs where "bs = addr_bytes alen (map (addr_of alen) as)"
  define p where "p = tw_header d + tw_added d"
  have c: "hello_type alen m" "wm_type m = 1" "unat alen \<le> length (wm_orig_addr m)" "tw_set d = 0" "tw_allocated d = 0"
    "tw_header d = 8 + unat alen" "tw_added d = length (block_bytes ts)" "length (tw_buffer d) = mtu" "p \<le> mtu"
    "sub_bytes (tw_header d) (tw_added d) (tw_buffer d) = block_bytes ts"
    using assms(1) by (auto simp: collected_def hello_type_def p_def)
  obtain pr where pr: "provider_tree m = [pr]" using c(1) by (auto simp: hello_type_def)
  have d0: "d\<lparr>tw_set := 0\<rparr> = d" using c(4) by (cases d) simp
  have lm: "length msg = p + length bs" using c(3,6,7) by (simp add: assms(5) length_hello_message bs_def p_def)
  let ?fin = "finalize_message_fragment (hello_cbs env) 1 fragment whole (UserIf useAllIf) (wr1 m f mtu d x y mm, st)"
  note simps = finalize_message_fragment_def call_cb_def hello_fin_msg_header_def pbb_writer_set_msg_seqno_def
    on_message_def write_msgheader_def
  show ?thesis
  proof (cases "p + length bs \<le> mtu")
    case False
    then have "?fin = Inl OutOfBounds"
      using write_fragment[OF assms(1) bs_def p_def, of f mtu x y mm] c(2) pr d0 by (simp add: simps Let_def)
    with False lm show ?thesis by simp
  next
    case True
    let ?m = "m\<lparr>bin_addr_size := length bs, wm_seqno := hello_seqno b\<rparr>"
    let ?h = "hello_header alen (take (unat alen) (wm_orig_addr m)) (hello_seqno b) (p + length bs) (tw_added d)"
    let ?d = "d\<lparr>tw_buffer := put_bytes 0 ?h (put_bytes p bs (tw_buffer d))\<rparr>"
    have hl: "length ?h = tw_header d" using c(3,6) by simp
    have m: "msg = take (p + length bs) (tw_buffer ?d)"
      using put_message_parts[of ?h "block_bytes ts" "tw_buffer d" bs] c(3,6-8,10) True
      by (simp add: assms(5) hello_message_def Let_def bs_def p_def add.assoc)
    have d2: "length (tw_buffer ?d) = mtu" using True c(8) hl by (simp add: p_def)
    have hb: "msgheader_bytes (d\<lparr>tw_buffer := put_bytes p bs (tw_buffer d)\<rparr>) ?m = ?h"
      using msgheader_bytes_hello[of alen ?m "d\<lparr>tw_buffer := put_bytes p bs (tw_buffer d)\<rparr>"] c(1,4)
      by (simp add: hello_type_def p_def)
    have mc: "memcpy (put_bytes p bs (tw_buffer d)) 0 ?h = Inr (tw_buffer ?d)"
      using True c(8,9) hl by (simp add: memcpy_def p_def)
    have fin: "?fin = rbind (append_message (hello_cbs env) 1 p 0
          (wr1 ?m f mtu ?d x y mm, set_bprd (b\<lparr>hello_seqno := hello_seqno b + 1\<rparr>) st)) (\<lambda>(w, st).
        rbind (on_message w 1 (\<lambda>msg. msg\<lparr>bin_addr_size := 0\<rparr>)) (\<lambda>w. Inr (w\<lparr>wmsg := (wmsg w)\<lparr>tw_set := 0\<rparr>\<rparr>, st)))"
      using write_fragment[OF assms(1) bs_def p_def, of f mtu x y mm] True c(2) pr d0 hb mc assms(2,4)
      by (simp add: simps Let_def useAllIf_def p_def packet_holds_def)
    show ?thesis
    proof (cases "3 + length msg \<le> mtu")
      case fits: True
      have "\<exists>f'. append_message (hello_cbs env) 1 p 0
          (wr1 ?m f mtu ?d x y mm, set_bprd (b\<lparr>hello_seqno := hello_seqno b + 1\<rparr>) st) =
          Inr (wr1 ?m f' mtu ?d x y mm, set_bprd (b\<lparr>hello_seqno := hello_seqno b + 1\<rparr>) st) \<and> packet_holds mtu msg f'"
        by (rule append_message_ok[OF assms(2)]) (use fits c(2,4,5) lm m d2 True in \<open>simp_all add: p_def\<close>)
      then obtain f' where "append_message (hello_cbs env) 1 p 0
          (wr1 ?m f mtu ?d x y mm, set_bprd (b\<lparr>hello_seqno := hello_seqno b + 1\<rparr>) st) =
          Inr (wr1 ?m f' mtu ?d x y mm, set_bprd (b\<lparr>hello_seqno := hello_seqno b + 1\<rparr>) st)" "packet_holds mtu msg f'"
        by blast
      with fits fin c(2,4) d2 show ?thesis by (simp add: on_message_def)
    next
      case over: False
      have "append_message (hello_cbs env) 1 p 0
          (wr1 ?m f mtu ?d x y mm, set_bprd (b\<lparr>hello_seqno := hello_seqno b + 1\<rparr>) st) = Inl OutOfBounds"
        by (rule append_message_overflow[OF assms(2) _ _ _ _ _ _ assms(3)]) (use over c(2,4,5) lm d2 True in \<open>simp_all add: p_def\<close>)
      with over fin show ?thesis by simp
    qed
  qed
qed

section \<open>A round of the thread\<close>

lemma free_collected:
  assumes "wm_type m = 1" and "addr_head m = all_closed as" and "set (addr_tree m) = {..<length as}"
    and "\<forall>a\<in>set as. wa_addrtlv_tree a = []"
  shows "\<exists>mm'. pbb_writer_free_addresses (wr1 m f mtu d x y mm) 1 =
    Inr (wr1 (m\<lparr>addr_head := [], addr_tree := [], wm_addrtlvs := []\<rparr>) f mtu d x 0 mm')"
proof -
  have t: "concat (map (\<lambda>i. wa_addrtlv_tree (addr_head m ! i)) (addr_tree m)) = []"
    using assms(2-4) by (auto simp: closed_def)
  have f: "filter (\<lambda>i. i \<notin> set (addr_tree m)) [0..<length (addr_head m)] = []"
    using assms(2,3) by (simp add: filter_empty_conv)
  show ?thesis
    using assms(1) by (simp add: pbb_writer_free_addresses_def t f Let_def wr_free_def)
qed

text \<open>The environment works: memory, locks and sends succeed.\<close>

definition env_works :: "'m hw_env \<Rightarrow> bool" where
  "env_works env \<longleftrightarrow> (\<forall>k. hw_alloc env k) \<and> (\<forall>k. 0 \<le> hw_sendto env k) \<and> (\<forall>m. 0 \<le> fst (hw_lock env m)) \<and>
     (\<forall>m. 0 \<le> fst (hw_unlock env m)) \<and> uninit_wf (hw_local env)"

text \<open>The address of the daemon as the originator field gets it.\<close>

definition hello_own :: "'m hw_env \<Rightarrow> 'm bprd \<Rightarrow> bytes" where
  "hello_own env b = na_addr (snd (netaddr_from_socket (u_addr (hw_local env))
     (put_bytes 0 (take (unat (saddrlen b)) (saddr b)) (u_sock (hw_local env)))))"

definition bprd_ready :: "u8 \<Rightarrow> 'm bprd \<Rightarrow> bool" where
  "bprd_ready alen b \<longleftrightarrow> hello_addr_len b = Inr alen \<and> unat (saddrlen b) \<le> length (saddr b) \<and>
     unat (saddrlen b) \<le> sockaddr_storage_size \<and> (\<forall>c\<in>set (clist b). netaddr_wf (c_addr c)) \<and>
     announceable alen (nlist (ntable b))"

lemma hello_addr_len_cases: "hello_addr_len b = Inr alen \<Longrightarrow> (ipver b = 2 \<and> alen = 4) \<or> (ipver b = 10 \<and> alen = 16)"
  by (auto simp: hello_addr_len_def split: if_splits)

lemma length_hello_own:
  assumes "env_works env" and "bprd_ready alen b"
  shows "length (hello_own env b) = 16"
proof -
  have "length (put_bytes 0 (take (unat (saddrlen b)) (saddr b)) (u_sock (hw_local env))) = 128"
    using assms by (simp add: env_works_def uninit_wf_def bprd_ready_def sockaddr_storage_size_def)
  then show ?thesis
    by (simp add: hello_own_def netaddr_from_socket_def Let_def sin_addr_def sin6_addr_def)
qed

lemma hello_header_added:
  assumes "env_works env" and "bprd_ready alen b" and "b = hw_bprd st" and "wm_type m = 1" and "wm_addr_len m = alen"
    and "length (wm_orig_addr m) = 16"
  shows "hello_add_msg_header env (wr1 m f mtu d x y mm, st) =
    Inr (wr1 (m\<lparr>wm_has_origaddr := True, wm_has_hoplimit := False, wm_has_hopcount := False, wm_has_seqno := True,
           wm_orig_addr := put_bytes 0 (take (unat alen) (hello_own env b)) (wm_orig_addr m)\<rparr>) f mtu
           (d\<lparr>tw_header := 8 + unat alen\<rparr>) x y mm, st)"
proof -
  have "unat alen \<le> 16" using assms(2) by (simp add: bprd_ready_def announceable_def)
  moreover have "memcpy (u_sock (hw_local env)) 0 (take (unat (saddrlen b)) (saddr b)) =
      Inr (put_bytes 0 (take (unat (saddrlen b)) (saddr b)) (u_sock (hw_local env)))"
    using assms(1,2) by (simp add: memcpy_def env_works_def uninit_wf_def bprd_ready_def)
  ultimately show ?thesis
    using assms(2-6) length_hello_own[OF assms(1,2)]
    by (simp add: hello_add_msg_header_def pbb_writer_set_msg_header_def bprd_ready_def pbb_writer_set_msg_originator_def
        memcpy_def hello_own_def Let_def)
qed

text \<open>The neighbors that are still fresh when the table is refreshed.\<close>

definition fresh_neighbors :: "'m hw_env \<Rightarrow> 'm bprd \<Rightarrow> nat \<Rightarrow> neighbor list" where
  "fresh_neighbors env b t = fst (nlist_remove_cond (nlist (ntable b)) (cond_n_expired (hw_clk env) (neighbor_timeout b)) t)"

lemma fresh_subseq:
  "\<exists>P. fresh_neighbors env b t = map snd (filter P (enumerate t (nlist (ntable b))))"
  by (auto simp: fresh_neighbors_def nlist_remove_cond_def list_remove_cond_def refresh_loop split: prod.split)

lemma map_snd_filter_enumerate: "distinct (map g xs) \<Longrightarrow> distinct (map g (map snd (filter P (enumerate t xs))))"
proof (induction xs arbitrary: t)
  case (Cons a xs)
  have "set (map snd (filter P (enumerate (Suc t) xs))) \<subseteq> set xs" by (auto simp: in_set_enumerate_eq)
  with Cons show ?case by force
qed simp

lemma fresh_announceable:
  assumes "announceable alen (nlist (ntable b))"
  shows "announceable alen (fresh_neighbors env b t)"
proof -
  obtain P where f: "fresh_neighbors env b t = map snd (filter P (enumerate t (nlist (ntable b))))"
    using fresh_subseq by blast
  have "set (fresh_neighbors env b t) \<subseteq> set (nlist (ntable b))" unfolding f by (auto simp: in_set_enumerate_eq)
  with assms map_snd_filter_enumerate[of "nbr_key alen" "nlist (ntable b)" P t] show ?thesis
    unfolding announceable_def f by auto
qed

lemma hello_addresses_added:
  assumes "env_works env" and "bprd_ready alen b" and "b = hw_bprd st" and "wm_type m = 1" and "wm_addr_len m = alen"
    and "addr_head m = []" and "addr_tree m = []" and "ns = fresh_neighbors env b (hw_tick st)"
  shows "\<exists>tr mm' st' mu. hello_add_addresses env (wr1 m f mtu d x y mm, st) =
      Inr (wr1 (m\<lparr>addr_head := map (nbr_address alen) ns, addr_tree := tr\<rparr>) f mtu d x y mm', st') \<and>
    set tr = {..<length ns} \<and> hw_bprd st' = b\<lparr>ntable := \<lparr>nlist = ns, mutex = mu\<rparr>\<rparr> \<and> hw_sent st' = hw_sent st"
proof -
  obtain r1 m1 where lk: "hw_lock env (mutex (ntable b)) = (r1, m1)" "0 \<le> r1"
    using assms(1) by (metis env_works_def prod.collapse)
  obtain r2 m2 where ul: "hw_unlock env m1 = (r2, m2)" "0 \<le> r2"
    using assms(1) by (metis env_works_def prod.collapse)
  obtain fr t' where rf: "nlist_remove_cond (nlist (ntable b)) (cond_n_expired (hw_clk env) (neighbor_timeout b)) (hw_tick st) =
      (ns, fr, t')" unfolding assms(8) fresh_neighbors_def by (metis prod.collapse)
  have an: "announceable alen ([] @ ns)"
    using assms(2) by (auto simp: assms(8) bprd_ready_def intro: fresh_announceable)
  have al: "\<forall>k. hw_alloc env k" using assms(1) by (simp add: env_works_def)
  from add_neighbors_fit[OF an al assms(4,5), of f mtu d x y mm] assms(6,7) obtain tr mm' where
    ad: "add_neighbors env ns (wr1 m f mtu d x y mm) =
      Inr (wr1 (m\<lparr>addr_head := map (nbr_address alen) ns, addr_tree := tr\<rparr>) f mtu d x y mm')" "set tr = {..<length ns}"
    by auto
  have "ntable_refresh (hw_clk env) (neighbor_timeout b) ((ntable b)\<lparr>mutex := m1\<rparr>) (hw_tick st) =
      ((ntable b)\<lparr>mutex := m1, nlist := ns\<rparr>, fr, t')" by (simp add: ntable_refresh_def rf)
  note rf = this
  have lock: "ntable_mutex_lock (hw_lock env) (ntable b) = Inr ((ntable b)\<lparr>mutex := m1\<rparr>)"
    using lk by (simp add: ntable_mutex_lock_def)
  have unlock: "ntable_mutex_unlock (hw_unlock env) ((ntable b)\<lparr>mutex := m1, nlist := ns\<rparr>) = Inr \<lparr>nlist = ns, mutex = m2\<rparr>"
    using ul by (cases "ntable b") (simp add: ntable_mutex_unlock_def)
  let ?st = "(set_bprd (b\<lparr>ntable := \<lparr>nlist = ns, mutex = m2\<rparr>\<rparr>) st)\<lparr>hw_tick := t', hw_freed := hw_freed st @ fr\<rparr>"
  have "hello_add_addresses env (wr1 m f mtu d x y mm, st) =
    Inr (wr1 (m\<lparr>addr_head := map (nbr_address alen) ns, addr_tree := tr\<rparr>) f mtu d x y mm',
      (set_bprd (b\<lparr>ntable := \<lparr>nlist = ns, mutex = m2\<rparr>\<rparr>) st)\<lparr>hw_tick := t', hw_freed := hw_freed st @ fr\<rparr>)"
    unfolding hello_add_addresses_def prod.case Let_def assms(3)[symmetric] lock rbind_simps rf
    by (simp add: ad(1) unlock)
  moreover have "hw_bprd ?st = b\<lparr>ntable := \<lparr>nlist = ns, mutex = m2\<rparr>\<rparr>" "hw_sent ?st = hw_sent st"
    by (simp_all add: set_bprd_def)
  ultimately show ?thesis using ad(2) by blast
qed

text \<open>The collected message: header space, TLVs and addresses, before the loop over the addresses.\<close>

definition gathered ::
  "u8 \<Rightarrow> bytes \<Rightarrow> wire_tlv list \<Rightarrow> writer_address list \<Rightarrow> writer_message \<Rightarrow> tlv_writer_data \<Rightarrow> bool" where
  "gathered alen own ts as m d \<longleftrightarrow> hello_type alen m \<and> unat alen \<le> 16 \<and> \<not> if_specific m \<and> length (wm_orig_addr m) = 16 \<and>
     take (unat alen) (wm_orig_addr m) = take (unat alen) own \<and> addr_head m = as \<and> set (addr_tree m) = {..<length as} \<and>
     bin_addr_size m = 0 \<and> tw_header d = 8 + unat alen \<and> tw_added d = length (block_bytes ts) \<and> tw_set d = 0 \<and>
     tw_allocated d = 0 \<and> tw_max d = 509 \<and> length (tw_buffer d) = 512 \<and> tw_header d + tw_added d \<le> 509 \<and>
     sub_bytes (tw_header d) (tw_added d) (tw_buffer d) = block_bytes ts"

lemma length_com_tlvs:
  "\<forall>c\<in>set cs. netaddr_wf (c_addr c) \<Longrightarrow> length (block_bytes (map (com_tlv env) cs)) = 27 * length cs"
  by (induction cs) (simp_all add: length_com_tlv)

definition hello_tlvs :: "'m hw_env \<Rightarrow> 'm bprd \<Rightarrow> wire_tlv list" where
  "hello_tlvs env b = map (com_tlv env) (clist b)"

lemma begin_packets_one:
  assumes "idle_interface 512 f"
  shows "\<exists>f'. begin_packets (hello_cbs env) (UserIf useAllIf) [0] 512 (wr1 m f 512 d x y mm, st) =
      Inr (509, wr1 m f' 512 d x y mm, st) \<and> packet_holds 512 [] f'"
proof -
  have i: "if_id f = 0" "is_flushed f" using assms by (simp_all add: idle_interface_def)
  from begin_packet_starts[of f 512 env m 512 d x y mm st] assms obtain f' where
    f': "pbb_writer_begin_packet (hello_cbs env) 0 (wr1 m f 512 d x y mm, st) = Inr (wr1 m f' 512 d x y mm, st)"
      "packet_holds 512 [] f'" by (auto simp: idle_interface_def)
  then have "if_id f' = 0" "if_mtu f' = 512" "tw_header (pkt f') + tw_added (pkt f') + tw_allocated (pkt f') = 3"
    by (simp_all add: packet_holds_def)
  with i f' show ?thesis by (simp add: useAllIf_def size_sub_def Let_def)
qed

text \<open>The writer between two rounds.\<close>

definition idle_type :: "u8 \<Rightarrow> writer_message \<Rightarrow> bool" where
  "idle_type alen m \<longleftrightarrow> wm_type m = 1 \<and> wm_addr_len m = alen \<and> \<not> if_specific m \<and> length (wm_orig_addr m) = 16 \<and>
     addr_head m = [] \<and> addr_tree m = [] \<and> tlvtype_head m = [] \<and> bin_addr_size m = 0 \<and> (\<exists>pr. provider_tree m = [pr])"

lemma create_gathers:
  assumes "env_works env" and "bprd_ready alen b" and "b = hw_bprd st" and "idle_type alen m" and "idle_interface 512 f"
    and "length (tw_buffer d) = 512" and "8 + unat alen + 27 * length (clist b) \<le> 509" 
    and "ns = fresh_neighbors env b (hw_tick st)"
  shows "\<exists>m' f' d' mm' st' mu.
    pbb_writer_create_message (hello_cbs env) 1 (UserIf useAllIf) (wr1 m f 512 d x y mm, st) =
      write_collected (hello_cbs env) 1 (UserIf useAllIf) (wr1 m' f' 512 d' x y mm', st') \<and>
    gathered alen (hello_own env b) (hello_tlvs env b) (map (nbr_address alen) ns) m' d' \<and> packet_holds 512 [] f' \<and>
    hw_bprd st' = b\<lparr>ntable := \<lparr>nlist = ns, mutex = mu\<rparr>\<rparr> \<and> hw_sent st' = hw_sent st"
proof -
  have i: "wm_type m = 1" "wm_addr_len m = alen" "\<not> if_specific m" "length (wm_orig_addr m) = 16" "addr_head m = []"
    "addr_tree m = []" "tlvtype_head m = []" "bin_addr_size m = 0" using assms(4) by (auto simp: idle_type_def)
  obtain pr where pr: "provider_tree m = [pr]" using assms(4) by (auto simp: idle_type_def)
  have al: "unat alen \<le> 16" using assms(2) by (simp add: bprd_ready_def announceable_def)
  let ?m0 = "m\<lparr>specific_if := None\<rparr>"
  from begin_packets_one[OF assms(5), of env ?m0 d x y mm st] obtain f1 where
    f1: "begin_packets (hello_cbs env) (UserIf useAllIf) [0] 512 (wr1 ?m0 f 512 d x y mm, st) =
      Inr (509, wr1 ?m0 f1 512 d x y mm, st)" "packet_holds 512 [] f1" by blast
  let ?m1 = "?m0\<lparr>wm_has_origaddr := False, wm_has_hoplimit := False, wm_has_hopcount := False, wm_has_seqno := False\<rparr>"
  let ?d1 = "(pbb_tlv_writer_init d 509)\<lparr>tw_header := 6\<rparr>"
  have h1: "pbb_writer_set_msg_header (wr1 ?m0 f1 512 (pbb_tlv_writer_init d 509) x y mm) 1 False False False False =
      Inr (wr1 ?m1 f1 512 ?d1 x y mm)"
    using i(1) by (simp add: pbb_writer_set_msg_header_def Let_def)
  let ?m2 = "?m1\<lparr>wm_has_origaddr := True, wm_has_hoplimit := False, wm_has_hopcount := False, wm_has_seqno := True,
    wm_orig_addr := put_bytes 0 (take (unat alen) (hello_own env b)) (wm_orig_addr m)\<rparr>"
  let ?d2 = "?d1\<lparr>tw_header := 8 + unat alen\<rparr>"
  have h2: "hello_add_msg_header env (wr1 ?m1 f1 512 ?d1 x y mm, st) = Inr (wr1 ?m2 f1 512 ?d2 x y mm, st)"
    using hello_header_added[OF assms(1-3), of ?m1 f1 512 ?d1 x y mm] i by simp
  let ?tl = "block_bytes (hello_tlvs env b)"
  let ?d3 = "?d2\<lparr>tw_buffer := put_bytes (8 + unat alen) ?tl (tw_buffer d), tw_added := length ?tl\<rparr>"
  have tl: "8 + unat alen + length ?tl \<le> 509"
    using assms(2,7) by (simp add: hello_tlvs_def length_com_tlvs bprd_ready_def)
  have "add_commodities env (clist b) (wr1 ?m2 f1 512 ?d2 x y mm) = Inr (wr1 ?m2 f1 512 ?d3 x y mm)"
    using add_commodities_fit[of ?d2 env "clist b" ?m2 f1 512 x y mm] tl assms(6)
    by (simp add: tw_inv_def pbb_tlv_writer_init_def hello_tlvs_def)
  then have h3: "hello_add_msgtlvs env (wr1 ?m2 f1 512 ?d2 x y mm, st) = Inr (wr1 ?m2 f1 512 ?d3 x y mm, st)"
    using assms(2,3) by (simp add: hello_add_msgtlvs_def bprd_ready_def)
  from hello_addresses_added[OF assms(1-3) _ _ _ _ assms(8), of ?m2 f1 512 ?d3 x y mm] i obtain tr mm' st' mu where
    h4: "hello_add_addresses env (wr1 ?m2 f1 512 ?d3 x y mm, st) =
      Inr (wr1 (?m2\<lparr>addr_head := map (nbr_address alen) ns, addr_tree := tr\<rparr>) f1 512 ?d3 x y mm', st')"
      "set tr = {..<length ns}" "hw_bprd st' = b\<lparr>ntable := \<lparr>nlist = ns, mutex = mu\<rparr>\<rparr>" "hw_sent st' = hw_sent st"
    by auto
  let ?m4 = "?m2\<lparr>addr_head := map (nbr_address alen) ns, addr_tree := tr\<rparr>"
  have "if_id f = 0" "if_id f1 = 0" using assms(5) f1(2) by (simp_all add: idle_interface_def packet_holds_def)
  with i(1,3) pr f1(1) h1 h2 h3 h4(1) have
    "pbb_writer_create_message (hello_cbs env) 1 (UserIf useAllIf) (wr1 m f 512 d x y mm, st) =
      write_collected (hello_cbs env) 1 (UserIf useAllIf) (wr1 ?m4 f1 512 ?d3 x y mm', st')"
    by (simp add: pbb_writer_create_message_def create_one_def call_cb_def)
  moreover have "gathered alen (hello_own env b) (hello_tlvs env b) (map (nbr_address alen) ns) ?m4 ?d3"
  proof -
    have "take (unat alen) (put_bytes 0 (take (unat alen) (hello_own env b)) (wm_orig_addr m)) = take (unat alen) (hello_own env b)"
      "length (put_bytes 0 (take (unat alen) (hello_own env b)) (wm_orig_addr m)) = 16"
      using al i(4) length_hello_own[OF assms(1,2)] by (simp_all add: put_bytes_def)
    then show ?thesis
      using al i pr h4(2) tl assms(6) by (simp add: gathered_def hello_type_def pbb_tlv_writer_init_def)
  qed
  ultimately show ?thesis using f1(2) h4(3,4) by blast
qed

text \<open>The message of a round.\<close>

definition hello_msg :: "'m hw_env \<Rightarrow> 'm bprd \<Rightarrow> u8 \<Rightarrow> neighbor list \<Rightarrow> bytes" where
  "hello_msg env b alen ns = hello_message alen (take (unat alen) (hello_own env b)) (hello_seqno b) (hello_tlvs env b)
     (map (\<lambda>n. (nbr_key alen n, na_prefix_len (n_addr n))) ns)"

lemma addr_of_nbr:
  assumes "announceable alen ns"
  shows "map (addr_of alen) (map (nbr_address alen) ns) = map (\<lambda>n. (nbr_key alen n, na_prefix_len (n_addr n))) ns"
  using assms by (auto simp: announceable_def addr_of_def nbr_address_key) (simp add: nbr_address_def new_address_def)

lemma gathered_collected:
  assumes "gathered alen own ts as m d"
  shows "collected 512 alen ts as (if as = [] then None else Some (0, length as - 1)) (m\<lparr>addr_head := all_closed as\<rparr>) d"
proof -
  have g: "hello_type alen m" "unat alen \<le> 16" "length (wm_orig_addr m) = 16" "bin_addr_size m = 0"
    "tw_header d = 8 + unat alen" "tw_added d = length (block_bytes ts)" "tw_set d = 0" "tw_allocated d = 0"
    "length (tw_buffer d) = 512" "tw_header d + tw_added d \<le> 509"
    "sub_bytes (tw_header d) (tw_added d) (tw_buffer d) = block_bytes ts"
    using assms unfolding gathered_def by blast+
  have "hello_type alen (m\<lparr>addr_head := all_closed as\<rparr>)" using g(1) by (simp add: hello_type_def)
  then show ?thesis using g(2-11) unfolding collected_def by simp
qed

text \<open>The loop over the addresses ends with one fragment that covers them all.\<close>

lemma write_collected_eq:
  fixes st :: "'m hw_st"
  assumes "gathered alen own ts as m d" and "plain_addrs alen 509 as"
  defines "frag \<equiv> (if as = [] then None else Some (0, length as - 1))" and "m' \<equiv> m\<lparr>addr_head := all_closed as\<rparr>"
  shows "write_collected (hello_cbs env) 1 (UserIf useAllIf) (wr1 m f 512 d x y mm, st) =
    rbind (finalize_message_fragment (hello_cbs env) 1 frag True (UserIf useAllIf) (wr1 m' f 512 d x y mm, st)) (\<lambda>(w, st).
    rbind (pbb_writer_free_addresses w 1) (\<lambda>w. Inr (PBB_OKAY, w, st)))"
proof (cases "as = []")
  case True
  have "m' = m" using assms(1) True by (cases m) (simp add: m'_def gathered_def)
  with True assms(1) show ?thesis
    by (simp add: write_collected_def frag_def gathered_def hello_type_def) (simp add: rbind_def split: sum.split)
next
  case False
  have g: "wm_type m = 1" "wm_addr_len m = alen" "addr_head m = as" "tw_max d = 509"
    using assms(1) by (auto simp: gathered_def hello_type_def)
  from addresses_loop_fits[OF _ False g(1-3), of d "hello_cbs env" "UserIf useAllIf" f 512 x y mm st] assms(2) g(4) obtain g' where
    l: "addresses_loop (hello_cbs env) 1 (UserIf useAllIf) [0..<length as] \<lparr>g_acs = [], g_idx = 0, g_first = 0, g_whole = True\<rparr>
      (wr1 m f 512 d x y mm, st) = Inr (True, g', wr1 (m\<lparr>addr_head := prog (length as) as\<rparr>) f 512 d x y mm, st)"
    "g_first g' = 0" "g_whole g'" "sessions (length as - 1) (g_acs g')" by auto
  have "close_addrblock (g_acs g') (length as - 1) (m\<lparr>addr_head := prog (length as) as\<rparr>) = Inr m'"
    using close_last[OF l(4) False, of m] by (simp add: m'_def)
  with False l g m'_def show ?thesis
    by (simp add: write_collected_def frag_def Let_def) (simp add: rbind_def split: sum.split)
qed

lemma write_collected_hello:
  fixes st :: "'m hw_st"
  assumes "gathered alen (hello_own env b0) ts as m d" and "plain_addrs alen 509 as" and "packet_holds 512 [] f" 
    and "\<forall>k. 0 \<le> hw_sendto env k" and "b = hw_bprd st"
    and "msg = hello_message alen (take (unat alen) (hello_own env b0)) (hello_seqno b) ts (map (addr_of alen) as)"
  shows "if length msg \<le> 509
    then \<exists>m' f' d' mm'. write_collected (hello_cbs env) 1 (UserIf useAllIf) (wr1 m f 512 d x y mm, st) =
        Inr (PBB_OKAY, wr1 m' f' 512 d' x 0 mm', set_bprd (b\<lparr>hello_seqno := hello_seqno b + 1\<rparr>) st) \<and>
      packet_holds 512 msg f' \<and> idle_type alen m' \<and> length (tw_buffer d') = 512
    else write_collected (hello_cbs env) 1 (UserIf useAllIf) (wr1 m f 512 d x y mm, st) = Inl OutOfBounds"
proof -
  let ?m = "m\<lparr>addr_head := all_closed as\<rparr>" and ?frag = "if as = [] then None else Some (0, length as - 1)"
  have g: "hello_type alen m" "wm_type m = 1" "wm_addr_len m = alen" "\<not> if_specific m" "length (wm_orig_addr m) = 16"
    "set (addr_tree m) = {..<length as}" "take (unat alen) (wm_orig_addr m) = take (unat alen) (hello_own env b0)"
    using assms(1) by (auto simp: gathered_def hello_type_def)
  have msg: "msg = hello_message alen (take (unat alen) (wm_orig_addr ?m)) (hello_seqno b) ts (map (addr_of alen) as)"
    using assms(6) g(7) by simp
  note fin = finalize_hello[OF gathered_collected[OF assms(1)] assms(3,4,5) msg, of True x y mm]
  note e = write_collected_eq[OF assms(1,2), of env f x y mm st]
  show ?thesis
  proof (cases "length msg \<le> 509")
    case False
    with fin e show ?thesis by simp
  next
    case True
    with fin obtain f' d' where r: "finalize_message_fragment (hello_cbs env) 1 ?frag True (UserIf useAllIf)
        (wr1 ?m f 512 d x y mm, st) =
        Inr (wr1 (?m\<lparr>bin_addr_size := 0, wm_seqno := hello_seqno b\<rparr>) f' 512 d' x y mm,
          set_bprd (b\<lparr>hello_seqno := hello_seqno b + 1\<rparr>) st)"
      "packet_holds 512 msg f'" "length (tw_buffer d') = 512" by auto
    let ?m1 = "?m\<lparr>bin_addr_size := 0, wm_seqno := hello_seqno b\<rparr>"
    have "\<forall>a\<in>set as. wa_addrtlv_tree a = []" using assms(2) by (simp add: plain_addrs_def)
    with free_collected[of ?m1 as f' 512 d' x y mm] g(2,6) obtain mm' where
      "pbb_writer_free_addresses (wr1 ?m1 f' 512 d' x y mm) 1 =
        Inr (wr1 (?m1\<lparr>addr_head := [], addr_tree := [], wm_addrtlvs := []\<rparr>) f' 512 d' x 0 mm')" by auto
    with True r e have "write_collected (hello_cbs env) 1 (UserIf useAllIf) (wr1 m f 512 d x y mm, st) =
        Inr (PBB_OKAY, wr1 (?m1\<lparr>addr_head := [], addr_tree := [], wm_addrtlvs := []\<rparr>) f' 512 d' x 0 mm',
          set_bprd (b\<lparr>hello_seqno := hello_seqno b + 1\<rparr>) st)" by simp
    moreover have "idle_type alen (?m1\<lparr>addr_head := [], addr_tree := [], wm_addrtlvs := []\<rparr>)"
      using g(1,4,5) by (simp add: idle_type_def hello_type_def)
    ultimately show ?thesis using True r(2,3) by auto
  qed
qed

definition hello_idle :: "u8 \<Rightarrow> pbb_writer \<Rightarrow> bool" where
  "hello_idle alen w \<longleftrightarrow> (\<exists>m f d x y mm. w = wr1 m f 512 d x y mm \<and> idle_type alen m \<and> idle_interface 512 f \<and>
     length (tw_buffer d) = 512)"

text \<open>The datagram of a round.\<close>

definition hello_datagram :: "'m hw_env \<Rightarrow> 'm bprd \<Rightarrow> u8 \<Rightarrow> neighbor list \<Rightarrow> int \<times> bytes \<times> bytes" where
  "hello_datagram env b alen ns = (sockfd b, take (unat (maddrlen b)) (maddr b), 0 # hello_msg env b alen ns)"

definition commodities_fit :: "u8 \<Rightarrow> 'm bprd \<Rightarrow> bool" where
  "commodities_fit alen b \<longleftrightarrow> 8 + unat alen + 27 * length (clist b) \<le> 509"

lemma plain_nbr_addresses:
  assumes "hello_addr_len b = Inr alen"
  shows "plain_addrs alen 509 (map (nbr_address alen) ns)"
  using hello_addr_len_cases[OF assms]
  by (auto simp: plain_addrs_def PBB_MAX_ADDRLEN_def nbr_address_def new_address_def)

lemma hello_round_effect:
  fixes st :: "'m hw_st"
  assumes "env_works env" and "bprd_ready alen b" and "b = hw_bprd st" and "hello_idle alen w" and "commodities_fit alen b"
    and "ns = fresh_neighbors env b (hw_tick st)"
  shows "if length (hello_msg env b alen ns) \<le> 509
    then \<exists>w' st' mu. hello_round env (w, st) = Inr (w', st') \<and> hello_idle alen w' \<and>
      hw_bprd st' = b\<lparr>ntable := \<lparr>nlist = ns, mutex = mu\<rparr>, hello_seqno := hello_seqno b + 1\<rparr> \<and>
      hw_sent st' = hw_sent st @ [hello_datagram env b alen ns]
    else hello_round env (w, st) = Inl OutOfBounds"
proof -
  from assms(4) obtain m f d x y mm where w: "w = wr1 m f 512 d x y mm" "idle_type alen m" "idle_interface 512 f"
    "length (tw_buffer d) = 512" by (auto simp: hello_idle_def)
  from create_gathers[OF assms(1-3) w(2-4) assms(5)[unfolded commodities_fit_def] assms(6), of x y mm]
  obtain m1 f1 d1 mm1 st1 mu where c:
    "pbb_writer_create_message (hello_cbs env) 1 (UserIf useAllIf) (w, st) =
      write_collected (hello_cbs env) 1 (UserIf useAllIf) (wr1 m1 f1 512 d1 x y mm1, st1)"
    "gathered alen (hello_own env b) (hello_tlvs env b) (map (nbr_address alen) ns) m1 d1" "packet_holds 512 [] f1"
    "hw_bprd st1 = b\<lparr>ntable := \<lparr>nlist = ns, mutex = mu\<rparr>\<rparr>" "hw_sent st1 = hw_sent st" unfolding w(1) by blast
  let ?b1 = "b\<lparr>ntable := \<lparr>nlist = ns, mutex = mu\<rparr>\<rparr>"
  have snd: "\<forall>k. 0 \<le> hw_sendto env k" using assms(1) by (simp add: env_works_def)
  have an: "announceable alen ns" and al: "hello_addr_len b = Inr alen"
    using assms(2,6) by (auto simp: bprd_ready_def intro: fresh_announceable)
  have msg: "hello_msg env b alen ns = hello_message alen (take (unat alen) (hello_own env b)) (hello_seqno ?b1)
      (hello_tlvs env b) (map (addr_of alen) (map (nbr_address alen) ns))"
    unfolding addr_of_nbr[OF an] by (simp add: hello_msg_def)
  note wc = write_collected_hello[OF c(2) plain_nbr_addresses[OF al] c(3) snd c(4)[symmetric] msg, of x y mm1]
  show ?thesis
  proof (cases "length (hello_msg env b alen ns) \<le> 509")
    case False
    with wc have "hello_round env (w, st) = Inl OutOfBounds" by (simp add: hello_round_def c(1))
    with False show ?thesis by simp
  next
    case True
    with wc obtain m2 f2 d2 mm2 where r: "write_collected (hello_cbs env) 1 (UserIf useAllIf) (wr1 m1 f1 512 d1 x y mm1, st1) =
        Inr (PBB_OKAY, wr1 m2 f2 512 d2 x 0 mm2, set_bprd (?b1\<lparr>hello_seqno := hello_seqno ?b1 + 1\<rparr>) st1)"
      "packet_holds 512 (hello_msg env b alen ns) f2" "idle_type alen m2" "length (tw_buffer d2) = 512" by auto
    let ?st2 = "set_bprd (?b1\<lparr>hello_seqno := hello_seqno ?b1 + 1\<rparr>) st1"
    have s2: "hw_bprd ?st2 = ?b1\<lparr>hello_seqno := hello_seqno ?b1 + 1\<rparr>" "hw_sent ?st2 = hw_sent st"
      using c(5) by (simp_all add: set_bprd_def)
    have dg: "(sockfd (hw_bprd ?st2), take (unat (maddrlen (hw_bprd ?st2))) (maddr (hw_bprd ?st2)),
        0 # hello_msg env b alen ns) = hello_datagram env b alen ns"
      unfolding s2 hello_datagram_def by simp
    from flush_sends[OF r(2), of env ?st2 m2 512 d2 x 0 mm2, unfolded dg s2(2)] snd obtain f3 where
      fl: "pbb_writer_flush (hello_cbs env) 0 False (wr1 m2 f2 512 d2 x 0 mm2, ?st2) =
        Inr (wr1 m2 f3 512 d2 x 0 mm2, ?st2\<lparr>hw_sent := hw_sent st @ [hello_datagram env b alen ns]\<rparr>)"
        "idle_interface 512 f3" by blast
    have "hello_round env (w, st) = Inr (wr1 m2 f3 512 d2 x 0 mm2, ?st2\<lparr>hw_sent := hw_sent st @ [hello_datagram env b alen ns]\<rparr>)"
      unfolding hello_round_def c(1) r(1) rbind_simps prod.case by (rule fl(1))
    moreover have "hello_idle alen (wr1 m2 f3 512 d2 x 0 mm2)" using r(3,4) fl(2) by (auto simp: hello_idle_def)
    moreover have "hw_bprd ?st2 = b\<lparr>ntable := \<lparr>nlist = ns, mutex = mu\<rparr>, hello_seqno := hello_seqno b + 1\<rparr>"
      unfolding s2 by simp
    ultimately show ?thesis using True by fastforce
  qed
qed

lemma hello_init_idle:
  assumes "env_works env" and "hello_addr_len b = Inr alen"
  shows "\<exists>w. hello_writer_init (hw_alloc env) b = Inr w \<and> hello_idle alen w"
proof -
  have al: "hw_alloc env k" for k using assms(1) by (simp add: env_works_def)
  show ?thesis
    using al hello_addr_len_cases[OF assms(2)]
    by (auto simp: hello_writer_init_def assms(2) pbb_writer_init_def wr_alloc_def mem_alloc_def zero_writer_def Let_def
        pbb_writer_register_interface_def zero_interface_def on_interface_def find_interface_def put_interface_def
        pbb_writer_register_message_def get_message_def find_message_def store_insert_def new_message_def put_message_def
        pbb_writer_register_msgcontentprovider_def hello_idle_def idle_type_def idle_interface_def zero_data_def
        pbb_tlv_writer_init_def PBB_MAX_ADDRLEN_def)
qed

section \<open>Many rounds\<close>

abbreviation nbr_pairs :: "u8 \<Rightarrow> neighbor list \<Rightarrow> (bytes \<times> u8) list" where
  "nbr_pairs alen \<equiv> map (\<lambda>n. (nbr_key alen n, na_prefix_len (n_addr n)))"

lemma fresh_smaller:
  "set (fresh_neighbors env b t) \<subseteq> set (nlist (ntable b))"
  "length (addr_bytes alen (nbr_pairs alen (fresh_neighbors env b t))) \<le>
     length (addr_bytes alen (nbr_pairs alen (nlist (ntable b))))"
proof -
  obtain P where f: "fresh_neighbors env b t = map snd (filter P (enumerate t (nlist (ntable b))))"
    using fresh_subseq by blast
  show "set (fresh_neighbors env b t) \<subseteq> set (nlist (ntable b))" unfolding f by (auto simp: in_set_enumerate_eq)
  have "length (addr_bytes alen (nbr_pairs alen (map snd (filter P (enumerate t xs))))) \<le>
      length (addr_bytes alen (nbr_pairs alen xs))" for xs
    by (induction xs arbitrary: t) (auto intro: le_SucI trans_le_add2)
  then show "length (addr_bytes alen (nbr_pairs alen (fresh_neighbors env b t))) \<le>
      length (addr_bytes alen (nbr_pairs alen (nlist (ntable b))))" unfolding f .
qed

lemma length_hello_msg: "length (hello_msg env b alen ns) =
    8 + length (take (unat alen) (hello_own env b)) + length (block_bytes (hello_tlvs env b)) +
    length (addr_bytes alen (nbr_pairs alen ns))"
  by (simp add: hello_msg_def length_hello_message)

text \<open>What a round changes in the daemon's state has no influence on the next datagram but for the sequence
  number.\<close>

lemma hello_own_ntable [simp]: "hello_own env (b\<lparr>ntable := nt, hello_seqno := s\<rparr>) = hello_own env b"
  by (simp add: hello_own_def)

lemma hello_tlvs_ntable [simp]: "hello_tlvs env (b\<lparr>ntable := nt, hello_seqno := s\<rparr>) = hello_tlvs env b"
  by (simp add: hello_tlvs_def)

lemma hello_addr_len_ntable [simp]: "hello_addr_len (b\<lparr>ntable := nt, hello_seqno := s\<rparr>) = hello_addr_len b"
  by (simp add: hello_addr_len_def)

definition numbered :: "'m hw_env \<Rightarrow> 'm bprd \<Rightarrow> u8 \<Rightarrow> nat \<Rightarrow> neighbor list \<Rightarrow> int \<times> bytes \<times> bytes" where
  "numbered env b alen k ns = (sockfd b, take (unat (maddrlen b)) (maddr b), 0 # hello_message alen
     (take (unat alen) (hello_own env b)) (hello_seqno b + of_nat k) (hello_tlvs env b) (nbr_pairs alen ns))"

lemma numbered_0: "hello_datagram env b alen ns = numbered env b alen 0 ns"
  by (simp add: hello_datagram_def hello_msg_def numbered_def)

lemma numbered_next:
  "numbered env (b\<lparr>ntable := nt, hello_seqno := hello_seqno b + 1\<rparr>) alen k ns = numbered env b alen (Suc k) ns"
  by (simp add: numbered_def add_ac)

lemma hello_rounds_send:
  fixes st :: "'m hw_st"
  assumes "env_works env" and "bprd_ready alen b" and "b = hw_bprd st" and "hello_idle alen w" and "commodities_fit alen b"
    and "length (hello_msg env b alen (nlist (ntable b))) \<le> 509"
  shows "\<exists>w' st' nss. hello_rounds env n (w, st) = Inr (w', st') \<and> length nss = n \<and>
    (\<forall>ns\<in>set nss. set ns \<subseteq> set (nlist (ntable b))) \<and>
    hw_sent st' = hw_sent st @ map2 (numbered env b alen) [0..<n] nss"
  using assms
proof (induction n arbitrary: b w st)
  case (Suc n)
  let ?ns = "fresh_neighbors env b (hw_tick st)"
  have l: "length (hello_msg env b alen ?ns) \<le> 509"
    using Suc.prems(6) fresh_smaller(2)[of alen env b "hw_tick st"] by (simp add: length_hello_msg)
  from hello_round_effect[OF Suc.prems(1-5) refl] l obtain w1 st1 mu where
    r: "hello_round env (w, st) = Inr (w1, st1)" "hello_idle alen w1"
      "hw_bprd st1 = b\<lparr>ntable := \<lparr>nlist = ?ns, mutex = mu\<rparr>, hello_seqno := hello_seqno b + 1\<rparr>"
      "hw_sent st1 = hw_sent st @ [hello_datagram env b alen ?ns]" by auto
  let ?b1 = "b\<lparr>ntable := \<lparr>nlist = ?ns, mutex = mu\<rparr>, hello_seqno := hello_seqno b + 1\<rparr>"
  have "bprd_ready alen ?b1"
    using Suc.prems(2) fresh_announceable[of alen b env "hw_tick st"] by (simp add: bprd_ready_def)
  moreover have "commodities_fit alen ?b1" using Suc.prems(5) by (simp add: commodities_fit_def)
  moreover have "length (hello_msg env ?b1 alen (nlist (ntable ?b1))) \<le> 509"
    using l by (simp add: length_hello_msg)
  ultimately obtain w' st' nss where i: "hello_rounds env n (w1, st1) = Inr (w', st')" "length nss = n"
    "\<forall>ns\<in>set nss. set ns \<subseteq> set ?ns" "hw_sent st' = hw_sent st1 @ map2 (numbered env ?b1 alen) [0..<n] nss"
    using Suc.IH[OF Suc.prems(1) _ r(3)[symmetric] r(2)] by force
  have "map2 (numbered env ?b1 alen) [0..<n] nss = map2 (\<lambda>k. numbered env b alen (Suc k)) [0..<n] nss"
    by (simp only: numbered_next)
  also have "\<dots> = map2 (numbered env b alen) [Suc 0..<Suc n] nss"
    by (simp add: map_Suc_upt[symmetric] zip_map1 split_def del: upt_Suc)
  finally have "hw_sent st' = hw_sent st @ map2 (numbered env b alen) [0..<Suc n] (?ns # nss)"
    using i(4) r(4) by (simp add: numbered_0 upt_conv_Cons del: upt_Suc)
  moreover have "\<forall>ns\<in>set (?ns # nss). set ns \<subseteq> set (nlist (ntable b))" using i(3) fresh_smaller(1) by fastforce
  ultimately show ?case
    using r(1) i(1,2) by (intro exI[of _ w'] exI[of _ st'] exI[of _ "?ns # nss"]) simp
qed simp

section \<open>Properties\<close>

definition send_env :: "unit hw_env" where
  "send_env = \<lparr>hw_clk = (\<lambda>k. \<lparr>tv_sec = 5, tv_usec = 0\<rparr>), hw_alloc = (\<lambda>_. True), hw_lock = Pair 0, hw_unlock = Pair 0,
     hw_sendto = (\<lambda>_. 0), hw_pad = (\<lambda>_. (0, 0)), hw_local = \<lparr>u_sock = replicate 128 0, u_addr = ipv4 [0, 0, 0, 0]\<rparr>\<rparr>"

definition live_neighbor :: "nat \<Rightarrow> neighbor" where
  "live_neighbor i = \<lparr>n_addr = ipv4 [10, 0, of_nat i, 2], bidir = 0, update_time = \<lparr>tv_sec = 5, tv_usec = 0\<rparr>, n_clist = []\<rparr>"

definition send_bprd :: "nat \<Rightarrow> unit bprd" where
  "send_bprd k = \<lparr>ipver = 2, if_index = 3, sockfd = 4, saddr = [2, 0, 0, 0, 10, 0, 0, 1] @ replicate 8 0, saddrlen = 16,
     maddr = [9, 9], maddrlen = 2, hello_seqno = 700, hello_interval = 0, release_interval = 0, update_interval = 0,
     neighbor_timeout = 1000, clist = [mk_commodity (ipv4 [10, 0, 0, 9]) 7 0 0 None],
     ntable = \<lparr>nlist = map live_neighbor [0..<k], mutex = ()\<rparr>\<rparr>"

definition send_st :: "nat \<Rightarrow> unit hw_st" where
  "send_st k = \<lparr>hw_bprd = send_bprd k, hw_tick = 0, hw_freed = [], hw_sent = []\<rparr>"

lemma send_env_works: "env_works send_env"
  by (simp add: env_works_def send_env_def uninit_wf_def sockaddr_storage_size_def netaddr_wf_def)

lemma send_ready: "bprd_ready 4 (send_bprd 63)" "bprd_ready 4 (send_bprd 1)"
  by code_simp+

lemma send_idle: "\<exists>w. hello_idle 4 w"
  using hello_init_idle[OF send_env_works] send_ready(2) unfolding bprd_ready_def by blast

text \<open>C9: When every allocation, every operation of the mutex and every \<open>sendto\<close> succeeds, and the message
  header and the commodity TLVs take at most 509 bytes (TLVs that do not fit are dropped without a word): a
  round of the hello thread, on a writer between two rounds, sends one datagram: a packet of a flag byte and
  one message with the daemon's address, its sequence number, its commodities as TLVs and the neighbors
  that are not expired, each as an address block; the table is refreshed, the sequence number goes up by
  one, and the writer is again between two rounds. If the address blocks make the message longer than 509
  bytes, the round instead writes past the end of a buffer.\<close>

theorem hello_round_sends:
  fixes st :: "'m hw_st"
  assumes "env_works env" and "bprd_ready alen (hw_bprd st)" and "hello_idle alen w" and "commodities_fit alen (hw_bprd st)"
    and "ns = fresh_neighbors env (hw_bprd st) (hw_tick st)"
    and "msg = hello_message alen (take (unat alen) (hello_own env (hw_bprd st))) (hello_seqno (hw_bprd st))
      (map (com_tlv env) (clist (hw_bprd st))) (map (\<lambda>n. (take (unat alen) (na_addr (n_addr n)), na_prefix_len (n_addr n))) ns)"
  shows "if length msg \<le> 509
    then \<exists>w' st' mu. hello_round env (w, st) = Inr (w', st') \<and> hello_idle alen w' \<and>
      hw_bprd st' = (hw_bprd st)\<lparr>ntable := \<lparr>nlist = ns, mutex = mu\<rparr>, hello_seqno := hello_seqno (hw_bprd st) + 1\<rparr> \<and>
      hw_sent st' = hw_sent st @
        [(sockfd (hw_bprd st), take (unat (maddrlen (hw_bprd st))) (maddr (hw_bprd st)), 0 # msg)]
    else hello_round env (w, st) = Inl OutOfBounds"
  using hello_round_effect[OF assms(1,2) refl assms(3-5)]
  unfolding assms(6) hello_msg_def hello_datagram_def hello_tlvs_def .

theorem hello_round_sends_witness:
  "\<exists>w w' st'. hello_idle 4 w \<and> hello_round send_env (w, send_st 1) = Inr (w', st') \<and>
     hw_sent st' = [(4, [9, 9], [0, 1, 0x93, 0, 47, 10, 0, 0, 1, 2, 188, 0, 27] @
       [1, 0x10, 24, 10, 0, 0, 9, 0, 0, 0, 0, 0, 0, 0, 0, 0, 0, 0, 0, 2, 32, 0, 0, 7, 0, 0, 0] @
       [1, 0, 10, 0, 0, 2, 0, 0])]"
proof -
  obtain w where w: "hello_idle 4 w" using send_idle by blast
  have b: "hw_bprd (send_st 1) = send_bprd 1" "hw_sent (send_st 1) = []" by (simp_all add: send_st_def)
  let ?ns = "fresh_neighbors send_env (hw_bprd (send_st 1)) (hw_tick (send_st 1))"
  let ?msg = "hello_message 4 (take (unat (4 :: u8)) (hello_own send_env (hw_bprd (send_st 1)))) (hello_seqno (hw_bprd (send_st 1)))
      (map (com_tlv send_env) (clist (hw_bprd (send_st 1))))
      (map (\<lambda>n. (take (unat (4 :: u8)) (na_addr (n_addr n)), na_prefix_len (n_addr n))) ?ns)"
  have m: "(sockfd (hw_bprd (send_st 1)), take (unat (maddrlen (hw_bprd (send_st 1)))) (maddr (hw_bprd (send_st 1))), 0 # ?msg) =
      (4, [9, 9], [0, 1, 0x93, 0, 47, 10, 0, 0, 1, 2, 188, 0, 27] @
       [1, 0x10, 24, 10, 0, 0, 9, 0, 0, 0, 0, 0, 0, 0, 0, 0, 0, 0, 0, 2, 32, 0, 0, 7, 0, 0, 0] @ [1, 0, 10, 0, 0, 2, 0, 0])"
    by code_simp
  have l: "length ?msg \<le> 509" and c: "commodities_fit 4 (hw_bprd (send_st 1))" by code_simp+
  from hello_round_sends[OF send_env_works _ w c refl refl] send_ready(2) l b(1) obtain w' st' where
    "hello_round send_env (w, send_st 1) = Inr (w', st')"
    "hw_sent st' = hw_sent (send_st 1) @
      [(sockfd (hw_bprd (send_st 1)), take (unat (maddrlen (hw_bprd (send_st 1)))) (maddr (hw_bprd (send_st 1))), 0 # ?msg)]"
    by auto
  with w b(2) show ?thesis unfolding m by auto
qed

text \<open>C10: As long as its environment works and the hello with all neighbors fits, the thread never stops
  announcing: its first \<open>n\<close> rounds return and send \<open>n\<close> datagrams, whose sequence numbers count up
  (modulo \<open>2 ^ 16\<close>) and which name none but known neighbors.\<close>

theorem hello_thread_announces:
  fixes st :: "'m hw_st"
  assumes "env_works env" and "bprd_ready alen (hw_bprd st)" and "commodities_fit alen (hw_bprd st)"
    and "length (hello_msg env (hw_bprd st) alen (nlist (ntable (hw_bprd st)))) \<le> 509"
  shows "\<exists>w' st' nss. hello_writer_thread env n st = Inr (w', st') \<and> length nss = n \<and>
    (\<forall>ns\<in>set nss. set ns \<subseteq> set (nlist (ntable (hw_bprd st)))) \<and>
    hw_sent st' = hw_sent st @ map2 (numbered env (hw_bprd st) alen) [0..<n] nss"
proof -
  obtain w where w: "hello_writer_init (hw_alloc env) (hw_bprd st) = Inr w" "hello_idle alen w"
    using hello_init_idle assms(1,2) unfolding bprd_ready_def by blast
  show ?thesis
    using hello_rounds_send[OF assms(1,2) refl w(2) assms(3,4)] unfolding hello_writer_thread_def w(1) rbind_simps .
qed

theorem hello_thread_announces_witness:
  "\<exists>w' st'. hello_writer_thread send_env 3 (send_st 1) = Inr (w', st') \<and> length (hw_sent st') = 3"
proof -
  have b: "hw_bprd (send_st 1) = send_bprd 1" "hw_sent (send_st 1) = []" by (simp_all add: send_st_def)
  have "length (hello_msg send_env (send_bprd 1) 4 (nlist (ntable (send_bprd 1)))) \<le> 509"
    and "commodities_fit 4 (send_bprd 1)" by code_simp+
  with hello_thread_announces[OF send_env_works, of 4 "send_st 1" 3] send_ready(2) show ?thesis
    unfolding b by auto
qed

text \<open>C28: The writer never divides a message: with so many live neighbors that their blocks do not fit (63
  for IPv4), a round writes past the end of a buffer.\<close>

theorem hello_many_neighbors_overflow:
  fixes st :: "'m hw_st"
  assumes "env_works env" and "bprd_ready alen (hw_bprd st)" and "hello_idle alen w" and "commodities_fit alen (hw_bprd st)"
    and "501 < unat alen + (unat alen + 4) * length (fresh_neighbors env (hw_bprd st) (hw_tick st))"
  shows "hello_round env (w, st) = Inl OutOfBounds"
proof -
  let ?ns = "fresh_neighbors env (hw_bprd st) (hw_tick st)"
  have an: "announceable alen ?ns" using assms(2) by (auto simp: bprd_ready_def intro: fresh_announceable)
  have "length (wire_addr alen p) \<ge> length (fst p) + 4" for p by (auto simp: wire_addr_def Let_def split: prod.split)
  then have "(unat alen + 4) * length ns \<le> length (addr_bytes alen (nbr_pairs alen ns))"
    if "\<forall>n\<in>set ns. unat alen \<le> length (na_addr (n_addr n))" for ns
    using that by (induction ns) (simp, fastforce simp: wire_addr_def Let_def)
  with an have "(unat alen + 4) * length ?ns \<le> length (addr_bytes alen (nbr_pairs alen ?ns))" by (simp add: announceable_def)
  moreover have "length (take (unat alen) (hello_own env (hw_bprd st))) = unat alen"
    using an length_hello_own[OF assms(1,2)] by (simp add: announceable_def)
  ultimately have "\<not> length (hello_msg env (hw_bprd st) alen ?ns) \<le> 509"
    using assms(5) unfolding length_hello_msg by linarith
  with hello_round_effect[OF assms(1,2) refl assms(3,4) refl] show ?thesis by (simp only: if_False)
qed

theorem hello_many_neighbors_overflow_witness:
  "\<exists>w. hello_idle 4 w \<and> hello_round send_env (w, send_st 63) = Inl OutOfBounds"
proof -
  obtain w where w: "hello_idle 4 w" using send_idle by blast
  have b: "hw_bprd (send_st 63) = send_bprd 63" by (simp add: send_st_def)
  have l: "501 < unat (4 :: u8) + (unat (4 :: u8) + 4) * length (fresh_neighbors send_env (hw_bprd (send_st 63)) (hw_tick (send_st 63)))"
    and c: "commodities_fit 4 (hw_bprd (send_st 63))" by code_simp+
  from hello_many_neighbors_overflow[OF send_env_works _ w c l] send_ready(1) w show ?thesis unfolding b by blast
qed

end
