(* ===== verification/HelloParse.thy ===== *)
theory HelloParse
  imports HelloMessage HelloSend
begin

text \<open>
  The reader's parser on the writer's messages: it finds the header fields, the TLVs and the address
  blocks that the hello writer put into the message, at their places in the packet.
\<close>

section \<open>Address blocks read back\<close>

text \<open>The block that the reader makes of one address at position \<open>p\<close>.\<close>

definition addr_read :: "u8 \<Rightarrow> nat \<Rightarrow> bytes \<times> u8 \<Rightarrow> addrblock" where
  "addr_read alen p a = empty_addrblock\<lparr>num_addr := 1, mid_len := alen, mid_src := p + 2,
     ab_prefixlen := (if uint (snd a) \<noteq> uint alen * 8 then snd a else alen * 8)\<rparr>"

lemma parse_addrblock_at:
  assumes "bytes_at buf p (wire_addr alen (a, pl))" and "length a = unat alen" and "unat alen \<le> 16"
    and "p + length (wire_addr alen (a, pl)) \<le> eob"
  shows "parse_addrblock buf alen empty_addrblock p eob =
    Inr (Inr (addr_read alen p (a, pl), p + length (wire_addr alen (a, pl)) - 2))"
proof -
  let ?s = "uint pl \<noteq> uint alen * 8"
  have b: "p < length buf" "buf ! p = 1" "Suc p < length buf" "buf ! Suc p = (if ?s then PBB_ADDR_FLAG_SINGLEPLEN else 0)"
    and pl: "?s \<Longrightarrow> p + 2 + length a < length buf \<and> buf ! (p + 2 + length a) = pl"
    using assms(1) by (auto simp: wire_addr_def Let_def bytes_at_append split: if_splits)
  have e: "p + 4 + unat alen + (if ?s then 1 else 0) \<le> eob" using assms(2,4)
    by (auto simp: wire_addr_def Let_def split: if_splits)
  have z: "memcpy (replicate PBB_MAX_ADDRLEN 0) 0 (replicate (unat alen) 0) = Inr (replicate PBB_MAX_ADDRLEN 0)"
    using assms(3) by (simp add: memcpy_def put_bytes_def PBB_MAX_ADDRLEN_def replicate_add[symmetric])
  show ?thesis
    using b pl e z assms(2)
    by (cases ?s) (simp_all add: parse_addrblock_def pbb_get_u8_def empty_addrblock_def parse_addr_head_def parse_addr_tail_def
        parse_addr_prefix_def addr_read_def wire_addr_def Let_def add.assoc)
qed

primrec addrs_read :: "u8 \<Rightarrow> nat \<Rightarrow> (bytes \<times> u8) list \<Rightarrow> addrblock list" where
  "addrs_read alen p [] = []"
| "addrs_read alen p (a # as) = addr_read alen p a # addrs_read alen (p + length (wire_addr alen a)) as"

text \<open>The memory after \<open>n\<close> allocations that are kept.\<close>

definition taken :: "nat \<Rightarrow> mem \<Rightarrow> mem" where
  "taken n m = \<lparr>calls = calls m + n, live = live m + int n\<rparr>"

lemma taken_0 [simp]: "taken 0 m = m"
  by (simp add: taken_def)

lemma taken_taken [simp]: "taken a (taken b m) = taken (a + b) m"
  by (simp add: taken_def)

lemma alloc_taken: "\<forall>k. alloc k \<Longrightarrow> mem_alloc alloc m = (True, taken 1 m)"
  by (simp add: mem_alloc_def taken_def)

lemma parse_addrblocks_at:
  assumes "bytes_at buf p (addr_bytes alen as)" and "p + length (addr_bytes alen as) = eob"
    and "\<forall>a\<in>set as. length (fst a) = unat alen" and "unat alen \<le> 16" and "\<forall>k. alloc k"
  shows "parse_addrblocks alloc buf alen p eob bs m =
    Inr (PBB_OKAY, bs @ addrs_read alen p as, taken (length as) m)"
  using assms(1-3)
proof (induction as arbitrary: p bs m)
  case Nil
  then show ?case by (simp add: parse_addrblocks.simps)
next
  case (Cons a as)
  obtain x pl where a: "a = (x, pl)" by (cases a)
  let ?w = "wire_addr alen (x, pl)"
  have at: "bytes_at buf p ?w" "bytes_at buf (p + length ?w) (addr_bytes alen as)"
    using Cons.prems(1) by (simp_all add: a bytes_at_append)
  have l: "length x = unat alen" "4 \<le> length ?w" using Cons.prems(3) by (auto simp: a wire_addr_def Let_def)
  have w: "?w = take (length ?w - 2) ?w @ [0, 0]" by (simp add: wire_addr_def Let_def)
  have t: "bytes_at buf (p + length ?w - 2) [0, 0]"
    using at(1) l(2) by (subst (asm) w, subst (asm) bytes_at_append) (simp add: add_diff_assoc)
  have e: "p + length ?w + length (addr_bytes alen as) = eob" using Cons.prems(2) by (simp add: a)
  have 1: "parse_addrblock buf alen empty_addrblock p eob = Inr (Inr (addr_read alen p (x, pl), p + length ?w - 2))"
    using parse_addrblock_at[OF at(1) l(1) assms(4)] e by simp
  have 2: "parse_tlvblock alloc buf [] (p + length ?w - 2) eob m' = Inr (PBB_OKAY, [], p + length ?w, m')" for m'
    using parse_tlvblock_at[of buf "p + length ?w - 2" 0 "[]" eob alloc m'] t assms(5) e l(2)
    by (simp add: hi8_def lo8_def sort_in_def)
  have tb: "(addr_read alen p (x, pl))\<lparr>tlvblock := []\<rparr> = addr_read alen p (x, pl)"
    by (simp add: addr_read_def empty_addrblock_def)
  have "\<not> eob \<le> p" using e l(2) by simp
  then have "parse_addrblocks alloc buf alen p eob bs m =
      parse_addrblocks alloc buf alen (p + length ?w) eob (bs @ [addr_read alen p (x, pl)]) (taken 1 m)"
    by (subst parse_addrblocks.simps) (simp add: alloc_taken[OF assms(5)] 1 2 tb)
  also have "\<dots> = Inr (PBB_OKAY, (bs @ [addr_read alen p (x, pl)]) @ addrs_read alen (p + length ?w) as,
      taken (length as) (taken 1 m))"
    by (rule Cons.IH[OF at(2) e]) (use Cons.prems(3) in simp)
  finally show ?case by (simp add: a)
qed

section \<open>The whole message read back\<close>

lemma hello_flags:
  assumes "alen = 4 \<or> alen = 16"
  defines "f \<equiv> ((alen - 1) OR PBB_MSG_FLAG_ORIGINATOR) OR PBB_MSG_FLAG_SEQNO"
  shows "(f AND PBB_MSG_FLAG_ADDRLENMASK) + 1 = alen" "f AND PBB_MSG_FLAG_ORIGINATOR \<noteq> 0"
    "f AND PBB_MSG_FLAG_HOPLIMIT = 0" "f AND PBB_MSG_FLAG_HOPCOUNT = 0" "f AND PBB_MSG_FLAG_SEQNO \<noteq> 0"
  using assms(1) by (auto simp: f_def)

text \<open>The context that the header of the message gives.\<close>

definition hello_ctx :: "pctx \<Rightarrow> u8 \<Rightarrow> bytes \<Rightarrow> u16 \<Rightarrow> pctx" where
  "hello_ctx ctx alen orig sq = ctx\<lparr>msg_type := 1, addr_len := alen,
     msg_flags := (((alen - 1) OR PBB_MSG_FLAG_ORIGINATOR) OR PBB_MSG_FLAG_SEQNO) AND NOT PBB_MSG_FLAG_ADDRLENMASK,
     has_origaddr := True, orig_addr := put_bytes 0 orig (orig_addr ctx),
     has_hoplimit := False, hoplimit := hoplimit ctx, has_hopcount := False, hopcount := hopcount ctx,
     has_seqno := True, seqno := sq\<rparr>"

lemma parse_message_header_at:
  assumes "bytes_at buf p (hello_header alen orig sq n k)" and "alen = 4 \<or> alen = 16" and "length orig = unat alen"
    and "n < 65536" and "p + n = eob" and "8 + unat alen \<le> n"
  shows "parse_message_header buf junk ctx p eob = (PBB_OKAY, hello_ctx ctx alen orig sq, p + 6 + unat alen, eob)"
proof -
  let ?f = "((alen - 1) OR PBB_MSG_FLAG_ORIGINATOR) OR PBB_MSG_FLAG_SEQNO"
  note f = hello_flags[OF assms(2)]
  have at: "p < length buf" "buf ! p = 1" "buf ! Suc p = ?f" "buf ! (p + 2) = hi8 (of_nat n)" "buf ! (p + 3) = lo8 (of_nat n)"
    "bytes_at buf (p + 4) orig" "buf ! (p + 4 + length orig) = hi8 sq" "buf ! (p + 5 + length orig) = lo8 sq"
    using assms(1) by (simp_all add: hello_header_def bytes_at_append eval_nat_numeral add_ac)
  have o: "sub_bytes (p + 4) (unat alen) buf = orig" using at(6) assms(3) by (simp add: bytes_at_sub)
  have u: "unat (of_nat n :: u16) = n" using assms(4) by (simp add: unat_of_nat)
  have g: "pbb_get_u8 buf eob (p, PBB_OKAY) = (1, Suc p, PBB_OKAY)" "pbb_get_u8 buf eob (Suc p, PBB_OKAY) = (?f, Suc (Suc p), PBB_OKAY)"
    "pbb_get_u16 buf eob (Suc (Suc p), PBB_OKAY) = (of_nat n, p + 4, PBB_OKAY)"
    "pbb_get_u16 buf eob (p + 4 + unat alen, PBB_OKAY) = (sq, p + 6 + unat alen, PBB_OKAY)"
    using at assms(3,5,6) by (simp_all add: pbb_get_u8_def pbb_get_u16_def eval_nat_numeral add_ac)
  show ?thesis
    using assms(5,6) u
    by (simp add: parse_message_header_def g f read_origaddr_def opt_u8_def opt_u16_def o hello_ctx_def Let_def)
qed

text \<open>TLVs of one order stay in wire order.\<close>

lemma sort_in_same:
  assumes "\<forall>e\<in>set (ts @ es). int_order e = k"
  shows "sort_in ts es = ts @ es"
  using assms
proof (induction es arbitrary: ts)
  case (Cons e es)
  have w: "takeWhile (\<lambda>x. 0 \<le> avl_comp_int (uint (int_order e)) (uint (int_order x))) ts = ts"
    "dropWhile (\<lambda>x. 0 \<le> avl_comp_int (uint (int_order e)) (uint (int_order x))) ts = []"
    using Cons.prems by (simp_all add: avl_comp_int_def)
  have "store_insert avl_comp_int True (\<lambda>e. uint (int_order e)) e ts = (0, ts @ [e])"
    unfolding store_insert_def w by simp
  then have "sort_in ts (e # es) = sort_in (ts @ [e]) es" by (simp add: sort_in_def)
  with Cons.IH[of "ts @ [e]"] Cons.prems show ?case by simp
qed (simp add: sort_in_def)

lemma block_read_order:
  assumes "\<forall>t\<in>set ts. fst t = ty \<and> fst (snd t) = ext"
  shows "\<forall>e'\<in>set (block_read e p ts). int_order e' = word_of_int (calc_tlv_intorder ty ext)"
  using assms by (induction ts arbitrary: e p) (auto simp: Let_def tlv_read_def)

lemma hello_header_end:
  "bytes_at buf p (hello_header alen orig sq n k) \<Longrightarrow> bytes_at buf (p + 6 + length orig) [hi8 (of_nat k), lo8 (of_nat k)]"
  by (simp add: hello_header_def bytes_at_append eval_nat_numeral add_ac)

lemma parse_hello_message:
  assumes "bytes_at buf p msg" and "msg = hello_message alen orig sq ts as" and "alen = 4 \<or> alen = 16"
    and "length orig = unat alen" and "\<forall>a\<in>set as. length (fst a) = unat alen" and "\<forall>t\<in>set ts. fst t = ty \<and> fst (snd t) = ext"
    and "length msg < 65536" and "p + length msg = eob" and "\<forall>k. alloc k"
  defines "q \<equiv> p + 8 + unat alen"
  shows "parse_message alloc buf junk ctx p eob m = Inr (PBB_OKAY, hello_ctx ctx alen orig sq, block_read empty_tlv q ts,
    addrs_read alen (q + length (block_bytes ts)) as, eob, taken (length ts + length as) m)"
proof -
  let ?tl = "block_bytes ts" and ?bs = "addr_bytes alen as"
  let ?n = "8 + length orig + length ?tl + length ?bs" let ?h = "hello_header alen orig sq ?n (length ?tl)"
  have n: "length msg = ?n" by (simp add: assms(2) length_hello_message)
  have h: "bytes_at buf p (?h @ ?tl @ ?bs)" using assms(1) unfolding assms(2) hello_message_def Let_def .
  have l: "length ?h = 8 + unat alen" and q: "p + (8 + unat alen) = q" by (simp_all add: assms(4) q_def)
  have at: "bytes_at buf p ?h" "bytes_at buf q ?tl" "bytes_at buf (q + length ?tl) ?bs"
    using h unfolding bytes_at_append l q by blast+
  have tl: "bytes_at buf (p + 6 + unat alen) (hi8 (of_nat (length ?tl)) # lo8 (of_nat (length ?tl)) # ?tl)"
  proof -
    have "p + 6 + unat alen + length [hi8 (of_nat (length ?tl) :: u16), lo8 (of_nat (length ?tl))] = q" by (simp add: q_def)
    with hello_header_end[OF at(1)] at(2) have
      "bytes_at buf (p + 6 + unat alen) ([hi8 (of_nat (length ?tl)), lo8 (of_nat (length ?tl))] @ ?tl)"
      unfolding bytes_at_append assms(4) by metis
    then show ?thesis unfolding append_Cons append_Nil .
  qed
  have 1: "parse_message_header buf junk ctx p eob = (PBB_OKAY, hello_ctx ctx alen orig sq, p + 6 + unat alen, eob)"
    using parse_message_header_at[OF at(1) assms(3,4)] assms(4,7,8) n by simp
  have e: "q + length ?tl + length ?bs = eob" using assms(4,8) n by (simp add: q_def)
  have s: "sort_in [] (block_read empty_tlv q ts) = block_read empty_tlv q ts"
    using sort_in_same[of "[]"] block_read_order[OF assms(6), of empty_tlv q] by simp
  have 2: "parse_tlvblock alloc buf [] (p + 6 + unat alen) eob m =
      Inr (PBB_OKAY, block_read empty_tlv q ts, q + length ?tl, taken (length ts) m)"
    using parse_tlvblock_at[OF tl refl _ _ assms(9), of eob m] assms(7) n e s by (simp add: q_def add_ac taken_def)
  have 3: "parse_addrblocks alloc buf alen (q + length ?tl) eob [] m' =
      Inr (PBB_OKAY, addrs_read alen (q + length ?tl) as, taken (length as) m')" for m'
    using parse_addrblocks_at[OF at(3) e assms(5) _ assms(9), of "[]" m'] assms(3) by auto
  have al: "addr_len (hello_ctx ctx alen orig sq) = alen" by (simp add: hello_ctx_def)
  show ?thesis unfolding parse_message_def 1 by (simp add: 2 3 al add.commute[of "length ts" "length as"])
qed

end
