(* ===== verification/HelloLink.thy ===== *)
theory HelloLink
  imports HelloParse
begin

text \<open>
  From one daemon to the next: the reader's callbacks return on the packet that the hello writer builds,
  and the sender's entry in the receiver's neighbor table holds what the sender announced.
\<close>

text \<open>TLVs and address blocks follow the header.\<close>

lemma hello_message_at:
  assumes "bytes_at buf p (hello_message alen orig sq ts as)" and "length orig = unat alen"
  shows "bytes_at buf (p + 8 + unat alen) (block_bytes ts)"
    and "bytes_at buf (p + 8 + unat alen + length (block_bytes ts)) (addr_bytes alen as)"
proof -
  let ?h = "hello_header alen orig sq (8 + length orig + length (block_bytes ts) + length (addr_bytes alen as)) (length (block_bytes ts))"
  have h: "bytes_at buf p (?h @ block_bytes ts @ addr_bytes alen as)" using assms(1) unfolding hello_message_def Let_def .
  have l: "length ?h = 8 + unat alen" and q: "p + (8 + unat alen) = p + 8 + unat alen" by (simp_all add: assms(2))
  show "bytes_at buf (p + 8 + unat alen) (block_bytes ts)"
    "bytes_at buf (p + 8 + unat alen + length (block_bytes ts)) (addr_bytes alen as)"
    using h unfolding bytes_at_append l q by blast+
qed

section \<open>The commodities read back\<close>

text \<open>An entry that the reader's callback accepts as the announcement of a commodity.\<close>

definition com_entry :: "bytes \<Rightarrow> tlv_entry \<Rightarrow> commodity \<Rightarrow> bool" where
  "com_entry buf t c \<longleftrightarrow> index_matches 0 t \<and> t_type t = BPRD_MSGTLV_TYPE_COM \<and>
     t_length t = of_nat sizeof_commodity_s \<and> \<not> int_multivalue_tlv t \<and>
     (\<exists>vp. single_value t = Some vp \<and> read_commodity_s buf vp = Inr (cdata c))"

lemma commodity_read:
  assumes "bytes_at buf vp (commodity_s_to_bytes p q c)" and "netaddr_wf (cs_addr c)"
  shows "read_commodity_s buf vp = Inr c"
proof -
  have l: "length (commodity_s_to_bytes p q c) = sizeof_commodity_s" using assms(2) by simp
  with assms(1) have "sub_bytes vp sizeof_commodity_s buf = commodity_s_to_bytes p q c"
    and "vp + sizeof_commodity_s \<le> length buf" by (metis bytes_at_sub, metis bytes_at_bound)
  with commodity_of_to_bytes[OF assms(2)] show ?thesis by (simp add: read_commodity_s_def)
qed

lemma com_entries_at:
  assumes "bytes_at buf p (block_bytes (map (com_tlv env) cs))" and "\<forall>c\<in>set cs. netaddr_wf (c_addr c)"
    and "int_drop_tlv e = int_drop_tlv empty_tlv"
  shows "list_all2 (com_entry buf) (block_read e p (map (com_tlv env) cs)) cs"
  using assms
proof (induction cs arbitrary: e p)
  case (Cons c cs)
  obtain x y where pq: "hw_pad env c = (x, y)" by (cases "hw_pad env c")
  let ?v = "commodity_s_to_bytes x y (cdata c)"
  let ?w = "tlv_bytes 1 0 0 255 ?v"
  have t: "com_tlv env c = (1, 0, ?v)" by (simp add: com_tlv_def pq)
  have lv: "length ?v = 24" using Cons.prems(2) by (simp add: sizeof_commodity_s_def)
  have at: "bytes_at buf p ?w" "bytes_at buf (p + length ?w) (block_bytes (map (com_tlv env) cs))"
    using Cons.prems(1) by (simp_all add: t wire_bytes_def bytes_at_append)
  have w: "?w = take (length ?w - 24) ?w @ ?v" and lw: "24 \<le> length ?w"
    using lv by (simp_all add: tlv_bytes_def)
  let ?e = "tlv_read e p 1 0 0 255 ?v"
  have "bytes_at buf (p + length ?w - 24) ?v"
    using at(1) lw by (subst (asm) w, subst (asm) bytes_at_append) (simp add: add_diff_assoc)
  from commodity_read[OF this] Cons.prems(2) have r: "read_commodity_s buf (p + length ?w - 24) = Inr (cdata c)" by simp
  have "?v \<noteq> []" using lv by auto
  then have "com_entry buf ?e c"
    using r lv Cons.prems(3)
    by (simp add: com_entry_def tlv_read_def Let_def index_matches_def empty_tlv_def sizeof_commodity_s_def test_addrbitarray_def)
  moreover have "int_drop_tlv ?e = int_drop_tlv empty_tlv" using Cons.prems(3) by (simp add: tlv_read_def Let_def)
  ultimately show ?case
    using Cons.IH[OF at(2), of ?e] Cons.prems(2) by (simp add: t wire_bytes_def Let_def)
qed simp

lemma com_entries_reports:
  assumes "list_all2 (com_entry buf) ts cs" and "list_all2 (tlv_reports buf) (filter (index_matches 0) ts) cds"
  shows "cds = map cdata cs"
proof -
  have "\<forall>t\<in>set ts. index_matches 0 t" using assms(1) by (auto simp: list_all2_conv_all_nth in_set_conv_nth com_entry_def)
  then have "list_all2 (tlv_reports buf) ts cds" using assms(2) by (simp add: filter_id_conv[THEN iffD2])
  with assms(1) show ?thesis
    by (induction ts cs arbitrary: cds rule: list_all2_induct)
      (auto simp: com_entry_def tlv_reports_def set_multi_value_def list_all2_Cons1)
qed

section \<open>The callbacks return\<close>

lemma hello_cons_msg_tlv_returns:
  assumes "com_entry buf t c" and "cur_neighbor st = Inr i" and "ctx_type ctx = PBB_CONTEXT_MESSAGE"
    and "\<forall>k. he_alloc env k"
  shows "\<exists>st'. hello_cons_msg_tlv env buf t ctx st = Inr (PBB_OKAY, st')"
proof -
  obtain vp where t: "t_type t = BPRD_MSGTLV_TYPE_COM" "t_length t = of_nat sizeof_commodity_s" "single_value t = Some vp"
    "read_commodity_s buf vp = Inr (cdata c)" using assms(1) by (auto simp: com_entry_def)
  show ?thesis
    using assms(2-4) by (simp add: hello_cons_msg_tlv_def t mem_alloc_def Let_def split: option.split)
qed

lemma deliver_coms_returns:
  assumes "list_all2 (com_entry buf) ts cs" and "cur_neighbor st = Inr i" and "nlist_wf (hs_nlist st)"
    and "ctx_type ctx = PBB_CONTEXT_MESSAGE" and "\<forall>k. he_alloc env k"
  shows "\<exists>x. deliver_tlvs (hello_cons_msg_tlv env) buf ctx 0 ts st = Inr x"
  using assms(1-3)
proof (induction ts cs arbitrary: st rule: list_all2_induct)
  case (Cons t ts c cs)
  have t: "index_matches 0 t" "set_multi_value 0 t = t" using Cons.hyps(1) by (simp_all add: com_entry_def set_multi_value_def)
  from hello_cons_msg_tlv_returns[OF Cons.hyps(1) Cons.prems(1) assms(4,5)] obtain st1 where
    c: "hello_cons_msg_tlv env buf t ctx st = Inr (PBB_OKAY, st1)" by blast
  from hello_cons_msg_tlv_effect[OF c nlist_wf_ok[OF Cons.prems(2)]] Cons.prems(1) obtain n n' where
    e: "n_addr n' = n_addr (hs_nlist st ! i)" "clist_wf (n_clist n')" "hs_nlist st1 = (hs_nlist st)[i := n']" "hs_n st1 = hs_n st"
    by fastforce
  have i: "i < length (hs_nlist st)" and "cur_neighbor st1 = Inr i"
    using Cons.prems(1) e(3,4) by (simp_all add: cur_neighbor_Inr_iff)
  moreover have "nlist_wf (hs_nlist st1)" unfolding e(3) using i e(1,2) Cons.prems(2) by (intro nlist_wf_update)
  ultimately obtain x where "deliver_tlvs (hello_cons_msg_tlv env) buf ctx 0 ts st1 = Inr x" using Cons.IH by blast
  then show ?case by (cases x) (simp add: t c Let_def)
qed simp

lemma hello_cons_msg_start_returns:
  assumes "ctx_type ctx = PBB_CONTEXT_MESSAGE" and "msg_type ctx = BPRD_MSG_TYPE_HELLO" and "has_origaddr ctx"
    and "\<forall>k. he_alloc env k"
  shows "\<exists>st'. hello_cons_msg_start env ctx st = Inr (PBB_OKAY, st')"
  using assms by (simp add: hello_cons_msg_start_def mem_alloc_def Let_def split: option.split)

text \<open>A block of addresses without TLVs that lies in the packet.\<close>

definition plain_block :: "bytes \<Rightarrow> addrblock \<Rightarrow> bool" where
  "plain_block buf a \<longleftrightarrow> tlvblock a = [] \<and> mid_inside buf a \<and>
     unat (mid_start a) + unat (mid_len a) \<le> length (ab_addr a)"

lemma hello_addr_callbacks_return:
  assumes "cur_neighbor st = Inr i" and "ctx_addr ctx = Some x" and "ctx_type ctx = PBB_CONTEXT_ADDRESS"
  shows "\<exists>st'. addr_callbacks (hello_addr_cons env) buf ctx [] idx st = Inr (PBB_OKAY, [], hello_addr_cons env, st')"
proof -
  have "\<exists>st'. hello_cons_addr_start env ctx st = Inr (PBB_OKAY, st')"
    using assms by (simp add: hello_cons_addr_start_def Let_def)
  then show ?thesis
    by (auto simp: addr_callbacks_def call_start_def schedule_plain[OF hello_cons_sel(1-3)])
qed

lemma hello_addr_step_returns:
  assumes "plain_block buf a" and "k < unat (num_addr a)" and "cur_neighbor st = Inr i" and "ctx_type ctx = PBB_CONTEXT_ADDRESS"
  shows "\<exists>ctx' a' st'. addr_step (hello_addr_cons env) buf ctx a k st = Inr (PBB_OKAY, ctx', a', hello_addr_cons env, st') \<and>
    plain_block buf a' \<and> num_addr a' = num_addr a \<and> cur_neighbor st' = Inr i \<and> ctx_type ctx' = PBB_CONTEXT_ADDRESS"
proof (cases "test_addrbitarray (dropAddr a) (of_nat k)")
  case True
  with assms show ?thesis by (auto simp: addr_step_def)
next
  case False
  have m: "mid_inside buf a" using assms(1) by (simp add: plain_block_def)
  have "unat (mid_len a) * Suc k \<le> unat (mid_len a) * unat (num_addr a)" using assms(2) by (intro mult_le_mono2) simp
  then have l: "length (sub_bytes (mid_src a + unat (mid_len a) * k) (unat (mid_len a)) buf) = unat (mid_len a)"
    using m by (intro length_sub_bytes) (simp add: mid_inside_def)
  then obtain full where f: "memcpy (ab_addr a) (unat (mid_start a))
      (sub_bytes (mid_src a + unat (mid_len a) * k) (unat (mid_len a)) buf) = Inr full" "length full = length (ab_addr a)"
    using assms(1) by (auto simp: memcpy_def plain_block_def)
  let ?ctx = "addr_ctx buf a full k ctx"
  have x: "ctx_addr ?ctx = Some full" "ctx_type ?ctx = PBB_CONTEXT_ADDRESS"
    using assms(4) by (simp_all add: addr_ctx_def Let_def split: option.splits)
  from hello_addr_callbacks_return[OF assms(3) x, of env buf "of_nat k"] assms(1) obtain st' where
    c: "addr_callbacks (hello_addr_cons env) buf ?ctx (tlvblock a) (of_nat k) st = Inr (PBB_OKAY, [], hello_addr_cons env, st')"
    by (auto simp: plain_block_def)
  let ?a = "a\<lparr>ab_addr := full, tlvblock := []\<rparr>"
  have s: "addr_step (hello_addr_cons env) buf ctx a k st = Inr (PBB_OKAY, ?ctx, ?a, hello_addr_cons env, st')"
    using False by (simp add: addr_step_def f(1) c)
  have "cur_neighbor st' = Inr i"
    using hello_addr_step[OF s assms(3) same_block_refl m assms(2)] False cur_neighbor_mark[OF assms(3)] by simp
  moreover have "plain_block buf ?a" using assms(1) f(2) by (simp add: plain_block_def mid_inside_def)
  ultimately show ?thesis using s x(2) by auto
qed

lemma hello_addr_loop_returns:
  assumes "plain_block buf a" and "\<forall>k\<in>set ks. k < unat (num_addr a)" and "cur_neighbor st = Inr i"
    and "ctx_type ctx = PBB_CONTEXT_ADDRESS"
  shows "\<exists>ctx' a' st'. addr_loop (hello_addr_cons env) buf ctx a ks st = Inr (PBB_OKAY, ctx', a', hello_addr_cons env, st') \<and>
    cur_neighbor st' = Inr i \<and> ctx_type ctx' = PBB_CONTEXT_ADDRESS"
  using assms
proof (induction ks arbitrary: ctx a st)
  case (Cons k ks)
  from hello_addr_step_returns[OF Cons.prems(1) _ Cons.prems(3,4), of k env] Cons.prems(2) obtain ctx1 a1 st1 where
    s: "addr_step (hello_addr_cons env) buf ctx a k st = Inr (PBB_OKAY, ctx1, a1, hello_addr_cons env, st1)"
      "plain_block buf a1" "num_addr a1 = num_addr a" "cur_neighbor st1 = Inr i" "ctx_type ctx1 = PBB_CONTEXT_ADDRESS" by auto
  from Cons.IH[OF s(2) _ s(4,5)] Cons.prems(2) s(1,3) show ?case by simp
qed simp

lemma hello_addrblocks_return:
  assumes "\<forall>a\<in>set bs. plain_block buf a" and "cur_neighbor st = Inr i" and "ctx_type ctx = PBB_CONTEXT_ADDRESS"
  shows "\<exists>x. addrblocks_loop (hello_addr_cons env) buf ctx bs st = Inr x"
  using assms
proof (induction bs arbitrary: ctx st)
  case (Cons a bs)
  have "plain_block buf a" using Cons.prems(1) by simp
  from hello_addr_loop_returns[OF this, of "[0..<unat (num_addr a)]" st i "ctx\<lparr>prefixlen := ab_prefixlen a\<rparr>" env] Cons.prems(2,3)
  obtain ctx1 a1 st1 where l: "addr_loop (hello_addr_cons env) buf (ctx\<lparr>prefixlen := ab_prefixlen a\<rparr>) a [0..<unat (num_addr a)] st =
      Inr (PBB_OKAY, ctx1, a1, hello_addr_cons env, st1)" "cur_neighbor st1 = Inr i" "ctx_type ctx1 = PBB_CONTEXT_ADDRESS" by auto
  from Cons.IH[OF _ l(2,3)] Cons.prems(1) obtain x where "addrblocks_loop (hello_addr_cons env) buf ctx1 bs st1 = Inr x" by auto
  with l(1) show ?case by (cases x) simp
qed simp

lemma hello_message_returns:
  fixes st :: "'m hello_st"
  assumes "parse_message alloc buf junk ctx0 start eob m = Inr (PBB_OKAY, ctx, ts, bs, stop, m1)"
    and "msg_type ctx = BPRD_MSG_TYPE_HELLO" and "has_origaddr ctx" and "list_all2 (com_entry buf) ts cs"
    and "\<forall>a\<in>set bs. plain_block buf a" and "nlist_wf (hs_nlist st)" and "\<forall>k. he_alloc env k"
    and ind: "\<forall>x. hello_addr x (hs_bprd st) (orig_addr ctx) (addr_len ctx) = a"
  shows "\<exists>r ctx' cons' st' m'. handle_message alloc buf junk None ctx0 start eob (message_consumer (hello_reader_init env)) st m =
    Inr (r, ctx', stop, cons', st', m')"
proof -
  let ?c = "ctx\<lparr>ctx_type := PBB_CONTEXT_MESSAGE\<rparr>"
  from hello_cons_msg_start_returns[of ?c env st] assms(2,3,7) obtain st0 where
    s: "hello_cons_msg_start env ?c st = Inr (PBB_OKAY, st0)" by auto
  have ah: "hello_addr x (hs_bprd st) (orig_addr ?c) (addr_len ?c) = a" for x using ind by simp
  from hello_cons_msg_start_effect[OF s assms(6) ah ah] obtain i where
    i: "cur_neighbor st0 = Inr i" "nlist_wf (hs_nlist st0)" by (auto simp: cur_neighbor_Inr_iff)
  from deliver_coms_returns[OF assms(4) i, of ?c env] assms(7) obtain r1 ts1 st1 where
    d: "deliver_tlvs (hello_cons_msg_tlv env) buf ?c 0 ts st0 = Inr (r1, ts1, st1)" by auto
  from deliver_tlvs_hello[OF d i] have r1: "r1 = PBB_OKAY" and c1: "cur_neighbor st1 = Inr i" by auto
  have t: "schedule_msgtlv_consumer (hello_msg_cons env) buf ctx ts st = Inr (PBB_OKAY, ?c, ts1, hello_msg_cons env, st1)"
    using s d r1 by (simp add: schedule_msgtlv_consumer_def call_start_def schedule_plain[OF hello_cons_sel(6-8)] Let_def)
  from hello_addrblocks_return[OF assms(5) c1, of "?c\<lparr>ctx_type := PBB_CONTEXT_ADDRESS\<rparr>" env] obtain r2 c2 bs2 con2 st2 where
    b: "schedule_msgaddr_consumer (hello_addr_cons env) buf ?c bs st1 = Inr (r2, c2, bs2, con2, st2)"
    by (auto simp: schedule_msgaddr_consumer_def)
  have "\<exists>x. deliver_message buf \<lparr>ms_ctx = ctx, ms_tlvs = ts, ms_blocks = bs,
      ms_cons = [hello_msg_cons env, hello_addr_cons env], ms_st = st\<rparr> = Inr x"
    using hello_deliver_eq[OF t assms(2), of bs] assms(2) b
    by (simp add: run_end_cbs_def schedule_end_message_cbs_def Let_def)
  then obtain r3 ms where "deliver_message buf \<lparr>ms_ctx = ctx, ms_tlvs = ts, ms_blocks = bs,
      ms_cons = [hello_msg_cons env, hello_addr_cons env], ms_st = st\<rparr> = Inr (r3, ms)" by auto
  then show ?thesis by (simp add: handle_message_def assms(1) hello_reader_init_eq Let_def)
qed

section \<open>The addresses read back\<close>

text \<open>The address that a host's bytes stand for in a message.\<close>

definition host_netaddr :: "'m bprd \<Rightarrow> bytes \<Rightarrow> netaddr" where
  "host_netaddr b x = \<lparr>na_addr = x @ replicate (16 - length x) 0, na_type = word_of_int (ipver b),
     na_prefix_len = of_nat (8 * length x)\<rparr>"

lemma hello_addr_host:
  assumes "hello_addr_len b = Inr alen" and "length x = unat alen"
  shows "hello_addr y b (put_bytes 0 x (replicate 16 0)) alen = host_netaddr b x"
proof -
  have f: "family_bytes (word_of_int (ipver b)) = Some (unat alen)" and k: "unat alen \<le> 16"
    using hello_addr_len_cases[OF assms(1)] by (auto simp: family_bytes_def)
  have p: "put_bytes 0 x (replicate 16 0) = x @ replicate (16 - length x) 0" using assms(2) k by (simp add: put_bytes_def)
  show ?thesis
    using hello_addr_ok[OF f, of alen "x @ replicate (16 - length x) 0" y] assms(2) k
    unfolding p by (simp add: host_netaddr_def)
qed

lemma blocks_at:
  assumes "bytes_at buf p (addr_bytes alen as)" and "\<forall>a\<in>set as. length (fst a) = unat alen" and "unat alen \<le> 16"
  shows "\<forall>b\<in>set (addrs_read alen p as). plain_block buf b"
    and "concat (map (block_addrs buf) (addrs_read alen p as)) = map (\<lambda>a. put_bytes 0 (fst a) (replicate 16 0)) as"
proof -
  have 1: "plain_block buf (addr_read alen p a) \<and> block_addrs buf (addr_read alen p a) = [put_bytes 0 (fst a) (replicate 16 0)]"
    if "bytes_at buf p (wire_addr alen a)" "length (fst a) = unat alen" for p a
  proof -
    have "bytes_at buf (p + 2) (fst a)"
      using that(1) by (auto simp: wire_addr_def Let_def bytes_at_append eval_nat_numeral split: prod.splits)
    then have "p + 2 + length (fst a) \<le> length buf" "sub_bytes (p + 2) (unat alen) buf = fst a"
      using that(2) bytes_at_sub[of buf "p + 2" "fst a"] by simp_all
    with that(2) assms(3) show ?thesis
      by (simp add: plain_block_def addr_read_def empty_addrblock_def mid_inside_def block_addrs_def block_addr_def
          test_addrbitarray_def PBB_MAX_ADDRLEN_def)
  qed
  show "\<forall>b\<in>set (addrs_read alen p as). plain_block buf b"
    using assms(1,2) 1 by (induction as arbitrary: p) (auto simp: bytes_at_append)
  show "concat (map (block_addrs buf) (addrs_read alen p as)) = map (\<lambda>a. put_bytes 0 (fst a) (replicate 16 0)) as"
    using assms(1,2) 1 by (induction as arbitrary: p) (auto simp: bytes_at_append)
qed

section \<open>The packet received\<close>

text \<open>The receiver knows the sender's address lengths, and its allocator works.\<close>

definition receives :: "hello_env \<Rightarrow> 'm hello_io \<Rightarrow> u8 \<Rightarrow> 'm hello_st \<Rightarrow> bool" where
  "receives env io alen st \<longleftrightarrow> hello_addr_len (hs_bprd st) = Inr alen \<and> nlist_wf (hs_nlist st) \<and>
     (\<forall>k. he_alloc env k) \<and> (\<forall>k. io_alloc io k) \<and> (\<forall>m. 0 \<le> fst (io_lock io m)) \<and> (\<forall>m. 0 \<le> fst (io_unlock io m))"

text \<open>What a hello with these commodities and addresses makes of the entry of its originator.\<close>

definition linked ::
  "hello_env \<Rightarrow> 'm hello_st \<Rightarrow> 'm hello_st \<Rightarrow> bytes \<Rightarrow> commodity list \<Rightarrow> (bytes \<times> u8) list \<Rightarrow> bool" where
  "linked env st st' orig cs as \<longleftrightarrow> nlist_wf (hs_nlist st') \<and>
     (\<exists>n. hello_entry (host_netaddr (hs_bprd st) orig) (he_clk env (hs_tick st)) (map cdata cs)
        (\<exists>j<length as. host_netaddr (hs_bprd st) (fst (as ! j)) =
          own_netaddr (saddr (hs_bprd st)) (he_local env (Suc (hs_tick st) + j)))
        (nlist_map (hs_nlist st) (host_netaddr (hs_bprd st) orig)) n \<and>
      nlist_map (hs_nlist st') = (nlist_map (hs_nlist st))(host_netaddr (hs_bprd st) orig \<mapsto> n))"

lemma hello_message_received:
  fixes st :: "'m hello_st"
  assumes "bytes_at buf 1 msg" and "msg = hello_message alen orig sq (map (com_tlv wenv) cs) as"
    and "length orig = unat alen" and "\<forall>a\<in>set as. length (fst a) = unat alen" and "\<forall>c\<in>set cs. netaddr_wf (c_addr c)"
    and "length msg < 65536" and "hello_addr_len (hs_bprd st) = Inr alen" and "nlist_wf (hs_nlist st)"
    and "\<forall>k. he_alloc env k" and "\<forall>k. alloc k" and "orig_addr ctx0 = replicate 16 0"
  shows "\<exists>ctx' cons' st' m'. handle_message alloc buf junk None ctx0 1 (Suc (length msg))
      (message_consumer (hello_reader_init env)) st m = Inr (PBB_OKAY, ctx', Suc (length msg), cons', st', m') \<and>
    linked env st st' orig cs as"
proof -
  have alen: "alen = 4 \<or> alen = 16" "unat alen \<le> 16" using hello_addr_len_cases[OF assms(7)] by auto
  let ?q = "1 + 8 + unat alen" and ?tl = "block_bytes (map (com_tlv wenv) cs)"
  let ?ts = "block_read empty_tlv ?q (map (com_tlv wenv) cs)" and ?bs = "addrs_read alen (?q + length ?tl) as"
  let ?ctx = "hello_ctx ctx0 alen orig sq"
  have ty: "\<forall>t\<in>set (map (com_tlv wenv) cs). fst t = 1 \<and> fst (snd t) = 0" by (auto simp: com_tlv_def split: prod.splits)
  obtain m1 where p: "parse_message alloc buf junk ctx0 1 (Suc (length msg)) m = Inr (PBB_OKAY, ?ctx, ?ts, ?bs, Suc (length msg), m1)"
    using parse_hello_message[OF assms(1,2) alen(1) assms(3,4) ty assms(6) _ assms(10), of "Suc (length msg)" junk ctx0 m] by auto
  have at: "bytes_at buf ?q ?tl" "bytes_at buf (?q + length ?tl) (addr_bytes alen as)"
    by (rule hello_message_at[OF assms(1)[unfolded assms(2)] assms(3)])+
  have e: "list_all2 (com_entry buf) ?ts cs" by (rule com_entries_at[OF at(1) assms(5) refl])
  note b = blocks_at[OF at(2) assms(4) alen(2)]
  have o: "orig_addr ?ctx = put_bytes 0 orig (replicate 16 0)" "addr_len ?ctx = alen" "msg_type ?ctx = 1" "has_origaddr ?ctx"
    by (simp_all add: hello_ctx_def assms(11))
  let ?a = "host_netaddr (hs_bprd st) orig"
  have ind: "\<forall>x. hello_addr x (hs_bprd st) (orig_addr ?ctx) (addr_len ?ctx) = ?a"
    unfolding o using hello_addr_host[OF assms(7,3)] by blast
  from hello_message_returns[OF p o(3,4) e b(1) assms(8,9) ind] obtain r ctx' cons' st' m' where
    h: "handle_message alloc buf junk None ctx0 1 (Suc (length msg)) (message_consumer (hello_reader_init env)) st m =
      Inr (r, ctx', Suc (length msg), cons', st', m')" by blast
  have heard: "(\<exists>j<length as. host_netaddr (hs_bprd st) (fst (as ! j)) =
      own_netaddr (saddr (hs_bprd st)) (he_local env (Suc (hs_tick st) + j))) \<longleftrightarrow>
    heard_me env (Suc (hs_tick st)) (hs_bprd st) (addr_len ?ctx) (concat (map (block_addrs buf) ?bs))"
    unfolding b(2) o(2) using hello_addr_host[OF assms(7)] assms(4)
    by (simp add: heard_me_def is_me_def cong: conj_cong)
  have "Suc (length msg) \<le> length buf" using bytes_at_bound[OF assms(1)] by simp
  from hello_message_effect[OF h p o(3) this assms(8) ind heard] com_entries_reports[OF e]
  have "r = PBB_OKAY" "linked env st st' orig cs as" unfolding linked_def by blast+
  with h show ?thesis by blast
qed

lemma ntable_mutex_works:
  "\<forall>m. 0 \<le> fst (f m) \<Longrightarrow> \<exists>t'. ntable_mutex_lock f t = Inr t' \<and> nlist t' = nlist t"
  "\<forall>m. 0 \<le> fst (f m) \<Longrightarrow> \<exists>t'. ntable_mutex_unlock f t = Inr t' \<and> nlist t' = nlist t"
proof -
  assume "\<forall>m. 0 \<le> fst (f m)"
  then have "\<not> fst (f (mutex t)) < 0" by (simp add: not_less)
  then show "\<exists>t'. ntable_mutex_lock f t = Inr t' \<and> nlist t' = nlist t"
    "\<exists>t'. ntable_mutex_unlock f t = Inr t' \<and> nlist t' = nlist t"
    by (simp_all add: ntable_mutex_lock_def ntable_mutex_unlock_def case_prod_beta)
qed

lemma hello_packet_received:
  fixes st :: "'m hello_st"
  assumes "bytes_at buf 0 (0 # msg)" and "msg = hello_message alen orig sq (map (com_tlv wenv) cs) as"
    and "length orig = unat alen" and "\<forall>a\<in>set as. length (fst a) = unat alen" and "\<forall>c\<in>set cs. netaddr_wf (c_addr c)"
    and "length msg < 65536" and "receives env io alen st"
  shows "\<exists>r st' m'. hello_recv io (hello_reader_init env) buf (Suc (length msg)) st m = Inr (r, st', m') \<and>
    linked env st st' orig cs as"
proof -
  note rc = assms(7)[unfolded receives_def]
  from rc obtain t where t: "ntable_mutex_lock (io_lock io) (ntable (hs_bprd st)) = Inr t" "nlist t = hs_nlist st"
    using ntable_mutex_works(1) by blast
  let ?st = "set_ntable t st"
  have s: "hs_nlist ?st = hs_nlist st" "hs_tick ?st = hs_tick st" "saddr (hs_bprd ?st) = saddr (hs_bprd st)"
    "hello_addr_len (hs_bprd ?st) = hello_addr_len (hs_bprd st)" "host_netaddr (hs_bprd ?st) = host_netaddr (hs_bprd st)"
    using t(2) by (simp_all add: set_ntable_def hello_addr_len_def host_netaddr_def fun_eq_iff)
  have at: "0 < length buf" "buf ! 0 = 0" "bytes_at buf 1 msg" using assms(1) by simp_all
  let ?ctx = "empty_pctx\<lparr>pkt_version := 0, pkt_flags := 0, has_pktseqno := False, pkt_seqno := 0\<rparr>"
  have hd: "parse_packet_header buf (Suc (length msg)) = (PBB_OKAY, ?ctx, 1)"
    using at(1,2) by (simp add: parse_packet_header_def pbb_get_u8_def pbb_get_pktversion_def opt_u16_def empty_pctx_def)
  from hello_message_received[OF at(3) assms(2-6), of ?st env "io_alloc io" ?ctx "io_junk io" m] rc s obtain ctx' cons' st1 m' where
    h: "handle_message (io_alloc io) buf (io_junk io) None ?ctx 1 (Suc (length msg)) (message_consumer (hello_reader_init env)) ?st m =
      Inr (PBB_OKAY, ctx', Suc (length msg), cons', st1, m')" and l: "linked env ?st st1 orig cs as"
    by (auto simp: empty_pctx_def PBB_MAX_ADDRLEN_def)
  have pos: "0 < length msg" by (simp add: assms(2) length_hello_message)
  have "messages_loop (io_alloc io) buf (io_junk io) None ?ctx 1 (Suc (length msg)) (message_consumer (hello_reader_init env)) ?st m =
      Inr (PBB_OKAY, ctx', cons', st1, m')"
    using pos by (subst messages_loop.simps) (simp add: h[unfolded One_nat_def] messages_loop.simps)
  then have "\<exists>r. pbb_reader_handle_packet (io_alloc io) (io_junk io) (hello_reader_init env) buf (Suc (length msg)) ?st m =
      Inr (PBB_OKAY, r, st1, m')"
    unfolding pbb_reader_handle_packet_def hd Let_def
    by (simp add: hello_reader_init_eq zero_consumer_def call_start_def empty_pctx_def free_tlvblock_def mem_free_def)
  moreover from rc obtain t' where "ntable_mutex_unlock (io_unlock io) (ntable (hs_bprd st1)) = Inr t'" "nlist t' = hs_nlist st1"
    using ntable_mutex_works(2) by blast
  moreover from this(2) have "linked env st (set_ntable t' st1) orig cs as"
    using l unfolding linked_def s by simp
  ultimately show ?thesis using t(1) by (auto simp: hello_recv_def)
qed

section \<open>Properties\<close>

lemma report_all_fold:
  "cs_addr cd \<notin> cs_addr ` set cds \<Longrightarrow> report_all cds M (cs_addr cd) = M (cs_addr cd)"
  unfolding report_all_def by (induction cds arbitrary: M) auto

lemma report_all_backlog:
  assumes "distinct (map cs_addr cds)" and "cd \<in> set cds"
  shows "\<exists>c. report_all cds M (cs_addr cd) = Some c \<and> cs_backlog (cdata c) = cs_backlog cd"
  using assms
proof (induction cds arbitrary: M)
  case (Cons x cds)
  let ?M = "M(cs_addr x \<mapsto> com_report x (M (cs_addr x)))"
  have r: "report_all (x # cds) M = report_all cds ?M" by (simp add: report_all_def)
  show ?case
  proof (cases "cd = x")
    case True
    with Cons.prems(1) report_all_fold[of x cds ?M] show ?thesis unfolding r
      by (simp add: com_report_def split: option.split)
  next
    case False
    then show ?thesis unfolding r by (intro Cons.IH) (use Cons.prems in auto)
  qed
qed simp

lemma hello_link_effect:
  fixes st :: "'m hw_st" and rst :: "'n hello_st"
  assumes "env_works env" and "bprd_ready alen (hw_bprd st)" and "hello_idle alen w" and "commodities_fit alen (hw_bprd st)"
    and "ns = fresh_neighbors env (hw_bprd st) (hw_tick st)" and "length (hello_msg env (hw_bprd st) alen ns) \<le> 509"
    and "receives renv io alen rst" and "length buf = 512"
    and "a = host_netaddr (hs_bprd rst) (take (unat alen) (hello_own env (hw_bprd st)))"
    and "heard \<longleftrightarrow> (\<exists>j<length ns. host_netaddr (hs_bprd rst) (take (unat alen) (na_addr (n_addr (ns ! j)))) =
      own_netaddr (saddr (hs_bprd rst)) (he_local renv (Suc (hs_tick rst) + j)))"
  shows "\<exists>w' st' d r buf' rst' m' n. hello_round env (w, st) = Inr (w', st') \<and>
    hw_sent st' = hw_sent st @ [(sockfd (hw_bprd st), take (unat (maddrlen (hw_bprd st))) (maddr (hw_bprd st)), d)] \<and>
    hello_reader_thread io (hello_reader_init renv) buf [Some d] rst m = Inr (r, buf', rst', m') \<and>
    hello_entry a (he_clk renv (hs_tick rst)) (map cdata (clist (hw_bprd st))) heard (nlist_map (hs_nlist rst) a) n \<and>
    nlist_map (hs_nlist rst') = (nlist_map (hs_nlist rst))(a \<mapsto> n) \<and> nlist_wf (hs_nlist rst') \<and>
    (distinct (map c_addr (clist (hw_bprd st))) \<longrightarrow> (\<forall>c\<in>set (clist (hw_bprd st)).
      \<exists>c'. clist_map (n_clist n) (c_addr c) = Some c' \<and> cs_backlog (cdata c') = cs_backlog (cdata c)))"
proof -
  let ?b = "hw_bprd st" let ?msg = "hello_msg env ?b alen ns" let ?buf = "put_bytes 0 (0 # ?msg) buf"
  let ?as = "map (\<lambda>n. (nbr_key alen n, na_prefix_len (n_addr n))) ns"
  from hello_round_effect[OF assms(1,2) refl assms(3-5)] assms(6) obtain w' st' where
    r: "hello_round env (w, st) = Inr (w', st')" "hw_sent st' = hw_sent st @ [hello_datagram env ?b alen ns]" by auto
  have an: "announceable alen ns" unfolding assms(5) using assms(2) by (auto simp: bprd_ready_def intro: fresh_announceable)
  have o: "length (take (unat alen) (hello_own env ?b)) = unat alen"
    using an length_hello_own[OF assms(1,2)] by (simp add: announceable_def)
  have as: "\<forall>a\<in>set ?as. length (fst a) = unat alen" using an by (auto simp: announceable_def)
  have cs: "\<forall>c\<in>set (clist ?b). netaddr_wf (c_addr c)" using assms(2) by (simp add: bprd_ready_def)
  have "length (0 # ?msg) \<le> length buf" using assms(6,8) by simp
  then have at: "bytes_at ?buf 0 (0 # ?msg)" unfolding bytes_at_sub by simp
  have m: "?msg = hello_message alen (take (unat alen) (hello_own env ?b)) (hello_seqno ?b) (map (com_tlv env) (clist ?b)) ?as"
    by (simp add: hello_msg_def hello_tlvs_def)
  have s: "length ?msg < 65536" using assms(6) by simp
  from hello_packet_received[OF at m o as cs s assms(7), of m] obtain rr rst' m' where
    h: "hello_recv io (hello_reader_init renv) ?buf (Suc (length ?msg)) rst m = Inr (rr, rst', m')"
    and l: "linked renv rst rst' (take (unat alen) (hello_own env ?b)) (clist ?b) ?as" by blast
  have t: "hello_reader_thread io (hello_reader_init renv) buf [Some (0 # ?msg)] rst m = Inr (rr, ?buf, rst', m')"
    using assms(6) h by simp
  have hd: "heard \<longleftrightarrow> (\<exists>j<length ?as. host_netaddr (hs_bprd rst) (fst (?as ! j)) =
      own_netaddr (saddr (hs_bprd rst)) (he_local renv (Suc (hs_tick rst) + j)))"
    unfolding assms(10) by (simp cong: conj_cong)
  from l obtain n where
    n: "hello_entry a (he_clk renv (hs_tick rst)) (map cdata (clist ?b)) heard (nlist_map (hs_nlist rst) a) n"
      "nlist_map (hs_nlist rst') = (nlist_map (hs_nlist rst))(a \<mapsto> n)"
    unfolding linked_def hd assms(9) by blast
  have wf: "nlist_wf (hs_nlist rst')" using l unfolding linked_def by blast
  have "\<exists>c'. clist_map (n_clist n) (c_addr c) = Some c' \<and> cs_backlog (cdata c') = cs_backlog (cdata c)"
    if "distinct (map c_addr (clist ?b))" "c \<in> set (clist ?b)" for c
  proof -
    have e: "clist_map (n_clist n) = report_all (map cdata (clist ?b))
        (case nlist_map (hs_nlist rst) a of None \<Rightarrow> Map.empty | Some o' \<Rightarrow> clist_map (n_clist o'))"
      using n(1) unfolding hello_entry_def by blast
    show ?thesis unfolding e by (rule report_all_backlog) (use that in \<open>auto simp: o_def\<close>)
  qed
  with r n t wf show ?thesis unfolding hello_datagram_def by blast
qed

text \<open>C1: Two daemons on one link: the datagram that a round of the sender's hello thread emits, received by
  the other daemon's reader thread, changes the receiver's neighbor table at the sender's address and
  nowhere else. The entry there gets the time of reception, the sender's backlog of every commodity it
  announced, and it becomes bidirectional exactly if the receiver was among the sender's live neighbors or
  the link already was bidirectional. Both daemons use addresses of the same length, allocations, mutex and
  \<open>sendto\<close> succeed, and the message fits the datagram with all commodities.\<close>

theorem hello_links_daemons:
  fixes st :: "'m hw_st" and rst :: "'n hello_st"
  assumes "env_works env" and "bprd_ready alen (hw_bprd st)" and "hello_idle alen w" and "commodities_fit alen (hw_bprd st)"
    and "ns = fresh_neighbors env (hw_bprd st) (hw_tick st)" and "length (hello_msg env (hw_bprd st) alen ns) \<le> 509"
    and "receives renv io alen rst" and "length buf = 512"
    and "a = host_netaddr (hs_bprd rst) (take (unat alen) (hello_own env (hw_bprd st)))"
    and "heard \<longleftrightarrow> (\<exists>j<length ns. host_netaddr (hs_bprd rst) (take (unat alen) (na_addr (n_addr (ns ! j)))) =
      own_netaddr (saddr (hs_bprd rst)) (he_local renv (Suc (hs_tick rst) + j)))"
  shows "\<exists>w' st' d r buf' rst' m' n. hello_round env (w, st) = Inr (w', st') \<and>
    hw_sent st' = hw_sent st @ [(sockfd (hw_bprd st), take (unat (maddrlen (hw_bprd st))) (maddr (hw_bprd st)), d)] \<and>
    hello_reader_thread io (hello_reader_init renv) buf [Some d] rst m = Inr (r, buf', rst', m') \<and>
    hello_entry a (he_clk renv (hs_tick rst)) (map cdata (clist (hw_bprd st))) heard (nlist_map (hs_nlist rst) a) n \<and>
    nlist_map (hs_nlist rst') = (nlist_map (hs_nlist rst))(a \<mapsto> n) \<and>
    (distinct (map c_addr (clist (hw_bprd st))) \<longrightarrow> (\<forall>c\<in>set (clist (hw_bprd st)).
      \<exists>c'. clist_map (n_clist n) (c_addr c) = Some c' \<and> cs_backlog (cdata c') = cs_backlog (cdata c)))"
  using hello_link_effect[OF assms] by blast

theorem hello_links_daemons_witness:
  "\<exists>w w' st' d r buf' rst' m' n. hello_idle 4 w \<and> hello_round send_env (w, send_st 1) = Inr (w', st') \<and>
    hw_sent st' = [(4, [9, 9], d)] \<and>
    hello_reader_thread hello_sample_io (hello_reader_init hello_sample_env) (replicate 512 0) [Some d]
      (hello_sample_st\<lparr>hs_bprd := hello_sample_bprd\<lparr>saddr := [2, 0, 0, 0, 10, 0, 0, 2] @ replicate 8 0\<rparr>\<rparr>)
      \<lparr>calls = 0, live = 0\<rparr> = Inr (r, buf', rst', m') \<and>
    nlist_map (hs_nlist rst') (ipv4 [10, 0, 0, 1]) = Some n \<and> bidir n = 1 \<and>
    (\<exists>c. clist_map (n_clist n) (ipv4 [10, 0, 0, 9]) = Some c \<and> cs_backlog (cdata c) = 7)"
proof -
  let ?rst = "hello_sample_st\<lparr>hs_bprd := hello_sample_bprd\<lparr>saddr := [2, 0, 0, 0, 10, 0, 0, 2] @ replicate 8 0\<rparr>\<rparr>"
  let ?ns = "fresh_neighbors send_env (hw_bprd (send_st 1)) (hw_tick (send_st 1))"
  let ?heard = "\<exists>j<length ?ns. host_netaddr (hs_bprd ?rst) (take (unat (4 :: u8)) (na_addr (n_addr (?ns ! j)))) =
    own_netaddr (saddr (hs_bprd ?rst)) (he_local hello_sample_env (Suc (hs_tick ?rst) + j))"
  let ?a = "host_netaddr (hs_bprd ?rst) (take (unat (4 :: u8)) (hello_own send_env (hw_bprd (send_st 1))))"
  obtain w where w: "hello_idle 4 w" using send_idle by blast
  have b: "bprd_ready 4 (hw_bprd (send_st 1))" using send_ready(2) by (simp add: send_st_def)
  have l: "length (hello_msg send_env (hw_bprd (send_st 1)) 4 ?ns) \<le> 509" and c: "commodities_fit 4 (hw_bprd (send_st 1))"
    and h: ?heard and a: "?a = ipv4 [10, 0, 0, 1]" and cl: "clist (hw_bprd (send_st 1)) = [mk_commodity (ipv4 [10, 0, 0, 9]) 7 0 0 None]"
    and s: "hw_sent (send_st 1) = []" "sockfd (hw_bprd (send_st 1)) = 4"
      "take (unat (maddrlen (hw_bprd (send_st 1)))) (maddr (hw_bprd (send_st 1))) = [9, 9]"
    by code_simp+
  have rv: "receives hello_sample_env hello_sample_io 4 ?rst"
    by (simp add: receives_def hello_addr_len_def hello_sample_st_def hello_sample_bprd_def hello_sample_env_def
        hello_sample_io_def nlist_wf_def)
  have buf: "length (replicate 512 (0 :: u8)) = 512" by simp
  from hello_links_daemons[OF send_env_works b w c refl l rv buf refl refl, of "\<lparr>calls = 0, live = 0\<rparr>"] obtain w' st' d r buf' rst' m' n where
    t: "hello_round send_env (w, send_st 1) = Inr (w', st')" "hw_sent st' = [(4, [9, 9], d)]"
      "hello_reader_thread hello_sample_io (hello_reader_init hello_sample_env) (replicate 512 0) [Some d] ?rst
        \<lparr>calls = 0, live = 0\<rparr> = Inr (r, buf', rst', m')"
    and e: "hello_entry ?a (he_clk hello_sample_env (hs_tick ?rst)) (map cdata (clist (hw_bprd (send_st 1)))) ?heard
      (nlist_map (hs_nlist ?rst) ?a) n"
    and n: "nlist_map (hs_nlist rst') = (nlist_map (hs_nlist ?rst))(?a \<mapsto> n)"
    and q: "\<exists>c'. clist_map (n_clist n) (ipv4 [10, 0, 0, 9]) = Some c' \<and> cs_backlog (cdata c') = 7"
    unfolding s cl by (auto simp: mk_commodity_def)
  have "bidir n = 1" using e h unfolding hello_entry_def by simp
  moreover have "nlist_map (hs_nlist rst') (ipv4 [10, 0, 0, 1]) = Some n" unfolding n a by simp
  ultimately show ?thesis using w t q by blast
qed

end
