(* ===== verification/HelloPressure.thy ===== *)
theory HelloPressure
  imports HelloLink Router Backlogger
begin

text \<open>
  From the hello of one daemon to the back pressure of the next: what a received hello makes of the
  differentials of the receiver.
\<close>

section \<open>The update with one neighbor\<close>

lemma list_all2_get2: "list_all2 P xs ys \<Longrightarrow> x \<in> set xs \<Longrightarrow> \<exists>y\<in>set ys. P x y"
  by (induction rule: list_all2_induct) auto

lemma clist_map_diffs:
  "clist_map (n_clist (set_diffs own n)) k = map_option (\<lambda>c. c\<lparr>backdiff := diff_to own c\<rparr>) (clist_map (n_clist n) k)"
proof -
  have "klookup c_addr (map (\<lambda>c. c\<lparr>backdiff := diff_to own c\<rparr>) l) k =
      map_option (\<lambda>c. c\<lparr>backdiff := diff_to own c\<rparr>) (klookup c_addr l k)" for l
    by (induction l) simp_all
  then show ?thesis by (simp add: set_diffs_def clist_map_def)
qed

lemma one_neighbor_update:
  assumes "router_update nl lock unlock rnd u b k = Inr (b', ops, k')" and "nlist (ntable b) = [n]"
    and "clist_wf (clist b)" and "c \<in> set (clist b')" and "c_addr c \<noteq> own_netaddr (saddr b) u"
    and "clist_map (n_clist n) (c_addr c) = Some x"
  shows "unat (backdiff c) = (if bidir n = 0 then 0 else unat (cs_backlog (cdata c)) - unat (cs_backlog (cdata x)))"
    and "fifo_length (queue c) = Inr (cs_backlog (cdata c))"
proof -
  let ?naddr = "own_netaddr (saddr b) u"
  obtain own where own: "update_backlogs (clist b) = Inr own" and ns: "nlist (ntable b') = [set_diffs own n]"
    and rc: "route_commodities nl rnd u ?naddr (word_of_int (ipver b)) (if_index b) [set_diffs own n] own k = Inr (clist b', ops, k')"
    using assms(1) unfolding assms(2) by (rule router_update_cases) (simp add: assms(2))
  have o: "own = map (\<lambda>c. c\<lparr>cdata := (cdata c)\<lparr>cs_backlog := own_backlog c\<rparr>\<rparr>) (clist b)"
    and q: "\<forall>c\<in>set (clist b). queue c \<noteq> None" using own by (simp_all add: update_backlogs_iff)
  have d: "distinct (map c_addr own)" using assms(3) by (simp add: o clist_wf_def o_def)
  obtain hops where hops: "list_all2 (hop_ok ?naddr [set_diffs own n]) (clist b') hops"
    and l2: "list_all2 (\<lambda>c c'. \<exists>d. c' = c\<lparr>backdiff := d\<rparr>) own (clist b')"
    using route_commodities_spec[OF rc] by blast
  obtain hop where "hop_ok ?naddr [set_diffs own n] c hop" using list_all2_get2[OF hops assms(4)] by blast
  then have hop: "best_hop c [set_diffs own n] hop (backdiff c)" using assms(5) by (simp add: hop_ok_def)
  obtain m e where m: "m \<in> set own" "c = m\<lparr>backdiff := e\<rparr>" using list_all2_set2[OF l2 assms(4)] by blast
  have x: "c_addr x = c_addr c" using assms(6) klookup_SomeD[of c_addr] by (simp add: clist_map_def)
  have "clist_map own (c_addr x) = Some m" using klookup_distinct[OF d m(1)] m(2) x by (simp add: clist_map_def)
  from unat_diff_to[OF this] have v: "unat (diff_to own x) = unat (cs_backlog (cdata c)) - unat (cs_backlog (cdata x))"
    using m(2) by simp
  have "hop_diff c (set_diffs own n) = diff_to own x" by (simp add: hop_diff_def clist_map_diffs assms(6))
  with hop v show "unat (backdiff c) = (if bidir n = 0 then 0 else unat (cs_backlog (cdata c)) - unat (cs_backlog (cdata x)))"
    by (auto simp: best_hop_def usable_def split: option.splits if_splits)
  show "fifo_length (queue c) = Inr (cs_backlog (cdata c))"
    using m q o by (auto simp: fifo_length_def own_backlog_def)
qed

section \<open>The neighbor table after one hello\<close>

lemma klookup_single:
  assumes "klookup key l = [k \<mapsto> x]" and "distinct (map key l)"
  shows "l = [x]"
proof -
  have "y = x" if "y \<in> set l" for y
    using klookup_distinct[OF assms(2) that] unfolding assms(1) by (simp split: if_splits)
  moreover have "x \<in> set l" using klookup_SomeD[of key l k x] by (simp add: assms(1))
  ultimately have "set l = {x}" by blast
  moreover have "distinct l" using assms(2) by (simp add: distinct_map)
  ultimately show ?thesis by (cases l; cases "tl l") auto
qed

section \<open>Properties\<close>

text \<open>C2: Back pressure over one hop. A neighbor whose allocations, mutex and \<open>sendto\<close> work sends a hello that fits
  the datagram with all its commodities. A daemon of the same address length, whose mutex and allocations work,
  hears it as its first neighbor, and then an update of its routes returns; both have one commodity per
  destination. Then the differential of every commodity that the neighbor announced and that is not for the daemon
  itself is the length of its own queue minus the neighbor's backlog, cut off at 0, if the neighbor has listed the
  daemon in its hello, and 0 otherwise.\<close>

theorem hello_makes_pressure:
  fixes st :: "'m hw_st" and rst :: "'n hello_st"
  assumes "env_works env" and "bprd_ready alen (hw_bprd st)" and "hello_idle alen w" and "commodities_fit alen (hw_bprd st)"
    and "ns = fresh_neighbors env (hw_bprd st) (hw_tick st)" and "length (hello_msg env (hw_bprd st) alen ns) \<le> 509"
    and "receives renv io alen rst" and "length buf = 512"
    and "heard \<longleftrightarrow> (\<exists>j<length ns. host_netaddr (hs_bprd rst) (take (unat alen) (na_addr (n_addr (ns ! j)))) =
      own_netaddr (saddr (hs_bprd rst)) (he_local renv (Suc (hs_tick rst) + j)))"
    and "hs_nlist rst = []" and "clist_wf (clist (hs_bprd rst))" and "clist_wf (clist (hw_bprd st))"
    and "hello_round env (w, st) = Inr (w', st')" and "hw_sent st' = hw_sent st @ [(fd, to, d)]"
    and "hello_reader_thread io (hello_reader_init renv) buf [Some d] rst m = Inr (r, buf', rst', m')"
    and "router_update nl lock unlock rnd u (hs_bprd rst') k = Inr (b', ops, k')"
    and "s \<in> set (clist (hw_bprd st))" and "c \<in> set (clist b')" and "c_addr c = c_addr s"
    and "c_addr c \<noteq> own_netaddr (saddr (hs_bprd rst)) u"
  shows "fifo_length (queue c) = Inr (cs_backlog (cdata c)) \<and>
    unat (backdiff c) = (if heard then unat (cs_backlog (cdata c)) - unat (cs_backlog (cdata s)) else 0)"
proof -
  let ?a = "host_netaddr (hs_bprd rst) (take (unat alen) (hello_own env (hw_bprd st)))"
  obtain n where e: "hello_entry ?a (he_clk renv (hs_tick rst)) (map cdata (clist (hw_bprd st))) heard (nlist_map (hs_nlist rst) ?a) n"
    and n: "nlist_map (hs_nlist rst') = (nlist_map (hs_nlist rst))(?a \<mapsto> n)" "nlist_wf (hs_nlist rst')"
    and x: "distinct (map c_addr (clist (hw_bprd st))) \<longrightarrow> (\<forall>c\<in>set (clist (hw_bprd st)).
      \<exists>c'. clist_map (n_clist n) (c_addr c) = Some c' \<and> cs_backlog (cdata c') = cs_backlog (cdata c))"
    using hello_link_effect[OF assms(1-8) refl assms(9), of m] assms(13-15) by auto
  have l: "hs_nlist rst' = [n]"
    using klookup_single[of n_addr "hs_nlist rst'" ?a n] n assms(10) by (simp add: nlist_map_def nlist_wf_def fun_eq_iff)
  have b: "bidir n = (if heard then 1 else 0)" using e assms(10) by (simp add: hello_entry_def nlist_map_def)
  obtain x' where x': "clist_map (n_clist n) (c_addr c) = Some x'" "cs_backlog (cdata x') = cs_backlog (cdata s)"
    using x assms(12,17) unfolding clist_wf_def assms(19) by blast
  obtain r1 where "hello_recv io (hello_reader_init renv) (put_bytes 0 (take 512 d) buf) (length (take 512 d)) rst m = Inr (r1, rst', m')"
    using assms(15) by (auto simp: Let_def rbind_Inr_iff)
  from hello_recv_inv[OF this hello_reader_init_ok] assms(10) obtain t where
    t: "hs_bprd rst' = (hs_bprd rst)\<lparr>ntable := t\<rparr>" by auto
  have wf: "clist_wf (clist (hs_bprd rst'))" and o: "c_addr c \<noteq> own_netaddr (saddr (hs_bprd rst')) u"
    using assms(11,20) by (simp_all add: t)
  from one_neighbor_update[OF assms(16) l wf assms(18) o x'(1)] show ?thesis by (simp add: b x'(2))
qed

text \<open>The daemon 10.0.0.1 has 7 packets for 10.0.0.9 and lists 10.0.0.2, which has 9.\<close>

definition pressure_st :: "unit hello_st" where
  "pressure_st = hello_sample_st\<lparr>hs_bprd := hello_sample_bprd\<lparr>saddr := [2, 0, 0, 0, 10, 0, 0, 2] @ replicate 8 0,
     clist := [mk_commodity (ipv4 [10, 0, 0, 9]) 0 0 1 (Some \<lparr>head = 0, tail = 9, qh = None\<rparr>)]\<rparr>\<rparr>"

definition pressure_heard :: "unit bprd" where
  "pressure_heard = (hs_bprd pressure_st)\<lparr>ntable := \<lparr>nlist = [\<lparr>n_addr = ipv4 [10, 0, 0, 1], bidir = 1,
     update_time = \<lparr>tv_sec = 0, tv_usec = 0\<rparr>, n_clist = [mk_commodity (ipv4 [10, 0, 0, 9]) 7 0 0 None]\<rparr>], mutex = ()\<rparr>\<rparr>"

definition pressure_datagram :: bytes where
  "pressure_datagram = 0 # hello_msg send_env (hw_bprd (send_st 1)) 4 (fresh_neighbors send_env (hw_bprd (send_st 1)) 0)"

lemma pressure_hear:
  "case hello_reader_thread hello_sample_io (hello_reader_init hello_sample_env) (replicate 512 0) [Some pressure_datagram] pressure_st
     \<lparr>calls = 0, live = 0\<rparr> of Inl _ \<Rightarrow> False | Inr (r, buf, st, m) \<Rightarrow> hs_bprd st = pressure_heard"
  by code_simp

lemma pressure_route:
  "case router_update sample_netlink (Pair 0) (Pair 0) (\<lambda>_. 0) sample_uninit pressure_heard 0 of
     Inl _ \<Rightarrow> False | Inr (b, ops, k) \<Rightarrow> clist b = [mk_commodity (ipv4 [10, 0, 0, 9]) 9 2 1 (Some \<lparr>head = 0, tail = 9, qh = None\<rparr>)]"
  by code_simp

theorem hello_makes_pressure_witness:
  "\<exists>w w' st' r buf' rst' m' b' ops k'. hello_round send_env (w, send_st 1) = Inr (w', st') \<and>
    hw_sent st' = [(4, [9, 9], pressure_datagram)] \<and>
    hello_reader_thread hello_sample_io (hello_reader_init hello_sample_env) (replicate 512 0) [Some pressure_datagram] pressure_st
      \<lparr>calls = 0, live = 0\<rparr> = Inr (r, buf', rst', m') \<and>
    router_update sample_netlink (Pair 0) (Pair 0) (\<lambda>_. 0) sample_uninit (hs_bprd rst') 0 = Inr (b', ops, k') \<and>
    (\<forall>c\<in>set (clist b'). fifo_length (queue c) = Inr 9 \<and> unat (backdiff c) = 2)"
proof -
  let ?ns = "fresh_neighbors send_env (hw_bprd (send_st 1)) (hw_tick (send_st 1))"
  let ?heard = "\<exists>j<length ?ns. host_netaddr (hs_bprd pressure_st) (take (unat (4 :: u8)) (na_addr (n_addr (?ns ! j)))) =
    own_netaddr (saddr (hs_bprd pressure_st)) (he_local hello_sample_env (Suc (hs_tick pressure_st) + j))"
  let ?s = "mk_commodity (ipv4 [10, 0, 0, 9]) 7 0 0 None"
  let ?c = "mk_commodity (ipv4 [10, 0, 0, 9]) 9 2 1 (Some \<lparr>head = 0, tail = 9, qh = None\<rparr>)"
  obtain w where w: "hello_idle 4 w" using send_idle by blast
  have b: "bprd_ready 4 (hw_bprd (send_st 1))" using send_ready(2) by (simp add: send_st_def)
  have l: "length (hello_msg send_env (hw_bprd (send_st 1)) 4 ?ns) \<le> 509" and f: "commodities_fit 4 (hw_bprd (send_st 1))" and h: ?heard
    and wf: "clist_wf (clist (hs_bprd pressure_st))" "clist_wf (clist (hw_bprd (send_st 1)))" and e: "hs_nlist pressure_st = []"
    and s: "sockfd (hw_bprd (send_st 1)) = 4" "take (unat (maddrlen (hw_bprd (send_st 1)))) (maddr (hw_bprd (send_st 1))) = [9, 9]"
      "hw_sent (send_st 1) = []" "hw_tick (send_st 1) = 0"
    and i: "?s \<in> set (clist (hw_bprd (send_st 1)))" and o: "c_addr ?c \<noteq> own_netaddr (saddr (hs_bprd pressure_st)) sample_uninit"
    by code_simp+
  have rv: "receives hello_sample_env hello_sample_io 4 pressure_st"
    by (simp add: receives_def hello_addr_len_def pressure_st_def hello_sample_st_def hello_sample_bprd_def hello_sample_env_def
        hello_sample_io_def nlist_wf_def)
  have buf: "length (replicate 512 (0 :: u8)) = 512" by simp
  have dg: "hello_datagram send_env (hw_bprd (send_st 1)) 4 ?ns = (4, [9, 9], pressure_datagram)"
    unfolding hello_datagram_def s pressure_datagram_def by (rule refl)
  from hello_round_effect[OF send_env_works b refl w f refl, unfolded if_P[OF l] dg] obtain w' st' where
    r: "hello_round send_env (w, send_st 1) = Inr (w', st')" "hw_sent st' = hw_sent (send_st 1) @ [(4, [9, 9], pressure_datagram)]"
    by blast
  obtain rd buf' rst' m' where t: "hello_reader_thread hello_sample_io (hello_reader_init hello_sample_env) (replicate 512 0)
      [Some pressure_datagram] pressure_st \<lparr>calls = 0, live = 0\<rparr> = Inr (rd, buf', rst', m')" "hs_bprd rst' = pressure_heard"
    using pressure_hear by (auto split: sum.splits)
  obtain b' ops k' where u: "router_update sample_netlink (Pair 0) (Pair 0) (\<lambda>_. 0) sample_uninit (hs_bprd rst') 0 = Inr (b', ops, k')"
    and c: "clist b' = [?c]" using pressure_route unfolding t(2) by (auto split: sum.splits)
  have "?c \<in> set (clist b')" "c_addr ?c = c_addr ?s" unfolding c by simp_all
  from hello_makes_pressure[OF send_env_works b w f refl l rv buf refl e wf r t(1) u i this o] h
  have "fifo_length (queue ?c) = Inr 9 \<and> unat (backdiff ?c) = 2" by simp
  with r t u c s(3) show ?thesis by auto
qed

end
