(* ===== verification/ShortHello.thy ===== *)
theory ShortHello
  imports HelloLink
begin

text \<open>
  What the unchecked conversion in \<open>hello_cons_msg_start\<close> does with originators that are shorter than the
  addresses of the daemon's IP version: each such hello can add a neighbor with an address of 16 zero bytes.
\<close>

section \<open>One hello with an originator of one byte\<close>

definition zeroed :: "netaddr \<Rightarrow> netaddr" where
  "zeroed a = a\<lparr>na_addr := replicate 16 0\<rparr>"

definition short_hello :: "u8 \<Rightarrow> bytes" where
  "short_hello x = [0, 1, 0x80, 0, 7, x, 0, 0]"

lemma hello_addr_short:
  assumes "ipver b \<in> {2, 10}"
  shows "hello_addr a b x 1 = zeroed a"
  using assms by (auto simp: hello_addr_def netaddr_from_binary_def zeroed_def Let_def)

lemma short_parsed:
  "\<exists>ctx. parse_message alloc (short_hello x @ rest) junk ctx0 1 8 m = Inr (PBB_OKAY, ctx, [], [], 8, m) \<and>
     msg_type ctx = 1 \<and> has_origaddr ctx \<and> addr_len ctx = 1"
  apply (simp add: short_hello_def parse_message_def parse_message_header_def read_origaddr_def opt_u8_def packet_run parse_addrblocks.simps)
  done

definition short_neighbor :: "hello_env \<Rightarrow> 'm hello_st \<Rightarrow> neighbor" where
  "short_neighbor env st = (new_neighbor (zeroed (he_heap env (calls (hs_mem st)))))\<lparr>update_time := he_clk env (hs_tick st)\<rparr>"

lemma short_start:
  fixes st :: "'m hello_st"
  assumes "ipver (hs_bprd st) \<in> {2, 10}" and "he_alloc env (calls (hs_mem st))"
    and "zeroed (u_addr (he_local env (hs_tick st))) \<notin> n_addr ` set (hs_nlist st)"
    and "ctx_type ctx = PBB_CONTEXT_MESSAGE" and "msg_type ctx = BPRD_MSG_TYPE_HELLO" and "has_origaddr ctx" and "addr_len ctx = 1"
  shows "\<exists>st'. hello_cons_msg_start env ctx st = Inr (PBB_OKAY, st') \<and>
    hs_bprd st' = (hs_bprd st)\<lparr>ntable := (ntable (hs_bprd st))\<lparr>nlist := short_neighbor env st # hs_nlist st\<rparr>\<rparr> \<and>
    hs_tick st' = Suc (hs_tick st) \<and> calls (hs_mem st') = Suc (calls (hs_mem st))"
proof -
  have "nlist_find (hs_nlist st) (new_neighbor (zeroed (u_addr (he_local env (hs_tick st))))) = None"
    using assms(3) by (simp add: nlist_find_None)
  then show ?thesis
    using assms(2,4-7) hello_addr_short[OF assms(1)]
    by (simp add: hello_cons_msg_start_def mem_alloc_def Let_def list_insert_def short_neighbor_def)
qed

lemma short_delivered:
  fixes st :: "'m hello_st"
  assumes "ipver (hs_bprd st) \<in> {2, 10}" and "he_alloc env (calls (hs_mem st))"
    and "zeroed (u_addr (he_local env (hs_tick st))) \<notin> n_addr ` set (hs_nlist st)"
    and "msg_type ctx = BPRD_MSG_TYPE_HELLO" and "has_origaddr ctx" and "addr_len ctx = 1"
  shows "\<exists>ms. deliver_message buf \<lparr>ms_ctx = ctx, ms_tlvs = [], ms_blocks = [],
      ms_cons = [hello_msg_cons env, hello_addr_cons env], ms_st = st\<rparr> = Inr (PBB_OKAY, ms) \<and>
    ms_cons ms = [hello_msg_cons env, hello_addr_cons env] \<and> ms_tlvs ms = [] \<and> ms_blocks ms = [] \<and>
    hs_bprd (ms_st ms) = (hs_bprd st)\<lparr>ntable := (ntable (hs_bprd st))\<lparr>nlist := short_neighbor env st # hs_nlist st\<rparr>\<rparr> \<and>
    hs_tick (ms_st ms) = Suc (hs_tick st) \<and> calls (hs_mem (ms_st ms)) = Suc (calls (hs_mem st))"
proof -
  let ?c = "ctx\<lparr>ctx_type := PBB_CONTEXT_MESSAGE\<rparr>"
  from short_start[OF assms(1-3), of ?c] assms(4-6) obtain st1 where
    s: "hello_cons_msg_start env ?c st = Inr (PBB_OKAY, st1)"
    and e: "hs_bprd st1 = (hs_bprd st)\<lparr>ntable := (ntable (hs_bprd st))\<lparr>nlist := short_neighbor env st # hs_nlist st\<rparr>\<rparr>"
      "hs_tick st1 = Suc (hs_tick st)" "calls (hs_mem st1) = Suc (calls (hs_mem st))" by auto
  have t: "schedule_msgtlv_consumer (hello_msg_cons env) buf ctx [] st = Inr (PBB_OKAY, ?c, [], hello_msg_cons env, st1)"
    using s by (simp add: schedule_msgtlv_consumer_def call_start_def schedule_plain[OF hello_cons_sel(6-8)] Let_def)
  have b: "schedule_msgaddr_consumer (hello_addr_cons env) buf ?c [] st1 =
      Inr (PBB_OKAY, ?c\<lparr>ctx_type := PBB_CONTEXT_ADDRESS\<rparr>, [], hello_addr_cons env, st1)"
    by (simp add: schedule_msgaddr_consumer_def)
  show ?thesis
    using hello_deliver_eq[OF t assms(4), of "[]"] assms(4) b e
    by (simp add: run_end_cbs_def schedule_end_message_cbs_def Let_def)
qed

lemma short_handled:
  fixes st :: "'m hello_st"
  assumes "ipver (hs_bprd st) \<in> {2, 10}" and "he_alloc env (calls (hs_mem st))"
    and "zeroed (u_addr (he_local env (hs_tick st))) \<notin> n_addr ` set (hs_nlist st)"
  shows "\<exists>st' m'. pbb_reader_handle_packet alloc junk (hello_reader_init env) (short_hello x @ rest) 8 st m =
      Inr (PBB_OKAY, hello_reader_init env, st', m') \<and>
    hs_bprd st' = (hs_bprd st)\<lparr>ntable := (ntable (hs_bprd st))\<lparr>nlist := short_neighbor env st # hs_nlist st\<rparr>\<rparr> \<and>
    hs_tick st' = Suc (hs_tick st) \<and> calls (hs_mem st') = Suc (calls (hs_mem st))"
proof -
  let ?buf = "short_hello x @ rest"
  let ?ctx = "empty_pctx\<lparr>pkt_version := 0, pkt_flags := 0, has_pktseqno := False, pkt_seqno := 0\<rparr>"
  have hd: "parse_packet_header ?buf 8 = (PBB_OKAY, ?ctx, 1)"
    by (simp add: short_hello_def parse_packet_header_def pbb_get_u8_def pbb_get_pktversion_def opt_u16_def empty_pctx_def)
  obtain ctx where p: "parse_message alloc ?buf junk ?ctx 1 8 m = Inr (PBB_OKAY, ctx, [], [], 8, m)"
    "msg_type ctx = 1" "has_origaddr ctx" "addr_len ctx = 1" using short_parsed by blast
  from short_delivered[OF assms p(2-4), of ?buf] obtain ms where
    d: "deliver_message ?buf \<lparr>ms_ctx = ctx, ms_tlvs = [], ms_blocks = [],
      ms_cons = [hello_msg_cons env, hello_addr_cons env], ms_st = st\<rparr> = Inr (PBB_OKAY, ms)"
    "ms_cons ms = [hello_msg_cons env, hello_addr_cons env]" "ms_tlvs ms = []" "ms_blocks ms = []"
    and e: "hs_bprd (ms_st ms) = (hs_bprd st)\<lparr>ntable := (ntable (hs_bprd st))\<lparr>nlist := short_neighbor env st # hs_nlist st\<rparr>\<rparr>"
      "hs_tick (ms_st ms) = Suc (hs_tick st)" "calls (hs_mem (ms_st ms)) = Suc (calls (hs_mem st))" by blast
  obtain ctx' m1 where h: "handle_message alloc ?buf junk None ?ctx 1 8 (message_consumer (hello_reader_init env)) st m =
      Inr (PBB_OKAY, ctx', 8, message_consumer (hello_reader_init env), ms_st ms, m1)"
    by (auto simp: handle_message_def p(1)[unfolded One_nat_def] hello_reader_init_eq d do_forward_def Let_def)
  have "messages_loop alloc ?buf junk None ?ctx 1 8 (message_consumer (hello_reader_init env)) st m =
      Inr (PBB_OKAY, ctx', message_consumer (hello_reader_init env), ms_st ms, m1)"
    by (subst messages_loop.simps) (simp add: h[unfolded One_nat_def] messages_loop.simps)
  then have "\<exists>m'. pbb_reader_handle_packet alloc junk (hello_reader_init env) ?buf 8 st m =
      Inr (PBB_OKAY, hello_reader_init env, ms_st ms, m')"
    unfolding pbb_reader_handle_packet_def hd Let_def
    by (simp add: hello_reader_init_eq zero_consumer_def call_start_def empty_pctx_def free_tlvblock_def mem_free_def)
  with e show ?thesis by blast
qed

lemma short_received:
  fixes st :: "'m hello_st"
  assumes "ipver (hs_bprd st) \<in> {2, 10}" and "he_alloc env (calls (hs_mem st))"
    and "zeroed (u_addr (he_local env (hs_tick st))) \<notin> n_addr ` set (hs_nlist st)"
    and "\<forall>m. 0 \<le> fst (io_lock io m)" and "\<forall>m. 0 \<le> fst (io_unlock io m)"
  shows "\<exists>st' m'. hello_recv io (hello_reader_init env) (short_hello x @ rest) 8 st m = Inr (hello_reader_init env, st', m') \<and>
    hs_nlist st' = short_neighbor env st # hs_nlist st \<and> ipver (hs_bprd st') = ipver (hs_bprd st) \<and>
    hs_tick st' = Suc (hs_tick st) \<and> calls (hs_mem st') = Suc (calls (hs_mem st))"
proof -
  from assms(4) obtain t where t: "ntable_mutex_lock (io_lock io) (ntable (hs_bprd st)) = Inr t" "nlist t = hs_nlist st"
    using ntable_mutex_works(1) by blast
  let ?st = "set_ntable t st"
  have s: "hs_nlist ?st = hs_nlist st" "hs_tick ?st = hs_tick st" "hs_mem ?st = hs_mem st" "ipver (hs_bprd ?st) = ipver (hs_bprd st)"
    "short_neighbor env ?st = short_neighbor env st"
    using t(2) by (simp_all add: set_ntable_def short_neighbor_def)
  from short_handled[of ?st env "io_alloc io" "io_junk io" x rest m] assms(1-3) s obtain st1 m1 where
    h: "pbb_reader_handle_packet (io_alloc io) (io_junk io) (hello_reader_init env) (short_hello x @ rest) 8 ?st m =
      Inr (PBB_OKAY, hello_reader_init env, st1, m1)"
      "hs_bprd st1 = (hs_bprd ?st)\<lparr>ntable := (ntable (hs_bprd ?st))\<lparr>nlist := short_neighbor env st # hs_nlist st\<rparr>\<rparr>"
      "hs_tick st1 = Suc (hs_tick st)" "calls (hs_mem st1) = Suc (calls (hs_mem st))" by auto
  from assms(5) obtain t' where u: "ntable_mutex_unlock (io_unlock io) (ntable (hs_bprd st1)) = Inr t'" "nlist t' = hs_nlist st1"
    using ntable_mutex_works(2) by blast
  have "hello_recv io (hello_reader_init env) (short_hello x @ rest) 8 st m = Inr (hello_reader_init env, set_ntable t' st1, m1)"
    using t(1) h(1) u(1) by (simp add: hello_recv_def)
  moreover have "hs_nlist (set_ntable t' st1) = short_neighbor env st # hs_nlist st" using u(2) h(2) by simp
  moreover have "ipver (hs_bprd (set_ntable t' st1)) = ipver (hs_bprd st)" using h(2) by simp
  moreover have "hs_tick (set_ntable t' st1) = Suc (hs_tick st)" "calls (hs_mem (set_ntable t' st1)) = Suc (calls (hs_mem st))"
    using h(3,4) by (simp_all add: set_ntable_def)
  ultimately show ?thesis by blast
qed

section \<open>Properties\<close>

text \<open>C37: Hellos with an originator of one byte pile up in the neighbor table: each of \<open>n\<close> such hellos adds a
  neighbor whose address is 16 zero bytes with the type and the prefix length that the fresh memory held,
  also when these neighbors are all equal, as long as the uninitialised variable that the table is searched
  with never holds the type and prefix length of one of them or of a neighbor of zero bytes that was there
  before (IPv4 or IPv6, mutex and allocations succeed).\<close>

theorem short_originators_pile_up:
  fixes st :: "'m hello_st"
  assumes "ipver (hs_bprd st) \<in> {2, 10}" and "length buf = 512"
    and "\<forall>k. he_alloc env k" and "\<forall>m. 0 \<le> fst (io_lock io m)" and "\<forall>m. 0 \<le> fst (io_unlock io m)"
    and "new = (\<lambda>j. (he_heap env j)\<lparr>na_addr := replicate 16 0\<rparr>)"
    and "\<forall>k. (u_addr (he_local env k))\<lparr>na_addr := replicate 16 0\<rparr> \<notin> range new \<union> n_addr ` set (hs_nlist st)"
  shows "\<exists>buf' st' m'. hello_reader_thread io (hello_reader_init env) buf (replicate n (Some [0, 1, 0x80, 0, 7, x, 0, 0])) st m =
      Inr (hello_reader_init env, buf', st', m') \<and>
    map n_addr (hs_nlist st') = rev (map new [calls (hs_mem st)..<calls (hs_mem st) + n]) @ map n_addr (hs_nlist st)"
  using assms(1,2,7)
proof (induction n arbitrary: st buf m)
  case (Suc n)
  let ?d = "[0, 1, 0x80, 0, 7, x, 0, 0]" and ?c = "calls (hs_mem st)"
  have pb: "put_bytes 0 ?d buf = short_hello x @ drop 8 buf"
    using Suc.prems(2) by (simp add: put_bytes_def short_hello_def eval_nat_numeral)
  from short_received[OF Suc.prems(1) spec[OF assms(3)] _ assms(4,5), of x "drop 8 buf" m] Suc.prems(3) obtain st1 m1 where
    r: "hello_recv io (hello_reader_init env) (short_hello x @ drop 8 buf) 8 st m = Inr (hello_reader_init env, st1, m1)"
      "hs_nlist st1 = short_neighbor env st # hs_nlist st" "ipver (hs_bprd st1) = ipver (hs_bprd st)"
      "calls (hs_mem st1) = Suc ?c"
    by (auto simp: zeroed_def)
  have e: "(8 :: nat) = Suc (Suc (Suc (Suc (Suc (Suc (Suc (Suc 0)))))))" by simp
  have n: "n_addr (short_neighbor env st) = new ?c" by (simp add: short_neighbor_def zeroed_def assms(6))
  have l: "length (short_hello x @ drop 8 buf) = 512" using Suc.prems(2) by (simp add: short_hello_def)
  have k: "\<forall>k. (u_addr (he_local env k))\<lparr>na_addr := replicate 16 0\<rparr> \<notin> range new \<union> n_addr ` set (hs_nlist st1)"
    using Suc.prems(3) by (auto simp: r(2) n)
  from Suc.IH[OF _ l k, of m1] Suc.prems(1) r(3) obtain buf' st' m' where
    t: "hello_reader_thread io (hello_reader_init env) (short_hello x @ drop 8 buf) (replicate n (Some ?d)) st1 m1 =
      Inr (hello_reader_init env, buf', st', m')"
      "map n_addr (hs_nlist st') = rev (map new [Suc ?c..<Suc ?c + n]) @ map n_addr (hs_nlist st1)"
    using r(4) by auto
  have "hello_reader_thread io (hello_reader_init env) buf (replicate (Suc n) (Some ?d)) st m = Inr (hello_reader_init env, buf', st', m')"
    using t(1)[unfolded e] r(1)[unfolded e] pb[unfolded e] by (simp add: Let_def)
  moreover have "[?c..<?c + Suc n] = ?c # [Suc ?c..<Suc ?c + n]" by (simp add: upt_conv_Cons)
  then have "map n_addr (hs_nlist st') = rev (map new [?c..<?c + Suc n]) @ map n_addr (hs_nlist st)"
    using t(2) by (simp add: r(2) n)
  ultimately show ?case by blast
qed auto

definition short_env :: hello_env where
  "short_env = hello_sample_env\<lparr>he_heap := \<lambda>_. \<lparr>na_addr = replicate 16 9, na_type = 7, na_prefix_len = 1\<rparr>\<rparr>"

theorem short_originators_pile_up_witness:
  "\<exists>buf' st' m'. hello_reader_thread hello_sample_io (hello_reader_init short_env) (replicate 512 0)
      [Some [0, 1, 0x80, 0, 7, 5, 0, 0], Some [0, 1, 0x80, 0, 7, 5, 0, 0]] hello_sample_st \<lparr>calls = 0, live = 0\<rparr> =
      Inr (hello_reader_init short_env, buf', st', m') \<and>
    map n_addr (hs_nlist st') = replicate 2 \<lparr>na_addr = replicate 16 0, na_type = 7, na_prefix_len = 1\<rparr>"
proof -
  let ?new = "\<lambda>j. (he_heap short_env j)\<lparr>na_addr := replicate 16 0\<rparr>"
  have e: "ipver (hs_bprd hello_sample_st) \<in> {2, 10}" "length (replicate 512 (0 :: u8)) = 512" "\<forall>k. he_alloc short_env k"
    "\<forall>m. 0 \<le> fst (io_lock hello_sample_io m)" "\<forall>m. 0 \<le> fst (io_unlock hello_sample_io m)"
    by (simp_all add: hello_sample_st_def hello_sample_bprd_def short_env_def hello_sample_env_def hello_sample_io_def)
  have k: "\<forall>k. (u_addr (he_local short_env k))\<lparr>na_addr := replicate 16 0\<rparr> \<notin> range ?new \<union> n_addr ` set (hs_nlist hello_sample_st)"
    by (auto simp: short_env_def hello_sample_env_def hello_sample_st_def hello_sample_bprd_def ipv4_def)
  have r: "replicate 2 x = [x, x]" for x :: 'z by (simp add: numeral_2_eq_2)
  have n: "hs_nlist hello_sample_st = []" "calls (hs_mem hello_sample_st) = 0" "[0..<0 + 2] = [0, 1]"
    by (simp_all add: hello_sample_st_def hello_sample_bprd_def upt_rec)
  from short_originators_pile_up[OF e refl k, of 2 5 "\<lparr>calls = 0, live = 0\<rparr>"] show ?thesis
    unfolding r n by (simp add: short_env_def)
qed

end
