(* ===== verification/Config.thy ===== *)
theory Config
  imports DaemonState PbbParse
begin

text \<open>
  \<open>src/bprd.c\<close>, \<open>create_commodity\<close> and \<open>confile_read\<close>: commodities from the command line and from the
  configuration file. Strings are C strings without their terminating null character; the file is a
  list of characters that may contain null characters. \<open>pton\<close> is \<open>inet_pton\<close>, \<open>alloc\<close> says which
  allocation succeeds, \<open>fopen\<close> gives the contents of the files that can be opened.
\<close>

section \<open>Commodity strings\<close>

text \<open>\<open>sscanf(buf, "%[^,],%u\n", addrstr, &nfq_id)\<close> with \<open>addrstr\<close> of 256 characters: the address part is
  written before anything after it is looked at. \<open>None\<close> are the results other than 2.\<close>

definition addrstr_size :: nat where "addrstr_size = 256"

definition scan_commodity :: "string \<Rightarrow> halt + (string \<times> u32) option" where
  "scan_commodity buf =
     (let addrstr = takeWhile (\<lambda>c. c \<noteq> CHR '','') buf; rest = dropWhile (\<lambda>c. c \<noteq> CHR '','') buf
      in if addrstr_size \<le> length addrstr then Inl OutOfBounds
         else if addrstr = [] \<or> rest = [] then Inr None
         else
           let t = dropWhile isspace (tl rest); (v, r) = strtoul t
           in if r = t then Inr None else Inr (Some (addrstr, of_nat v)))"

definition create_commodity ::
  "inet_pton \<Rightarrow> (nat \<Rightarrow> bool) \<Rightarrow> string \<Rightarrow> commodity list \<Rightarrow> mem \<Rightarrow> halt + commodity list \<times> mem" where
  "create_commodity pton alloc buf l m =
     rbind (scan_commodity buf) (\<lambda>r.
     case r of
       None \<Rightarrow> Inl (LogErr ''Error parsing commodity string'')
     | Some (addrstr, qid) \<Rightarrow>
         (case mem_alloc alloc m of
            (False, m) \<Rightarrow> Inl NullDeref
          | (True, m) \<Rightarrow>
              (case netaddr_from_string pton addrstr of
                 None \<Rightarrow> Inl (LogErr ''Unable to convert string to address'')
               | Some a \<Rightarrow>
                   if clist_find l (mk_commodity a 0 0 0 None) \<noteq> None then Inl (LogErr ''Duplicate commodity detected'')
                   else Inr (list_insert l (mk_commodity a 0 0 (ucast qid) None), m))))"

section \<open>The configuration file\<close>

text \<open>\<open>fgets\<close> into a buffer of \<open>Suc n\<close> characters: a line with its line feed, or as much of it as fits.\<close>

fun fgets :: "nat \<Rightarrow> string \<Rightarrow> string \<times> string" where
  "fgets 0 s = ([], s)"
| "fgets (Suc n) [] = ([], [])"
| "fgets (Suc n) (c # s) = (if c = CHR 0x0A then ([c], s) else (case fgets n s of (l, r) \<Rightarrow> (c # l, r)))"

lemma fgets_append: "fgets n s = (l, r) \<Longrightarrow> s = l @ r"
  by (induction n s arbitrary: l r rule: fgets.induct) (auto split: if_splits prod.splits)

lemma fgets_length: "fgets n s = (l, r) \<Longrightarrow> length l \<le> n"
  by (induction n s arbitrary: l r rule: fgets.induct) (auto split: if_splits prod.splits)

lemma fgets_progress: "fgets (Suc n) (c # s) = (l, r) \<Longrightarrow> length r < Suc (length s)"
  using fgets_append[of "Suc n" "c # s" l r] by (cases l) (auto split: if_splits prod.splits)

lemma fgets_progress_254: "(l, r) = fgets 254 (c # s) \<Longrightarrow> length r < Suc (length s)"
  using fgets_progress[of 253 c s l r] by simp

definition cstring :: "string \<Rightarrow> string" where
  "cstring buf = takeWhile (\<lambda>c. c \<noteq> CHR 0x00) buf"

lemma length_cstring: "length (cstring buf) \<le> length buf"
  unfolding cstring_def by (rule length_takeWhile_le)

definition config_line ::
  "inet_pton \<Rightarrow> (nat \<Rightarrow> bool) \<Rightarrow> string \<Rightarrow> commodity list \<Rightarrow> mem \<Rightarrow> halt + commodity list \<times> mem" where
  "config_line pton alloc buf l m =
     (if length (cstring buf) = 255 then Inl (LogErr ''Line in config file too long!'')
      else if hd buf = CHR ''#'' then Inr (l, m)
      else create_commodity pton alloc (cstring buf) l m)"

function config_lines ::
  "inet_pton \<Rightarrow> (nat \<Rightarrow> bool) \<Rightarrow> string \<Rightarrow> commodity list \<Rightarrow> mem \<Rightarrow> halt + commodity list \<times> mem" where
  "config_lines pton alloc [] l m = Inr (l, m)"
| "config_lines pton alloc (c # s) l m =
     (case fgets 254 (c # s) of
        (buf, rest) \<Rightarrow> rbind (config_line pton alloc buf l m) (\<lambda>(l, m). config_lines pton alloc rest l m))"
  by pat_completeness auto
termination
  by (relation "measure (\<lambda>(pton, alloc, s, l, m). length s)") (auto dest: fgets_progress_254)

declare config_lines.simps(2) [simp del]

text \<open>An opened file: its descriptor, its contents and whether reading it ends with an error.\<close>

record confile =
  cf_fileno :: int
  cf_text :: string
  cf_error :: bool

definition confile_read ::
  "(string \<Rightarrow> confile option) \<Rightarrow> inet_pton \<Rightarrow> (nat \<Rightarrow> bool) \<Rightarrow> string \<Rightarrow> commodity list \<Rightarrow> mem \<Rightarrow>
     halt + int \<times> commodity list \<times> mem" where
  "confile_read fopen pton alloc name l m =
     (case fopen name of
        None \<Rightarrow> Inr (-1, l, m)
      | Some f \<Rightarrow>
          if cf_fileno f < 0 then Inl (LogErr ''Config file not valid'')
          else
            rbind (config_lines pton alloc (cf_text f) l m) (\<lambda>(l, m).
              if cf_error f then Inl (LogErr ''Error while reading from config file'') else Inr (0, l, m)))"

section \<open>What a line gives\<close>

lemma digit_char_digit: "d < 10 \<Longrightarrow> isdigit (digit_char d) \<and> (of_char (digit_char d) :: nat) = 48 + d"
proof -
  have "\<forall>d\<in>set [0..<10]. isdigit (digit_char d) \<and> (of_char (digit_char d) :: nat) = 48 + d" by code_simp
  then show "d < 10 \<Longrightarrow> isdigit (digit_char d) \<and> (of_char (digit_char d) :: nat) = 48 + d" by simp
qed

lemma digits_val_snoc: "digits_val (ds @ [c]) = digits_val ds * 10 + (of_char c - 48)"
  by (simp add: digits_val_def)

lemma show_nat_digits: "(\<forall>c\<in>set (show_nat n). isdigit c) \<and> digits_val (show_nat n) = n \<and> show_nat n \<noteq> []"
proof (induction n rule: show_nat.induct)
  case (1 n)
  show ?case
  proof (cases "n < 10")
    case True
    with digit_char_digit[of n] show ?thesis by (simp add: show_nat.simps digits_val_def)
  next
    case False
    have u: "show_nat n = show_nat (n div 10) @ [digit_char (n mod 10)]" using False by (subst show_nat.simps) simp
    show ?thesis using 1[OF False] digit_char_digit[of "n mod 10"] unfolding u by (simp add: digits_val_snoc)
  qed
qed

lemma digit_not: "isdigit c \<Longrightarrow> c \<noteq> CHR ''-'' \<and> c \<noteq> CHR ''+'' \<and> \<not> isspace c \<and> c \<noteq> CHR 0x0A"
  by (auto simp: isdigit_def isspace_def)

lemma strtoul_show_nat:
  assumes "n < 2 ^ 64" and "r = [] \<or> \<not> isdigit (hd r)"
  shows "strtoul (show_nat n @ r) = (n, r)"
proof -
  obtain c ds where s: "show_nat n = c # ds" using show_nat_digits[of n] by (cases "show_nat n") auto
  then have c: "c \<noteq> CHR ''-''" "c \<noteq> CHR ''+''" using show_nat_digits[of n] digit_not[of c] by auto
  have "takeWhile isdigit r = []" "dropWhile isdigit r = r" using assms(2) by (cases r; auto)+
  then have "takeWhile isdigit (show_nat n @ r) = show_nat n" "dropWhile isdigit (show_nat n @ r) = r"
    using show_nat_digits[of n] by simp_all
  with assms(1) s c show_nat_digits[of n] show ?thesis by (simp add: strtoul_def Let_def)
qed

lemma scan_commodity_text:
  assumes "a \<noteq> []" and "CHR '','' \<notin> set a" and "length a < 256" and "n < 2 ^ 64"
  shows "scan_commodity (a @ CHR '','' # show_nat n @ [CHR 0x0A]) = Inr (Some (a, of_nat n))"
proof -
  have t: "takeWhile (\<lambda>c. c \<noteq> CHR '','') (a @ CHR '','' # x) = a" "dropWhile (\<lambda>c. c \<noteq> CHR '','') (a @ CHR '','' # x) = CHR '','' # x" for x
    using assms(2) by (induction a) auto
  obtain c ds where s: "show_nat n = c # ds" using show_nat_digits[of n] by (cases "show_nat n") auto
  then have sp: "\<not> isspace c" using show_nat_digits[of n] digit_not[of c] by auto
  with s have d: "dropWhile isspace (show_nat n @ [CHR 0x0A]) = show_nat n @ [CHR 0x0A]" by simp
  have "\<not> isdigit (CHR 0x0A)" by (simp add: isdigit_def)
  with assms(4) have "strtoul (show_nat n @ [CHR 0x0A]) = (n, [CHR 0x0A])" by (intro strtoul_show_nat) simp_all
  with assms(1,3) s sp show ?thesis by (simp add: scan_commodity_def t d addrstr_size_def Let_def)
qed

lemma scan_no_comma:
  assumes "CHR '','' \<notin> set buf" and "length buf < 256"
  shows "scan_commodity buf = Inr None"
proof -
  have t: "takeWhile (\<lambda>c. c \<noteq> CHR '','') buf = buf" "dropWhile (\<lambda>c. c \<noteq> CHR '','') buf = []"
    using assms(1) by (auto simp: takeWhile_eq_all_conv dropWhile_eq_Nil_conv)
  show ?thesis unfolding scan_commodity_def t Let_def using assms(2) by (simp add: addrstr_size_def)
qed

lemma fgets_line: "CHR 0x0A \<notin> set x \<Longrightarrow> length x < n \<Longrightarrow> fgets n (x @ CHR 0x0A # r) = (x @ [CHR 0x0A], r)"
proof (induction n arbitrary: x)
  case (Suc n)
  then show ?case by (cases x) auto
qed simp

lemma fgets_long: "CHR 0x0A \<notin> set x \<Longrightarrow> n \<le> length x \<Longrightarrow> fgets n (x @ r) = (take n x, drop n x @ r)"
proof (induction n arbitrary: x)
  case (Suc n)
  then show ?case by (cases x) auto
qed simp

section \<open>Files\<close>

text \<open>The lines that a configuration file is meant to have: comments and commodities.\<close>

datatype config_entry = Comment string | Entry string nat

fun entry_text :: "config_entry \<Rightarrow> string" where
  "entry_text (Comment c) = CHR ''#'' # c @ [CHR 0x0A]"
| "entry_text (Entry a n) = a @ CHR '','' # show_nat n @ [CHR 0x0A]"

fun entry_ok :: "config_entry \<Rightarrow> bool" where
  "entry_ok (Comment c) \<longleftrightarrow> CHR 0x0A \<notin> set c \<and> length c \<le> 252"
| "entry_ok (Entry a n) \<longleftrightarrow> a \<noteq> [] \<and> hd a \<noteq> CHR ''#'' \<and> set a \<inter> {CHR '','', CHR 0x0A, CHR 0x00} = {} \<and>
     length a + length (show_nat n) \<le> 252 \<and> n < 2 ^ 64"

text \<open>The commodities of a file; \<open>addr\<close> gives the addresses of the texts.\<close>

fun entry_commodities :: "(string \<Rightarrow> netaddr) \<Rightarrow> config_entry list \<Rightarrow> commodity list" where
  "entry_commodities addr [] = []"
| "entry_commodities addr (Comment c # es) = entry_commodities addr es"
| "entry_commodities addr (Entry a n # es) = mk_commodity (addr a) 0 0 (of_nat n) None # entry_commodities addr es"

lemma fgets_entry:
  assumes "entry_ok e"
  shows "fgets 254 (entry_text e @ r) = (entry_text e, r)"
proof (cases e)
  case (Comment c)
  then show ?thesis using fgets_line[of "CHR ''#'' # c" 254 r] assms by simp
next
  case (Entry a n)
  have "CHR 0x0A \<notin> set (show_nat n)" using show_nat_digits[of n] digit_not by blast
  then show ?thesis using fgets_line[of "a @ CHR '','' # show_nat n" 254 r] assms Entry by simp
qed

lemma create_commodity_entry:
  assumes "entry_ok (Entry a n)" and "netaddr_from_string pton a = Some x" and "x \<notin> c_addr ` set l" and "\<forall>k. alloc k"
  shows "\<exists>m'. create_commodity pton alloc (entry_text (Entry a n)) l m = Inr (mk_commodity x 0 0 (of_nat n) None # l, m')"
proof -
  have "scan_commodity (entry_text (Entry a n)) = Inr (Some (a, of_nat n))"
    using assms(1) scan_commodity_text[of a n] by auto
  moreover have "clist_find l (mk_commodity x 0 0 0 None) = None" using assms(3) by (simp add: clist_find_None)
  moreover have "(ucast (of_nat n :: u32) :: u16) = of_nat n"
    by (rule word_unat_eq_iff[THEN iffD2]) (simp add: unsigned_ucast_eq unat_of_nat take_bit_eq_mod mod_mod_cancel)
  ultimately show ?thesis using assms(2,4) by (simp add: create_commodity_def mem_alloc_def list_insert_def)
qed

lemma config_lines_entries:
  assumes "\<forall>e\<in>set es. entry_ok e" and "\<forall>a n. Entry a n \<in> set es \<longrightarrow> netaddr_from_string pton a = Some (addr a)"
    and "distinct (map c_addr (entry_commodities addr es @ l))" and "\<forall>k. alloc k"
  shows "\<exists>m'. config_lines pton alloc (concat (map entry_text es)) l m = Inr (rev (entry_commodities addr es) @ l, m')"
  using assms(1-3)
proof (induction es arbitrary: l m)
  case Nil
  then show ?case by simp
next
  case (Cons e es)
  have ok: "entry_ok e" using Cons.prems(1) by simp
  obtain c s where t: "entry_text e = c # s" by (cases "entry_text e"; cases e) auto
  have step: "config_lines pton alloc (concat (map entry_text (e # es))) l m =
      rbind (config_line pton alloc (entry_text e) l m) (\<lambda>(l, m). config_lines pton alloc (concat (map entry_text es)) l m)"
    using fgets_entry[OF ok, of "concat (map entry_text es)"] by (simp add: t config_lines.simps(2))
  show ?case
  proof (cases e)
    case (Comment x)
    have "length (entry_text e) \<le> 254" using ok Comment by simp
    then have "length (cstring (entry_text e)) \<noteq> 255" using length_cstring[of "entry_text e"] by linarith
    then have "config_line pton alloc (entry_text e) l m = Inr (l, m)" using Comment by (simp add: config_line_def)
    with step Cons.IH[of l m] Cons.prems Comment show ?thesis by simp
  next
    case (Entry a n)
    have z: "cstring (entry_text e) = entry_text e"
    proof -
      have "CHR 0x00 \<notin> set (show_nat n)" using show_nat_digits[of n] by (auto simp: isdigit_def)
      then show ?thesis using ok Entry by (auto simp: cstring_def takeWhile_eq_all_conv)
    qed
    have "hd (entry_text e) \<noteq> CHR ''#''" "length (entry_text e) \<noteq> 255" using ok Entry by auto
    moreover have "addr a \<notin> c_addr ` set l" using Cons.prems(3) Entry by auto
    with create_commodity_entry[of a n pton "addr a" l alloc m] ok Entry Cons.prems(2) assms(4) obtain m1 where
      "create_commodity pton alloc (entry_text e) l m = Inr (mk_commodity (addr a) 0 0 (of_nat n) None # l, m1)" by auto
    ultimately have "config_line pton alloc (entry_text e) l m = Inr (mk_commodity (addr a) 0 0 (of_nat n) None # l, m1)"
      by (simp add: config_line_def z)
    with step Cons.IH[of "mk_commodity (addr a) 0 0 (of_nat n) None # l" m1] Cons.prems Entry show ?thesis by auto
  qed
qed

section \<open>Properties\<close>

text \<open>C36: A configuration file that can be opened and read is loaded completely if all its lines end in a line
  feed, have at most 254 characters with it, and are comments or commodities \<open>ADDR,ID\<close> with an address text
  (without comma, NUL or leading \<open>#\<close>) that converts and a decimal number below \<open>2 ^ 64\<close>, if the addresses are
  different from each other and from those already there, and if the allocations succeed: every line \<open>ADDR,ID\<close>
  becomes a commodity with the address and the queue number of the line (modulo \<open>2 ^ 16\<close>), no backlog and no
  queue, and these come in reverse order before the commodities that were there.\<close>

theorem confile_loads_entries:
  assumes "fopen name = Some \<lparr>cf_fileno = fd, cf_text = concat (map entry_text es), cf_error = False\<rparr>" and "0 \<le> fd"
    and "\<forall>e\<in>set es. entry_ok e" and "\<forall>a n. Entry a n \<in> set es \<longrightarrow> netaddr_from_string pton a = Some (addr a)"
    and "distinct (map c_addr (entry_commodities addr es @ l))" and "\<forall>k. alloc k"
  shows "\<exists>m'. confile_read fopen pton alloc name l m = Inr (0, rev (entry_commodities addr es) @ l, m')"
  using config_lines_entries[OF assms(3-6), of m] assms(1,2) by (auto simp: confile_read_def)

definition sample_pton :: inet_pton where
  "sample_pton f s = (if f = AF_INET \<and> s = ''10.0.0.1'' then Some [10, 0, 0, 1]
     else if f = AF_INET \<and> s = ''10.0.0.2'' then Some [10, 0, 0, 2] else None)"

definition sample_es :: "config_entry list" where
  "sample_es = [Comment '' destinations'', Entry ''10.0.0.1'' 7, Entry ''10.0.0.2'' 8]"

lemma sample_entries: "netaddr_from_string sample_pton ''10.0.0.1'' = Some (ipv4 [10, 0, 0, 1])"
  "netaddr_from_string sample_pton ''10.0.0.2'' = Some (ipv4 [10, 0, 0, 2])"
  by code_simp+

lemma sample_es_ok: "\<forall>e\<in>set sample_es. entry_ok e"
  by (simp add: sample_es_def show_nat.simps)

theorem confile_loads_entries_witness:
  "\<exists>m'. confile_read [''/etc/bprd.conf'' \<mapsto> \<lparr>cf_fileno = 3, cf_text = concat (map entry_text sample_es), cf_error = False\<rparr>]
      sample_pton (\<lambda>_. True) ''/etc/bprd.conf'' [] \<lparr>calls = 0, live = 0\<rparr> =
    Inr (0, [mk_commodity (ipv4 [10, 0, 0, 2]) 0 0 8 None, mk_commodity (ipv4 [10, 0, 0, 1]) 0 0 7 None], m')"
proof -
  let ?addr = "\<lambda>a. if a = ''10.0.0.1'' then ipv4 [10, 0, 0, 1] else ipv4 [10, 0, 0, 2]"
  let ?f = "\<lparr>cf_fileno = 3, cf_text = concat (map entry_text sample_es), cf_error = False\<rparr>"
  have a: "\<forall>a n. Entry a n \<in> set sample_es \<longrightarrow> netaddr_from_string sample_pton a = Some (?addr a)"
    using sample_entries(1,2) by (auto simp: sample_es_def)
  have r: "rev (entry_commodities ?addr sample_es) @ [] =
      [mk_commodity (ipv4 [10, 0, 0, 2]) 0 0 8 None, mk_commodity (ipv4 [10, 0, 0, 1]) 0 0 7 None]"
    and d: "distinct (map c_addr (entry_commodities ?addr sample_es @ []))" by (simp_all add: sample_es_def)
  have o: "[''/etc/bprd.conf'' \<mapsto> ?f] ''/etc/bprd.conf'' = Some ?f" "(0 :: int) \<le> 3" "\<forall>k. (\<lambda>_ :: nat. True) k" by simp_all
  from confile_loads_entries[where fopen = "[''/etc/bprd.conf'' \<mapsto> ?f]" and name = "''/etc/bprd.conf''" and addr = ?addr
      and alloc = "\<lambda>_. True", OF o(1,2) sample_es_ok a d o(3), of "\<lparr>calls = 0, live = 0\<rparr>"] show ?thesis unfolding r .
qed

text \<open>The test for lines that are too long never fires: \<open>fgets\<close> delivers at most 254 characters. A comment
  of more than 254 characters is cut, and its second part is taken as a commodity, which ends the daemon
  unless it happens to look like one.\<close>

theorem long_comment_ends_daemon:
  assumes "set c \<inter> {CHR 0x0A, CHR 0x00, CHR '',''} = {}" and "254 \<le> length c" and "c ! 253 \<noteq> CHR ''#''"
  shows "config_lines pton alloc (CHR ''#'' # c @ CHR 0x0A # rest) l m = Inl (LogErr ''Error parsing commodity string'')"
proof -
  let ?d = "drop 253 c"
  have d: "?d \<noteq> []" "hd ?d = c ! 253" using assms(2) by (simp_all add: hd_drop_conv_nth)
  have "fgets 254 (CHR ''#'' # c @ CHR 0x0A # rest) = (take 254 (CHR ''#'' # c), ?d @ CHR 0x0A # rest)"
    using fgets_long[of "CHR ''#'' # c" 254 "CHR 0x0A # rest"] assms(1,2) by simp
  moreover have "config_line pton alloc (take 254 (CHR ''#'' # c)) l m = Inr (l, m)"
    using length_cstring[of "take 254 (CHR ''#'' # c)"] assms(2) by (auto simp: config_line_def)
  ultimately have step: "config_lines pton alloc (CHR ''#'' # c @ CHR 0x0A # rest) l m =
      config_lines pton alloc (?d @ CHR 0x0A # rest) l m" by (simp add: config_lines.simps(2))
  have nl: "CHR 0x0A \<notin> set ?d" using assms(1) by (auto dest: in_set_dropD)
  obtain buf r where f: "fgets 254 (?d @ CHR 0x0A # rest) = (buf, r)" by (metis surj_pair)
  have b: "buf \<noteq> [] \<and> hd buf = hd ?d \<and> set buf \<subseteq> insert (CHR 0x0A) (set ?d)"
  proof (cases "length ?d < 254")
    case True
    then show ?thesis using f fgets_line[OF nl, of 254 rest] d(1) by auto
  next
    case False
    then show ?thesis using f fgets_long[OF nl, of 254 "CHR 0x0A # rest"] d(1) by (auto dest: in_set_takeD)
  qed
  then have n: "CHR 0x00 \<notin> set buf" "CHR '','' \<notin> set buf" using assms(1) by (auto dest: in_set_dropD)
  have l: "length buf \<le> 254" by (rule fgets_length[OF f])
  have "cstring buf = buf" using n(1) by (auto simp: cstring_def takeWhile_eq_all_conv)
  moreover have "scan_commodity buf = Inr None" using n(2) l by (intro scan_no_comma) simp_all
  ultimately have "config_line pton alloc buf l m = Inl (LogErr ''Error parsing commodity string'')"
    using b d(2) assms(3) l by (simp add: config_line_def create_commodity_def)
  with f have "config_lines pton alloc (?d @ CHR 0x0A # rest) l m = Inl (LogErr ''Error parsing commodity string'')"
    using d(1) by (cases ?d) (simp_all add: config_lines.simps(2))
  with step show ?thesis by simp
qed

theorem long_comment_ends_daemon_witness:
  "config_lines sample_pton (\<lambda>_. True) (CHR ''#'' # replicate 254 CHR ''-'' @ [CHR 0x0A]) [] \<lparr>calls = 0, live = 0\<rparr> =
     Inl (LogErr ''Error parsing commodity string'')"
  using long_comment_ends_daemon[of "replicate 254 CHR ''-''" sample_pton "\<lambda>_. True" "[]" "[]"] by (simp del: replicate.simps)

end
