(* ===== verification/Process.thy ===== *)
theory Process
  imports Router Backlogger
begin

text \<open>
  The daemon as a process: \<open>src/logger.c\<close> (messages to the system log, and the end of the process on an error),
  \<open>src/pidfile.c\<close> (the file with the process number) and \<open>src/daemonizer.c\<close> (the way into the background
  and the handler of \<open>SIGTERM\<close>). The system calls are parameters: an environment says which of them fail.
\<close>

section \<open>Logging\<close>

definition LOGGER_MSGSTRLEN :: nat where "LOGGER_MSGSTRLEN = 256"
definition LOG_ERR :: u32 where "LOG_ERR = 3"
definition LOG_WARNING :: u32 where "LOG_WARNING = 4"

definition LOG_PRI :: "u32 \<Rightarrow> nat" where
  "LOG_PRI priority = unat (priority AND 7)"

definition logger_prioritynames :: "string list" where
  "logger_prioritynames = [''EMERG'', ''ALERT'', ''CRTCL'', ''ERROR'', ''WRNNG'', ''NOTCE'', ''INFO'', ''DEBUG'']"

text \<open>The message is given as \<open>vsnprintf\<close> expands it. The result: the calls of \<open>syslog\<close>, and whether the
  process ends in the function. The message buffer is overwritten by every call.\<close>

definition newline :: string where "newline = [CHR 0x0A]"

definition logger_log :: "u32 \<Rightarrow> string option \<Rightarrow> nat \<Rightarrow> string \<Rightarrow> (u32 \<times> string) list \<times> bool" where
  "logger_log priority file line body =
     (let name = logger_prioritynames ! LOG_PRI priority;
          (n, msgstr) =
            (case file of
               Some f \<Rightarrow> snprintf LOGGER_MSGSTRLEN (name @ '' '' @ f @ '':'' @ show_nat line @ '' '')
             | None \<Rightarrow> snprintf LOGGER_MSGSTRLEN (name @ '' ''));
          (m, msgstr) =
            (if n < int LOGGER_MSGSTRLEN
             then let (m, rest) = snprintf (LOGGER_MSGSTRLEN - nat n) body in (m, msgstr @ rest)
             else (0, msgstr));
          out =
            (if n + m < int LOGGER_MSGSTRLEN then [(priority, msgstr @ newline)]
             else
               [(priority, take (LOGGER_MSGSTRLEN - 1) msgstr @ newline),
                (LOG_WARNING, logger_prioritynames ! unat LOG_WARNING @ '' '' @ fmt_str file @ '':'' @ show_nat line @
                   '' Previous log message truncated due to length'' @ newline)])
      in (out, LOG_PRI priority = unat LOG_ERR))"

definition BPRD_LOG_ERR :: "string \<Rightarrow> nat \<Rightarrow> string \<Rightarrow> (u32 \<times> string) list \<times> bool" where
  "BPRD_LOG_ERR file line body = logger_log LOG_ERR (Some file) line body"

section \<open>The pidfile\<close>

text \<open>Files by absolute path. The working directory is written with the slash at its end, so that a relative
  path is appended to it. \<open>pr_fds\<close> are the descriptors that the process was started with and still has open;
  those it opens itself are not among them.\<close>

record proc =
  pr_files :: "string \<Rightarrow> string option"
  pr_cwd :: string
  pr_pathname :: string
  pr_fds :: "nat list"
  pr_umask :: nat
  pr_hup_ignored :: bool
  pr_sigterm :: bool

record proc_env =
  pe_fork :: "nat \<Rightarrow> int"
  pe_setsid :: int
  pe_sigaction :: int
  pe_getpid :: nat
  pe_open_fails :: bool
  pe_write_fails :: bool
  pe_close_fails :: bool
  pe_unlink_fails :: bool
  pe_chdir_fails :: bool

definition absolute :: "string \<Rightarrow> bool" where
  "absolute path \<longleftrightarrow> path \<noteq> [] \<and> hd path = CHR ''/''"

definition resolve :: "string \<Rightarrow> string \<Rightarrow> string" where
  "resolve cwd path = (if absolute path then path else cwd @ path)"

definition maxpidstrlen :: nat where "maxpidstrlen = 3 * 4 + 1"

definition pidfile_create :: "proc_env \<Rightarrow> string \<Rightarrow> proc \<Rightarrow> halt + int \<times> proc" where
  "pidfile_create env pathname p =
     (let file = resolve (pr_cwd p) pathname
      in if pe_open_fails env \<or> pr_files p file \<noteq> None then Inr (-1, p)
         else
           let p = p\<lparr>pr_files := (pr_files p)(file \<mapsto> [])\<rparr>;
               (buflen, buf) = snprintf maxpidstrlen (show_nat (pe_getpid env) @ newline)
           in if pe_write_fails env then Inr (-1, p)
              else if int maxpidstrlen < buflen then Inl OutOfBounds
              else
                let p = p\<lparr>pr_files := (pr_files p)(file \<mapsto> take (nat buflen) (buf @ [NUL]))\<rparr>
                in if pe_close_fails env then Inr (-1, p)
                   else
                     let (buflen, path) = snprintf PATH_MAX pathname; p = p\<lparr>pr_pathname := path\<rparr>
                     in if buflen = int PATH_MAX then Inr (-1, p) else Inr (0, p))"

definition pidfile_destroy :: "proc_env \<Rightarrow> proc \<Rightarrow> int \<times> proc" where
  "pidfile_destroy env p =
     (let file = resolve (pr_cwd p) (pr_pathname p)
      in if pe_unlink_fails env \<or> pr_files p file = None then (-1, p)
         else (0, p\<lparr>pr_files := (pr_files p)(file := None)\<rparr>))"

section \<open>The way into the background\<close>

text \<open>The result is the exit status.\<close>

definition daemon_handler_sigterm :: "proc_env \<Rightarrow> proc \<Rightarrow> (halt + int) \<times> proc" where
  "daemon_handler_sigterm env p =
     (let (r, p) = pidfile_destroy env p
      in if r < 0 then (Inl (LogErr ''Unable to destroy pidfile''), p) else (Inr 1, p))"

text \<open>\<open>None\<close>: this process is one of the parents, which leave with \<open>exit(0)\<close>. What follows \<open>BPRD_LOG_ERR\<close> in the
  error branch of \<open>sigaction\<close> is never reached.\<close>

definition daemon_create :: "proc_env \<Rightarrow> string \<Rightarrow> proc \<Rightarrow> (halt + int option) \<times> proc" where
  "daemon_create env pidfile p =
     (if pe_fork env 0 < 0 then (Inl (LogErr ''Unable to create interim daemon process''), p)
      else if 0 < pe_fork env 0 then (Inr None, p)
      else if pe_setsid env < 0 then (Inl (LogErr ''Unable to make interim daemon a process group leader''), p)
      else
        let p = p\<lparr>pr_hup_ignored := True\<rparr>
        in if pe_fork env 1 < 0 then (Inl (LogErr ''Unable to create daemon process''), p)
           else if 0 < pe_fork env 1 then (Inr None, p)
           else
             let p = p\<lparr>pr_umask := 0\<rparr>
             in case pidfile_create env pidfile p of
                 Inl e \<Rightarrow> (Inl e, p)
               | Inr (r, p) \<Rightarrow>
                   if r < 0 then (Inl (LogErr ''Unable to create pidfile''), p)
                   else if pe_sigaction env < 0 then (Inl (LogErr ''Unable to set up SIGTERM handler''), p)
                   else
                     let p = p\<lparr>pr_sigterm := True\<rparr>; p = (if pe_chdir_fails env then p else p\<lparr>pr_cwd := ''/''\<rparr>)
                     in (Inr (Some 0), p\<lparr>pr_fds := filter (\<lambda>fd. 2 < fd) (pr_fds p)\<rparr>))"

section \<open>Lengths\<close>

lemma length_show_nat: "n < 10 ^ k \<Longrightarrow> 0 < k \<Longrightarrow> length (show_nat n) \<le> k"
proof (induction k arbitrary: n)
  case (Suc k)
  show ?case
  proof (cases "n < 10")
    case False
    then have "k \<noteq> 0" using Suc.prems by (cases k) simp_all
    moreover have "n div 10 < 10 ^ k" using Suc.prems(1) by (simp add: div_less_iff_less_mult mult.commute)
    ultimately have "length (show_nat (n div 10)) \<le> k" by (intro Suc.IH) simp_all
    with False show ?thesis by (subst show_nat.simps) simp
  qed (simp add: show_nat.simps)
qed simp

text \<open>A process number is below \<open>2 ^ 31\<close>, so that the text fits.\<close>

lemma pid_text_fits:
  assumes "pid < 2 ^ 31"
  shows "snprintf maxpidstrlen (show_nat pid @ newline) = (int (length (show_nat pid @ newline)), show_nat pid @ newline)"
    and "length (show_nat pid @ newline) \<le> 11"
proof -
  have "length (show_nat pid) \<le> 10" using assms by (intro length_show_nat) simp_all
  then show "length (show_nat pid @ newline) \<le> 11" by (simp add: newline_def)
  with \<open>length (show_nat pid) \<le> 10\<close> show "snprintf maxpidstrlen (show_nat pid @ newline) = (int (length (show_nat pid @ newline)), show_nat pid @ newline)"
    by (simp add: snprintf_def maxpidstrlen_def newline_def)
qed

lemma pidfile_create_total:
  assumes "pe_getpid env < 2 ^ 31"
  shows "\<exists>r p'. pidfile_create env path p = Inr (r, p')"
  using pid_text_fits[OF assms] by (simp add: pidfile_create_def Let_def maxpidstrlen_def snprintf_def[of PATH_MAX])

lemma pidfile_create_ok:
  assumes "pidfile_create env path p = Inr (0, p')" and "pe_getpid env < 2 ^ 31"
  shows "p' = p\<lparr>pr_files := (pr_files p)(resolve (pr_cwd p) path \<mapsto> show_nat (pe_getpid env) @ newline),
      pr_pathname := take (PATH_MAX - 1) path\<rparr> \<and>
    pr_files p (resolve (pr_cwd p) path) = None"
  using assms(1) pid_text_fits[OF assms(2)]
  by (auto simp: pidfile_create_def Let_def maxpidstrlen_def snprintf_def[of PATH_MAX] split: if_splits)

lemma daemon_create_ok:
  assumes "daemon_create env path p = (Inr (Some r), p')" and "pe_getpid env < 2 ^ 31"
  shows "r = 0 \<and> p' = p\<lparr>pr_hup_ignored := True, pr_umask := 0,
      pr_files := (pr_files p)(resolve (pr_cwd p) path \<mapsto> show_nat (pe_getpid env) @ newline),
      pr_pathname := take (PATH_MAX - 1) path, pr_sigterm := True, pr_cwd := (if pe_chdir_fails env then pr_cwd p else ''/''),
      pr_fds := filter (\<lambda>fd. 2 < fd) (pr_fds p)\<rparr> \<and>
    pr_files p (resolve (pr_cwd p) path) = None"
proof -
  let ?p = "p\<lparr>pr_hup_ignored := True, pr_umask := 0\<rparr>"
  obtain s q where c: "pidfile_create env path ?p = Inr (s, q)" using pidfile_create_total[OF assms(2)] by blast
  have s: "s = 0 \<or> s = -1" using c by (auto simp: pidfile_create_def Let_def split: if_splits prod.splits)
  with assms(1) c have "s = 0" by (auto simp: daemon_create_def Let_def split: if_splits)
  with c have c: "pidfile_create env path ?p = Inr (0, q)" by simp
  note q = pidfile_create_ok[OF c assms(2)]
  show ?thesis using assms(1) c q
    by (auto simp: daemon_create_def Let_def split: if_splits)
qed

text \<open>A daemon with an absolute pidfile path shorter than \<open>PATH_MAX\<close> that has gone into the background has
  written its process number and a line feed to a new file, and has closed its standard descriptors; \<open>SIGTERM\<close>
  then removes exactly that file and ends the process with status 1.\<close>

lemma pidfile_lifecycle:
  assumes "daemon_create env path p = (Inr (Some r), p')" and "pe_getpid env < 2 ^ 31"
    and "absolute path" and "length path < PATH_MAX" and "\<not> pe_unlink_fails env"
  shows "r = 0 \<and> pr_files p' = (pr_files p)(path \<mapsto> show_nat (pe_getpid env) @ newline) \<and> {0, 1, 2} \<inter> set (pr_fds p') = {} \<and>
    daemon_handler_sigterm env p' = (Inr 1, p'\<lparr>pr_files := pr_files p\<rparr>)"
proof -
  have path: "take (PATH_MAX - 1) path = path" "resolve c path = path" for c
    using assms(3,4) by (simp_all add: resolve_def)
  note d = daemon_create_ok[OF assms(1,2)]
  have f: "(pr_files p)(path := None) = pr_files p" using d path by (simp add: fun_upd_idem)
  from d show ?thesis using assms(5) unfolding path
    by (auto simp: daemon_handler_sigterm_def pidfile_destroy_def path f Let_def)
qed

section \<open>Properties\<close>

text \<open>C34: A message reaches the system log with its priority, the name of the priority and the place it comes from, cut
  to the 255 characters of the buffer; a second message tells of a cut exactly when there was one; and the
  process ends exactly for the priority \<open>LOG_ERR\<close>, so that no call of \<open>BPRD_LOG_ERR\<close> returns.\<close>

theorem logger_log_message:
  "let text = logger_prioritynames ! LOG_PRI priority @ '' '' @
        (case file of Some f \<Rightarrow> f @ '':'' @ show_nat line @ '' '' | None \<Rightarrow> []) @ body;
       (out, exits) = logger_log priority file line body
   in hd out = (priority, take 255 text @ newline) \<and>
      map fst (tl out) = (if length text < 256 then [] else [LOG_WARNING]) \<and>
      (exits \<longleftrightarrow> priority AND 7 = LOG_ERR)"
proof -
  let ?name = "logger_prioritynames ! LOG_PRI priority"
  let ?pre = "?name @ '' '' @ (case file of Some f \<Rightarrow> f @ '':'' @ show_nat line @ '' '' | None \<Rightarrow> [])"
  have e: "LOG_PRI priority = unat LOG_ERR \<longleftrightarrow> priority AND 7 = LOG_ERR" by (simp add: LOG_PRI_def word_unat_eq_iff)
  have p: "(case file of Some f \<Rightarrow> snprintf LOGGER_MSGSTRLEN (?name @ '' '' @ f @ '':'' @ show_nat line @ '' '')
      | None \<Rightarrow> snprintf LOGGER_MSGSTRLEN (?name @ '' '')) = snprintf 256 ?pre"
    by (cases "file") (simp_all add: LOGGER_MSGSTRLEN_def)
  obtain pre where pre: "pre = ?pre" by simp
  have t: "?name @ '' '' @ (case file of Some f \<Rightarrow> f @ '':'' @ show_nat line @ '' '' | None \<Rightarrow> []) @ body = pre @ body"
    by (simp add: pre)
  show ?thesis unfolding t logger_log_def p pre[symmetric] e Let_def
    by (cases "length pre < 256") (auto simp: snprintf_def LOGGER_MSGSTRLEN_def nat_diff_distrib)
qed

definition sample_proc_env :: proc_env where
  "sample_proc_env = \<lparr>pe_fork = (\<lambda>_. 0), pe_setsid = 7, pe_sigaction = 0, pe_getpid = 42, pe_open_fails = False,
     pe_write_fails = False, pe_close_fails = False, pe_unlink_fails = False, pe_chdir_fails = False\<rparr>"

definition sample_proc :: proc where
  "sample_proc = \<lparr>pr_files = Map.empty, pr_cwd = ''/home/'', pr_pathname = [], pr_fds = [0, 1, 2, 3], pr_umask = 18,
     pr_hup_ignored = False, pr_sigterm = False\<rparr>"

lemma sample_daemon:
  "\<exists>p'. daemon_create sample_proc_env ''pid'' sample_proc = (Inr (Some 0), p')"
  "\<exists>p'. daemon_create sample_proc_env ''/var/run/bprd.pid'' sample_proc = (Inr (Some 0), p')"
  by (simp_all add: daemon_create_def sample_proc_env_def sample_proc_def pidfile_create_def snprintf_def PATH_MAX_def
      maxpidstrlen_def show_nat.simps newline_def)

text \<open>C35: A relative pidfile path is opened in the working directory of the start but removed in the root directory:
  unless a file of that name is there, \<open>SIGTERM\<close> leaves the pidfile and logs an error, and the next start
  fails because the file exists.\<close>

theorem relative_pidfile_stays:
  assumes "daemon_create env path p = (Inr (Some r), p')" and "pe_getpid env < 2 ^ 31"
    and "\<not> absolute path" and "path \<noteq> []" and "length path < PATH_MAX" and "\<not> pe_chdir_fails env"
    and "pr_cwd p \<noteq> ''/''" and "pr_files p (''/'' @ path) = None"
  shows "daemon_handler_sigterm env p' = (Inl (LogErr ''Unable to destroy pidfile''), p') \<and>
    pidfile_create env path (p'\<lparr>pr_cwd := pr_cwd p\<rparr>) = Inr (-1, p'\<lparr>pr_cwd := pr_cwd p\<rparr>)"
proof -
  have path: "take (PATH_MAX - 1) path = path" "resolve c path = c @ path" for c
    using assms(3,5) by (simp_all add: resolve_def)
  from daemon_create_ok[OF assms(1,2)] show ?thesis using assms(6-8) unfolding path
    by (auto simp: daemon_handler_sigterm_def pidfile_destroy_def pidfile_create_def path Let_def)
qed

theorem relative_pidfile_stays_witness:
  "\<exists>p'. daemon_create sample_proc_env ''pid'' sample_proc = (Inr (Some 0), p') \<and>
    daemon_handler_sigterm sample_proc_env p' = (Inl (LogErr ''Unable to destroy pidfile''), p')"
proof -
  obtain p' where d: "daemon_create sample_proc_env ''pid'' sample_proc = (Inr (Some 0), p')" using sample_daemon by blast
  have "pe_getpid sample_proc_env < 2 ^ 31" "\<not> absolute ''pid''" "''pid'' \<noteq> []" "length ''pid'' < PATH_MAX"
    "\<not> pe_chdir_fails sample_proc_env" "pr_cwd sample_proc \<noteq> ''/''" "pr_files sample_proc (''/'' @ ''pid'') = None"
    by (simp_all add: sample_proc_env_def sample_proc_def absolute_def PATH_MAX_def)
  from relative_pidfile_stays[OF d this] d show ?thesis by simp
qed

end
