(* ===== verification/DaemonInit.thy ===== *)
theory DaemonInit
  imports Config HelloWire Process
begin

text \<open>
  \<open>src/bprd.c\<close>: the options, the daemon's own and its multicast address, the socket. The instance \<open>bprd\<close> is
  split in two: the fields that the threads share are the record \<open>bprd\<close>, the others are here; a null
  \<open>saddr\<close> or \<open>maddr\<close> is the empty list of bytes, and the process that the instance runs in is kept beside it.
  The results of \<open>getopt_long_only\<close>, of the interface list, of \<open>if_nametoindex\<close> and of the socket calls are
  parameters; the option tables and the usage text are in the theory \<open>Console\<close>.
\<close>

section \<open>The instance\<close>

record 'm daemon =
  d_bprd :: "'m bprd"
  dmode :: int
  d_confile :: "string option"
  d_pidfile :: "string option"
  d_if_name :: "string option"
  d_proc :: proc

definition upd_bprd :: "('m bprd \<Rightarrow> 'm bprd) \<Rightarrow> 'm daemon \<Rightarrow> 'm daemon" where
  "upd_bprd f d = d\<lparr>d_bprd := f (d_bprd d)\<rparr>"

definition bprd0 :: "proc \<Rightarrow> 'm \<Rightarrow> 'm daemon" where
  "bprd0 p mu = \<lparr>d_bprd = \<lparr>ipver = 2, if_index = 0, sockfd = -1, saddr = [], saddrlen = 0, maddr = [], maddrlen = 0,
       hello_seqno = 0, hello_interval = 100 * 1000, release_interval = 100 * 1000, update_interval = 100 * 1000,
       neighbor_timeout = 100 * 5 * 1000, clist = [], ntable = \<lparr>nlist = [], mutex = mu\<rparr>\<rparr>,
     dmode = 0, d_confile = None, d_pidfile = None, d_if_name = None, d_proc = p\<rparr>"

record 'm init_env =
  ie_fopen :: "string \<Rightarrow> confile option"
  ie_pton :: inet_pton
  ie_alloc :: "nat \<Rightarrow> bool"
  ie_fresh :: "nat \<Rightarrow> nat \<Rightarrow> u8"
  ie_mutex_init :: "'m \<Rightarrow> int \<times> 'm"
  ie_lock :: "'m \<Rightarrow> int \<times> 'm"
  ie_unlock :: "'m \<Rightarrow> int \<times> 'm"
  ie_ifaddrs :: "(string option \<times> bytes option) list option"
  ie_nametoindex :: "string \<Rightarrow> u32"
  ie_penv :: proc_env
  ie_proc :: proc

section \<open>Addresses\<close>

definition sockaddr_size :: "int \<Rightarrow> u8" where
  "sockaddr_size ver = (if ver = 10 then 28 else 16)"

text \<open>The first address of the wanted family on the interface; the empty list when there is none.\<close>

fun find_primary ::
  "(nat \<Rightarrow> bool) \<Rightarrow> string \<Rightarrow> int \<Rightarrow> nat \<Rightarrow> (string option \<times> bytes option) list \<Rightarrow> mem \<Rightarrow> halt + bytes \<times> mem" where
  "find_primary alloc name ver len [] m = Inr ([], m)"
| "find_primary alloc name ver len ((n, a) # ifs) m =
     (if n = Some name
      then rbind (deref a) (\<lambda>a.
        if length a < 2 then Inl OutOfBounds
        else if uint (mk16 (a ! 1) (a ! 0)) = uint (word_of_int ver :: u8)
        then (case mem_alloc alloc m of
                (False, m) \<Rightarrow> Inl (LogErr ''Unable to allocate memory'')
              | (True, m) \<Rightarrow> if length a < len then Inl OutOfBounds else Inr (take len a, m))
        else find_primary alloc name ver len ifs m)
      else find_primary alloc name ver len ifs m)"

definition create_primary :: "'m init_env \<Rightarrow> string \<Rightarrow> 'm bprd \<Rightarrow> mem \<Rightarrow> halt + 'm bprd \<times> mem" where
  "create_primary env if_name b m =
     (let b = b\<lparr>saddrlen := sockaddr_size (ipver b)\<rparr>
      in case ie_ifaddrs env of
           None \<Rightarrow> Inl (LogErr ''Unable to get interface addresses'')
         | Some ifs \<Rightarrow>
             rbind (find_primary (ie_alloc env) if_name (ipver b) (unat (saddrlen b)) ifs m) (\<lambda>(a, m).
               Inr (if a = [] then b else b\<lparr>saddr := a\<rparr>, m)))"

definition MANET_LINKLOCAL_ROUTERS_V4 :: string where "MANET_LINKLOCAL_ROUTERS_V4 = ''224.0.0.109''"
definition MANET_LINKLOCAL_ROUTERS_V6 :: string where "MANET_LINKLOCAL_ROUTERS_V6 = ''FF02::6D''"

text \<open>\<open>IPPORT_MANET\<close> in network byte order, and an address family as the first two bytes of an address.\<close>

definition port_bytes :: bytes where "port_bytes = [hi8 (269 :: u16), lo8 (269 :: u16)]"

definition family_le :: "int \<Rightarrow> bytes" where
  "family_le ver = [lo8 (word_of_int ver :: u16), hi8 (word_of_int ver :: u16)]"

text \<open>\<open>memset\<close> clears as many bytes as the variable \<open>maddrlen\<close> has, which is one.\<close>

definition create_multicast :: "'m init_env \<Rightarrow> 'm bprd \<Rightarrow> mem \<Rightarrow> halt + 'm bprd \<times> mem" where
  "create_multicast env b m =
     (let b = b\<lparr>maddrlen := sockaddr_size (ipver b)\<rparr>
      in case mem_alloc (ie_alloc env) m of
           (False, m) \<Rightarrow> Inl (LogErr ''Unable to allocate memory'')
         | (True, m') \<Rightarrow>
             let a = map (ie_fresh env (calls m)) [0..<unat (maddrlen b)];
                 a = put_bytes 0 [0] a; a = put_bytes 0 (family_le (ipver b)) a;
                 (off, addr) = (if ipver b = 10 then (8, ie_pton env AF_INET6 MANET_LINKLOCAL_ROUTERS_V6)
                                else (4, ie_pton env AF_INET MANET_LINKLOCAL_ROUTERS_V4));
                 a = (case addr of None \<Rightarrow> a | Some x \<Rightarrow> put_bytes off x a);
                 a = put_bytes 2 port_bytes a
             in if addr = None then Inl (LogErr ''Unable to convert MANET link local address'')
                else Inr (b\<lparr>maddr := a\<rparr>, m'))"

section \<open>Options\<close>

text \<open>A pass over the arguments is the list of the characters that \<open>getopt_long_only\<close> returns, with \<open>optarg\<close>.\<close>

type_synonym opts = "(char \<times> string option) list"

text \<open>The pre-options: the configuration file, or \<open>None\<close> when the help option ends the program.\<close>

fun pre_pass :: "opts \<Rightarrow> string option \<Rightarrow> string option option" where
  "pre_pass [] confile = Some confile"
| "pre_pass ((c, optarg) # os) confile =
     (if c = CHR ''c'' then pre_pass os optarg
      else if c = CHR ''h'' then None
      else pre_pass os confile)"

text \<open>\<open>atoi\<close>: the decimal number that the text begins with, through a 64-bit \<open>long\<close>.\<close>

definition atoi :: "string \<Rightarrow> int" where
  "atoi s =
     (let s = dropWhile isspace s; neg = (s \<noteq> [] \<and> hd s = CHR ''-'');
          t = (if s \<noteq> [] \<and> hd s \<in> {CHR ''-'', CHR ''+''} then tl s else s);
          v = int (digits_val (takeWhile isdigit t));
          v = (if neg then max (- (2 ^ 63)) (- v) else min (2 ^ 63 - 1) v)
      in sint (word_of_int v :: u32))"

definition interval_arg :: "string option \<Rightarrow> halt + u32" where
  "interval_arg optarg = rbind (deref optarg) (\<lambda>s. Inr (word_of_int (atoi s) * 1000))"

definition main_option :: "'m init_env \<Rightarrow> char \<times> string option \<Rightarrow> 'm daemon \<times> mem \<Rightarrow> halt + 'm daemon \<times> mem" where
  "main_option env op s =
     (let (c, optarg) = op; (d, m) = s
      in if c = CHR 0x00 \<or> c = CHR ''c'' \<or> c = CHR ''h'' then Inr s
         else if c = CHR ''4'' then Inr (upd_bprd (\<lambda>b. b\<lparr>ipver := 2\<rparr>) d, m)
         else if c = CHR ''6'' then Inr (upd_bprd (\<lambda>b. b\<lparr>ipver := 10\<rparr>) d, m)
         else if c = CHR ''r''
         then rbind (deref optarg) (\<lambda>a.
              rbind (create_commodity (ie_pton env) (ie_alloc env) a (clist (d_bprd d)) m) (\<lambda>(l, m).
                Inr (upd_bprd (\<lambda>b. b\<lparr>clist := l\<rparr>) d, m)))
         else if c = CHR ''d'' then Inr (d\<lparr>dmode := 1\<rparr>, m)
         else if c = CHR ''i'' then Inr (d\<lparr>d_if_name := optarg\<rparr>, m)
         else if c = CHR ''p'' then Inr (d\<lparr>d_pidfile := optarg\<rparr>, m)
         else if c = CHR ''s'' then rbind (interval_arg optarg) (\<lambda>v. Inr (upd_bprd (\<lambda>b. b\<lparr>hello_interval := v\<rparr>) d, m))
         else if c = CHR ''t'' then rbind (interval_arg optarg) (\<lambda>v. Inr (upd_bprd (\<lambda>b. b\<lparr>release_interval := v\<rparr>) d, m))
         else if c = CHR ''u'' then rbind (interval_arg optarg) (\<lambda>v. Inr (upd_bprd (\<lambda>b. b\<lparr>update_interval := v\<rparr>) d, m))
         else Inl (LogErr ''Unable to parse input arguments''))"

text \<open>A string parameter that was not set: memory for the default is allocated.\<close>

definition default_str :: "(nat \<Rightarrow> bool) \<Rightarrow> string \<Rightarrow> string option \<Rightarrow> mem \<Rightarrow> halt + string \<times> mem" where
  "default_str alloc dflt s m =
     (case s of
        Some s \<Rightarrow> Inr (s, m)
      | None \<Rightarrow>
          (case mem_alloc alloc m of
             (False, m) \<Rightarrow> Inl (LogErr ''Unable to allocate memory'')
           | (True, m) \<Rightarrow> Inr (dflt, m)))"

section \<open>Initialisation\<close>

definition init_lists :: "'m init_env \<Rightarrow> 'm bprd \<Rightarrow> halt + 'm bprd" where
  "init_lists env b =
     (let b = b\<lparr>clist := []\<rparr>
      in rbind (ntable_mutex_init (ie_mutex_init env) (ntable b)) (\<lambda>t.
         rbind (ntable_mutex_lock (ie_lock env) t) (\<lambda>t.
         let t = t\<lparr>nlist := []\<rparr>
         in rbind (ntable_mutex_unlock (ie_unlock env) t) (\<lambda>t. Inr (b\<lparr>ntable := t\<rparr>)))))"

text \<open>The interface, the addresses and the timer.\<close>

definition init_addresses :: "'m init_env \<Rightarrow> string \<Rightarrow> 'm bprd \<Rightarrow> mem \<Rightarrow> halt + 'm bprd \<times> mem" where
  "init_addresses env if_name b m =
     (let b = b\<lparr>if_index := ie_nametoindex env if_name\<rparr>
      in if if_index b = 0 then Inl (LogErr ''Unable to get index of hardware interface'')
         else if ipver b \<noteq> 2 \<and> ipver b \<noteq> 10 then Inl (LogErr ''Unknown IP version'')
         else
           rbind (if saddr b = [] then create_primary env if_name b m else Inr (b, m)) (\<lambda>(b, m).
           if saddr b = [] then Inl (LogErr ''Unable to find pre-existing IP address of the desired version'')
           else
             rbind (if maddr b = [] then create_multicast env b m else Inr (b, m)) (\<lambda>(b, m).
             if maddr b = [] then Inl (LogErr ''Unable to create multicast address'')
             else Inr (b\<lparr>neighbor_timeout := hello_interval b * 5\<rparr>, m))))"

fun check_types :: "int \<Rightarrow> commodity list \<Rightarrow> halt + unit" where
  "check_types ver [] = Inr ()"
| "check_types ver (c # l) =
     (if uint (na_type (c_addr c)) \<noteq> ver
      then Inl (LogErr ''Commodity destination IP address version does not match program's IP version'')
      else check_types ver l)"

text \<open>The result is \<open>None\<close> when the program ends with status 0.\<close>

definition bprd_init :: "'m init_env \<Rightarrow> opts \<Rightarrow> opts \<Rightarrow> 'm daemon \<Rightarrow> mem \<Rightarrow> halt + ('m daemon \<times> mem) option" where
  "bprd_init env pre os d m =
     rbind (init_lists env (d_bprd d)) (\<lambda>b.
     case pre_pass pre (d_confile d) of
       None \<Rightarrow> Inr None
     | Some f \<Rightarrow>
         rbind (default_str (ie_alloc env) ''/etc/bprd.conf'' f m) (\<lambda>(f, m).
         rbind (confile_read (ie_fopen env) (ie_pton env) (ie_alloc env) f (clist b) m) (\<lambda>(r, l, m).
         let d = d\<lparr>d_bprd := b\<lparr>clist := l\<rparr>, d_confile := Some f\<rparr>
         in rbind (each (main_option env) os (d, m)) (\<lambda>(d, m).
            rbind (default_str (ie_alloc env) ''/var/run/bprd.pid'' (d_pidfile d) m) (\<lambda>(p, m).
            rbind (default_str (ie_alloc env) ''eth0'' (d_if_name d) m) (\<lambda>(i, m).
            let d = d\<lparr>d_pidfile := Some p, d_if_name := Some i\<rparr>
            in rbind (init_addresses env i (d_bprd d) m) (\<lambda>(b, m).
               rbind (check_types (ipver b) (clist b)) (\<lambda>_. Inr (Some (d\<lparr>d_bprd := b\<rparr>, m))))))))))"

section \<open>The socket\<close>

record sock_env =
  se_socket :: int
  se_bind :: "int \<Rightarrow> bytes \<Rightarrow> int"
  se_setsockopt :: "int \<Rightarrow> string \<Rightarrow> bytes \<Rightarrow> int"

text \<open>The address to bind to, and the multicast request for an interface.\<close>

definition bind_addr :: bytes where
  "bind_addr = family_le 2 @ port_bytes @ replicate 12 0"

definition mreqn :: "bytes \<Rightarrow> u32 \<Rightarrow> bytes" where
  "mreqn grp index = grp @ replicate 4 0 @ to_le32 index"

definition socket_init :: "sock_env \<Rightarrow> 'm init_env \<Rightarrow> string \<Rightarrow> 'm bprd \<Rightarrow> halt + 'm bprd" where
  "socket_init se env if_name b =
     (let b = b\<lparr>sockfd := se_socket se\<rparr>; fd = sockfd b
      in if fd < 0 then Inl (LogErr ''Unable to create socket'')
         else if se_bind se fd bind_addr < 0 then Inl (LogErr ''Unable to bind socket'')
         else case ie_pton env AF_INET MANET_LINKLOCAL_ROUTERS_V4 of
                None \<Rightarrow> Inl (LogErr ''Unable to convert MANET link local address'')
              | Some grp \<Rightarrow>
                  let mreq = mreqn grp (ie_nametoindex env if_name)
                  in if sint (ie_nametoindex env if_name) \<le> 0 then Inl (LogErr ''Unable to convert device name to index'')
                     else if se_setsockopt se fd ''IP_ADD_MEMBERSHIP'' mreq < 0 then Inl (LogErr ''Unable to join multicast group'')
                     else if se_setsockopt se fd ''IP_MULTICAST_LOOP'' [0] < 0 then Inl (LogErr ''Unable to disable multicast loopback'')
                     else if se_setsockopt se fd ''IP_MULTICAST_IF'' mreq < 0
                     then Inl (LogErr ''Unable to set default outgoing multicast interface'')
                     else Inr b)"

text \<open>\<open>main\<close> up to the start of the threads. \<open>None\<close>: the process has left with \<open>exit(0)\<close>, after the usage text or
  as a parent of the daemon.\<close>

definition background :: "'m init_env \<Rightarrow> 'm daemon \<Rightarrow> halt + 'm daemon option" where
  "background env d =
     (if dmode d = 0 then Inr (Some d)
      else
        rbind (deref (d_pidfile d)) (\<lambda>pidfile.
        let (r, p) = daemon_create (ie_penv env) pidfile (d_proc d)
        in rbind r (\<lambda>r. Inr (map_option (\<lambda>_. d\<lparr>d_proc := p\<rparr>) r))))"

definition main_init ::
  "sock_env \<Rightarrow> 'm init_env \<Rightarrow> opts \<Rightarrow> opts \<Rightarrow> 'm \<Rightarrow> mem \<Rightarrow> halt + ('m daemon \<times> mem) option" where
  "main_init se env pre os mu m =
     rbind (bprd_init env pre os (bprd0 (ie_proc env) mu) m) (\<lambda>r.
     case r of
       None \<Rightarrow> Inr None
     | Some (d, m) \<Rightarrow>
         rbind (background env d) (\<lambda>r.
         case r of
           None \<Rightarrow> Inr None
         | Some d \<Rightarrow>
             rbind (deref (d_if_name d)) (\<lambda>i.
             rbind (socket_init se env i (d_bprd d)) (\<lambda>b. Inr (Some (d\<lparr>d_bprd := b\<rparr>, m))))))"

end
