(* ===== verification/DaemonStart.thy ===== *)
theory DaemonStart
  imports DaemonInit HelloLink
begin

text \<open>
  What \<open>main\<close> has set up when the threads start, and the first hellos.
\<close>

section \<open>Parsed addresses and commodity lists\<close>

text \<open>\<open>inet_pton\<close> stores 4 bytes for \<open>AF_INET\<close> and 16 for \<open>AF_INET6\<close>.\<close>

definition pton_sizes :: "inet_pton \<Rightarrow> bool" where
  "pton_sizes pton \<longleftrightarrow> (\<forall>s b. pton AF_INET s = Some b \<longrightarrow> length b = 4) \<and>
     (\<forall>s b. pton AF_INET6 s = Some b \<longrightarrow> length b = 16)"

lemma mac_loop_length: "mac_from_string_loop n s sep acc = Some b \<Longrightarrow> length b = length acc + n"
proof (induction n s sep acc rule: mac_from_string_loop.induct)
  case (3 n c src sep acc)
  let ?d = "case src of [] \<Rightarrow> -1 | d # _ \<Rightarrow> read_hexdigit d"
  let ?n = "if 0 \<le> ?d then read_hexdigit c * 16 + ?d else read_hexdigit c"
  let ?s = "if 0 \<le> ?d then tl src else src"
  have c: "read_hexdigit c \<noteq> -1" using 3(2) by (auto simp: Let_def)
  show ?case
  proof (cases ?s)
    case Nil
    with 3(2) c show ?thesis by (auto simp: Let_def split: if_splits)
  next
    case (Cons x rest)
    have "x = sep" "mac_from_string_loop n rest sep (acc @ [word_of_int ?n]) = Some b"
      using 3(2) c Cons by (auto simp: Let_def split: if_splits)
    with 3(1)[OF refl c refl refl refl refl Cons] show ?thesis by simp
  qed
qed simp_all

lemma fill16_length: "length b \<le> 16 \<Longrightarrow> length (fill16 b) = 16"
  by (simp add: fill16_def)

lemma netaddr_from_string_wf:
  assumes "netaddr_from_string pton s = Some a" and "pton_sizes pton"
  shows "netaddr_wf a"
proof -
  have m: "mac_from_string n t c = Some b \<Longrightarrow> n \<le> 8 \<Longrightarrow> length b \<le> 16" for n t c b
    by (auto simp: mac_from_string_def dest!: mac_loop_length)
  have p: "pton AF_INET t = Some b \<Longrightarrow> length b \<le> 16" "pton AF_INET6 t = Some b \<Longrightarrow> length b \<le> 16" for t b
    using assms(2) by (auto simp: pton_sizes_def)
  show ?thesis using assms(1) unfolding netaddr_from_string_def Let_def
    by (auto simp: netaddr_wf_def split: if_splits option.splits intro!: fill16_length dest: m p)
qed

definition clist_ok :: "commodity list \<Rightarrow> bool" where
  "clist_ok l \<longleftrightarrow> clist_wf l \<and> (\<forall>c\<in>set l. netaddr_wf (c_addr c))"

lemma create_commodity_ok:
  assumes "create_commodity pton alloc buf l m = Inr (l', m')" and "pton_sizes pton" and "clist_ok l"
  shows "clist_ok l'"
proof -
  obtain t qid where sc: "scan_commodity buf = Inr (Some (t, qid))"
    using assms(1) by (auto simp: create_commodity_def rbind_Inr_iff split: option.splits)
  obtain m1 where al: "mem_alloc alloc m = (True, m1)"
    using assms(1) by (auto simp: create_commodity_def sc split: prod.splits bool.splits)
  obtain a where a: "netaddr_from_string pton t = Some a"
    using assms(1) by (auto simp: create_commodity_def sc al split: option.splits)
  have n: "clist_find l (mk_commodity a 0 0 0 None) = None" and l: "l' = list_insert l (mk_commodity a 0 0 (ucast qid) None)"
    using assms(1) by (simp_all add: create_commodity_def sc al a split: if_splits)
  show ?thesis using assms(3) n netaddr_from_string_wf[OF a assms(2)]
    unfolding l by (auto simp: clist_ok_def clist_find_None clist_wf_def list_insert_def)
qed

lemma config_lines_ok:
  "config_lines pton alloc s l m = Inr (l', m') \<Longrightarrow> pton_sizes pton \<Longrightarrow> clist_ok l \<Longrightarrow> clist_ok l'"
proof (induction pton alloc s l m rule: config_lines.induct)
  case (2 pton alloc c s l m)
  obtain buf rest where f: "fgets 254 (c # s) = (buf, rest)" by (metis surj_pair)
  with 2(2) obtain l1 m1 where c: "config_line pton alloc buf l m = Inr (l1, m1)"
    "config_lines pton alloc rest l1 m1 = Inr (l', m')" by (auto simp: config_lines.simps(2) rbind_Inr_iff)
  have "clist_ok l1"
    using c(1) 2(3,4) by (auto simp: config_line_def split: if_splits intro: create_commodity_ok)
  with 2(1)[OF f[symmetric] c(1) refl c(2) 2(3)] show ?case .
qed simp

lemma confile_read_ok:
  assumes "confile_read fopen pton alloc name l m = Inr (r, l', m')" and "pton_sizes pton" and "clist_ok l"
  shows "clist_ok l'"
  using assms by (auto simp: confile_read_def rbind_Inr_iff split: option.splits if_splits dest: config_lines_ok)

section \<open>Options\<close>

definition option_inv :: "'m daemon \<Rightarrow> bool" where
  "option_inv d \<longleftrightarrow> clist_ok (clist (d_bprd d)) \<and> saddr (d_bprd d) = [] \<and> maddr (d_bprd d) = [] \<and>
     nlist (ntable (d_bprd d)) = [] \<and> hello_seqno (d_bprd d) = 0 \<and> ipver (d_bprd d) \<in> {2, 10}"

lemma main_option_inv:
  assumes "main_option env op (d, m) = Inr (d', m')" and "pton_sizes (ie_pton env)" and "option_inv d"
  shows "option_inv d'"
  using assms
  by (cases op) (auto simp: main_option_def upd_bprd_def option_inv_def interval_arg_def rbind_Inr_iff Let_def split: if_splits
      dest: create_commodity_ok)

lemma options_inv:
  "each (main_option env) os (d, m) = Inr (d', m') \<Longrightarrow> pton_sizes (ie_pton env) \<Longrightarrow> option_inv d \<Longrightarrow> option_inv d'"
proof (induction os arbitrary: d m)
  case (Cons op os)
  from Cons.prems(1) obtain d1 m1 where o: "main_option env op (d, m) = Inr (d1, m1)"
    "each (main_option env) os (d1, m1) = Inr (d', m')" by auto
  from Cons.IH[OF o(2) Cons.prems(2) main_option_inv[OF o(1) Cons.prems(2,3)]] show ?case .
qed simp

section \<open>The state at the start of the threads\<close>

definition started :: "'m bprd \<Rightarrow> bool" where
  "started b \<longleftrightarrow> ipver b \<in> {2, 10} \<and> saddrlen b = sockaddr_size (ipver b) \<and> length (saddr b) = unat (saddrlen b) \<and>
     take 2 (saddr b) = family_le (ipver b) \<and> maddrlen b = sockaddr_size (ipver b) \<and> length (maddr b) = unat (maddrlen b) \<and>
     take 4 (maddr b) = family_le (ipver b) @ port_bytes \<and> neighbor_timeout b = hello_interval b * 5 \<and>
     hello_seqno b = 0 \<and> nlist (ntable b) = [] \<and> clist_ok (clist b) \<and> (\<forall>c\<in>set (clist b). uint (na_type (c_addr c)) = ipver b)"

lemma check_types_Inr: "check_types ver l = Inr u \<Longrightarrow> \<forall>c\<in>set l. uint (na_type (c_addr c)) = ver"
  by (induction l) (auto split: if_splits)


lemma family_bytes: "ver \<in> {2, 10} \<Longrightarrow> uint (mk16 h l) = uint (word_of_int ver :: u8) \<Longrightarrow> family_le ver = [l, h]"
proof -
  assume v: "ver \<in> {2, 10}" and u: "uint (mk16 h l) = uint (word_of_int ver :: u8)"
  have w: "mk16 h l = word_of_int ver" using u v by (auto intro!: word_uint_eqI)
  have "hi8 (mk16 h l) = hi8 (word_of_int ver :: u16)" "lo8 (mk16 h l) = lo8 (word_of_int ver :: u16)" by (simp_all only: w)
  then show ?thesis by (simp add: family_le_def)
qed

lemma find_primary_address:
  "find_primary alloc name ver len ifs m = Inr (a, m') \<Longrightarrow> ver \<in> {2, 10} \<Longrightarrow> a \<noteq> [] \<Longrightarrow> 2 \<le> len \<Longrightarrow>
     length a = len \<and> take 2 a = family_le ver"
proof (induction ifs)
  case (Cons p ifs)
  obtain n b where p: "p = (n, b)" by (cases p)
  show ?case
  proof (cases "n = Some name")
    case False
    with Cons p show ?thesis by simp
  next
    case True
    then obtain x where x: "b = Some x" using Cons.prems(1) p by (cases b) (simp_all add: deref_def)
    have l: "2 \<le> length x" using Cons.prems(1) p True x by (simp add: deref_def split: if_splits)
    then obtain u v y where y: "x = u # v # y" by (cases x; cases "tl x") auto
    show ?thesis
    proof (cases "uint (mk16 v u) = uint (word_of_int ver :: u8)")
      case True
      with family_bytes[OF Cons.prems(2) True] Cons.prems p \<open>n = Some name\<close> x y show ?thesis
        by (cases len; cases "len - 1") (auto simp: deref_def split: prod.splits bool.splits if_splits)
    next
      case False
      with Cons p \<open>n = Some name\<close> x y show ?thesis by (simp add: deref_def)
    qed
  qed
qed simp

lemma sockaddr_sizes: "ver \<in> {2, 10} \<Longrightarrow> unat (sockaddr_size ver) \<in> {16, 28}"
  by (auto simp: sockaddr_size_def)

lemma create_primary_address:
  assumes "create_primary env i b m = Inr (b', m')" and "ipver b \<in> {2, 10}" and "saddr b = []" and "saddr b' \<noteq> []"
  shows "b' = b\<lparr>saddrlen := sockaddr_size (ipver b), saddr := saddr b'\<rparr> \<and> length (saddr b') = unat (sockaddr_size (ipver b)) \<and>
    take 2 (saddr b') = family_le (ipver b)"
proof -
  have "2 \<le> unat (sockaddr_size (ipver b))" using sockaddr_sizes[OF assms(2)] by auto
  with assms find_primary_address show ?thesis
    by (fastforce simp: create_primary_def Let_def rbind_Inr_iff split: option.splits if_splits)
qed

lemma create_multicast_address:
  assumes "create_multicast env b m = Inr (b', m')" and "ipver b \<in> {2, 10}" and "pton_sizes (ie_pton env)"
  shows "\<exists>a. b' = b\<lparr>maddrlen := sockaddr_size (ipver b), maddr := a\<rparr> \<and> length a = unat (sockaddr_size (ipver b)) \<and>
    take 4 a = family_le (ipver b) @ port_bytes"
proof -
  let ?a = "\<lambda>v off x y. put_bytes 2 port_bytes (put_bytes off x (put_bytes 0 (family_le v) (put_bytes 0 [0] y)))"
  have f: "length (family_le v) = 2" "length port_bytes = 2" for v by (simp_all add: family_le_def port_bytes_def)
  have t: "length (?a v off x y) = length y \<and> take 4 (?a v off x y) = family_le v @ port_bytes"
    if "4 \<le> off" "off + length x \<le> length y" for v off x y
  proof -
    have "length (put_bytes 0 [0] y) = length y" using that by simp
    with that have "length (put_bytes 0 (family_le v) (put_bytes 0 [0] y)) = length y" by (simp add: f)
    with that have "length (put_bytes off x (put_bytes 0 (family_le v) (put_bytes 0 [0] y))) = length y" by simp
    with that have "length (?a v off x y) = length y" by (simp add: f)
    moreover have "take 4 (?a v off x y) = family_le v @ port_bytes" using that by (simp add: put_bytes_def f min_def)
    ultimately show ?thesis ..
  qed
  obtain m1 where m: "mem_alloc (ie_alloc env) m = (True, m1)"
    using assms(1) by (auto simp: create_multicast_def Let_def split: prod.splits bool.splits)
  let ?y = "map (ie_fresh env (calls m)) [0..<unat (sockaddr_size (ipver b))]"
  have s: "length ?y = unat (sockaddr_size (ipver b))" by simp
  have "ipver b = 2 \<or> ipver b = 10" using assms(2) by simp
  then show ?thesis
  proof
    assume v: "ipver b = 2"
    then obtain x where x: "ie_pton env AF_INET MANET_LINKLOCAL_ROUTERS_V4 = Some x"
      using assms(1) by (cases "ie_pton env AF_INET MANET_LINKLOCAL_ROUTERS_V4") (simp_all add: create_multicast_def m Let_def)
    have l: "4 + length x \<le> length ?y" using assms(3) x unfolding s by (auto simp: pton_sizes_def sockaddr_size_def v)
    have b: "b' = b\<lparr>maddrlen := sockaddr_size (ipver b), maddr := ?a (ipver b) 4 x ?y\<rparr>"
      using assms(1) by (simp add: create_multicast_def m v x)
    note r = t[OF order_refl l, of "ipver b", unfolded s]
    show ?thesis unfolding b by (rule exI, rule conjI[OF refl r])
  next
    assume v: "ipver b = 10"
    then obtain x where x: "ie_pton env AF_INET6 MANET_LINKLOCAL_ROUTERS_V6 = Some x"
      using assms(1) by (cases "ie_pton env AF_INET6 MANET_LINKLOCAL_ROUTERS_V6") (simp_all add: create_multicast_def m Let_def)
    have l: "8 + length x \<le> length ?y" using assms(3) x unfolding s by (auto simp: pton_sizes_def sockaddr_size_def v)
    have b: "b' = b\<lparr>maddrlen := sockaddr_size (ipver b), maddr := ?a (ipver b) 8 x ?y\<rparr>"
      using assms(1) by (simp add: create_multicast_def m v x)
    have "(4 :: nat) \<le> 8" by simp
    note r = t[OF this l, of "ipver b", unfolded s]
    show ?thesis unfolding b by (rule exI, rule conjI[OF refl r])
  qed
qed


lemma init_addresses_started:
  assumes "init_addresses env i (d_bprd d) m = Inr (b, m')" and "option_inv d" and "pton_sizes (ie_pton env)"
    and "check_types (ipver b) (clist b) = Inr u"
  shows "started b"
proof -
  let ?b = "(d_bprd d)\<lparr>if_index := ie_nametoindex env i\<rparr>"
  have v: "ipver ?b \<in> {2, 10}" and sm: "saddr ?b = []" "maddr ?b = []" using assms(2) by (simp_all add: option_inv_def)
  obtain b1 m1 where p: "create_primary env i ?b m = Inr (b1, m1)" "saddr b1 \<noteq> []"
    and r: "rbind (if maddr b1 = [] then create_multicast env b1 m1 else Inr (b1, m1)) (\<lambda>(b, m).
             if maddr b = [] then Inl (LogErr ''Unable to create multicast address'')
             else Inr (b\<lparr>neighbor_timeout := hello_interval b * 5\<rparr>, m)) = Inr (b, m')"
    using assms(1) v sm by (auto simp: init_addresses_def Let_def rbind_Inr_iff split: if_splits)
  from create_primary_address[OF p(1) v sm(1) p(2)] obtain a where
    b1: "b1 = ?b\<lparr>saddrlen := sockaddr_size (ipver ?b), saddr := a\<rparr>" and a: "length a = unat (sockaddr_size (ipver ?b))"
      "take 2 a = family_le (ipver ?b)" by blast
  have e: "maddr b1 = []" "ipver b1 = ipver ?b" unfolding b1 using sm(2) by simp_all
  then obtain b2 m2 where q: "create_multicast env b1 m1 = Inr (b2, m2)" "b = b2\<lparr>neighbor_timeout := hello_interval b2 * 5\<rparr>"
    using r by (auto simp: rbind_Inr_iff split: if_splits)
  have v1: "ipver b1 \<in> {2, 10}" unfolding e(2) by (rule v)
  obtain x where x: "b2 = b1\<lparr>maddrlen := sockaddr_size (ipver b1), maddr := x\<rparr>" "length x = unat (sockaddr_size (ipver b1))"
    "take 4 x = family_le (ipver b1) @ port_bytes" using create_multicast_address[OF q(1) v1 assms(3)] by blast
  show ?thesis using assms(2) a x(2,3) check_types_Inr[OF assms(4)]
    unfolding started_def q(2) x(1) b1 by (simp add: option_inv_def)
qed

lemma bprd_init_started:
  assumes "bprd_init env pre os d m = Inr (Some (d', m'))" and "pton_sizes (ie_pton env)"
    and "ipver (d_bprd d) = 2" and "saddr (d_bprd d) = []" and "maddr (d_bprd d) = []" and "hello_seqno (d_bprd d) = 0"
  shows "started (d_bprd d') \<and> d_if_name d' \<noteq> None"
proof -
  obtain b where b: "init_lists env (d_bprd d) = Inr b" using assms(1) by (auto simp: bprd_init_def rbind_Inr_iff)
  then obtain t0 t1 t2 where t: "ntable_mutex_unlock (ie_unlock env) (t1\<lparr>nlist := []\<rparr>) = Inr t2"
    "b = (d_bprd d)\<lparr>clist := [], ntable := t2\<rparr>"
    by (auto simp: init_lists_def Let_def rbind_Inr_iff)
  have "nlist t2 = []" using mutex_keeps_nlist(2)[OF t(1)] by simp
  then have lb: "clist b = []" "nlist (ntable b) = []" "ipver b = 2" "saddr b = []" "maddr b = []" "hello_seqno b = 0"
    using assms(3-6) unfolding t(2) by simp_all
  obtain c where c: "pre_pass pre (d_confile d) = Some c"
    using assms(1) b by (cases "pre_pass pre (d_confile d)") (simp_all add: bprd_init_def)
  obtain f m1 r l m2 where f: "default_str (ie_alloc env) ''/etc/bprd.conf'' c m = Inr (f, m1)"
    "confile_read (ie_fopen env) (ie_pton env) (ie_alloc env) f (clist b) m1 = Inr (r, l, m2)"
    using assms(1) b c by (auto simp: bprd_init_def rbind_Inr_iff)
  let ?d = "d\<lparr>d_bprd := b\<lparr>clist := l\<rparr>, d_confile := Some f\<rparr>"
  obtain d1 m3 where o: "each (main_option env) os (?d, m2) = Inr (d1, m3)"
    using assms(1) b c f by (auto simp: bprd_init_def rbind_Inr_iff Let_def)
  obtain p m4 i m5 b6 m6 u where q: "default_str (ie_alloc env) ''/var/run/bprd.pid'' (d_pidfile d1) m3 = Inr (p, m4)"
    "default_str (ie_alloc env) ''eth0'' (d_if_name d1) m4 = Inr (i, m5)"
    "init_addresses env i (d_bprd d1) m5 = Inr (b6, m6)" "check_types (ipver b6) (clist b6) = Inr u"
    and d': "d' = d1\<lparr>d_pidfile := Some p, d_if_name := Some i, d_bprd := b6\<rparr>"
    using assms(1) b c f o by (auto simp: bprd_init_def rbind_Inr_iff Let_def)
  have "clist_ok (clist b)" by (simp add: lb clist_ok_def clist_wf_def)
  from confile_read_ok[OF f(2) assms(2) this] have "option_inv ?d" by (simp add: option_inv_def lb)
  from options_inv[OF o assms(2) this] have "option_inv d1" .
  from init_addresses_started[OF q(3) this assms(2) q(4)] show ?thesis by (simp add: d')
qed


lemma background_keeps:
  assumes "background env d = Inr (Some d')"
  shows "d' = d\<lparr>d_proc := d_proc d'\<rparr> \<and>
    (if dmode d = 0 then d' = d
     else \<exists>path r. d_pidfile d = Some path \<and> daemon_create (ie_penv env) path (d_proc d) = (Inr (Some r), d_proc d'))"
  using assms
  by (auto simp: background_def deref_def rbind_Inr_iff Let_def split: option.splits prod.splits if_splits)

lemma main_init_stages:
  assumes "main_init se env pre os mu m = Inr (Some (d, m'))"
  obtains d1 d2 i where "bprd_init env pre os (bprd0 (ie_proc env) mu) m = Inr (Some (d1, m'))"
    and "background env d1 = Inr (Some d2)" and "socket_init se env i (d_bprd d2) = Inr (d_bprd d)"
    and "d = d2\<lparr>d_bprd := d_bprd d\<rparr>"
proof -
  obtain r where r: "bprd_init env pre os (bprd0 (ie_proc env) mu) m = Inr r" using assms by (auto simp: main_init_def rbind_Inr_iff)
  then obtain d1 m1 where d1: "r = Some (d1, m1)" using assms by (cases r) (auto simp: main_init_def)
  then obtain q where q: "background env d1 = Inr q" using assms r by (auto simp: main_init_def rbind_Inr_iff)
  then obtain d2 where d2: "q = Some d2" using assms r d1 by (cases q) (auto simp: main_init_def)
  with assms r d1 q obtain i b where "socket_init se env i (d_bprd d2) = Inr b" "d = d2\<lparr>d_bprd := b\<rparr>" "m' = m1"
    by (auto simp: main_init_def rbind_Inr_iff)
  with that[of d1 d2 i] r d1 q d2 show thesis by simp
qed

lemma options_keep_proc:
  "each (main_option env) os (d, m) = Inr (d', m') \<Longrightarrow> d_proc d' = d_proc d"
proof (induction os arbitrary: d m)
  case (Cons op os)
  from Cons.prems obtain d1 m1 where o: "main_option env op (d, m) = Inr (d1, m1)"
    "each (main_option env) os (d1, m1) = Inr (d', m')" by auto
  have "d_proc d1 = d_proc d" using o(1)
    by (cases op) (auto simp: main_option_def upd_bprd_def interval_arg_def rbind_Inr_iff Let_def split: if_splits)
  with Cons.IH[OF o(2)] show ?case by simp
qed simp

lemma bprd_init_keeps_proc:
  "bprd_init env pre os d m = Inr (Some (d', m')) \<Longrightarrow> d_proc d' = d_proc d"
  by (auto simp: bprd_init_def rbind_Inr_iff Let_def dest!: options_keep_proc split: option.splits)

text \<open>The process in which the threads are started.\<close>

lemma main_init_process:
  assumes "main_init se env pre os mu m = Inr (Some (d, m'))"
  shows "if dmode d = 0 then d_proc d = ie_proc env
    else \<exists>path r. d_pidfile d = Some path \<and> daemon_create (ie_penv env) path (ie_proc env) = (Inr (Some r), d_proc d)"
proof -
  obtain d1 d2 i where b: "bprd_init env pre os (bprd0 (ie_proc env) mu) m = Inr (Some (d1, m'))"
    and p: "background env d1 = Inr (Some d2)" and d: "d = d2\<lparr>d_bprd := d_bprd d\<rparr>"
    using main_init_stages[OF assms] .
  have "d_proc d1 = ie_proc env" using bprd_init_keeps_proc[OF b] by (simp add: bprd0_def)
  moreover note background_keeps[OF p]
  moreover from this have "dmode d2 = dmode d1" "d_pidfile d2 = d_pidfile d1"
    by (metis daemon.select_convs daemon.surjective daemon.update_convs(6))+
  moreover have "d_proc d = d_proc d2" "dmode d = dmode d2" "d_pidfile d = d_pidfile d2"
    using arg_cong[OF d, of d_proc] arg_cong[OF d, of dmode] arg_cong[OF d, of d_pidfile] by simp_all
  ultimately show ?thesis by (auto split: if_splits)
qed

lemma main_init_state:
  assumes "main_init se env pre os mu m = Inr (Some (d, m'))" and "pton_sizes (ie_pton env)"
  shows "started (d_bprd d) \<and> 0 \<le> sockfd (d_bprd d)"
proof -
  obtain d1 d2 i where b: "bprd_init env pre os (bprd0 (ie_proc env) mu) m = Inr (Some (d1, m'))"
    and p: "background env d1 = Inr (Some d2)" and s: "socket_init se env i (d_bprd d2) = Inr (d_bprd d)"
    using main_init_stages[OF assms(1)] .
  have "started (d_bprd d1)" using bprd_init_started[OF b assms(2)] by (simp add: bprd0_def)
  moreover have "d_bprd d2 = d_bprd d1" using arg_cong[OF conjunct1[OF background_keeps[OF p]], of d_bprd] by simp
  moreover have "d_bprd d = (d_bprd d2)\<lparr>sockfd := se_socket se\<rparr>" "0 \<le> se_socket se"
    using s by (auto simp: socket_init_def Let_def split: if_splits option.splits)
  ultimately show ?thesis by (simp add: started_def)
qed

section \<open>Properties\<close>

text \<open>C3: If \<open>main\<close> gets as far as starting the threads, then, whatever the options, the configuration file and
  the interfaces were, the state is well formed: one of the two IP versions; the daemon's address complete
  and of that family, the multicast address complete and with the family and the port of MANET; a timeout
  of five hello intervals; an empty neighbor table; and commodities with complete, distinct addresses of the
  daemon's IP version.\<close>

theorem main_init_started:
  assumes "main_init se env pre os mu m = Inr (Some (d, m'))" and "pton_sizes (ie_pton env)"
  shows "started (d_bprd d) \<and> 0 \<le> sockfd (d_bprd d)"
  using assms by (rule main_init_state)

definition sample_init_env :: "unit init_env" where
  "sample_init_env = \<lparr>ie_fopen = Map.empty,
     ie_pton = (\<lambda>f s. if f = AF_INET \<and> s = MANET_LINKLOCAL_ROUTERS_V4 then Some [224, 0, 0, 109] else sample_pton f s),
     ie_alloc = (\<lambda>_. True), ie_fresh = (\<lambda>_ _. 255), ie_mutex_init = Pair 0, ie_lock = Pair 0, ie_unlock = Pair 0,
     ie_ifaddrs = Some [(Some ''lo'', Some ([2, 0, 0, 0, 127, 0, 0, 1] @ replicate 8 0)),
       (Some ''eth0'', Some ([2, 0, 0, 0, 10, 0, 0, 9] @ replicate 8 0))], ie_nametoindex = (\<lambda>_. 2),
     ie_penv = sample_proc_env, ie_proc = sample_proc\<rparr>"

definition sample_sock_env :: sock_env where
  "sample_sock_env = \<lparr>se_socket = 5, se_bind = (\<lambda>_ _. 0), se_setsockopt = (\<lambda>_ _ _. 0)\<rparr>"

definition sample_opts :: opts where
  "sample_opts = [(CHR ''r'', Some ''10.0.0.1,7''), (CHR ''s'', Some ''250'')]"

lemma sample_init_sizes: "pton_sizes (ie_pton sample_init_env)"
  by (auto simp: pton_sizes_def sample_init_env_def sample_pton_def split: if_splits)

lemma sample_commodity:
  "create_commodity (ie_pton sample_init_env) (\<lambda>_. True) ''10.0.0.1,7'' [] \<lparr>calls = 1, live = 1\<rparr> =
     Inr ([mk_commodity (ipv4 [10, 0, 0, 1]) 0 0 7 None], \<lparr>calls = 2, live = 2\<rparr>)"
proof -
  have "scan_commodity ''10.0.0.1,7'' = Inr (Some (''10.0.0.1'', 7))"
    by (simp add: scan_commodity_def addrstr_size_def strtoul_def isdigit_def isspace_def digits_val_def Let_def)
  moreover have "netaddr_from_string (ie_pton sample_init_env) ''10.0.0.1'' = Some (ipv4 [10, 0, 0, 1])" by code_simp
  ultimately show ?thesis by (simp add: create_commodity_def mem_alloc_def clist_find_None list_insert_def)
qed

lemma sample_interval: "interval_arg (Some ''250'') = Inr 250000"
  by (simp add: interval_arg_def atoi_def deref_def isdigit_def isspace_def digits_val_def Let_def)

definition sample_started :: "unit bprd" where
  "sample_started = \<lparr>ipver = 2, if_index = 2, sockfd = 5, saddr = [2, 0, 0, 0, 10, 0, 0, 9] @ replicate 8 0, saddrlen = 16,
     maddr = [2, 0, 1, 13, 224, 0, 0, 109] @ replicate 8 255, maddrlen = 16, hello_seqno = 0, hello_interval = 250000,
     release_interval = 100000, update_interval = 100000, neighbor_timeout = 1250000,
     clist = [mk_commodity (ipv4 [10, 0, 0, 1]) 0 0 7 None], ntable = \<lparr>nlist = [], mutex = ()\<rparr>\<rparr>"

lemma sample_addresses:
  "init_addresses sample_init_env ''eth0'' (sample_started\<lparr>if_index := 0, sockfd := -1, saddr := [], saddrlen := 0,
     maddr := [], maddrlen := 0, neighbor_timeout := 500000\<rparr>) \<lparr>calls = 4, live = 4\<rparr> =
   Inr (sample_started\<lparr>sockfd := -1\<rparr>, \<lparr>calls = 6, live = 6\<rparr>)"
  by code_simp

lemma sample_main_init:
  "\<exists>d m'. main_init sample_sock_env sample_init_env [] sample_opts () \<lparr>calls = 0, live = 0\<rparr> = Inr (Some (d, m')) \<and>
     d_bprd d = sample_started"
proof -
  have l: "init_lists sample_init_env (d_bprd (bprd0 p ())) = Inr (d_bprd (bprd0 p ()))" for p
    by (simp add: init_lists_def bprd0_def sample_init_env_def ntable_mutex_init_def ntable_mutex_lock_def ntable_mutex_unlock_def)
  have t: "check_types (ipver (sample_started\<lparr>sockfd := -1\<rparr>)) (clist (sample_started\<lparr>sockfd := -1\<rparr>)) = Inr ()" by code_simp
  have s: "socket_init sample_sock_env sample_init_env ''eth0'' (sample_started\<lparr>sockfd := -1\<rparr>) = Inr sample_started"
    by code_simp
  have f: "ie_fopen sample_init_env = Map.empty" "ie_alloc sample_init_env = (\<lambda>_. True)" by (simp_all add: sample_init_env_def)
  show ?thesis
    using sample_addresses t s unfolding main_init_def bprd_init_def l rbind_simps
    by (simp add: f confile_read_def default_str_def mem_alloc_def sample_opts_def main_option_def
       sample_commodity[unfolded One_nat_def] sample_interval upd_bprd_def deref_def bprd0_def background_def sample_started_def Let_def)
qed

theorem main_init_started_witness:
  "\<exists>d m'. main_init sample_sock_env sample_init_env [] sample_opts () \<lparr>calls = 0, live = 0\<rparr> = Inr (Some (d, m')) \<and>
    started (d_bprd d) \<and> sockfd (d_bprd d) = 5 \<and> clist (d_bprd d) = [mk_commodity (ipv4 [10, 0, 0, 1]) 0 0 7 None]"
proof -
  obtain d m' where r: "main_init sample_sock_env sample_init_env [] sample_opts () \<lparr>calls = 0, live = 0\<rparr> = Inr (Some (d, m'))"
    and d: "d_bprd d = sample_started" using sample_main_init by blast
  from main_init_started[OF r sample_init_sizes] have "started (d_bprd d)" by (rule conjunct1)
  with r d show ?thesis by (auto simp: sample_started_def)
qed

text \<open>C7: A daemon that was started with the option \<open>d\<close> and an absolute pidfile path shorter than \<open>PATH_MAX\<close> has, when
  its threads are started, written its process number and a line feed to a new file of that path and closed the
  standard descriptors it was started with; \<open>SIGTERM\<close> then removes exactly that file and ends the process with status 1.\<close>

theorem daemon_mode_pidfile:
  assumes "main_init se env pre os mu m = Inr (Some (d, m'))" and "dmode d \<noteq> 0" and "d_pidfile d = Some path"
    and "absolute path" and "length path < PATH_MAX" and "pe_getpid (ie_penv env) < 2 ^ 31" and "\<not> pe_unlink_fails (ie_penv env)"
  shows "pr_files (d_proc d) = (pr_files (ie_proc env))(path \<mapsto> show_nat (pe_getpid (ie_penv env)) @ newline) \<and>
    {0, 1, 2} \<inter> set (pr_fds (d_proc d)) = {} \<and>
    daemon_handler_sigterm (ie_penv env) (d_proc d) = (Inr 1, (d_proc d)\<lparr>pr_files := pr_files (ie_proc env)\<rparr>)"
proof -
  obtain r where "daemon_create (ie_penv env) path (ie_proc env) = (Inr (Some r), d_proc d)"
    using main_init_process[OF assms(1)] assms(2,3) by auto
  from pidfile_lifecycle[OF this assms(6,4,5,7)] show ?thesis by blast
qed

lemma sample_daemon_mode:
  "\<exists>d m'. main_init sample_sock_env sample_init_env [] ((CHR ''d'', None) # sample_opts) () \<lparr>calls = 0, live = 0\<rparr> =
     Inr (Some (d, m')) \<and> dmode d = 1 \<and> d_pidfile d = Some ''/var/run/bprd.pid''"
proof -
  have l: "init_lists sample_init_env (d_bprd (bprd0 p ())) = Inr (d_bprd (bprd0 p ()))" for p
    by (simp add: init_lists_def bprd0_def sample_init_env_def ntable_mutex_init_def ntable_mutex_lock_def ntable_mutex_unlock_def)
  have t: "check_types (ipver (sample_started\<lparr>sockfd := -1\<rparr>)) (clist (sample_started\<lparr>sockfd := -1\<rparr>)) = Inr ()" by code_simp
  have s: "socket_init sample_sock_env sample_init_env ''eth0'' (sample_started\<lparr>sockfd := -1\<rparr>) = Inr sample_started"
    by code_simp
  have f: "ie_fopen sample_init_env = Map.empty" "ie_alloc sample_init_env = (\<lambda>_. True)"
    "ie_penv sample_init_env = sample_proc_env" "ie_proc sample_init_env = sample_proc" by (simp_all add: sample_init_env_def)
  obtain q where q: "daemon_create sample_proc_env ''/var/run/bprd.pid'' sample_proc = (Inr (Some 0), q)"
    using sample_daemon(2) by blast
  show ?thesis
    using sample_addresses t s q unfolding main_init_def bprd_init_def l rbind_simps
    by (simp add: f confile_read_def default_str_def mem_alloc_def sample_opts_def main_option_def
       sample_commodity[unfolded One_nat_def] sample_interval upd_bprd_def deref_def bprd0_def background_def sample_started_def Let_def)
qed

theorem daemon_mode_pidfile_witness:
  "\<exists>d m'. main_init sample_sock_env sample_init_env [] ((CHR ''d'', None) # sample_opts) () \<lparr>calls = 0, live = 0\<rparr> =
      Inr (Some (d, m')) \<and> pr_files (d_proc d) ''/var/run/bprd.pid'' = Some (show_nat 42 @ newline) \<and>
    daemon_handler_sigterm sample_proc_env (d_proc d) = (Inr 1, (d_proc d)\<lparr>pr_files := Map.empty\<rparr>)"
proof -
  obtain d m' where r: "main_init sample_sock_env sample_init_env [] ((CHR ''d'', None) # sample_opts) () \<lparr>calls = 0, live = 0\<rparr> =
      Inr (Some (d, m'))" and d: "dmode d \<noteq> 0" "d_pidfile d = Some ''/var/run/bprd.pid''" using sample_daemon_mode by force
  have "absolute ''/var/run/bprd.pid''" "length ''/var/run/bprd.pid'' < PATH_MAX" "pe_getpid (ie_penv sample_init_env) < 2 ^ 31"
    "\<not> pe_unlink_fails (ie_penv sample_init_env)"
    by (simp_all add: sample_init_env_def sample_proc_env_def absolute_def PATH_MAX_def)
  from daemon_mode_pidfile[OF r d this] r show ?thesis
    by (simp add: sample_init_env_def) (simp add: sample_proc_env_def sample_proc_def)
qed

lemma started_ready:
  assumes "started b"
  shows "bprd_ready (if ipver b = 2 then 4 else 16) b"
proof -
  have "unat (saddrlen b) \<le> sockaddr_storage_size"
    using assms sockaddr_sizes[of "ipver b"] by (auto simp: started_def sockaddr_storage_size_def)
  with assms show ?thesis
    by (auto simp: bprd_ready_def started_def hello_addr_len_def clist_ok_def announceable_def)
qed

text \<open>The address that hellos of a daemon with an IPv4 address carry.\<close>

lemma started_own:
  assumes "started b" and "ipver b = 2" and "env_works henv"
  shows "take 4 (hello_own henv b) = take 4 (drop 4 (saddr b))"
proof -
  have s: "unat (saddrlen b) = 16" "length (saddr b) = 16" "take 2 (saddr b) = family_le 2"
    using assms(1,2) by (simp_all add: started_def sockaddr_size_def)
  then obtain x y r where x: "saddr b = x # y # r" by (cases "saddr b"; cases "tl (saddr b)") auto
  have f: "sa_family (saddr b) = AF_INET"
    using s(3) by (simp add: x sa_family_def family_le_def)
  have "hello_own henv b = na_addr (own_netaddr (saddr b) (hw_local henv))"
    by (simp add: hello_own_def own_netaddr_def s(1))
  also have "\<dots> = sin_addr (saddr b) @ replicate 12 0"
    using own_netaddr_inet[OF _ _ f, of "hw_local henv"] assms(3) s(2) by (simp add: env_works_def)
  finally show ?thesis using s(2) by (simp add: sin_addr_def sub_bytes_def)
qed

text \<open>C4: A daemon with an IPv4 address that has come up keeps announcing itself: as long as every allocation,
  every operation of the mutex and every \<open>sendto\<close> succeeds, and provided that its commodities fit a hello
  (at most 18), the first \<open>n\<close> rounds of its hello thread, while it hears nobody, send from its socket to the
  multicast address of its set-up \<open>n\<close> datagrams that carry the IPv4 address of its interface, the sequence
  numbers \<open>0, 1, \<dots>\<close> (modulo \<open>2 ^ 16\<close>) and the commodities of its configuration.\<close>

theorem started_daemon_announces:
  assumes "main_init se env pre os mu m = Inr (Some (d, m'))" and "pton_sizes (ie_pton env)"
    and "ipver (d_bprd d) = 2" and "env_works henv" and "length (clist (d_bprd d)) \<le> 18"
    and "hw_bprd st = d_bprd d"
  shows "\<exists>w st'. hello_writer_thread henv n st = Inr (w, st') \<and>
    hw_sent st' = hw_sent st @ map (\<lambda>k. (sockfd (d_bprd d), maddr (d_bprd d), 0 # hello_message 4
      (take 4 (drop 4 (saddr (d_bprd d)))) (of_nat k) (map (com_tlv henv) (clist (d_bprd d))) [])) [0..<n]"
proof -
  have s: "started (d_bprd d)" using main_init_state[OF assms(1,2)] by (rule conjunct1)
  have r: "bprd_ready 4 (hw_bprd st)" using started_ready[OF s] assms(3) unfolding assms(6) by simp
  have e: "nlist (ntable (d_bprd d)) = []" "hello_seqno (d_bprd d) = 0" "length (maddr (d_bprd d)) = unat (maddrlen (d_bprd d))"
    and c: "\<forall>c\<in>set (clist (d_bprd d)). netaddr_wf (c_addr c)"
    using s by (simp_all add: started_def clist_ok_def)
  have "length (take 4 (hello_own henv (d_bprd d))) = 4"
    using length_hello_own[OF assms(4) r] by (simp add: assms(6))
  then have l: "length (hello_msg henv (d_bprd d) 4 (nlist (ntable (d_bprd d)))) \<le> 509"
    using assms(5) length_com_tlvs[OF c, of henv] by (simp add: length_hello_msg hello_tlvs_def e)
  have f: "commodities_fit 4 (hw_bprd st)" using assms(5,6) by (simp add: commodities_fit_def)
  obtain w where w: "hello_writer_init (hw_alloc henv) (hw_bprd st) = Inr w" "hello_idle 4 w"
    using hello_init_idle assms(4) r unfolding bprd_ready_def by blast
  from hello_rounds_send[OF assms(4) r refl w(2) f l[folded assms(6)], of n] obtain w' st' nss where
    h: "hello_rounds henv n (w, st) = Inr (w', st')" "length nss = n" "\<forall>ns\<in>set nss. set ns \<subseteq> {}"
      "hw_sent st' = hw_sent st @ map2 (numbered henv (d_bprd d) 4) [0..<n] nss"
    unfolding assms(6) e by auto
  have z: "nss ! k = []" if "k < n" for k
    using bspec[OF h(3) nth_mem] that h(2) by simp
  have "map2 (numbered henv (d_bprd d) 4) [0..<n] nss = map (\<lambda>k. numbered henv (d_bprd d) 4 k []) [0..<n]"
    by (rule nth_equalityI) (simp_all add: h(2) z)
  with h(4) have m: "hw_sent st' = hw_sent st @ map (\<lambda>k. numbered henv (d_bprd d) 4 k []) [0..<n]" by simp
  have "numbered henv (d_bprd d) 4 k [] = (sockfd (d_bprd d), maddr (d_bprd d), 0 # hello_message 4
      (take 4 (drop 4 (saddr (d_bprd d)))) (of_nat k) (map (com_tlv henv) (clist (d_bprd d))) [])" for k
    using started_own[OF s assms(3,4)] by (simp add: numbered_def e(2) e(3)[symmetric] hello_tlvs_def)
  with m have "hw_sent st' = hw_sent st @ map (\<lambda>k. (sockfd (d_bprd d), maddr (d_bprd d), 0 # hello_message 4
      (take 4 (drop 4 (saddr (d_bprd d)))) (of_nat k) (map (com_tlv henv) (clist (d_bprd d))) [])) [0..<n]"
    by simp
  moreover have "hello_writer_thread henv n st = Inr (w', st')" by (simp add: hello_writer_thread_def w(1) h(1))
  ultimately show ?thesis by blast
qed

theorem started_daemon_announces_witness:
  "\<exists>d m' w st'. main_init sample_sock_env sample_init_env [] sample_opts () \<lparr>calls = 0, live = 0\<rparr> = Inr (Some (d, m')) \<and>
    hello_writer_thread send_env 3 \<lparr>hw_bprd = d_bprd d, hw_tick = 0, hw_freed = [], hw_sent = []\<rparr> = Inr (w, st') \<and>
    length (hw_sent st') = 3"
proof -
  let ?st = "\<lparr>hw_bprd = sample_started, hw_tick = 0, hw_freed = [], hw_sent = []\<rparr>"
  obtain d m' where r: "main_init sample_sock_env sample_init_env [] sample_opts () \<lparr>calls = 0, live = 0\<rparr> = Inr (Some (d, m'))"
    and d: "d_bprd d = sample_started" using sample_main_init by blast
  have a: "ipver (d_bprd d) = 2" "length (clist (d_bprd d)) \<le> 18" "hw_bprd ?st = d_bprd d"
    unfolding d by (simp_all add: sample_started_def)
  from started_daemon_announces[OF r sample_init_sizes a(1) send_env_works a(2,3), of 3] r d show ?thesis by fastforce
qed


text \<open>The IPv6 multicast address is not cleared: the flow information and the scope of the address that hellos
  are sent to are what the heap held before.\<close>

lemma multicast_address_keeps_heap:
  assumes "ipver b = 10" and "ie_pton env AF_INET6 MANET_LINKLOCAL_ROUTERS_V6 = Some x" and "length x = 16"
    and "ie_alloc env (calls m)" and "i \<in> {4..<8} \<union> {24..<28}"
  shows "\<exists>b' m'. create_multicast env b m = Inr (b', m') \<and> length (maddr b') = 28 \<and> maddr b' ! i = ie_fresh env (calls m) i"
proof -
  let ?y = "map (ie_fresh env (calls m)) [0..<28]"
  let ?a = "put_bytes 2 port_bytes (put_bytes 8 x (put_bytes 0 (family_le 10) (put_bytes 0 [0] ?y)))"
  have f: "length (family_le 10) = 2" "length port_bytes = 2" by (simp_all add: family_le_def port_bytes_def)
  have s: "length ?y = 28" "?y ! i = ie_fresh env (calls m) i" using assms(5) by auto
  have n: "put_bytes off z d ! i = d ! i" if "off + length z \<le> length d" "i < off \<or> off + length z \<le> i" "i < length d" for off z d
    using that by (auto simp: put_bytes_def nth_append min_def)
  have "create_multicast env b m = Inr (b\<lparr>maddrlen := 28, maddr := ?a\<rparr>, m\<lparr>calls := calls m + 1, live := live m + 1\<rparr>)"
    using assms(1,2,4) by (simp add: create_multicast_def mem_alloc_def sockaddr_size_def)
  moreover have "length ?a = 28 \<and> ?a ! i = ie_fresh env (calls m) i"
    using assms(3,5) s f by (auto simp: n)
  ultimately show ?thesis by force
qed

end
