(* ===== verification/Autobuf.thy ===== *)
theory Autobuf
  imports PbbParse
begin

text \<open>
  \<open>lib/common/autobuf.c\<close>: a buffer that grows when text is appended. Sizes are
  64-bit words, as \<open>size_t\<close> is; a C string is the list of its characters without the terminating null.
  \<open>alloc\<close> says which call of the memory handlers succeeds. What \<open>vsnprintf\<close> and \<open>strftime\<close> produce for
  the arguments of a call is a parameter.
\<close>

section \<open>Buffers\<close>

type_synonym size_t = "64 word"

record autobuf =
  ab_size :: size_t
  ab_len :: size_t
  ab_buf :: "bytes option"

definition AUTOBUFCHUNK :: size_t where "AUTOBUFCHUNK = 4096"

definition round_up :: "size_t \<Rightarrow> size_t \<Rightarrow> size_t" where
  "round_up val pow2 = (val + pow2 - 1) AND NOT (pow2 - 1)"

definition mem_realloc :: "(nat \<Rightarrow> bool) \<Rightarrow> bytes option \<Rightarrow> mem \<Rightarrow> bool \<times> mem" where
  "mem_realloc alloc p m =
     (let ok = alloc (calls m)
      in (ok, \<lparr>calls = calls m + 1, live = live m + (if ok \<and> p = None then 1 else 0)\<rparr>))"

text \<open>A store into the block of a buffer, with the bound checked.\<close>

definition buf_write :: "nat \<Rightarrow> bytes \<Rightarrow> autobuf \<Rightarrow> halt + autobuf" where
  "buf_write off p b =
     rbind (deref (ab_buf b)) (\<lambda>d. rbind (memcpy d off p) (\<lambda>d. Inr (b\<lparr>ab_buf := Some d\<rparr>)))"

definition autobuf_enlarge :: "(nat \<Rightarrow> bool) \<Rightarrow> size_t \<Rightarrow> autobuf \<times> mem \<Rightarrow> halt + int \<times> autobuf \<times> mem" where
  "autobuf_enlarge alloc new_size s =
     (let (b, m) = s; new_size = new_size + 1
      in if ab_size b < new_size
         then let rounded = round_up (new_size + 1) AUTOBUFCHUNK
              in case mem_realloc alloc (ab_buf b) m of
                   (False, m) \<Rightarrow> Inr (-1, b, m)
                 | (True, m) \<Rightarrow>
                     if rounded < ab_size b then Inl OutOfBounds
                     else
                       let old = (case ab_buf b of None \<Rightarrow> [] | Some d \<Rightarrow> take (unat (ab_size b)) d);
                           d = old @ replicate (unat (rounded - ab_size b)) 0
                       in Inr (0, b\<lparr>ab_buf := Some d, ab_size := rounded\<rparr>, m)
         else Inr (0, b, m))"

definition abuf_init :: "(nat \<Rightarrow> bool) \<Rightarrow> size_t \<Rightarrow> mem \<Rightarrow> halt + int \<times> autobuf \<times> mem" where
  "abuf_init alloc initial_size m =
     (let size = (if initial_size \<le> 0 then AUTOBUFCHUNK else round_up initial_size AUTOBUFCHUNK)
      in case mem_alloc alloc m of
           (False, m) \<Rightarrow> Inr (-1, \<lparr>ab_size = 0, ab_len = 0, ab_buf = None\<rparr>, m)
         | (True, m) \<Rightarrow>
             rbind (buf_write 0 [0] \<lparr>ab_size = size, ab_len = 0, ab_buf = Some (replicate (unat size) 0)\<rparr>) (\<lambda>b.
               Inr (0, b, m)))"

definition abuf_free :: "autobuf \<times> mem \<Rightarrow> autobuf \<times> mem" where
  "abuf_free s =
     (let (b, m) = s
      in (b\<lparr>ab_buf := None, ab_len := 0, ab_size := 0\<rparr>, if ab_buf b = None then m else mem_free 1 m))"

section \<open>Appending\<close>

text \<open>Every operation returns 0 at once for a null buffer.\<close>

definition on_buf ::
  "(autobuf \<times> mem \<Rightarrow> halt + int \<times> autobuf \<times> mem) \<Rightarrow> autobuf option \<times> mem \<Rightarrow> halt + int \<times> autobuf option \<times> mem" where
  "on_buf f s =
     (case s of
        (None, m) \<Rightarrow> Inr (0, None, m)
      | (Some b, m) \<Rightarrow> rbind (f (b, m)) (\<lambda>(r, b, m). Inr (r, Some b, m)))"

text \<open>\<open>vsnprintf\<close> at an offset with room for \<open>n\<close> bytes: \<open>out\<close> is the text that the format gives, \<open>None\<close> an
  error. \<open>strftime\<close> gives 0 when the text does not fit; the bytes are undefined then.\<close>

definition vsnprintf :: "nat \<Rightarrow> nat \<Rightarrow> bytes option \<Rightarrow> autobuf \<Rightarrow> halt + int \<times> autobuf" where
  "vsnprintf off n out b =
     (case out of
        None \<Rightarrow> Inr (-1, b)
      | Some t \<Rightarrow>
          if n = 0 then Inr (int (length t), b)
          else rbind (buf_write off (take (n - 1) t @ [0]) b) (\<lambda>b. Inr (int (length t), b)))"

definition strftime :: "(nat \<Rightarrow> u8) \<Rightarrow> nat \<Rightarrow> nat \<Rightarrow> bytes \<Rightarrow> autobuf \<Rightarrow> halt + nat \<times> autobuf" where
  "strftime undef off n out b =
     (if n = 0 then Inr (0, b)
      else if length out < n then rbind (buf_write off (out @ [0]) b) (\<lambda>b. Inr (length out, b))
      else rbind (buf_write off (map undef [0..<n]) b) (\<lambda>b. Inr (0, b)))"

definition abuf_vappendf :: "(nat \<Rightarrow> bool) \<Rightarrow> bytes option \<Rightarrow> autobuf \<times> mem \<Rightarrow> halt + int \<times> autobuf \<times> mem" where
  "abuf_vappendf alloc out s =
     (let (b, m) = s
      in rbind (vsnprintf (unat (ab_len b)) (unat (ab_size b - ab_len b)) out b) (\<lambda>(rc, b).
         let min_size = ab_len b + word_of_int rc
         in if ab_size b \<le> min_size
            then rbind (autobuf_enlarge alloc min_size (b, m)) (\<lambda>(r, b, m).
              if r < 0 then rbind (buf_write (unat (ab_len b)) [0] b) (\<lambda>b. Inr (-1, b, m))
              else rbind (vsnprintf (unat (ab_len b)) (unat (ab_size b - ab_len b)) out b) (\<lambda>(_, b).
                Inr (0, b\<lparr>ab_len := min_size\<rparr>, m)))
            else Inr (0, b\<lparr>ab_len := min_size\<rparr>, m)))"

definition abuf_appendf :: "(nat \<Rightarrow> bool) \<Rightarrow> bytes option \<Rightarrow> autobuf \<times> mem \<Rightarrow> halt + int \<times> autobuf \<times> mem" where
  "abuf_appendf alloc out s = abuf_vappendf alloc out s"

definition abuf_puts :: "(nat \<Rightarrow> bool) \<Rightarrow> bytes option \<Rightarrow> autobuf \<times> mem \<Rightarrow> halt + int \<times> autobuf \<times> mem" where
  "abuf_puts alloc txt s =
     (case txt of
        None \<Rightarrow> Inr (0, s)
      | Some t \<Rightarrow>
          let (b, m) = s; len = of_nat (length t)
          in rbind (autobuf_enlarge alloc (ab_len b + len + 1) (b, m)) (\<lambda>(r, b, m).
             if r < 0 then Inr (-1, b, m)
             else rbind (buf_write (unat (ab_len b)) (t @ [0]) b) (\<lambda>b. Inr (0, b\<lparr>ab_len := ab_len b + len\<rparr>, m))))"

definition abuf_strftime ::
  "(nat \<Rightarrow> bool) \<Rightarrow> (nat \<Rightarrow> u8) \<Rightarrow> bytes \<Rightarrow> autobuf \<times> mem \<Rightarrow> halt + int \<times> autobuf \<times> mem" where
  "abuf_strftime alloc undef out s =
     (let (b, m) = s
      in rbind (strftime undef (unat (ab_len b)) (unat (ab_size b - ab_len b)) out b) (\<lambda>(rc, b).
         if rc = 0
         then rbind (autobuf_enlarge alloc (ab_size b + AUTOBUFCHUNK) (b, m)) (\<lambda>(r, b, m).
           if r < 0 then rbind (buf_write (unat (ab_len b)) [0] b) (\<lambda>b. Inr (-1, b, m))
           else rbind (strftime undef (unat (ab_len b)) (unat (ab_size b - ab_len b)) out b) (\<lambda>(rc, b).
             Inr (if rc = 0 then -1 else 0, b\<lparr>ab_len := ab_len b + of_nat rc\<rparr>, m)))
         else Inr (0, b\<lparr>ab_len := ab_len b + of_nat rc\<rparr>, m)))"

definition abuf_memcpy :: "(nat \<Rightarrow> bool) \<Rightarrow> bytes \<Rightarrow> autobuf \<times> mem \<Rightarrow> halt + int \<times> autobuf \<times> mem" where
  "abuf_memcpy alloc p s =
     (let (b, m) = s; len = of_nat (length p)
      in rbind (autobuf_enlarge alloc (ab_len b + len) (b, m)) (\<lambda>(r, b, m).
         if r < 0 then Inr (-1, b, m)
         else rbind (buf_write (unat (ab_len b)) p b) (\<lambda>b.
              let b = b\<lparr>ab_len := ab_len b + len\<rparr>
              in rbind (buf_write (unat (ab_len b)) [0] b) (\<lambda>b. Inr (0, b, m)))))"

definition abuf_memcpy_prefix :: "(nat \<Rightarrow> bool) \<Rightarrow> bytes \<Rightarrow> autobuf \<times> mem \<Rightarrow> halt + int \<times> autobuf \<times> mem" where
  "abuf_memcpy_prefix alloc p s =
     (let (b, m) = s; len = of_nat (length p)
      in rbind (autobuf_enlarge alloc (ab_len b + len) (b, m)) (\<lambda>(r, b, m).
         if r < 0 then Inr (-1, b, m)
         else rbind (deref (ab_buf b)) (\<lambda>d.
              rbind (buf_write (length p) (take (unat (ab_len b)) d) b) (\<lambda>b.
              rbind (buf_write 0 p b) (\<lambda>b.
              let b = b\<lparr>ab_len := ab_len b + len\<rparr>
              in rbind (buf_write (unat (ab_len b)) [0] b) (\<lambda>b. Inr (0, b, m)))))))"

section \<open>Removing\<close>

definition abuf_pull :: "(nat \<Rightarrow> bool) \<Rightarrow> size_t \<Rightarrow> autobuf \<times> mem \<Rightarrow> halt + autobuf \<times> mem" where
  "abuf_pull alloc len s =
     (let (b, m) = s
      in rbind (if len \<noteq> ab_len b
                then rbind (deref (ab_buf b)) (\<lambda>d.
                  if length d < unat len + unat (ab_len b - len) then Inl OutOfBounds
                  else buf_write 0 (sub_bytes (unat len) (unat (ab_len b - len)) d) b)
                else Inr b) (\<lambda>b.
         let b = b\<lparr>ab_len := ab_len b - len\<rparr>; newsize = round_up (ab_len b + 1) AUTOBUFCHUNK
         in if ab_size b \<le> newsize + 2 * AUTOBUFCHUNK then Inr (b, m)
            else case mem_realloc alloc (ab_buf b) m of
                   (False, m) \<Rightarrow> Inr (b, m)
                 | (True, m) \<Rightarrow>
                     Inr (b\<lparr>ab_buf := map_option (take (unat newsize)) (ab_buf b), ab_size := newsize\<rparr>, m)))"

definition abuf_clear :: "autobuf \<Rightarrow> halt + autobuf" where
  "abuf_clear b =
     (let b = b\<lparr>ab_len := 0\<rparr>
      in if ab_size b = 0 then Inr b else buf_write 0 (replicate (unat (ab_size b)) 0) b)"

text \<open>Integers are appended as they lie in memory.\<close>

definition abuf_append_uint8 :: "(nat \<Rightarrow> bool) \<Rightarrow> u8 \<Rightarrow> autobuf \<times> mem \<Rightarrow> halt + int \<times> autobuf \<times> mem" where
  "abuf_append_uint8 alloc c = abuf_memcpy alloc [c]"

definition abuf_append_uint16 :: "(nat \<Rightarrow> bool) \<Rightarrow> u16 \<Rightarrow> autobuf \<times> mem \<Rightarrow> halt + int \<times> autobuf \<times> mem" where
  "abuf_append_uint16 alloc w = abuf_memcpy alloc [lo8 w, hi8 w]"

definition abuf_append_uint32 :: "(nat \<Rightarrow> bool) \<Rightarrow> u32 \<Rightarrow> autobuf \<times> mem \<Rightarrow> halt + int \<times> autobuf \<times> mem" where
  "abuf_append_uint32 alloc w = abuf_memcpy alloc (map (\<lambda>i. ucast (drop_bit (8 * i) w)) [0..<4])"

section \<open>Sizes\<close>

lemma unat_round_up:
  assumes "unat v + 4096 < 2 ^ 64"
  shows "unat (round_up v AUTOBUFCHUNK) = (unat v + 4095) div 4096 * 4096"
proof -
  have m: "AUTOBUFCHUNK - 1 = mask 12" by (simp add: AUTOBUFCHUNK_def mask_eq_exp_minus_1)
  have "v + AUTOBUFCHUNK - 1 = v + 4095" by (simp add: AUTOBUFCHUNK_def)
  moreover have u: "unat (v + 4095) = unat v + 4095"
    using assms by (subst unat_add_lem[THEN iffD1]) simp_all
  moreover have "x AND NOT (mask 12) = push_bit 12 (drop_bit 12 x)" for x :: size_t
    by (rule bit_eqI) (auto simp: bit_simps)
  moreover have "unat (push_bit 12 (drop_bit 12 x)) = unat x div 4096 * 4096" for x :: size_t
  proof -
    have "unat x div 4096 * 4096 \<le> unat x" by simp
    also have "\<dots> < 2 ^ 64" using unsigned_less[of x] by simp
    finally show ?thesis
      by (simp add: unsigned_push_bit_eq unsigned_drop_bit_eq push_bit_eq_mult drop_bit_eq_div take_bit_eq_mod
          unat_word_ariths unat_div_distrib)
  qed
  ultimately show ?thesis unfolding round_up_def m by (simp only:)
qed

lemma round_up_bounds:
  assumes "unat v + 4096 < 2 ^ 64"
  shows "unat v \<le> unat (round_up v AUTOBUFCHUNK)" and "unat (round_up v AUTOBUFCHUNK) < unat v + 4096"
proof -
  have "(unat v + 4095) div 4096 * 4096 + (unat v + 4095) mod 4096 = unat v + 4095" by (rule div_mult_mod_eq)
  moreover have "(unat v + 4095) mod 4096 < 4096" by simp
  ultimately show "unat v \<le> unat (round_up v AUTOBUFCHUNK)" "unat (round_up v AUTOBUFCHUNK) < unat v + 4096"
    unfolding unat_round_up[OF assms] by linarith+
qed

section \<open>Well-formed buffers\<close>

definition abuf_wf :: "autobuf \<Rightarrow> bool" where
  "abuf_wf b \<longleftrightarrow>
     (case ab_buf b of
        None \<Rightarrow> ab_size b = 0 \<and> ab_len b = 0
      | Some d \<Rightarrow> length d = unat (ab_size b) \<and> unat (ab_len b) < unat (ab_size b))"

definition content :: "autobuf \<Rightarrow> bytes" where
  "content b = (case ab_buf b of None \<Rightarrow> [] | Some d \<Rightarrow> take (unat (ab_len b)) d)"

text \<open>\<open>n\<close> more bytes do not bring the sizes near the end of their range.\<close>

definition room :: "nat \<Rightarrow> autobuf \<Rightarrow> bool" where
  "room n b \<longleftrightarrow> length (content b) + n < 2 ^ 63"

lemma unat_plus_small: "unat (a :: size_t) + n < 2 ^ 64 \<Longrightarrow> unat (a + of_nat n) = unat a + n"
proof -
  assume a: "unat a + n < 2 ^ 64"
  then have "unat (of_nat n :: size_t) = n" by (simp add: unat_of_nat take_bit_eq_mod)
  with a show ?thesis by (subst unat_add_lem[THEN iffD1]) simp_all
qed

lemma length_content: "abuf_wf b \<Longrightarrow> length (content b) = unat (ab_len b)"
  by (auto simp: abuf_wf_def content_def split: option.splits)

lemma enlarge_cases:
  assumes "abuf_wf b" and "unat n < 2 ^ 63"
  obtains (fail) m' where "autobuf_enlarge alloc n (b, m) = Inr (-1, b, m')" and "\<not> alloc (calls m)"
  | (go) b' m' d where "autobuf_enlarge alloc n (b, m) = Inr (0, b', m')" and "ab_buf b' = Some d"
      and "length d = unat (ab_size b')" and "ab_len b' = ab_len b" and "content b = take (unat (ab_len b)) d"
      and "unat n < length d" and "unat (ab_len b) < length d"
proof (cases "ab_size b < n + 1")
  case False
  have n: "unat (n + 1) = unat n + 1" using unat_plus_small[of n 1] assms(2) by simp
  with False have l: "unat n < unat (ab_size b)" by (simp add: word_less_nat_alt)
  then obtain d where d: "ab_buf b = Some d" using assms(1) by (cases "ab_buf b") (auto simp: abuf_wf_def)
  show ?thesis
    by (rule go[of b m d]) (use False d l assms(1) in \<open>simp_all add: autobuf_enlarge_def abuf_wf_def content_def\<close>)
next
  case True
  show ?thesis
  proof (cases "alloc (calls m)")
    case False
    have "autobuf_enlarge alloc n (b, m) = Inr (-1, b, \<lparr>calls = calls m + 1, live = live m\<rparr>)"
      using True False by (simp add: autobuf_enlarge_def mem_realloc_def)
    then show ?thesis using False by (rule fail)
  next
    case ok: True
    let ?r = "round_up (n + 1 + 1) AUTOBUFCHUNK"
    let ?d = "(case ab_buf b of None \<Rightarrow> [] | Some d \<Rightarrow> take (unat (ab_size b)) d) @ replicate (unat (?r - ab_size b)) 0"
    have n: "unat (n + 1) = unat n + 1" "unat (n + 1 + 1) = unat n + 2"
      using unat_plus_small[of n 1] unat_plus_small[of n 2] assms(2) by (simp_all add: add.assoc)
    have "unat n + 2 + 4096 < 2 ^ 64" using assms(2) by simp
    then have r: "unat n + 2 \<le> unat ?r" by (rule round_up_bounds(1)[of "n + 1 + 1", unfolded n])
    have s: "unat (ab_size b) \<le> unat n" using True n by (simp add: word_less_nat_alt)
    with r have rs: "unat (?r - ab_size b) = unat ?r - unat (ab_size b)" by (intro unat_sub) (simp add: word_le_nat_alt)
    have w: "(case ab_buf b of None \<Rightarrow> [] | Some d \<Rightarrow> take (unat (ab_size b)) d) = (case ab_buf b of None \<Rightarrow> [] | Some d \<Rightarrow> d)"
      "length (case ab_buf b of None \<Rightarrow> [] | Some d \<Rightarrow> take (unat (ab_size b)) d) = unat (ab_size b)"
      using assms(1) by (auto simp: abuf_wf_def split: option.splits)
    have l: "length ?d = unat ?r" using w(2) rs r s by simp
    have e: "autobuf_enlarge alloc n (b, m) =
        Inr (0, b\<lparr>ab_buf := Some ?d, ab_size := ?r\<rparr>, snd (mem_realloc alloc (ab_buf b) m))"
      using True ok r s by (simp add: autobuf_enlarge_def mem_realloc_def Let_def word_less_nat_alt)
    have c: "content b = take (unat (ab_len b)) ?d" "unat (ab_len b) \<le> unat (ab_size b)"
      using assms(1) by (auto simp: content_def abuf_wf_def split: option.splits)
    show ?thesis by (rule go[OF e, of ?d]) (use l c r s in simp_all)
  qed
qed


lemma roomD: "room n b \<Longrightarrow> abuf_wf b \<Longrightarrow> k \<le> n \<Longrightarrow> unat (ab_len b + of_nat k) = unat (ab_len b) + k \<and> unat (ab_len b) + k < 2 ^ 63"
  using unat_plus_small[of "ab_len b" k] by (simp add: room_def length_content)

lemma buf_write_Some:
  "ab_buf b = Some d \<Longrightarrow> off + length p \<le> length d \<Longrightarrow> buf_write off p b = Inr (b\<lparr>ab_buf := Some (put_bytes off p d)\<rparr>)"
  by (simp add: buf_write_def memcpy_def)

lemma wf_content_eq:
  assumes "ab_buf b = Some d" and "length d = unat (ab_size b)" and "unat (ab_len b) < length d" and "take (unat (ab_len b)) d = c"
  shows "abuf_wf b" and "content b = c"
  using assms by (simp_all add: abuf_wf_def content_def)

lemma take_put_append: "k + length p \<le> length d \<Longrightarrow> take (k + length p) (put_bytes k p d) = take k d @ p"
  by (simp add: put_bytes_def)

lemma take_put_before: "k \<le> off \<Longrightarrow> off \<le> length d \<Longrightarrow> take k (put_bytes off p d) = take k d"
  by (simp add: put_bytes_def min_def)

text \<open>What an operation that appends does: it succeeds and adds \<open>p\<close>, or it runs out of memory and leaves
  the buffer as it is.\<close>

definition appends :: "(nat \<Rightarrow> bool) \<Rightarrow> bytes \<Rightarrow> autobuf \<times> mem \<Rightarrow> halt + int \<times> autobuf \<times> mem \<Rightarrow> bool" where
  "appends alloc p s out \<longleftrightarrow>
     (\<exists>r b' m'. out = Inr (r, b', m') \<and> abuf_wf b' \<and>
       (if r = 0 then content b' = content (fst s) @ p
        else r = -1 \<and> content b' = content (fst s) \<and> \<not> alloc (calls (snd s))))"

lemma abuf_memcpy_appends:
  assumes "abuf_wf b" and "room (length p) b"
  shows "appends alloc p (b, m) (abuf_memcpy alloc p (b, m))"
proof -
  note l = roomD[OF assms(2,1) order_refl]
  have n: "unat (ab_len b + of_nat (length p)) < 2 ^ 63" using l by simp
  from assms(1) n show ?thesis
  proof (cases rule: enlarge_cases[of b _ alloc m])
    case (fail m')
    with assms(1) show ?thesis by (simp add: abuf_memcpy_def appends_def)
  next
    case (go b' m' d)
    let ?k = "unat (ab_len b)" let ?d = "put_bytes ?k p d"
    have k: "?k + length p < length d" using go(6) l by simp
    have w: "buf_write ?k p b' = Inr (b'\<lparr>ab_buf := Some ?d\<rparr>)" using k by (intro buf_write_Some[OF go(2)]) simp
    let ?b = "b'\<lparr>ab_buf := Some ?d, ab_len := ab_len b + of_nat (length p)\<rparr>"
    have v: "buf_write (?k + length p) [0] ?b = Inr (?b\<lparr>ab_buf := Some (put_bytes (?k + length p) [0] ?d)\<rparr>)"
      using k by (intro buf_write_Some) simp_all
    let ?b2 = "?b\<lparr>ab_buf := Some (put_bytes (?k + length p) [0] ?d)\<rparr>"
    have "take (?k + length p) (put_bytes (?k + length p) [0] ?d) = take ?k d @ p"
      using k by (simp add: take_put_before take_put_append)
    then have "abuf_wf ?b2" "content ?b2 = content b @ p"
      using k l go(3,5) by (auto intro!: wf_content_eq simp: content_def)
    moreover have "abuf_memcpy alloc p (b, m) = Inr (0, ?b2, m')"
      using go(1,4) w v l by (simp add: abuf_memcpy_def Let_def)
    ultimately show ?thesis by (simp add: appends_def)
  qed
qed

lemma abuf_puts_appends:
  assumes "abuf_wf b" and "room (length p + 1) b"
  shows "appends alloc p (b, m) (abuf_puts alloc (Some p) (b, m))"
proof -
  have l: "unat (ab_len b + of_nat (length p)) = unat (ab_len b) + length p"
    "unat (ab_len b + of_nat (length p) + 1) = unat (ab_len b) + length p + 1" "unat (ab_len b) + length p + 1 < 2 ^ 63"
    using roomD[OF assms(2,1), of "length p"] roomD[OF assms(2,1), of "length p + 1"] by (simp_all add: ac_simps)
  have n: "unat (ab_len b + of_nat (length p) + 1) < 2 ^ 63" using l by simp
  from assms(1) n show ?thesis
  proof (cases rule: enlarge_cases[of b _ alloc m])
    case (fail m')
    with assms(1) show ?thesis by (simp add: abuf_puts_def appends_def)
  next
    case (go b' m' d)
    let ?k = "unat (ab_len b)" let ?d = "put_bytes ?k (p @ [0]) d"
    have k: "?k + length p + 1 < length d" using go(6) l by simp
    have w: "buf_write ?k (p @ [0]) b' = Inr (b'\<lparr>ab_buf := Some ?d\<rparr>)" using k by (intro buf_write_Some[OF go(2)]) simp
    let ?b = "b'\<lparr>ab_buf := Some ?d, ab_len := ab_len b + of_nat (length p)\<rparr>"
    have "take (?k + length p) ?d = take ?k d @ p" using k by (simp add: put_bytes_def)
    then have "abuf_wf ?b" "content ?b = content b @ p" using k l go(3,5) by (auto intro!: wf_content_eq simp: content_def)
    moreover have "abuf_puts alloc (Some p) (b, m) = Inr (0, ?b, m')"
      using go(1,4) w by (simp add: abuf_puts_def Let_def)
    ultimately show ?thesis by (simp add: appends_def)
  qed
qed

lemma abuf_vappendf_appends:
  assumes "abuf_wf b" and "room (length t) b" and "ab_buf b \<noteq> None"
  shows "appends alloc t (b, m) (abuf_vappendf alloc (Some t) (b, m))"
proof -
  obtain d where d: "ab_buf b = Some d" using assms(3) by blast
  let ?k = "unat (ab_len b)" let ?n = "unat (ab_size b - ab_len b)"
  have wf: "length d = unat (ab_size b)" "?k < length d" using assms(1) d by (simp_all add: abuf_wf_def)
  have n: "?n = length d - ?k" using wf by (simp add: unat_sub word_le_nat_alt)
  let ?d = "put_bytes ?k (take (?n - 1) t @ [0]) d"
  have ld: "?k + length (take (?n - 1) t @ [0]) \<le> length d" using wf n by auto
  let ?b = "b\<lparr>ab_buf := Some ?d\<rparr>"
  have f: "vsnprintf ?k ?n (Some t) b = Inr (int (length t), ?b)"
  proof -
    have "?n \<noteq> 0" using wf n by simp
    then show ?thesis by (simp only: vsnprintf_def option.case if_False buf_write_Some[OF d ld] rbind_simps)
  qed
  have wfb: "abuf_wf ?b" "content ?b = content b"
    using wf ld d by (auto simp: abuf_wf_def content_def take_put_before)
  note l = roomD[OF assms(2,1) order_refl]
  show ?thesis
  proof (cases "ab_size b \<le> ab_len b + of_nat (length t)")
    case False
    then have s: "?k + length t < length d" using l wf by (simp add: word_le_nat_alt)
    then have "take (?k + length t) ?d = take ?k d @ t" using n by (simp add: put_bytes_def)
    then have "abuf_wf (?b\<lparr>ab_len := ab_len b + of_nat (length t)\<rparr>)"
      "content (?b\<lparr>ab_len := ab_len b + of_nat (length t)\<rparr>) = content b @ t"
      using s l wf ld d by (auto intro!: wf_content_eq simp: content_def)
    with False f show ?thesis by (simp add: abuf_vappendf_def appends_def Let_def)
  next
    case True
    have m: "unat (ab_len b + of_nat (length t)) < 2 ^ 63" using l by simp
    from wfb(1) m show ?thesis
    proof (cases rule: enlarge_cases[of ?b _ alloc m])
      case (fail m')
      have z: "buf_write ?k [0] ?b = Inr (?b\<lparr>ab_buf := Some (put_bytes ?k [0] ?d)\<rparr>)"
        using wf(2) ld by (intro buf_write_Some) simp_all
      have "abuf_wf (?b\<lparr>ab_buf := Some (put_bytes ?k [0] ?d)\<rparr>)" "content (?b\<lparr>ab_buf := Some (put_bytes ?k [0] ?d)\<rparr>) = content b"
        using wf ld d by (auto intro!: wf_content_eq simp: content_def take_put_before)
      with True f fail z show ?thesis by (simp add: abuf_vappendf_def appends_def Let_def)
    next
      case (go b' m' e)
      have k: "?k + length t < length e" "?k < length e" using go(6,7) l by simp_all
      have "unat (ab_size b' - ab_len b') = length e - ?k"
        using k(2) go(3,4) by (simp add: unat_sub word_le_nat_alt)
      then have t: "take (unat (ab_size b' - ab_len b') - 1) t = t" "unat (ab_size b' - ab_len b') \<noteq> 0" using k by auto
      have lk: "?k + length (t @ [0]) \<le> length e" using k by simp
      have g: "vsnprintf ?k (unat (ab_size b' - ab_len b')) (Some t) b' =
          Inr (int (length t), b'\<lparr>ab_buf := Some (put_bytes ?k (t @ [0]) e)\<rparr>)"
        using t by (simp add: vsnprintf_def buf_write_Some[OF go(2) lk])
      let ?b2 = "b'\<lparr>ab_buf := Some (put_bytes ?k (t @ [0]) e), ab_len := ab_len b + of_nat (length t)\<rparr>"
      have "take (?k + length t) (put_bytes ?k (t @ [0]) e) = take ?k e @ t" using k by (simp add: put_bytes_def)
      then have "abuf_wf ?b2" "content ?b2 = content b @ t"
        using k l lk go(3,5) wfb(2) by (auto intro!: wf_content_eq)
      with True f go(1,4) g show ?thesis by (simp add: abuf_vappendf_def appends_def Let_def)
    qed
  qed
qed

lemma abuf_memcpy_prefix_prepends:
  assumes "abuf_wf b" and "room (length p) b"
  shows "\<exists>r b' m'. abuf_memcpy_prefix alloc p (b, m) = Inr (r, b', m') \<and> abuf_wf b' \<and>
    (if r = 0 then content b' = p @ content b else r = -1 \<and> content b' = content b \<and> \<not> alloc (calls m))"
proof -
  note l = roomD[OF assms(2,1) order_refl]
  have n: "unat (ab_len b + of_nat (length p)) < 2 ^ 63" using l by simp
  from assms(1) n show ?thesis
  proof (cases rule: enlarge_cases[of b _ alloc m])
    case (fail m')
    with assms(1) show ?thesis by (simp add: abuf_memcpy_prefix_def)
  next
    case (go b' m' d)
    let ?k = "unat (ab_len b)" let ?d1 = "put_bytes (length p) (take ?k d) d" let ?d2 = "put_bytes 0 p ?d1"
    let ?d3 = "put_bytes (?k + length p) [0] ?d2"
    have k: "?k + length p < length d" using go(6) l by simp
    have w: "buf_write (length p) (take ?k d) b' = Inr (b'\<lparr>ab_buf := Some ?d1\<rparr>)" using k by (intro buf_write_Some[OF go(2)]) simp
    have d1: "length ?d1 = length d" using k by simp
    have w2: "buf_write 0 p (b'\<lparr>ab_buf := Some ?d1\<rparr>) = Inr (b'\<lparr>ab_buf := Some ?d2\<rparr>)"
      using k d1 by (subst buf_write_Some[OF _]) simp_all
    have d2: "length ?d2 = length d" using k d1 by simp
    let ?b = "b'\<lparr>ab_buf := Some ?d2, ab_len := ab_len b + of_nat (length p)\<rparr>"
    have v: "buf_write (?k + length p) [0] ?b = Inr (?b\<lparr>ab_buf := Some ?d3\<rparr>)"
      using k d2 by (intro buf_write_Some) simp_all
    have "take (?k + length p) ?d2 = p @ take ?k d" using k by (simp add: put_bytes_def min_def)
    then have t: "take (?k + length p) ?d3 = p @ content b" using k d2 go(5) by (simp add: take_put_before)
    have "length ?d3 = length d" using k d2 by simp
    then have "abuf_wf (?b\<lparr>ab_buf := Some ?d3\<rparr>)" "content (?b\<lparr>ab_buf := Some ?d3\<rparr>) = p @ content b"
      using k l go(3) t by (auto intro!: wf_content_eq)
    moreover have "abuf_memcpy_prefix alloc p (b, m) = Inr (0, ?b\<lparr>ab_buf := Some ?d3\<rparr>, m')"
      using go(1,2,4) w w2 v l by (simp add: abuf_memcpy_prefix_def Let_def)
    ultimately show ?thesis by simp
  qed
qed

lemma abuf_pull_drops:
  assumes "abuf_wf b" and "room 0 b" and "unat n \<le> unat (ab_len b)"
  shows "\<exists>b' m'. abuf_pull alloc n (b, m) = Inr (b', m') \<and> abuf_wf b' \<and> content b' = drop (unat n) (content b) \<and>
    live m' = live m"
proof -
  let ?k = "unat (ab_len b)" let ?l = "ab_len b - n"
  have l: "unat ?l = ?k - unat n" using assms(3) by (simp add: unat_sub word_le_nat_alt)
  have k: "?k < 2 ^ 63" using roomD[OF assms(2,1), of 0] by simp
  define b1 where "b1 = (if n \<noteq> ab_len b then b\<lparr>ab_buf := map_option (\<lambda>d. put_bytes 0 (sub_bytes (unat n) (unat ?l) d) d) (ab_buf b)\<rparr> else b)"
  let ?b1 = "b1\<lparr>ab_len := ?l\<rparr>"
  have s1: "ab_size b1 = ab_size b" "ab_len b1 = ab_len b" by (simp_all add: b1_def)
  have move: "(if n \<noteq> ab_len b then rbind (deref (ab_buf b)) (\<lambda>d.
      if length d < unat n + unat ?l then Inl OutOfBounds else buf_write 0 (sub_bytes (unat n) (unat ?l) d) b) else Inr b) = Inr b1"
  proof (cases "ab_buf b")
    case None
    then have "ab_len b = 0" using assms(1) by (simp add: abuf_wf_def)
    moreover from this assms(3) have "n = 0" by (simp add: unat_eq_0)
    ultimately show ?thesis by (simp add: b1_def)
  next
    case (Some d)
    then have "?k < length d" using assms(1) by (simp add: abuf_wf_def)
    then have "unat n + unat ?l \<le> length d" "0 + length (sub_bytes (unat n) (unat ?l) d) \<le> length d"
      using l assms(3) by simp_all
    then show ?thesis using buf_write_Some[OF Some, of 0 "sub_bytes (unat n) (unat ?l) d"] Some by (simp add: b1_def)
  qed
  have c1: "content ?b1 = drop (unat n) (content b) \<and> abuf_wf ?b1"
  proof (cases "ab_buf b")
    case None
    then show ?thesis using assms(1,3) by (auto simp: b1_def content_def abuf_wf_def unat_eq_0)
  next
    case (Some d)
    then have w: "?k < length d" "length d = unat (ab_size b)" using assms(1) by (simp_all add: abuf_wf_def)
    have "take (unat ?l) (put_bytes 0 (sub_bytes (unat n) (unat ?l) d) d) = drop (unat n) (take ?k d)"
      using w l by (simp add: put_bytes_def sub_bytes_def drop_take)
    moreover have "unat n + unat ?l \<le> length d" using w l assms(3) by simp
    then have "length (put_bytes 0 (sub_bytes (unat n) (unat ?l) d) d) = length d" by simp
    ultimately show ?thesis using w l Some by (auto simp: b1_def content_def abuf_wf_def)
  qed
  let ?s = "round_up (?l + 1) AUTOBUFCHUNK"
  have l1: "unat (?l + 1) = unat ?l + 1" using unat_plus_small[of ?l 1] k l by simp
  then have b: "unat (?l + 1) + 4096 < 2 ^ 64" using k l by simp
  have r: "unat ?l + 1 \<le> unat ?s" "unat ?s < unat ?l + 1 + 4096" using round_up_bounds[OF b] unfolding l1 by simp_all
  have "unat (?s + of_nat 8192) = unat ?s + 8192" using r(2) k l by (intro unat_plus_small) simp
  then have w: "unat (?s + 2 * AUTOBUFCHUNK) = unat ?s + 8192" by (simp add: AUTOBUFCHUNK_def)
  have e: "abuf_pull alloc n (b, m) =
     (if ab_size b \<le> ?s + 2 * AUTOBUFCHUNK then Inr (?b1, m)
      else case mem_realloc alloc (ab_buf b1) m of
             (False, m) \<Rightarrow> Inr (?b1, m)
           | (True, m) \<Rightarrow> Inr (?b1\<lparr>ab_buf := map_option (take (unat ?s)) (ab_buf b1), ab_size := ?s\<rparr>, m))"
    unfolding abuf_pull_def Let_def prod.case move rbind_simps
    by (cases "mem_realloc alloc (ab_buf b1) m") (simp add: s1 split: bool.split)
  show ?thesis
  proof (cases "ab_size b \<le> ?s + 2 * AUTOBUFCHUNK \<or> \<not> alloc (calls m)")
    case True
    then show ?thesis using c1 unfolding e by (auto simp: mem_realloc_def)
  next
    case False
    then have sz: "unat ?s + 8192 < unat (ab_size b)" using w by (simp add: word_le_nat_alt not_le)
    then have "ab_buf b \<noteq> None" using assms(1) by (cases "ab_buf b") (simp_all add: abuf_wf_def)
    then obtain d where d: "ab_buf b1 = Some d" by (cases "n = ab_len b") (auto simp: b1_def)
    then have ld: "length d = unat (ab_size b)" using c1 by (simp add: abuf_wf_def s1)
    let ?b2 = "?b1\<lparr>ab_buf := Some (take (unat ?s) d), ab_size := ?s\<rparr>"
    have "take (unat ?l) (take (unat ?s) d) = take (unat ?l) d" using r(1) by simp
    then have "abuf_wf ?b2" "content ?b2 = content ?b1" using d ld sz r(1) by (auto simp: abuf_wf_def content_def)
    then show ?thesis using False c1 d unfolding e by (auto simp: mem_realloc_def)
  qed
qed

section \<open>Properties\<close>

text \<open>C30: An automatic buffer is the sequence of its bytes, as long as sizes stay below \<open>2 ^ 63\<close>: appending a
  block or a string puts it at the end, prepending puts it in front, pulling removes as many bytes from the
  front. Whether memory is available or not, the buffer stays well formed, and an operation that fails
  returns -1 and leaves the bytes as they were.\<close>

theorem abuf_refines_bytes:
  assumes "abuf_wf b" and "room (length p + 1) b" and "unat n \<le> length (content b)"
  shows "appends alloc p (b, m) (abuf_memcpy alloc p (b, m)) \<and> appends alloc p (b, m) (abuf_puts alloc (Some p) (b, m)) \<and>
    (ab_buf b \<noteq> None \<longrightarrow> appends alloc p (b, m) (abuf_vappendf alloc (Some p) (b, m))) \<and>
    (\<exists>r b' m'. abuf_memcpy_prefix alloc p (b, m) = Inr (r, b', m') \<and> abuf_wf b' \<and>
      (if r = 0 then content b' = p @ content b else r = -1 \<and> content b' = content b \<and> \<not> alloc (calls m))) \<and>
    (\<exists>b' m'. abuf_pull alloc n (b, m) = Inr (b', m') \<and> abuf_wf b' \<and> content b' = drop (unat n) (content b) \<and> live m' = live m)"
proof -
  have r: "room (length p) b" "room 0 b" using assms(2) by (simp_all add: room_def)
  have n: "unat n \<le> unat (ab_len b)" using assms(3) length_content[OF assms(1)] by simp
  show ?thesis
    using abuf_memcpy_appends[OF assms(1) r(1)] abuf_puts_appends[OF assms(1,2)] abuf_vappendf_appends[OF assms(1) r(1)]
      abuf_memcpy_prefix_prepends[OF assms(1) r(1)] abuf_pull_drops[OF assms(1) r(2) n] by blast
qed

theorem abuf_refines_bytes_witness:
  "\<exists>b' m'. abuf_pull (\<lambda>_. True) 1 (\<lparr>ab_size = 4, ab_len = 2, ab_buf = Some [7, 8, 0, 0]\<rparr>, \<lparr>calls = 0, live = 1\<rparr>) =
     Inr (b', m') \<and> content b' = [8]"
proof -
  let ?b = "\<lparr>ab_size = 4, ab_len = 2, ab_buf = Some [7, 8, 0, 0]\<rparr>"
  have "abuf_wf ?b" "room (length [9 :: u8] + 1) ?b" "unat (1 :: size_t) \<le> length (content ?b)"
    by (simp_all add: abuf_wf_def room_def content_def)
  from abuf_refines_bytes[OF this, of "\<lambda>_. True" "\<lparr>calls = 0, live = 1\<rparr>"]
  have "\<exists>b' m'. abuf_pull (\<lambda>_. True) 1 (?b, \<lparr>calls = 0, live = 1\<rparr>) = Inr (b', m') \<and> abuf_wf b' \<and>
    content b' = drop (unat (1 :: size_t)) (content ?b) \<and> live m' = 1" by simp
  then show ?thesis by (auto simp: content_def)
qed

end
