(* ===== verification/AbufTemplate.thy ===== *)
theory AbufTemplate
  imports Autobuf
begin

text \<open>
  The template engine of \<open>lib/common/autobuf.c\<close>: an index table is made from a format once, and is used to
  append the format with values for its keys. Appending is an interface, the locale \<open>text_sink\<close>, which the
  automatic buffers provide.
\<close>

section \<open>Templates\<close>

text \<open>The first key that is the text at the beginning of \<open>txt\<close>.\<close>

fun find_template :: "string list \<Rightarrow> int \<Rightarrow> string \<Rightarrow> nat \<Rightarrow> int" where
  "find_template [] i txt n = -1"
| "find_template (k # keys) i txt n =
     (if take n k = take n txt \<and> (k @ [CHR 0x00]) ! n = CHR 0x00 then i else find_template keys (i + 1) txt n)"

definition abuf_find_template :: "string list \<Rightarrow> string \<Rightarrow> nat \<Rightarrow> int" where
  "abuf_find_template keys txt n = find_template keys 0 txt n"

text \<open>The loop over the format; \<open>table\<close> holds the indices written so far.\<close>

function template_loop ::
  "string list \<Rightarrow> string \<Rightarrow> nat \<Rightarrow> nat \<Rightarrow> nat \<Rightarrow> bool \<Rightarrow> bool \<Rightarrow> nat list \<Rightarrow> int \<times> nat list" where
  "template_loop keys fmt cap pos start escape no_open table =
     (if length fmt \<le> pos then (int (length table), table)
      else if \<not> escape \<and> fmt ! pos = CHR ''%''
      then if no_open then template_loop keys fmt cap (pos + 1) pos escape False table
           else if 1 < pos - start
           then if cap < length table + 3 then (-1, table)
                else
                  let i = abuf_find_template keys (drop (start + 1) fmt) (pos - start - 1);
                      table = (if i \<noteq> -1 then table @ [nat i, start, pos + 1] else table)
                  in template_loop keys fmt cap (pos + 1) start escape True table
           else template_loop keys fmt cap (pos + 1) start escape True table
      else if fmt ! pos = CHR 0x5C then template_loop keys fmt cap (pos + 1) start (\<not> escape) no_open table
      else template_loop keys fmt cap (pos + 1) start False no_open table)"
  by pat_completeness auto
termination
  by (relation "measure (\<lambda>(keys, fmt, cap, pos, start, escape, no_open, table). length fmt - pos)") auto

declare template_loop.simps [simp del]

definition abuf_template_init :: "string list \<Rightarrow> string \<Rightarrow> nat \<Rightarrow> int \<times> nat list" where
  "abuf_template_init keys fmt cap = template_loop keys fmt cap 0 0 False True []"

definition text_bytes :: "string \<Rightarrow> bytes" where
  "text_bytes t = map of_char t"

text \<open>The text between the keys is copied, the values are put in; \<open>copy\<close> and \<open>puts\<close> are the two ways of
  appending.\<close>

fun templatef_loop ::
  "(bytes \<Rightarrow> 's \<Rightarrow> halt + int \<times> 's) \<Rightarrow> (bytes option \<Rightarrow> 's \<Rightarrow> halt + int \<times> 's) \<Rightarrow> string \<Rightarrow> string list \<Rightarrow> nat list \<Rightarrow> nat \<Rightarrow>
     's \<Rightarrow> halt + int \<times> 's" where
  "templatef_loop copy puts fmt values [] prev s =
     (if prev < length fmt
      then rbind (puts (Some (text_bytes (drop prev fmt))) s) (\<lambda>(r, s). Inr (if r < 0 then -1 else 0, s))
      else Inr (0, s))"
| "templatef_loop copy puts fmt values (i # start # end # table) prev s =
     rbind (if prev < start then copy (text_bytes (sub_bytes prev (start - prev) fmt)) s else Inr (0, s)) (\<lambda>(r, s).
       if r < 0 then Inr (-1, s)
       else if length values \<le> i then Inl OutOfBounds
       else rbind (puts (Some (text_bytes (values ! i))) s) (\<lambda>(r, s).
         if r < 0 then Inr (-1, s) else templatef_loop copy puts fmt values table end s))"
| "templatef_loop copy puts fmt values table prev s = Inl OutOfBounds"

definition abuf_templatef ::
  "(nat \<Rightarrow> bool) \<Rightarrow> string \<Rightarrow> string list \<Rightarrow> nat list \<Rightarrow> autobuf \<times> mem \<Rightarrow> halt + int \<times> autobuf \<times> mem" where
  "abuf_templatef alloc fmt values table s = templatef_loop (abuf_memcpy alloc) (abuf_puts alloc) fmt values table 0 s"

section \<open>What a template stands for\<close>

text \<open>The text of a format: \<open>open\<close> is what was read since an opening percent sign.\<close>

fun render :: "(string \<Rightarrow> string option) \<Rightarrow> string option \<Rightarrow> bool \<Rightarrow> string \<Rightarrow> string" where
  "render f None esc [] = []"
| "render f (Some k) esc [] = CHR ''%'' # k"
| "render f None esc (c # r) =
     (if \<not> esc \<and> c = CHR ''%'' then render f (Some []) False r else c # render f None (c = CHR 0x5C \<and> \<not> esc) r)"
| "render f (Some k) esc (c # r) =
     (if \<not> esc \<and> c = CHR ''%''
      then (case if k = [] then None else f k of None \<Rightarrow> CHR ''%'' # k @ [CHR ''%''] | Some v \<Rightarrow> v) @ render f None False r
      else render f (Some (k @ [c])) (c = CHR 0x5C \<and> \<not> esc) r)"

text \<open>The text that an index table gives.\<close>

fun fill :: "string \<Rightarrow> string list \<Rightarrow> nat list \<Rightarrow> nat \<Rightarrow> string" where
  "fill fmt values (i # start # end # table) prev =
     sub_bytes prev (start - prev) fmt @ values ! i @ fill fmt values table end"
| "fill fmt values table prev = drop prev fmt"

fun table_ok :: "string list \<Rightarrow> nat list \<Rightarrow> bool" where
  "table_ok values [] \<longleftrightarrow> True"
| "table_ok values (i # start # end # table) \<longleftrightarrow> i < length values \<and> table_ok values table"
| "table_ok values table \<longleftrightarrow> False"

lemma key_match:
  assumes "CHR 0x00 \<notin> set k" and "n \<le> length t"
  shows "take n k = take n t \<and> (k @ [CHR 0x00]) ! n = CHR 0x00 \<longleftrightarrow> k = take n t"
proof
  assume a: "take n k = take n t \<and> (k @ [CHR 0x00]) ! n = CHR 0x00"
  have "n \<le> length k" using arg_cong[OF conjunct1[OF a], of length] assms(2) by simp
  moreover have "\<not> n < length k" using a assms(1) by (metis nth_append nth_mem)
  ultimately have "take n k = k" by simp
  with a show "k = take n t" by simp
next
  show "k = take n t \<Longrightarrow> take n k = take n t \<and> (k @ [CHR 0x00]) ! n = CHR 0x00" using assms(2) by (simp add: nth_append)
qed

lemma find_template_map_of:
  assumes "\<forall>k\<in>set keys. CHR 0x00 \<notin> set k" and "n \<le> length t" and "length vals = length keys"
  shows "case map_of (zip keys vals) (take n t) of
      None \<Rightarrow> find_template keys i t n = -1
    | Some v \<Rightarrow> \<exists>j<length vals. find_template keys i t n = i + int j \<and> vals ! j = v"
  using assms
proof (induction keys arbitrary: vals i)
  case (Cons k keys)
  obtain v vs where v: "vals = v # vs" using Cons.prems(3) by (cases vals) auto
  show ?case
  proof (cases "k = take n t")
    case True
    then show ?thesis using key_match[of k n t] Cons.prems v by auto
  next
    case False
    then have f: "find_template (k # keys) i t n = find_template keys (i + 1) t n"
      "map_of (zip (k # keys) vals) (take n t) = map_of (zip keys vs) (take n t)"
      using key_match[of k n t] Cons.prems v by auto
    have ih: "case map_of (zip keys vs) (take n t) of
        None \<Rightarrow> find_template keys (i + 1) t n = -1
      | Some x \<Rightarrow> \<exists>j<length vs. find_template keys (i + 1) t n = i + 1 + int j \<and> vs ! j = x"
      using Cons.prems v by (intro Cons.IH) auto
    show ?thesis
    proof (cases "map_of (zip keys vs) (take n t)")
      case None
      with ih show ?thesis unfolding f by simp
    next
      case (Some x)
      with ih obtain j where "j < length vs" "find_template keys (i + 1) t n = i + 1 + int j" "vs ! j = x" by auto
      with Some show ?thesis unfolding f by (auto simp: v intro!: exI[of _ "Suc j"])
    qed
  qed
qed simp

lemma sub_bytes_snoc: "s \<le> p \<Longrightarrow> p < length xs \<Longrightarrow> sub_bytes s (Suc p - s) xs = sub_bytes s (p - s) xs @ [xs ! p]"
  by (simp add: sub_bytes_def Suc_diff_le take_Suc_conv_app_nth)

lemma sub_bytes_drop: "p \<le> s \<Longrightarrow> s \<le> e \<Longrightarrow> e \<le> length xs \<Longrightarrow> sub_bytes p (s - p) xs @ sub_bytes s (e - s) xs = sub_bytes p (e - p) xs"
  using take_add[of "s - p" "e - s" "drop p xs"] by (simp add: sub_bytes_def)

text \<open>The part of the format that is still open, or after which everything is copied.\<close>

definition opened :: "string \<Rightarrow> nat \<Rightarrow> nat \<Rightarrow> bool \<Rightarrow> string option" where
  "opened fmt pos start no_open = (if no_open then None else Some (sub_bytes (Suc start) (pos - Suc start) fmt))"

definition renders :: "(string \<Rightarrow> string option) \<Rightarrow> string list \<Rightarrow> string \<Rightarrow> nat \<Rightarrow> nat \<Rightarrow> bool \<Rightarrow> bool \<Rightarrow> nat list \<Rightarrow> bool" where
  "renders f vals fmt pos start escape no_open T \<longleftrightarrow> table_ok vals T \<and>
     (\<forall>prev \<le> (if no_open then pos else start). fill fmt vals T prev =
        sub_bytes prev ((if no_open then pos else start) - prev) fmt @
        render f (opened fmt pos start no_open) escape (drop pos fmt))"

lemma renders_end:
  assumes "pos = length fmt" and "\<not> no_open \<longrightarrow> start < pos \<and> fmt ! start = CHR ''%''"
  shows "renders f vals fmt pos start escape no_open []"
proof (cases no_open)
  case True
  then show ?thesis using assms(1) by (simp add: renders_def opened_def sub_bytes_def)
next
  case False
  have "drop prev fmt = sub_bytes prev (start - prev) fmt @ CHR ''%'' # sub_bytes (Suc start) (length fmt - Suc start) fmt"
    if "prev \<le> start" for prev
  proof -
    have "start < length fmt" using False assms by simp
    then have "start - prev < length (drop prev fmt)" using that by simp
    from id_take_nth_drop[OF this] show ?thesis using False assms that by (simp add: sub_bytes_def)
  qed
  then show ?thesis using False assms(1) by (simp add: renders_def opened_def)
qed

lemma renders_open:
  assumes "renders f vals fmt (Suc pos) pos False False T" and "pos < length fmt" and "fmt ! pos = CHR ''%''"
  shows "renders f vals fmt pos start False True T"
  using assms Cons_nth_drop_Suc[OF assms(2), symmetric] by (simp add: renders_def opened_def sub_bytes_def)

lemma key_slice:
  assumes "start < pos" and "pos < length fmt" and "fmt ! start = CHR ''%''" and "fmt ! pos = CHR ''%''" and "prev \<le> start"
  shows "sub_bytes prev (Suc pos - prev) fmt =
    sub_bytes prev (start - prev) fmt @ CHR ''%'' # sub_bytes (Suc start) (pos - Suc start) fmt @ [CHR ''%'']"
proof -
  have "sub_bytes prev (Suc pos - prev) fmt = sub_bytes prev (pos - prev) fmt @ [CHR ''%'']"
    using assms sub_bytes_snoc[of prev pos fmt] by simp
  also have "sub_bytes prev (pos - prev) fmt = sub_bytes prev (Suc start - prev) fmt @ sub_bytes (Suc start) (pos - Suc start) fmt"
    using assms by (intro sub_bytes_drop[symmetric]) simp_all
  also have "sub_bytes prev (Suc start - prev) fmt = sub_bytes prev (start - prev) fmt @ [CHR ''%'']"
    using assms sub_bytes_snoc[of prev start fmt] by simp
  finally show ?thesis by simp
qed

lemma renders_key:
  assumes "renders f vals fmt (Suc pos) s False True T" and "pos < length fmt" and "fmt ! pos = CHR ''%''"
    and "f (sub_bytes (Suc start) (pos - Suc start) fmt) = Some (vals ! i)" and "i < length vals" and "Suc start < pos"
  shows "renders f vals fmt pos start False False (i # start # Suc pos # T)"
proof -
  have "length (sub_bytes (Suc start) (pos - Suc start) fmt) = pos - Suc start" using assms(2,6) by simp
  then have "sub_bytes (Suc start) (pos - Suc start) fmt \<noteq> []" using assms(6) by (metis list.size(3) not_less zero_less_diff order_refl)
  moreover have "fill fmt vals T (Suc pos) = render f None False (drop (Suc pos) fmt)"
    using assms(1) by (simp add: renders_def opened_def sub_bytes_def)
  ultimately show ?thesis
    using assms Cons_nth_drop_Suc[OF assms(2), symmetric] by (simp add: renders_def opened_def)
qed

lemma renders_no_key:
  assumes "renders f vals fmt (Suc pos) s False True T" and "pos < length fmt" and "fmt ! pos = CHR ''%''"
    and "f (sub_bytes (Suc start) (pos - Suc start) fmt) = None \<or> pos = Suc start" and "start < pos" and "fmt ! start = CHR ''%''"
  shows "renders f vals fmt pos start False False T"
proof -
  let ?k = "sub_bytes (Suc start) (pos - Suc start) fmt"
  have n: "(if ?k = [] then None else f ?k) = None" using assms(4) by (auto simp: sub_bytes_def)
  have "fill fmt vals T prev = sub_bytes prev (start - prev) fmt @ render f (Some ?k) False (drop pos fmt)" if "prev \<le> start" for prev
  proof -
    have "prev \<le> Suc pos" using that assms(5) by simp
    then have "fill fmt vals T prev = sub_bytes prev (Suc pos - prev) fmt @ render f None False (drop (Suc pos) fmt)"
      using assms(1) by (simp add: renders_def opened_def)
    then show ?thesis using key_slice[OF assms(5,2,6,3) that] Cons_nth_drop_Suc[OF assms(2), symmetric] n assms(3) by simp
  qed
  then show ?thesis using assms(1) by (simp add: renders_def opened_def)
qed

lemma renders_char:
  assumes "renders f vals fmt (Suc pos) start (fmt ! pos = CHR 0x5C \<and> \<not> escape) no_open T" and "pos < length fmt"
    and "escape \<or> fmt ! pos \<noteq> CHR ''%''" and "\<not> no_open \<longrightarrow> start < pos"
  shows "renders f vals fmt pos start escape no_open T"
proof (cases no_open)
  case True
  have "fill fmt vals T prev = sub_bytes prev (pos - prev) fmt @ render f None escape (drop pos fmt)" if "prev \<le> pos" for prev
  proof -
    have "fill fmt vals T prev = sub_bytes prev (Suc pos - prev) fmt @
        render f None (fmt ! pos = CHR 0x5C \<and> \<not> escape) (drop (Suc pos) fmt)"
      using assms(1) True that by (simp add: renders_def opened_def)
    then show ?thesis
      using sub_bytes_snoc[OF that assms(2)] Cons_nth_drop_Suc[OF assms(2), symmetric] assms(3) by auto
  qed
  then show ?thesis using assms(1) True by (simp add: renders_def opened_def)
next
  case False
  have "sub_bytes (Suc start) (Suc pos - Suc start) fmt = sub_bytes (Suc start) (pos - Suc start) fmt @ [fmt ! pos]"
    using assms(2,4) False by (intro sub_bytes_snoc) simp_all
  then have "render f (opened fmt (Suc pos) start no_open) (fmt ! pos = CHR 0x5C \<and> \<not> escape) (drop (Suc pos) fmt) =
      render f (opened fmt pos start no_open) escape (drop pos fmt)"
    using False assms(3) Cons_nth_drop_Suc[OF assms(2), symmetric] by (auto simp: opened_def)
  then show ?thesis using assms(1) False by (simp add: renders_def)
qed

lemma template_loop_renders:
  assumes "template_loop keys fmt cap pos start escape no_open table = (r, table')" and "r \<noteq> -1"
    and "\<forall>k\<in>set keys. CHR 0x00 \<notin> set k" and "length vals = length keys"
    and "pos \<le> length fmt" and "\<not> no_open \<longrightarrow> start < pos \<and> fmt ! start = CHR ''%''"
  shows "\<exists>T. table' = table @ T \<and> r = int (length table') \<and> renders (map_of (zip keys vals)) vals fmt pos start escape no_open T"
  using assms
proof (induction keys fmt cap pos start escape no_open table rule: template_loop.induct)
  case (1 keys fmt cap pos start escape no_open table)
  let ?f = "map_of (zip keys vals)"
  let ?k = "sub_bytes (Suc start) (pos - Suc start) fmt"
  note run = "1.prems"(1)[unfolded template_loop.simps[of keys fmt cap pos]]
  consider (stop) "length fmt \<le> pos"
    | (opens) "pos < length fmt" "\<not> escape" "fmt ! pos = CHR ''%''" "no_open"
    | (closes) "pos < length fmt" "\<not> escape" "fmt ! pos = CHR ''%''" "\<not> no_open"
    | (char) "pos < length fmt" "escape \<or> fmt ! pos \<noteq> CHR ''%''"
    by linarith
  then show ?case
  proof cases
    case stop
    then have "pos = length fmt" using "1.prems"(5) by simp
    from renders_end[OF this "1.prems"(6)] show ?thesis using run stop by auto
  next
    case opens
    then have "template_loop keys fmt cap (pos + 1) pos escape False table = (r, table')" using run by simp
    from "1.IH"(1)[OF _ _ opens(4) this "1.prems"(2-4)] opens obtain T where
      "table' = table @ T" "r = int (length table')" "renders ?f vals fmt (Suc pos) pos escape False T" by auto
    with renders_open[of ?f vals fmt pos T start] opens show ?thesis by auto
  next
    case closes
    have st: "start < pos" "fmt ! start = CHR ''%''" using "1.prems"(6) closes(4) by simp_all
    have nl: "\<not> length fmt \<le> pos" and pc: "\<not> escape \<and> fmt ! pos = CHR ''%''" using closes by simp_all
    show ?thesis
    proof (cases "1 < pos - start")
      case False
      then have "template_loop keys fmt cap (pos + 1) start escape True table = (r, table')" using run closes by simp
      from "1.IH"(3)[OF nl pc closes(4) False this "1.prems"(2-4)] closes obtain T where
        "table' = table @ T" "r = int (length table')" "renders ?f vals fmt (Suc pos) start False True T" by auto
      moreover have "pos = Suc start" using st(1) False by simp
      ultimately show ?thesis using renders_no_key[of ?f vals fmt pos start T start] closes st by auto
    next
      case True
      let ?i = "abuf_find_template keys (drop (start + 1) fmt) (pos - start - 1)"
      let ?t = "if ?i \<noteq> -1 then table @ [nat ?i, start, pos + 1] else table"
      have cap: "\<not> cap < length table + 3" using run closes True "1.prems"(2) by (auto split: if_splits)
      then have "template_loop keys fmt cap (pos + 1) start escape True ?t = (r, table')"
        using run closes True by (cases "?i = -1") simp_all
      from "1.IH"(2)[OF nl pc closes(4) True cap refl refl this "1.prems"(2-4)] closes obtain T where
        T: "table' = ?t @ T" "r = int (length table')" "renders ?f vals fmt (Suc pos) start False True T" by auto
      have k: "take (pos - start - 1) (drop (start + 1) fmt) = ?k" by (simp add: sub_bytes_def)
      have "case ?f ?k of None \<Rightarrow> ?i = -1 | Some v \<Rightarrow> \<exists>j<length vals. ?i = int j \<and> vals ! j = v"
        using find_template_map_of[OF "1.prems"(3), of "pos - start - 1" "drop (start + 1) fmt" vals 0, unfolded k add_0_left]
          "1.prems"(4) closes(1) unfolding abuf_find_template_def by simp
      then consider "?f ?k = None" "?i = -1" | j where "?f ?k = Some (vals ! j)" "?i = int j" "j < length vals"
        by (auto split: option.splits)
      then show ?thesis
      proof cases
        case 1
        then have "renders ?f vals fmt pos start escape no_open T"
          using renders_no_key[OF T(3) closes(1,3) _ st] closes st by simp
        with T(1,2) 1 show ?thesis by auto
      next
        case 2
        have "renders ?f vals fmt pos start escape no_open (j # start # Suc pos # T)"
          using renders_key[OF T(3) closes(1,3) 2(1,3)] True closes by simp
        moreover have "table' = table @ j # start # Suc pos # T" using T(1) 2(2) by simp
        ultimately show ?thesis using T(2) by blast
      qed
    qed
  next
    case char
    have nl: "\<not> length fmt \<le> pos" and nc: "\<not> (\<not> escape \<and> fmt ! pos = CHR ''%'')" using char by auto
    let ?e = "fmt ! pos = CHR 0x5C \<and> \<not> escape"
    have "\<exists>T. table' = table @ T \<and> r = int (length table') \<and> renders ?f vals fmt (Suc pos) start ?e no_open T"
    proof (cases "fmt ! pos = CHR 0x5C")
      case True
      then have "template_loop keys fmt cap (pos + 1) start (\<not> escape) no_open table = (r, table')" using run char by simp
      from "1.IH"(4)[OF nl nc True this "1.prems"(2-4)] char(1) "1.prems"(6) True show ?thesis by auto
    next
      case False
      then have "template_loop keys fmt cap (pos + 1) start False no_open table = (r, table')" using run char by auto
      from "1.IH"(5)[OF nl nc False this "1.prems"(2-4)] char(1) "1.prems"(6) False show ?thesis by auto
    qed
    then obtain T where "table' = table @ T" "r = int (length table')" "renders ?f vals fmt (Suc pos) start ?e no_open T" by blast
    with renders_char[OF _ char, of ?f vals start no_open T] "1.prems"(6) show ?thesis by blast
  qed
qed

lemma template_loop_fits:
  "length table + 3 * length (filter (\<lambda>c. c = CHR ''%'') (drop pos fmt)) \<le> cap \<Longrightarrow>
     fst (template_loop keys fmt cap pos start escape no_open table) \<noteq> -1"
proof (induction keys fmt cap pos start escape no_open table rule: template_loop.induct)
  case (1 keys fmt cap pos start escape no_open table)
  show ?case
  proof (cases "length fmt \<le> pos")
    case True
    then show ?thesis by (simp add: template_loop.simps)
  next
    case False
    then have d: "drop pos fmt = fmt ! pos # drop (Suc pos) fmt" by (simp add: Cons_nth_drop_Suc)
    let ?t = "if abuf_find_template keys (drop (start + 1) fmt) (pos - start - 1) \<noteq> -1
      then table @ [nat (abuf_find_template keys (drop (start + 1) fmt) (pos - start - 1)), start, pos + 1] else table"
    consider (opens) "\<not> escape \<and> fmt ! pos = CHR ''%''" "no_open"
      | (key) "\<not> escape \<and> fmt ! pos = CHR ''%''" "\<not> no_open" "1 < pos - start"
      | (closes) "\<not> escape \<and> fmt ! pos = CHR ''%''" "\<not> no_open" "\<not> 1 < pos - start"
      | (char) "\<not> (\<not> escape \<and> fmt ! pos = CHR ''%'')" by blast
    then show ?thesis
    proof cases
      case opens
      have "fst (template_loop keys fmt cap (pos + 1) pos escape False table) \<noteq> -1"
        by (rule "1.IH"(1)[OF False opens]) (use "1.prems" opens d in simp)
      then show ?thesis using opens False by (simp add: template_loop.simps[of keys fmt cap pos])
    next
      case key
      have c: "\<not> cap < length table + 3" using "1.prems" key d by simp
      have "fst (template_loop keys fmt cap (pos + 1) start escape True ?t) \<noteq> -1"
        by (rule "1.IH"(2)[OF False key c refl refl]) (use "1.prems" key d in simp)
      then show ?thesis using key c False
        by (cases "abuf_find_template keys (drop (start + 1) fmt) (pos - start - 1) = -1")
          (simp_all add: template_loop.simps[of keys fmt cap pos])
    next
      case closes
      have "fst (template_loop keys fmt cap (pos + 1) start escape True table) \<noteq> -1"
        by (rule "1.IH"(3)[OF False closes]) (use "1.prems" closes d in simp)
      then show ?thesis using closes False by (simp add: template_loop.simps[of keys fmt cap pos])
    next
      case char
      have l: "length table + 3 * length (filter (\<lambda>c. c = CHR ''%'') (drop (pos + 1) fmt)) \<le> cap"
        using "1.prems" d by (simp split: if_splits)
      have "fst (template_loop keys fmt cap (pos + 1) start (\<not> escape) no_open table) \<noteq> -1" if "fmt ! pos = CHR 0x5C"
        by (rule "1.IH"(4)[OF False char that l])
      moreover have "fst (template_loop keys fmt cap (pos + 1) start False no_open table) \<noteq> -1" if "fmt ! pos \<noteq> CHR 0x5C"
        by (rule "1.IH"(5)[OF False char that l])
      ultimately show ?thesis using char False by (auto simp: template_loop.simps[of keys fmt cap pos])
    qed
  qed
qed

section \<open>Appending as an interface\<close>

locale text_sink =
  fixes ok :: "'s \<Rightarrow> bool" and cont :: "'s \<Rightarrow> bytes" and limit :: nat and avail :: bool
    and copy :: "bytes \<Rightarrow> 's \<Rightarrow> halt + int \<times> 's" and puts :: "bytes option \<Rightarrow> 's \<Rightarrow> halt + int \<times> 's"
  assumes copy: "ok s \<Longrightarrow> length (cont s) + length p < limit \<Longrightarrow>
      \<exists>r s'. copy p s = Inr (r, s') \<and> ok s' \<and> (if r = 0 then cont s' = cont s @ p else r < 0 \<and> cont s' = cont s \<and> \<not> avail)"
    and puts: "ok s \<Longrightarrow> length (cont s) + length p < limit \<Longrightarrow>
      \<exists>r s'. puts (Some p) s = Inr (r, s') \<and> ok s' \<and> (if r = 0 then cont s' = cont s @ p else r < 0 \<and> cont s' = cont s \<and> \<not> avail)"
begin

text \<open>A complete result, or a part of it when memory ran out.\<close>

definition written :: "bytes \<Rightarrow> 's \<Rightarrow> halt + int \<times> 's \<Rightarrow> bool" where
  "written t s out \<longleftrightarrow> (\<exists>r s'. out = Inr (r, s') \<and> ok s' \<and>
     (if r = 0 then cont s' = cont s @ t else r = -1 \<and> \<not> avail \<and> (\<exists>x y. t = x @ y \<and> cont s' = cont s @ x)))"

lemma writtenI_part: "ok s' \<Longrightarrow> \<not> avail \<Longrightarrow> cont s' = cont s @ x \<Longrightarrow> written (x @ y) s (Inr (-1, s'))"
  unfolding written_def by fastforce

lemma written_after:
  assumes "written t s1 out" and "cont s1 = cont s @ p"
  shows "written (p @ t) s out"
  using assms unfolding written_def by (fastforce split: if_splits)

lemma templatef_written:
  assumes "table_ok vals T" and "ok s" and "length (cont s) + length (text_bytes (fill fmt vals T prev)) < limit"
  shows "written (text_bytes (fill fmt vals T prev)) s (templatef_loop copy puts fmt vals T prev s)"
  using assms
proof (induction fmt vals T prev arbitrary: s rule: fill.induct[case_names field rest])
  case (field fmt vals i start "end" table prev)
  let ?p = "text_bytes (sub_bytes prev (start - prev) fmt)" and ?v = "text_bytes (vals ! i)"
  let ?t = "text_bytes (fill fmt vals table end)"
  have t: "text_bytes (fill fmt vals (i # start # end # table) prev) = ?p @ ?v @ ?t" by (simp add: text_bytes_def)
  have i: "i < length vals" "table_ok vals table" using field.prems(1) by simp_all
  have l: "length (cont s) + length ?p + length ?v + length ?t < limit" using field.prems(3) unfolding t by simp
  let ?c = "if prev < start then copy ?p s else Inr (0, s)"
  have "\<exists>r s'. ?c = Inr (r, s') \<and> ok s' \<and> (if r = 0 then cont s' = cont s @ ?p else r < 0 \<and> cont s' = cont s \<and> \<not> avail)"
    using copy[OF field.prems(2), of ?p] l field.prems(2) by (cases "prev < start") (simp_all add: sub_bytes_def text_bytes_def)
  then obtain r s1 where c: "?c = Inr (r, s1)" "ok s1" "if r = 0 then cont s1 = cont s @ ?p else r < 0 \<and> cont s1 = cont s \<and> \<not> avail" by blast
  show ?case
  proof (cases "r = 0")
    case False
    with c have "templatef_loop copy puts fmt vals (i # start # end # table) prev s = Inr (-1, s1)" by simp
    with writtenI_part[OF c(2), of s "[]" "?p @ ?v @ ?t"] c(3) False show ?thesis unfolding t by simp
  next
    case True
    then have s1: "cont s1 = cont s @ ?p" using c(3) by simp
    then obtain r2 s2 where p: "puts (Some ?v) s1 = Inr (r2, s2)" "ok s2"
      "if r2 = 0 then cont s2 = cont s1 @ ?v else r2 < 0 \<and> cont s2 = cont s1 \<and> \<not> avail"
      using puts[OF c(2), of ?v] l by auto
    show ?thesis
    proof (cases "r2 = 0")
      case False
      with c(1) p True i have "templatef_loop copy puts fmt vals (i # start # end # table) prev s = Inr (-1, s2)" by simp
      with writtenI_part[OF p(2), of s ?p "?v @ ?t"] p(3) False s1 show ?thesis unfolding t by simp
    next
      case True
      then have s2: "cont s2 = cont s @ ?p @ ?v" using p(3) s1 by simp
      have "written ?t s2 (templatef_loop copy puts fmt vals table end s2)"
        using i(2) p(2) l s2 by (intro field.IH) simp_all
      moreover have "templatef_loop copy puts fmt vals (i # start # end # table) prev s = templatef_loop copy puts fmt vals table end s2"
        using c(1) p(1) True \<open>r = 0\<close> i(1) by simp
      ultimately show ?thesis using written_after[OF _ s2, of ?t] unfolding t by simp
    qed
  qed
next
  case (rest fmt vals prev)
  show ?case
  proof (cases "prev < length fmt")
    case False
    with rest show ?thesis by (simp add: written_def text_bytes_def)
  next
    case True
    let ?t = "text_bytes (drop prev fmt)"
    obtain r s' where p: "puts (Some ?t) s = Inr (r, s')" "ok s'"
      "if r = 0 then cont s' = cont s @ ?t else r < 0 \<and> cont s' = cont s \<and> \<not> avail"
      using puts[OF rest(2), of ?t] rest(3) by auto
    with True writtenI_part[OF p(2), of s "[]" ?t] show ?thesis by (cases "r = 0") (simp_all add: written_def)
  qed
qed simp_all

end

interpretation abuf: text_sink "\<lambda>s. abuf_wf (fst s)" "\<lambda>s. content (fst s)" "2 ^ 63 - 1" "\<forall>k. alloc k" "abuf_memcpy alloc" "abuf_puts alloc"
  for alloc
proof
  fix s :: "autobuf \<times> mem" and p :: bytes
  obtain b m where s: "s = (b, m)" by (cases s)
  assume w: "abuf_wf (fst s)" and l: "length (content (fst s)) + length p < 2 ^ 63 - 1"
  have r: "room (length p) b" "room (length p + 1) b" using l by (simp_all add: s room_def)
  have wf: "abuf_wf b" using w by (simp add: s)
  show "\<exists>r s'. abuf_memcpy alloc p s = Inr (r, s') \<and> abuf_wf (fst s') \<and>
      (if r = 0 then content (fst s') = content (fst s) @ p else r < 0 \<and> content (fst s') = content (fst s) \<and> \<not> (\<forall>k. alloc k))"
    using abuf_memcpy_appends[OF wf r(1), of alloc m] unfolding s appends_def by (elim exE conjE) (intro exI conjI, assumption, auto split: if_splits)
  show "\<exists>r s'. abuf_puts alloc (Some p) s = Inr (r, s') \<and> abuf_wf (fst s') \<and>
      (if r = 0 then content (fst s') = content (fst s) @ p else r < 0 \<and> content (fst s') = content (fst s) \<and> \<not> (\<forall>k. alloc k))"
    using abuf_puts_appends[OF wf r(2), of alloc m] unfolding s appends_def by (elim exE conjE) (intro exI conjI, assumption, auto split: if_splits)
qed

section \<open>Properties\<close>

text \<open>C29: A template is rendered: with one value per key, an index table with three places for every
  percent sign and memory for the result, the two functions together append the format with every known
  \<open>%key%\<close> replaced by its value; text between unknown or empty keys, an unfinished key and percent signs after
  a backslash stay as they are. When memory runs out, a beginning of it was appended and the result is -1.\<close>

theorem template_renders:
  assumes "\<forall>k\<in>set keys. CHR 0x00 \<notin> set k" and "length vals = length keys" and "3 * length (filter (\<lambda>c. c = CHR ''%'') fmt) \<le> cap"
    and "abuf_wf b" and "length (content b) + length (render (map_of (zip keys vals)) None False fmt) < 2 ^ 63 - 1"
  shows "\<exists>n table r b' m'. abuf_template_init keys fmt cap = (n, table) \<and> n = int (length table) \<and>
    abuf_templatef alloc fmt vals table (b, m) = Inr (r, b', m') \<and> abuf_wf b' \<and> ((\<forall>k. alloc k) \<longrightarrow> r = 0) \<and>
    (if r = 0 then content b' = content b @ text_bytes (render (map_of (zip keys vals)) None False fmt)
     else r = -1 \<and> (\<exists>x y. text_bytes (render (map_of (zip keys vals)) None False fmt) = x @ y \<and> content b' = content b @ x))"
proof -
  let ?t = "render (map_of (zip keys vals)) None False fmt"
  obtain n table where i: "template_loop keys fmt cap 0 0 False True [] = (n, table)" by (metis surj_pair)
  have "n \<noteq> -1" using template_loop_fits[of "[]" 0 fmt cap keys 0 False True] assms(3) by (simp add: i)
  from template_loop_renders[OF i this assms(1,2)] have n: "n = int (length table)"
    and r: "renders (map_of (zip keys vals)) vals fmt 0 0 False True table" by auto
  have ok: "table_ok vals table" and f: "fill fmt vals table 0 = ?t"
    using r by (simp_all add: renders_def opened_def sub_bytes_def)
  have l: "length (content b) + length (text_bytes (fill fmt vals table 0)) < 2 ^ 63 - 1"
    using assms(5) unfolding f by (simp add: text_bytes_def)
  have "abuf.written alloc (text_bytes ?t) (b, m) (abuf_templatef alloc fmt vals table (b, m))"
    using abuf.templatef_written[OF ok, of "(b, m)" fmt 0 alloc] assms(4) l unfolding f abuf_templatef_def by simp
  then show ?thesis using i n unfolding abuf.written_def abuf_template_init_def by (fastforce split: if_splits)
qed

theorem template_renders_witness:
  "\<exists>n table r b' m'. abuf_template_init [''x'', ''long''] ''a%x%b%y%%long%'' 18 = (n, table) \<and> n = int (length table) \<and>
    abuf_templatef (\<lambda>_. True) ''a%x%b%y%%long%'' [''1'', ''text''] table (\<lparr>ab_size = 0, ab_len = 0, ab_buf = None\<rparr>, \<lparr>calls = 0, live = 0\<rparr>) =
      Inr (r, b', m') \<and> content b' = text_bytes ''a1b%y%text''"
proof -
  let ?b = "\<lparr>ab_size = 0, ab_len = 0, ab_buf = None\<rparr>"
  have r: "render (map_of (zip [''x'', ''long''] [''1'', ''text''])) None False ''a%x%b%y%%long%'' = ''a1b%y%text''" by code_simp
  have a: "\<forall>k\<in>set [''x'', ''long'']. CHR 0x00 \<notin> set k" "length [''1'', ''text''] = length [''x'', ''long'']"
    "3 * length (filter (\<lambda>c. c = CHR ''%'') ''a%x%b%y%%long%'') \<le> 18" "abuf_wf ?b"
    by (simp_all add: abuf_wf_def)
  have "length (content ?b) + length (render (map_of (zip [''x'', ''long''] [''1'', ''text''])) None False ''a%x%b%y%%long%'') < 2 ^ 63 - 1"
    unfolding r by (simp add: content_def)
  from template_renders[OF a this, of "\<lambda>_. True" "\<lparr>calls = 0, live = 0\<rparr>"] show ?thesis unfolding r by (auto simp: content_def)
qed

end
