(* ===== verification/WriterFrame.thy ===== *)
theory WriterFrame
  imports HelloWriter
begin

text \<open>
  What the writer does to its client's state: the generators of messages and packets touch it through the
  callbacks only. The contract is the locale \<open>writer_frame\<close>: a reflexive and transitive relation that every
  callback respects holds between the client's states before and after a message is created or a
  packet is flushed.
\<close>

section \<open>Steps that respect a relation\<close>

definition keeps :: "('st \<Rightarrow> 'st \<Rightarrow> bool) \<Rightarrow> ('st wr \<Rightarrow> halt + 'st wr) \<Rightarrow> bool" where
  "keeps R f \<longleftrightarrow> (\<forall>s s'. f s = Inr s' \<longrightarrow> R (snd s) (snd s'))"

lemma keepsD: "keeps R f \<Longrightarrow> f s = Inr s' \<Longrightarrow> R (snd s) (snd s')"
  unfolding keeps_def by blast

lemma keepsI: "(\<And>s s'. f s = Inr s' \<Longrightarrow> R (snd s) (snd s')) \<Longrightarrow> keeps R f"
  unfolding keeps_def by blast

locale writer_frame =
  fixes cbs :: "'st writer_cbs" and R :: "'st \<Rightarrow> 'st \<Rightarrow> bool"
  assumes R_refl: "R st st" and R_trans: "R st st' \<Longrightarrow> R st' st'' \<Longrightarrow> R st st''"
    and packet_cbs: "\<And>i f. addPacketHeader cbs i = Some f \<Longrightarrow> keeps R f" "\<And>i f. finishPacketHeader cbs i = Some f \<Longrightarrow> keeps R f"
      "\<And>h i f. addPacketTLVs cbs h i = Some f \<Longrightarrow> keeps R f" "\<And>h i f. finishPacketTLVs cbs h i = Some f \<Longrightarrow> keeps R f"
      "\<And>i f b. sendPacket cbs i = Some f \<Longrightarrow> keeps R (f b)"
    and message_cbs: "\<And>t f. addMessageHeader cbs t = Some f \<Longrightarrow> keeps R f"
      "\<And>t a b n f. finishMessageHeader cbs t a b n = Some f \<Longrightarrow> keeps R f"
      "\<And>p f. addMessageTLVs cbs p = Some f \<Longrightarrow> keeps R f" "\<And>p f. addAddresses cbs p = Some f \<Longrightarrow> keeps R f"
      "\<And>p a b n f. finishMessageTLVs cbs p a b n = Some f \<Longrightarrow> keeps R f"
begin

lemma call_cb_keeps: "(\<And>f. cb = Some f \<Longrightarrow> keeps R f) \<Longrightarrow> keeps R (call_cb cb)"
  by (cases cb) (simp_all add: keeps_def call_cb_def R_refl)

lemma must_cb_keeps: "(\<And>f. cb = Some f \<Longrightarrow> keeps R f) \<Longrightarrow> keeps R (must_cb cb)"
  by (cases cb) (simp_all add: keeps_def must_cb_def)

lemma each_keeps: "(\<And>x. keeps R (f x)) \<Longrightarrow> keeps R (each f xs)"
proof (induction xs)
  case (Cons x xs)
  show ?case
  proof (rule keepsI)
    fix s s' assume "each f (x # xs) s = Inr s'"
    then obtain s1 where s1: "f x s = Inr s1" "each f xs s1 = Inr s'" by (auto simp: rbind_Inr_iff)
    from R_trans[OF keepsD[OF Cons.prems s1(1)] keepsD[OF Cons.IH[OF Cons.prems] s1(2)]] show "R (snd s) (snd s')" .
  qed
qed (simp add: keeps_def R_refl)

lemma begin_packet_keeps: "keeps R (pbb_writer_begin_packet cbs i)"
  unfolding keeps_def
proof (intro allI impI)
  fix s s' assume a: "pbb_writer_begin_packet cbs i s = Inr s'"
  obtain w st where s: "s = (w, st)" by (cases s)
  from a obtain w1 s1 s2 where
    h: "(case addPacketHeader cbs i of Some f \<Rightarrow> f (w1, st)
         | None \<Rightarrow> rbind (pbb_writer_set_pkt_header w1 i False) (\<lambda>w. Inr (w, st))) = Inr s1"
    and e: "each (\<lambda>h. must_cb (addPacketTLVs cbs h i)) (pkthandlers (fst s1)) s1 = Inr s2" and s2: "snd s' = snd s2"
    by (auto simp: pbb_writer_begin_packet_def s rbind_Inr_iff Let_def split: prod.splits)
  have "R st (snd s1)"
    using h packet_cbs(1)[of i] by (cases "addPacketHeader cbs i") (auto simp: rbind_Inr_iff R_refl dest: keepsD)
  moreover have "keeps R (each (\<lambda>h. must_cb (addPacketTLVs cbs h i)) (pkthandlers (fst s1)))"
    by (intro each_keeps must_cb_keeps) (rule packet_cbs(3))
  then have "R (snd s1) (snd s2)" using e by (rule keepsD)
  ultimately show "R (snd s) (snd s')" unfolding s2 s by (simp add: R_trans[of st "snd s1"])
qed

lemma flush_keeps: "keeps R (pbb_writer_flush cbs i force)"
  unfolding keeps_def
proof (intro allI impI)
  fix s s' assume a: "pbb_writer_flush cbs i force s = Inr s'"
  then obtain send where sd: "sendPacket cbs i = Some send" by (cases "sendPacket cbs i") (simp_all add: pbb_writer_flush_def)
  obtain f where f: "find_interface (fst s) i = Some f" using a sd by (auto simp: pbb_writer_flush_def rbind_Inr_iff)
  show "R (snd s) (snd s')"
  proof (cases "is_flushed f \<and> \<not> force")
    case True
    with a sd f show ?thesis by (simp add: pbb_writer_flush_def R_refl)
  next
    case False
    with a sd f obtain s1 s2 s3 b w4 s5 where
      b: "(if is_flushed f then pbb_writer_begin_packet cbs i s else Inr s) = Inr s1"
      and e: "each (\<lambda>h. must_cb (finishPacketTLVs cbs h i)) (rev (pkthandlers (fst s1))) s1 = Inr s2"
      and h: "call_cb (finishPacketHeader cbs i) s2 = Inr s3" and p: "send b (w4, snd s3) = Inr s5" and s': "snd s' = snd s5"
      by (auto simp: pbb_writer_flush_def rbind_Inr_iff Let_def split: prod.splits if_splits)
    have "R (snd s) (snd s1)" using b begin_packet_keeps[of i] by (auto simp: R_refl split: if_splits dest: keepsD)
    moreover have "keeps R (each (\<lambda>h. must_cb (finishPacketTLVs cbs h i)) (rev (pkthandlers (fst s1))))"
      by (intro each_keeps must_cb_keeps) (rule packet_cbs(4))
    then have "R (snd s1) (snd s2)" using e by (rule keepsD)
    moreover have "R (snd s2) (snd s3)" using keepsD[OF call_cb_keeps h] packet_cbs(2) by blast
    moreover have "R (snd s3) (snd s5)" using keepsD[OF packet_cbs(5)[OF sd] p] by simp
    ultimately show ?thesis unfolding s' by (meson R_trans)
  qed
qed

lemma append_message_keeps: "keeps R (append_message cbs msgid len i)"
  unfolding keeps_def
proof (intro allI impI)
  fix s s' assume a: "append_message cbs msgid len i s = Inr s'"
  obtain msg f where m: "find_message (fst s) msgid = Some msg" "find_interface (fst s) i = Some f"
    using a by (auto simp: append_message_def rbind_Inr_iff)
  let ?over = "tw_max (pkt f) < tw_header (pkt f) + tw_added (pkt f) + tw_set (pkt f) + bin_msgs_size f +
    (tw_header (wmsg (fst s)) + tw_added (wmsg (fst s)) + tw_set (wmsg (fst s)) + bin_addr_size msg)"
  obtain s1 where b: "(if ?over then rbind (pbb_writer_flush cbs i False s) (pbb_writer_begin_packet cbs i) else Inr s) = Inr s1"
    and s': "snd s' = snd s1"
    using a m by (auto simp: append_message_def rbind_Inr_iff Let_def split: prod.splits if_splits)
  have "R (snd s) (snd s1)"
  proof (cases ?over)
    case True
    then obtain s0 where s0: "pbb_writer_flush cbs i False s = Inr s0" "pbb_writer_begin_packet cbs i s0 = Inr s1"
      using b by (auto simp: rbind_Inr_iff)
    from R_trans[OF keepsD[OF flush_keeps s0(1)] keepsD[OF begin_packet_keeps s0(2)]] show ?thesis .
  next
    case False
    then show ?thesis using b by (simp add: R_refl)
  qed
  then show "R (snd s) (snd s')" unfolding s' .
qed

lemma finalize_keeps: "keeps R (finalize_message_fragment cbs msgid fragment whole useIf)"
  unfolding keeps_def
proof (intro allI impI)
  fix s s' assume a: "finalize_message_fragment cbs msgid fragment whole useIf s = Inr s'"
  let ?a = "map_option fst fragment" and ?b = "map_option snd fragment"
  let ?w = "(fst s)\<lparr>wmsg := (wmsg (fst s))\<lparr>tw_set := 0\<rparr>\<rparr>"
  note unf = finalize_message_fragment_def rbind_Inr_iff Let_def case_prod_beta
  from a obtain msg where m: "find_message ?w msgid = Some msg" by (auto simp: unf)
  let ?ps = "rev (provider_tree msg)"
  from a m obtain s1 where e: "each (\<lambda>p. call_cb (finishMessageTLVs cbs (pr_id p) ?a ?b whole)) ?ps (?w, snd s) = Inr s1"
    by (auto simp: unf)
  from a m e obtain w2 where w2: "(case fragment of None \<Rightarrow> Inr (fst s1) | Some (a, b) \<Rightarrow> write_addresses (fst s1) msgid a b) = Inr w2"
    by (auto simp: unf)
  from a m e w2 obtain s2 where h: "call_cb (finishMessageHeader cbs msgid ?a ?b whole) (w2, snd s1) = Inr s2" by (auto simp: unf)
  from a m e w2 h obtain w3 where w3: "write_msgheader (fst s2) msgid = Inr w3" by (auto simp: unf)
  let ?len = "tw_header (wmsg w3) + tw_added (wmsg w3)" and ?ks = "map if_id (interfaces w3)"
  from a m e w2 h w3 obtain s4 where
    p: "each (\<lambda>i s. if use_if useIf (fst s) i then append_message cbs msgid ?len i s else Inr s) ?ks (w3, snd s2) = Inr s4"
    by (auto simp: unf)
  from a m e w2 h w3 p have s': "snd s' = snd s4" by (auto simp: unf)
  have "keeps R (each (\<lambda>p. call_cb (finishMessageTLVs cbs (pr_id p) ?a ?b whole)) ?ps)"
    by (intro each_keeps call_cb_keeps) (rule message_cbs(5))
  from keepsD[OF this e] have "R (snd s) (snd s1)" by simp
  moreover have "keeps R (call_cb (finishMessageHeader cbs msgid ?a ?b whole))" by (intro call_cb_keeps) (rule message_cbs(2))
  from keepsD[OF this h] have "R (snd s1) (snd s2)" by simp
  moreover have "keeps R (\<lambda>s. if use_if useIf (fst s) i then append_message cbs msgid ?len i s else Inr s)" for i
    using append_message_keeps[of msgid ?len i] by (auto simp: keeps_def R_refl)
  then have "keeps R (each (\<lambda>i s. if use_if useIf (fst s) i then append_message cbs msgid ?len i s else Inr s) ?ks)"
    by (rule each_keeps)
  from keepsD[OF this p] have "R (snd s2) (snd s4)" by simp
  ultimately show "R (snd s) (snd s')" unfolding s' by (meson R_trans)
qed

lemma addresses_loop_keeps: "addresses_loop cbs msgid useIf addrs g s = Inr (ok, g', s') \<Longrightarrow> R (snd s) (snd s')"
proof (induction addrs arbitrary: g s)
  case (Cons addr addrs)
  obtain w st where s: "s = (w, st)" by (cases s)
  from Cons.prems s obtain msg where m: "find_message w msgid = Some msg" by (auto simp: rbind_Inr_iff)
  from Cons.prems s m obtain fits acs msg1 where
    t: "try_address addr (g_idx g) (int (tw_max (wmsg w))) (g_first g = addr) (g_acs g) msg = Inr (fits, acs, msg1)"
    by (auto simp: rbind_Inr_iff)
  show ?case
  proof (cases "fits \<or> g_first g = addr")
    case True
    with Cons.prems s m t have "snd s' = st \<or> (\<exists>g1 w1. addresses_loop cbs msgid useIf addrs g1 (w1, st) = Inr (ok, g', s'))"
      by (auto simp: Let_def split: if_splits)
    with Cons.IH[of _ "(_, st)"] s show ?thesis by (auto simp: R_refl)
  next
    case False
    with Cons.prems s m t obtain msg2 where "close_addrblock acs (addr - 1) msg1 = Inr msg2"
      by (auto simp: rbind_Inr_iff Let_def)
    with Cons.prems s m t False obtain s1 where
      f: "finalize_message_fragment cbs msgid (Some (g_first g, addr - 1)) False useIf (put_message msg2 (put_message msg1 w), st) = Inr s1"
      and r: "snd s' = snd s1 \<or> (\<exists>g1 w1. addresses_loop cbs msgid useIf addrs g1 (w1, snd s1) = Inr (ok, g', s'))"
      by (fastforce simp: rbind_Inr_iff Let_def split: prod.splits if_splits)
    have 1: "R st (snd s1)" using keepsD[OF finalize_keeps f] by simp
    from r show ?thesis
    proof
      assume "snd s' = snd s1"
      with 1 s show ?thesis by simp
    next
      assume "\<exists>g1 w1. addresses_loop cbs msgid useIf addrs g1 (w1, snd s1) = Inr (ok, g', s')"
      then obtain g1 w1 where "addresses_loop cbs msgid useIf addrs g1 (w1, snd s1) = Inr (ok, g', s')" by blast
      from R_trans[OF 1 Cons.IH[OF this, unfolded snd_conv]] s show ?thesis by simp
    qed
  qed
qed (simp add: R_refl)

lemma begin_packets_keeps: "begin_packets cbs useIf ks mx s = Inr (mx', s') \<Longrightarrow> R (snd s) (snd s')"
proof (induction ks arbitrary: mx s)
  case (Cons i ks)
  show ?case
  proof (cases "use_if useIf (fst s) i")
    case False
    with Cons show ?thesis by simp
  next
    case True
    then obtain f where f: "find_interface (fst s) i = Some f" using Cons.prems by (auto simp: rbind_Inr_iff)
    then obtain s1 where b: "(if is_flushed f then pbb_writer_begin_packet cbs i s else Inr s) = Inr s1"
      using Cons.prems True by (auto simp: rbind_Inr_iff)
    then obtain m where r: "begin_packets cbs useIf ks m s1 = Inr (mx', s')"
      using Cons.prems True f by (auto simp: rbind_Inr_iff Let_def)
    have "R (snd s) (snd s1)" using b keepsD[OF begin_packet_keeps, of i s s1] by (cases "is_flushed f") (simp_all add: R_refl)
    from R_trans[OF this Cons.IH[OF r]] show ?thesis .
  qed
qed (simp add: R_refl)

lemma write_collected_keeps:
  assumes "write_collected cbs msgid useIf s = Inr (r, s')"
  shows "R (snd s) (snd s')"
proof -
  obtain msg where m: "find_message (fst s) msgid = Some msg" using assms by (auto simp: write_collected_def rbind_Inr_iff)
  show ?thesis
  proof (cases "addr_head msg = []")
    case True
    with assms m obtain s1 where "finalize_message_fragment cbs msgid None True useIf s = Inr s1" "snd s' = snd s1"
      by (auto simp: write_collected_def rbind_Inr_iff split: prod.splits)
    with keepsD[OF finalize_keeps] show ?thesis by metis
  next
    case False
    with assms m obtain ok g s1 where l: "addresses_loop cbs msgid useIf [0..<length (addr_head msg)]
        \<lparr>g_acs = [], g_idx = 0, g_first = 0, g_whole = True\<rparr> s = Inr (ok, g, s1)"
      by (fastforce simp: write_collected_def rbind_Inr_iff split: prod.splits)
    note a = addresses_loop_keeps[OF l]
    show ?thesis
    proof (cases ok)
      case False
      with assms m \<open>addr_head msg \<noteq> []\<close> l have "snd s' = snd s1"
        by (auto simp: write_collected_def rbind_Inr_iff split: prod.splits)
      with a show ?thesis by simp
    next
      case True
      with assms m \<open>addr_head msg \<noteq> []\<close> l obtain fr wh w2 s2 where
        "finalize_message_fragment cbs msgid fr wh useIf (w2, snd s1) = Inr s2" "snd s' = snd s2"
        by (auto simp: write_collected_def rbind_Inr_iff Let_def split: prod.splits)
      with R_trans[OF a] keepsD[OF finalize_keeps] show ?thesis by (metis snd_conv)
    qed
  qed
qed

lemma create_one_keeps:
  assumes "create_one cbs msgid useIf s = Inr (r, s')"
  shows "R (snd s) (snd s')"
proof -
  note unf = create_one_def rbind_Inr_iff case_prod_beta
  from assms obtain mx s1 where b: "begin_packets cbs useIf (map if_id (interfaces (fst s))) (msg_mtu (fst s)) s = Inr (mx, s1)"
    by (auto simp: unf)
  from assms b obtain w2 where w2: "pbb_writer_set_msg_header ((fst s1)\<lparr>wmsg := pbb_tlv_writer_init (wmsg (fst s1)) mx\<rparr>)
      msgid False False False False = Inr w2" by (auto simp: unf)
  from assms b w2 obtain s2 where h: "call_cb (addMessageHeader cbs msgid) (w2, snd s1) = Inr s2" by (auto simp: unf)
  from assms b w2 h obtain msg where m: "find_message (fst s2) msgid = Some msg" by (auto simp: unf)
  let ?ps = "provider_tree msg"
  from assms b w2 h m obtain s3 where t: "each (\<lambda>p. call_cb (addMessageTLVs cbs (pr_id p))) ?ps s2 = Inr s3" by (auto simp: unf)
  from assms b w2 h m t obtain s4 where a: "each (\<lambda>p. call_cb (addAddresses cbs (pr_id p))) ?ps s3 = Inr s4" by (auto simp: unf)
  from assms b w2 h m t a have c: "write_collected cbs msgid useIf s4 = Inr (r, s')" by (auto simp: unf)
  have "keeps R (call_cb (addMessageHeader cbs msgid))" by (intro call_cb_keeps) (rule message_cbs(1))
  from keepsD[OF this h] have "R (snd s1) (snd s2)" by simp
  moreover have "keeps R (each (\<lambda>p. call_cb (addMessageTLVs cbs (pr_id p))) ?ps)" by (intro each_keeps call_cb_keeps) (rule message_cbs(3))
  then have "R (snd s2) (snd s3)" using t by (rule keepsD)
  moreover have "keeps R (each (\<lambda>p. call_cb (addAddresses cbs (pr_id p))) ?ps)" by (intro each_keeps call_cb_keeps) (rule message_cbs(4))
  then have "R (snd s3) (snd s4)" using a by (rule keepsD)
  ultimately show ?thesis using begin_packets_keeps[OF b] write_collected_keeps[OF c] by (meson R_trans)
qed

lemma create_for_each_keeps: "create_for_each cbs msgid useIf ks s = Inr (r, s') \<Longrightarrow> R (snd s) (snd s')"
proof (induction ks arbitrary: s)
  case (Cons i ks)
  obtain w st where s: "s = (w, st)" by (cases s)
  show ?case
  proof (cases "use_if useIf w i")
    case False
    with Cons.prems s have "create_for_each cbs msgid useIf ks (w, st) = Inr (r, s')" by simp
    from Cons.IH[OF this] s show ?thesis by simp
  next
    case True
    with Cons.prems s obtain w1 r1 s1 where c: "create_one cbs msgid (SingleIf i) (w1, st) = Inr (r1, s1)"
      and k: "if r1 \<noteq> PBB_OKAY then s' = s1 else create_for_each cbs msgid useIf ks s1 = Inr (r, s')"
      by (auto simp: rbind_Inr_iff split: if_splits)
    note 1 = create_one_keeps[OF c]
    show ?thesis
    proof (cases "r1 = PBB_OKAY")
      case True
      with k R_trans[OF 1 Cons.IH[of s1]] s show ?thesis by simp
    next
      case False
      with k 1 s show ?thesis by simp
    qed
  qed
qed (simp add: R_refl)

lemma create_message_keeps:
  assumes "pbb_writer_create_message cbs msgid useIf s = Inr (r, s')"
  shows "R (snd s) (snd s')"
proof -
  obtain w st where s: "s = (w, st)" by (cases s)
  show ?thesis
  proof (cases "interfaces w = [] \<or> find_message w msgid = None")
    case True
    with assms s show ?thesis by (auto simp: pbb_writer_create_message_def R_refl split: if_splits)
  next
    case False
    then obtain msg where "find_message w msgid = Some msg" "interfaces w \<noteq> []" by blast
    with assms s show ?thesis
      by (cases useIf) (auto simp: pbb_writer_create_message_def R_refl split: if_splits dest!: create_one_keeps create_for_each_keeps)
  qed
qed

end

section \<open>The hello writer\<close>

text \<open>All that a hello may change in the daemon's state: the sequence number, the neighbor table, in which
  neighbors can only be removed, and the datagrams that were sent.\<close>

definition hello_frame :: "'m hw_st \<Rightarrow> 'm hw_st \<Rightarrow> bool" where
  "hello_frame st st' \<longleftrightarrow>
     (\<exists>sq t. hw_bprd st' = (hw_bprd st)\<lparr>hello_seqno := sq, ntable := t\<rparr> \<and>
        set (nlist t) \<subseteq> set (nlist (ntable (hw_bprd st))) \<and>
        (nlist_ok (nlist (ntable (hw_bprd st))) \<longrightarrow> nlist_ok (nlist t))) \<and>
     (\<exists>ds. hw_sent st' = hw_sent st @ ds)"

lemma hello_frame_same: "hw_bprd st' = hw_bprd st \<Longrightarrow> hw_sent st' = hw_sent st @ ds \<Longrightarrow> hello_frame st st'"
  unfolding hello_frame_def by (auto intro!: exI[of _ "hello_seqno (hw_bprd st)"] exI[of _ "ntable (hw_bprd st)"])

lemma hello_frame_seqno: "hw_bprd st' = (hw_bprd st)\<lparr>hello_seqno := x\<rparr> \<Longrightarrow> hw_sent st' = hw_sent st @ ds \<Longrightarrow> hello_frame st st'"
  unfolding hello_frame_def by (auto intro!: exI[of _ x] exI[of _ "ntable (hw_bprd st)"])

lemma hello_frame_trans:
  assumes "hello_frame st st'" and "hello_frame st' st''"
  shows "hello_frame st st''"
proof -
  obtain sq t ds where 1: "hw_bprd st' = (hw_bprd st)\<lparr>hello_seqno := sq, ntable := t\<rparr>" "hw_sent st' = hw_sent st @ ds"
    "set (nlist t) \<subseteq> set (nlist (ntable (hw_bprd st)))" "nlist_ok (nlist (ntable (hw_bprd st))) \<longrightarrow> nlist_ok (nlist t)"
    using assms(1) unfolding hello_frame_def by blast
  obtain sq' t' ds' where 2: "hw_bprd st'' = (hw_bprd st')\<lparr>hello_seqno := sq', ntable := t'\<rparr>" "hw_sent st'' = hw_sent st' @ ds'"
    "set (nlist t') \<subseteq> set (nlist (ntable (hw_bprd st')))" "nlist_ok (nlist (ntable (hw_bprd st'))) \<longrightarrow> nlist_ok (nlist t')"
    using assms(2) unfolding hello_frame_def by blast
  have "hw_bprd st'' = (hw_bprd st)\<lparr>hello_seqno := sq', ntable := t'\<rparr>" using 1(1) 2(1) by simp
  moreover have "set (nlist t') \<subseteq> set (nlist (ntable (hw_bprd st)))" using 1(1,3) 2(3) by auto
  moreover have "nlist_ok (nlist (ntable (hw_bprd st))) \<longrightarrow> nlist_ok (nlist t')" using 1(1,4) 2(4) by simp
  moreover have "hw_sent st'' = hw_sent st @ ds @ ds'" using 1(2) 2(2) by simp
  ultimately show ?thesis unfolding hello_frame_def by blast
qed

lemma hello_add_addresses_frame:
  assumes "hello_add_addresses env (w, st) = Inr s'"
  shows "hello_frame st (snd s')"
proof -
  let ?b = "hw_bprd st"
  obtain nt where l: "ntable_mutex_lock (hw_lock env) (ntable ?b) = Inr nt" using assms by (auto simp: hello_add_addresses_def rbind_Inr_iff Let_def)
  obtain nt1 freed t where r: "ntable_refresh (hw_clk env) (neighbor_timeout ?b) nt (hw_tick st) = (nt1, freed, t)" by (metis prod.exhaust)
  obtain ns fr t1 where c: "nlist_remove_cond (nlist nt) (cond_n_expired (hw_clk env) (neighbor_timeout ?b)) (hw_tick st) = (ns, fr, t1)"
    by (metis prod.exhaust)
  from assms l r obtain nt2 where u: "ntable_mutex_unlock (hw_unlock env) nt1 = Inr nt2"
    and s: "hw_bprd (snd s') = ?b\<lparr>ntable := nt2\<rparr>" "hw_sent (snd s') = hw_sent st"
    by (auto simp: hello_add_addresses_def rbind_Inr_iff Let_def set_bprd_def)
  have n: "nlist nt2 = ns" "nlist nt = nlist (ntable ?b)"
    using u l r c by (auto simp: ntable_mutex_unlock_def ntable_mutex_lock_def ntable_refresh_def split: prod.splits if_splits)
  obtain del where rl: "list_remove_cond (nlist nt) (cond_n_expired (hw_clk env) (neighbor_timeout ?b)) (hw_tick st) = (ns, del, t1)"
    using c by (auto simp: nlist_remove_cond_def split: prod.splits)
  have "set ns \<subseteq> set (nlist (ntable ?b))" "nlist_ok (nlist (ntable ?b)) \<longrightarrow> nlist_ok ns"
    using list_remove_cond_subseq(1)[OF rl] nlist_remove_cond_ok[OF c] n(2) by auto
  then show ?thesis using s n(1) unfolding hello_frame_def
    by (auto intro!: exI[of _ "hello_seqno ?b"] exI[of _ nt2])
qed


interpretation hello_writer: writer_frame "hello_cbs env" hello_frame for env
proof
  show "hello_frame st st" for st :: "'a hw_st" by (rule hello_frame_same[of _ _ "[]"]) simp_all
  show "hello_frame st st' \<Longrightarrow> hello_frame st' st'' \<Longrightarrow> hello_frame st st''" for st st' st'' :: "'a hw_st"
    by (rule hello_frame_trans)
  show "sendPacket (hello_cbs env) i = Some f \<Longrightarrow> keeps hello_frame (f b)" for i f b
    by (auto simp: hello_cbs_def hello_send_def Let_def intro!: keepsI split: if_splits intro: hello_frame_same)
  show "addMessageHeader (hello_cbs env) t = Some f \<Longrightarrow> keeps hello_frame f" for t f
    by (auto simp: hello_cbs_def hello_add_msg_header_def rbind_Inr_iff Let_def intro!: keepsI split: if_splits
        intro: hello_frame_same[of _ _ "[]"])
  show "finishMessageHeader (hello_cbs env) t a b n = Some f \<Longrightarrow> keeps hello_frame f" for t a b n f
    by (auto simp: hello_cbs_def hello_fin_msg_header_def rbind_Inr_iff Let_def set_bprd_def intro!: keepsI
        intro: hello_frame_seqno[of _ _ _ "[]"])
  show "addMessageTLVs (hello_cbs env) p = Some f \<Longrightarrow> keeps hello_frame f" for p f
    by (auto simp: hello_cbs_def hello_add_msgtlvs_def rbind_Inr_iff Let_def intro!: keepsI intro: hello_frame_same[of _ _ "[]"])
  show "addAddresses (hello_cbs env) p = Some f \<Longrightarrow> keeps hello_frame f" for p f
    by (auto simp: hello_cbs_def intro!: keepsI dest: hello_add_addresses_frame)
qed (simp_all add: hello_cbs_def)

lemma hello_round_frame:
  assumes "hello_round env (w, st) = Inr (w', st')"
  shows "hello_frame st st'"
proof -
  obtain r s1 where c: "pbb_writer_create_message (hello_cbs env) BPRD_MSG_TYPE_HELLO (UserIf useAllIf) (w, st) = Inr (r, s1)"
    and f: "pbb_writer_flush (hello_cbs env) 0 False s1 = Inr (w', st')"
    using assms by (auto simp: hello_round_def rbind_Inr_iff)
  show ?thesis
    using hello_frame_trans[OF hello_writer.create_message_keeps[OF c] keepsD[OF hello_writer.flush_keeps f]] by simp
qed

end
