(* ===== verification/DaemonRun.thy ===== *)
theory DaemonRun
  imports DaemonStart WriterFrame Router Backlogger
begin

text \<open>
  The daemon at work. Five activities share the state \<open>bprd\<close>: the hello reader takes a datagram
  (\<open>hello_recv\<close>), the hello writer announces (\<open>hello_round\<close>), the router updates the routes
  (\<open>router_update\<close>), the main thread releases a packet (\<open>backlogger_packet_release(1)\<close>) and the backlogger
  thread is handed a packet by netfilter, which calls \<open>fifo_add_packet\<close> for the queue of a commodity. A
  run is any interleaving of these. The first three work under the mutex of the neighbor table; that the
  accesses to the commodity list are not interleaved within an activity is an assumption of this model,
  which the code leaves open (\<open>bprd.h\<close> has a todo for a mutex).
\<close>

section \<open>The loops of the backlogger and of the router\<close>

text \<open>A packet for the queue of the commodity at a position of the list.\<close>

definition arrive :: "nat \<Rightarrow> commodity list \<Rightarrow> commodity list" where
  "arrive i l = l[i := (l ! i)\<lparr>queue := snd (fifo_add_packet (queue (l ! i)))\<rparr>]"

text \<open>What \<open>recv\<close> gives: \<open>None\<close> for an error. The callbacks that \<open>nfq_handle_packet\<close> runs for a message are
  given by the positions of the commodities whose queue it passes them.\<close>

fun backlogger_loop :: "(bytes \<Rightarrow> nat list) \<Rightarrow> bytes option list \<Rightarrow> commodity list \<Rightarrow> commodity list" where
  "backlogger_loop handle [] l = l"
| "backlogger_loop handle (r # rs) l =
     (case r of
        None \<Rightarrow> l
      | Some buf \<Rightarrow>
          let buf = take 4096 buf
          in if buf = [] then l else backlogger_loop handle rs (fold arrive (handle buf) l))"

definition backlogger_thread_main ::
  "nfq_env \<Rightarrow> inet_ntop \<Rightarrow> uninit \<Rightarrow> bytes \<Rightarrow> (bytes \<Rightarrow> nat list) \<Rightarrow> bytes option list \<Rightarrow> commodity list \<Rightarrow>
     halt + commodity list \<times> string list" where
  "backlogger_thread_main nfq ntop u own handle rs l =
     rbind (backlogger_init nfq ntop u own l) (\<lambda>(l, cmds). Inr (backlogger_loop handle rs l, cmds))"

fun router_rounds ::
  "'a netlink \<Rightarrow> ('m \<Rightarrow> int \<times> 'm) \<Rightarrow> ('m \<Rightarrow> int \<times> 'm) \<Rightarrow> (nat \<Rightarrow> nat) \<Rightarrow> uninit \<Rightarrow> nat \<Rightarrow> 'm bprd \<Rightarrow> nat \<Rightarrow>
     halt + 'm bprd \<times> 'a route_op list \<times> nat" where
  "router_rounds nl lock unlock rnd u 0 b k = Inr (b, [], k)"
| "router_rounds nl lock unlock rnd u (Suc n) b k =
     rbind (router_update nl lock unlock rnd u b k) (\<lambda>(b, ops, k).
     rbind (ntable_mutex_lock lock (ntable b)) (\<lambda>nt.
     rbind (ntable_mutex_unlock unlock nt) (\<lambda>nt.
     rbind (router_rounds nl lock unlock rnd u n (b\<lparr>ntable := nt\<rparr>) k) (\<lambda>(b, ops', k). Inr (b, ops @ ops', k)))))"

definition router_thread_main ::
  "router_env \<Rightarrow> (syscall \<Rightarrow> bool) \<Rightarrow> router_static \<Rightarrow> procfs \<Rightarrow> 'a netlink \<Rightarrow> ('m \<Rightarrow> int \<times> 'm) \<Rightarrow> ('m \<Rightarrow> int \<times> 'm) \<Rightarrow>
     (nat \<Rightarrow> nat) \<Rightarrow> uninit \<Rightarrow> nat \<Rightarrow> 'm bprd \<Rightarrow> nat \<Rightarrow> halt + 'm bprd \<times> 'a route_op list \<times> nat" where
  "router_thread_main env fails st fs nl lock unlock rnd u n b k =
     (let (r, st, fs) = router_init env fails st fs (if_index b) (word_of_int (ipver b))
      in if r < 0 then Inl (LogErr ''Unable to initialize router'')
         else router_rounds nl lock unlock rnd u n b k)"

section \<open>States and steps\<close>

record ('m, 'a) run_env =
  re_io :: "'m hello_io"
  re_hello :: hello_env
  re_hw :: "'m hw_env"
  re_nl :: "'a netlink"
  re_lock :: "'m \<Rightarrow> int \<times> 'm"
  re_unlock :: "'m \<Rightarrow> int \<times> 'm"
  re_random :: "nat \<Rightarrow> nat"
  re_local :: uninit

text \<open>\<open>re_local\<close> is what the uninitialised variables hold while the threads start up; later every round
  of the router and of the hello writer may find something else there.

  The copies of \<open>bprd\<close> in the states of the hello reader and writer are brought up to date before each
  of their steps.\<close>

record ('m, 'a) run_state =
  rs_bprd :: "'m bprd"
  rs_reader :: "'m hello_st pbb_reader"
  rs_hs :: "'m hello_st"
  rs_mem :: mem
  rs_writer :: pbb_writer
  rs_hw :: "'m hw_st"
  rs_draws :: nat
  rs_routes :: "'a route_op list"
  rs_verdicts :: "verdict_call list"

datatype event = Hear bytes nat | Announce | Route | Release | Arrive nat

inductive run_step :: "('m, 'a) run_env \<Rightarrow> ('m, 'a) run_state \<Rightarrow> event \<Rightarrow> ('m, 'a) run_state \<Rightarrow> bool" for env where
  hear: "hello_recv (re_io env) (rs_reader s) buf n ((rs_hs s)\<lparr>hs_bprd := rs_bprd s\<rparr>) (rs_mem s) = Inr (r, hs, m) \<Longrightarrow>
    run_step env s (Hear buf n) (s\<lparr>rs_reader := r, rs_hs := hs, rs_mem := m, rs_bprd := hs_bprd hs\<rparr>)"
| announce: "hello_round ((re_hw env)\<lparr>hw_local := u\<rparr>) (rs_writer s, (rs_hw s)\<lparr>hw_bprd := rs_bprd s\<rparr>) = Inr (w, hw) \<Longrightarrow>
    run_step env s Announce (s\<lparr>rs_writer := w, rs_hw := hw, rs_bprd := hw_bprd hw\<rparr>)"
| route: "router_rounds (re_nl env) (re_lock env) (re_unlock env) (re_random env) u 1 (rs_bprd s) (rs_draws s) =
      Inr (b, ops, k) \<Longrightarrow>
    run_step env s Route (s\<lparr>rs_bprd := b, rs_routes := rs_routes s @ ops, rs_draws := k\<rparr>)"
| release: "backlogger_packet_release (clist (rs_bprd s)) 1 = (l, out) \<Longrightarrow>
    run_step env s Release (s\<lparr>rs_bprd := (rs_bprd s)\<lparr>clist := l\<rparr>, rs_verdicts := rs_verdicts s @ out\<rparr>)"
| arrive: "i < length (clist (rs_bprd s)) \<Longrightarrow>
    run_step env s (Arrive i) (s\<lparr>rs_bprd := (rs_bprd s)\<lparr>clist := arrive i (clist (rs_bprd s))\<rparr>\<rparr>)"

inductive run :: "('m, 'a) run_env \<Rightarrow> ('m, 'a) run_state \<Rightarrow> event list \<Rightarrow> ('m, 'a) run_state \<Rightarrow> bool" for env s where
  start: "run env s [] s"
| step: "run env s es s1 \<Longrightarrow> run_step env s1 e s2 \<Longrightarrow> run env s (es @ [e]) s2"

section \<open>Coming up\<close>

text \<open>The initialisations that the four threads begin with: backlogger (which \<open>main\<close> waits for), hello
  reader, hello writer and router.\<close>

record thread_env =
  te_nfq :: nfq_env
  te_ntop :: inet_ntop
  te_router :: router_env
  te_fails :: "syscall \<Rightarrow> bool"
  te_static :: router_static
  te_procfs :: procfs

definition threads_init ::
  "thread_env \<Rightarrow> ('m, 'a) run_env \<Rightarrow> 'm hello_st \<Rightarrow> 'm hw_st \<Rightarrow> nat \<Rightarrow> 'm bprd \<Rightarrow> mem \<Rightarrow> halt + ('m, 'a) run_state" where
  "threads_init te env hs hw k b m =
     rbind (backlogger_init (te_nfq te) (te_ntop te) (re_local env) (saddr b) (clist b)) (\<lambda>(l, cmds).
     let b = b\<lparr>clist := l\<rparr>; r = hello_reader_init (re_hello env)
     in rbind (hello_writer_init (hw_alloc (re_hw env)) b) (\<lambda>w.
        let (n, st, fs) = router_init (te_router te) (te_fails te) (te_static te) (te_procfs te) (if_index b) (word_of_int (ipver b))
        in if n < 0 then Inl (LogErr ''Unable to initialize router'')
           else Inr \<lparr>rs_bprd = b, rs_reader = r, rs_hs = hs, rs_mem = m, rs_writer = w, rs_hw = hw, rs_draws = k,
                     rs_routes = [], rs_verdicts = []\<rparr>))"

text \<open>\<open>None\<close> when the program only prints its usage, and in the parents of a daemon in the background.\<close>

definition comes_up ::
  "sock_env \<Rightarrow> 'm init_env \<Rightarrow> opts \<Rightarrow> opts \<Rightarrow> 'm \<Rightarrow> thread_env \<Rightarrow> ('m, 'a) run_env \<Rightarrow> 'm hello_st \<Rightarrow> 'm hw_st \<Rightarrow> nat \<Rightarrow> mem \<Rightarrow>
     halt + ('m, 'a) run_state option" where
  "comes_up se ie pre os mu te env hs hw k m =
     rbind (main_init se ie pre os mu m) (\<lambda>r.
     case r of
       None \<Rightarrow> Inr None
     | Some (d, m) \<Rightarrow> rbind (threads_init te env hs hw k (d_bprd d) m) (\<lambda>s. Inr (Some s)))"

section \<open>What a step leaves alone\<close>

text \<open>What no step changes of a commodity, and the netfilter queue it is bound to.\<close>

definition identity :: "commodity \<Rightarrow> netaddr \<times> u16 \<times> nat option" where
  "identity c = (c_addr c, nfq_id c, Option.bind (queue c) qh)"

lemma router_update_frame:
  assumes "router_update nl lock unlock rnd u b k = Inr (b', ops, k')"
  shows "\<exists>l t. b' = b\<lparr>clist := l, ntable := t\<rparr> \<and> map identity l = map identity (clist b) \<and> map queue l = map queue (clist b) \<and>
    (nlist_ok (nlist (ntable b)) \<longrightarrow> nlist_ok (nlist t))"
proof -
  obtain own where own: "update_backlogs (clist b) = Inr own"
    and ns: "nlist (ntable b') = map (set_diffs own) (nlist (ntable b))"
    and rc: "route_commodities nl rnd u (own_netaddr (saddr b) u) (word_of_int (ipver b)) (if_index b)
          (nlist (ntable b')) own k = Inr (clist b', ops, k')"
    using assms by (rule router_update_cases)
  have l2: "list_all2 (\<lambda>c c'. \<exists>d. c' = c\<lparr>backdiff := d\<rparr>) own (clist b')"
    using route_commodities_spec[OF rc] by blast
  then have "map identity (clist b') = map identity own \<and> map queue (clist b') = map queue own"
    by (induction rule: list_all2_induct) (auto simp: identity_def)
  moreover have "map identity own = map identity (clist b) \<and> map queue own = map queue (clist b)"
    using own by (simp add: update_backlogs_iff identity_def)
  moreover have "nlist_ok (nlist (ntable b')) = nlist_ok (nlist (ntable b))"
    by (simp add: ns nlist_ok_def clist_wf_def set_diffs_def o_def)
  moreover have "b' = b\<lparr>clist := clist b', ntable := ntable b'\<rparr>"
    using assms by (auto simp: router_update_def Let_def rbind_Inr_iff split: prod.splits)
  ultimately show ?thesis by auto
qed

lemma router_rounds_frame:
  "router_rounds nl lock unlock rnd u n b k = Inr (b', ops, k') \<Longrightarrow>
     \<exists>l t. b' = b\<lparr>clist := l, ntable := t\<rparr> \<and> map identity l = map identity (clist b) \<and> map queue l = map queue (clist b) \<and>
       (nlist_ok (nlist (ntable b)) \<longrightarrow> nlist_ok (nlist t))"
proof (induction n arbitrary: b k ops)
  case 0
  then show ?case by (auto intro!: exI[of _ "clist b"] exI[of _ "ntable b"])
next
  case (Suc n)
  from Suc.prems obtain b1 ops1 k1 nt nt1 ops2 where
    1: "router_update nl lock unlock rnd u b k = Inr (b1, ops1, k1)" and
    2: "ntable_mutex_lock lock (ntable b1) = Inr nt" "ntable_mutex_unlock unlock nt = Inr nt1" and
    3: "router_rounds nl lock unlock rnd u n (b1\<lparr>ntable := nt1\<rparr>) k1 = Inr (b', ops2, k')"
    by (auto simp: rbind_Inr_iff)
  note n = mutex_keeps_nlist(1)[OF 2(1)] mutex_keeps_nlist(2)[OF 2(2)]
  from router_update_frame[OF 1] obtain l t where b1: "b1 = b\<lparr>clist := l, ntable := t\<rparr>" "map identity l = map identity (clist b)"
    "map queue l = map queue (clist b)" "nlist_ok (nlist (ntable b)) \<longrightarrow> nlist_ok (nlist t)" by blast
  from Suc.IH[OF 3] obtain l' t' where "b' = b1\<lparr>clist := l', ntable := t'\<rparr>" "map identity l' = map identity (clist b1)"
    "map queue l' = map queue (clist b1)" "nlist_ok (nlist t) \<longrightarrow> nlist_ok (nlist t')"
    using n b1(1) by auto
  with b1 show ?case by (auto intro!: exI[of _ l'] exI[of _ t'])
qed

lemma repeat_send_keeps:
  "repeat_send fifo_send_packet n (Some q) = (q', out) \<Longrightarrow> head q \<le> tail q \<Longrightarrow>
     \<exists>h. q' = Some (q\<lparr>head := h\<rparr>) \<and> h \<le> tail q"
proof (induction n arbitrary: q out)
  case 0
  then show ?case by (auto intro: exI[of _ "head q"])
next
  case (Suc n)
  obtain q1 out1 where s: "fifo_send_packet (Some q) = (q1, out1)" by (cases "fifo_send_packet (Some q)")
  obtain out2 where r: "repeat_send fifo_send_packet n q1 = (q', out2)" using Suc.prems(1) s by (auto split: prod.splits)
  from s obtain h where h: "q1 = Some (q\<lparr>head := h\<rparr>)" "h \<le> tail q"
    using Suc.prems(2) inc_le[of "head q" "tail q"] that[of "head q"] that[of "head q + 1"]
    by (auto simp: fifo_send_packet_def Let_def split: if_splits)
  from Suc.IH[OF r[unfolded h(1)]] h(2) show ?case by auto
qed

text \<open>A release takes packets from the front of one queue.\<close>

lemma release_takes_front:
  assumes "backlogger_packet_release l n = (l', out)"
  obtains (idle) "l' = l" "out = []"
  | (sent) i q k where "i < length l" "l' = l[i := (l ! i)\<lparr>queue := q\<rparr>]"
      "repeat_send fifo_send_packet k (queue (l ! i)) = (q, out)"
proof (cases rule: best_commodity_cases[of l])
  case none
  then show ?thesis using assms by (intro idle) (simp_all add: backlogger_packet_release_def)
next
  case (some i)
  obtain q o1 where r: "repeat_send fifo_send_packet (unat (release_count (backdiff (l ! i)) n)) (queue (l ! i)) = (q, o1)"
    by (metis surj_pair)
  with assms some show ?thesis by (intro sent[of i q]) (simp_all add: backlogger_packet_release_def Let_def)
qed

definition changes :: "'m bprd \<Rightarrow> 'm bprd \<Rightarrow> bool" where
  "changes b b' \<longleftrightarrow> (\<exists>sq l t. b' = b\<lparr>hello_seqno := sq, clist := l, ntable := t\<rparr> \<and> map identity l = map identity (clist b) \<and>
     (nlist_ok (nlist (ntable b)) \<longrightarrow> nlist_ok (nlist t)))"

lemma changesI:
  "b' = b\<lparr>hello_seqno := sq, clist := l, ntable := t\<rparr> \<Longrightarrow> map identity l = map identity (clist b) \<Longrightarrow>
     (nlist_ok (nlist (ntable b)) \<Longrightarrow> nlist_ok (nlist t)) \<Longrightarrow> changes b b'"
  unfolding changes_def by blast

lemma changes_refl: "changes b b"
  by (rule changesI[where sq = "hello_seqno b" and l = "clist b" and t = "ntable b"]) simp_all

lemma changes_trans:
  assumes "changes b b'" and "changes b' b''"
  shows "changes b b''"
proof -
  obtain sq l t where 1: "b' = b\<lparr>hello_seqno := sq, clist := l, ntable := t\<rparr>" "map identity l = map identity (clist b)"
    "nlist_ok (nlist (ntable b)) \<longrightarrow> nlist_ok (nlist t)" using assms(1) unfolding changes_def by blast
  obtain sq' l' t' where 2: "b'' = b'\<lparr>hello_seqno := sq', clist := l', ntable := t'\<rparr>" "map identity l' = map identity (clist b')"
    "nlist_ok (nlist (ntable b')) \<longrightarrow> nlist_ok (nlist t')" using assms(2) unfolding changes_def by blast
  show ?thesis using 1 2 by (intro changesI[where sq = sq' and l = l' and t = t']) simp_all
qed

lemma identity_update:
  "i < length l \<Longrightarrow> Option.bind q qh = Option.bind (queue (l ! i)) qh \<Longrightarrow>
     map identity (l[i := (l ! i)\<lparr>queue := q\<rparr>]) = map identity l"
  by (simp add: map_update identity_def list_update_same_conv)

lemma changes_clist: "map identity l = map identity (clist b) \<Longrightarrow> changes b (b\<lparr>clist := l\<rparr>)"
  by (rule changesI[where sq = "hello_seqno b" and l = l and t = "ntable b"]) simp_all

lemma release_identity:
  assumes "backlogger_packet_release l n = (l', out)"
  shows "map identity l' = map identity l"
  using assms
proof (cases rule: release_takes_front)
  case (sent i q k)
  have "fifo_send_packet x = (y, z) \<Longrightarrow> Option.bind y qh = Option.bind x qh" for x y z
    by (auto simp: fifo_send_packet_def Let_def split: option.splits if_splits)
  then have "repeat_send fifo_send_packet k x = (y, z) \<Longrightarrow> Option.bind y qh = Option.bind x qh" for k x y z
    by (induction k arbitrary: x y z) (fastforce split: prod.splits)+
  from identity_update[OF sent(1) this[OF sent(3)]] show ?thesis by (simp add: sent(2))
qed simp

lemma arrive_identity: "i < length l \<Longrightarrow> map identity (arrive i l) = map identity l"
  unfolding arrive_def by (intro identity_update, assumption) (cases "queue (l ! i)"; simp add: fifo_add_packet_def)

definition run_inv :: "('m, 'a) run_env \<Rightarrow> ('m, 'a) run_state \<Rightarrow> ('m, 'a) run_state \<Rightarrow> bool" where
  "run_inv env s s' \<longleftrightarrow> hello_reader_ok (re_hello env) (rs_reader s') \<and> nlist_ok (nlist (ntable (rs_bprd s'))) \<and>
     live (rs_mem s') = live (rs_mem s) \<and> changes (rs_bprd s) (rs_bprd s')"

lemma step_inv:
  assumes "run_step env s e s'"
    and "hello_reader_ok (re_hello env) (rs_reader s)" and "nlist_ok (nlist (ntable (rs_bprd s)))"
  shows "run_inv env s s'"
  using assms(1)
proof cases
  case (hear buf n r hs m)
  have "nlist_ok (hs_nlist ((rs_hs s)\<lparr>hs_bprd := rs_bprd s\<rparr>))" using assms(3) by simp
  from hello_recv_inv[OF hear(3) assms(2) this] obtain t where
    1: "hello_reader_ok (re_hello env) r" "nlist_ok (hs_nlist hs)" "hs_bprd hs = (rs_bprd s)\<lparr>ntable := t\<rparr>" "live m = live (rs_mem s)"
    by auto
  have "changes (rs_bprd s) (hs_bprd hs)"
    by (rule changesI[where sq = "hello_seqno (rs_bprd s)" and l = "clist (rs_bprd s)" and t = t]) (use 1(2,3) in simp_all)
  with 1 show ?thesis by (simp add: run_inv_def hear(2))
next
  case (announce u w hw)
  from hello_round_frame[OF announce(3)] obtain sq t where
    1: "hw_bprd hw = (rs_bprd s)\<lparr>hello_seqno := sq, ntable := t\<rparr>" "nlist_ok (nlist (ntable (rs_bprd s))) \<longrightarrow> nlist_ok (nlist t)"
    by (auto simp: hello_frame_def)
  have "changes (rs_bprd s) (hw_bprd hw)"
    by (rule changesI[where sq = sq and l = "clist (rs_bprd s)" and t = t]) (use 1 in simp_all)
  with 1 assms(2,3) show ?thesis by (simp add: run_inv_def announce(2))
next
  case (route u b ops k)
  from router_rounds_frame[OF route(3)] obtain l t where 1: "b = (rs_bprd s)\<lparr>clist := l, ntable := t\<rparr>"
    "map identity l = map identity (clist (rs_bprd s))" "nlist_ok (nlist (ntable (rs_bprd s))) \<longrightarrow> nlist_ok (nlist t)" by blast
  have "changes (rs_bprd s) b" by (rule changesI[where sq = "hello_seqno (rs_bprd s)" and l = l and t = t]) (use 1 in simp_all)
  with 1 assms(2,3) show ?thesis by (simp add: run_inv_def route(2))
next
  case (release l out)
  with assms(2,3) show ?thesis by (simp add: run_inv_def changes_clist release_identity)
next
  case (arrive i)
  with assms(2,3) show ?thesis by (simp add: run_inv_def changes_clist arrive_identity)
qed

lemma run_keeps_inv:
  assumes "run env s es s'"
    and "hello_reader_ok (re_hello env) (rs_reader s)" and "nlist_ok (nlist (ntable (rs_bprd s)))"
  shows "run_inv env s s'"
  using assms(1)
proof (induction rule: run.induct)
  case start
  show ?case using assms(2,3) by (simp add: run_inv_def changes_refl)
next
  case (step es s1 e s2)
  have "run_inv env s1 s2" using step.IH by (intro step_inv[OF step.hyps(2)]) (simp_all add: run_inv_def)
  with step.IH show ?case unfolding run_inv_def using changes_trans by auto
qed

lemma arrive_length [simp]: "length (arrive i l) = length l"
  by (simp add: arrive_def)

text \<open>What the backlogger's loop does to the commodities is a sequence of arrivals.\<close>

fun loop_arrivals :: "(bytes \<Rightarrow> nat list) \<Rightarrow> bytes option list \<Rightarrow> nat list" where
  "loop_arrivals handle [] = []"
| "loop_arrivals handle (r # rs) =
     (case r of
        None \<Rightarrow> []
      | Some buf \<Rightarrow> if take 4096 buf = [] then [] else handle (take 4096 buf) @ loop_arrivals handle rs)"

lemma backlogger_loop_arrivals: "backlogger_loop handle rs l = fold arrive (loop_arrivals handle rs) l"
  by (induction rs arbitrary: l) (auto simp: Let_def split: option.splits)

lemma run_arrivals:
  "run env s0 es s \<Longrightarrow> \<forall>i\<in>set xs. i < length (clist (rs_bprd s)) \<Longrightarrow>
     \<exists>s'. run env s0 (es @ map Arrive xs) s' \<and> clist (rs_bprd s') = fold arrive xs (clist (rs_bprd s))"
proof (induction xs arbitrary: es s)
  case (Cons i xs)
  let ?s = "s\<lparr>rs_bprd := (rs_bprd s)\<lparr>clist := arrive i (clist (rs_bprd s))\<rparr>\<rparr>"
  have "run env s0 (es @ [Arrive i]) ?s"
    using Cons.prems by (intro run.step[OF Cons.prems(1)] run_step.arrive) simp
  from Cons.IH[OF this] Cons.prems(2) show ?case by simp
qed auto

lemma backlogger_loop_run:
  "run env s0 es s \<Longrightarrow> \<forall>i\<in>set (loop_arrivals handle rs). i < length (clist (rs_bprd s)) \<Longrightarrow>
     \<exists>s'. run env s0 (es @ map Arrive (loop_arrivals handle rs)) s' \<and>
       clist (rs_bprd s') = backlogger_loop handle rs (clist (rs_bprd s))"
  unfolding backlogger_loop_arrivals by (rule run_arrivals)

section \<open>Packets stay in order\<close>

text \<open>The packets of a commodity that have been handed over, as the accepting verdicts for them; first those
  that were given, then those that wait.\<close>

definition verdicts_of :: "nat option \<Rightarrow> verdict_call list \<Rightarrow> verdict_call list" where
  "verdicts_of h vs = filter (\<lambda>v. fst v = h) vs"

definition in_order :: "verdict_call list \<Rightarrow> nat \<Rightarrow> fifo option \<Rightarrow> bool" where
  "in_order vs n f \<longleftrightarrow>
     (case f of None \<Rightarrow> False
      | Some q \<Rightarrow> head q \<le> tail q \<and> unat (tail q) = n \<and>
          verdicts_of (qh q) vs @ fifo_calls NF_ACCEPT (Some q) = map (\<lambda>k. (qh q, of_nat k, NF_ACCEPT)) [1..<Suc n])"

lemma in_order_others:
  assumes "in_order vs n f" and "\<forall>v\<in>set out. fst v \<noteq> Option.bind f qh"
  shows "in_order (vs @ out) n f"
proof -
  have "\<forall>v\<in>set out. fst v \<noteq> h \<Longrightarrow> filter (\<lambda>v. fst v = h) out = []" for h by (induction out) auto
  with assms show ?thesis by (cases f) (simp_all add: in_order_def verdicts_of_def)
qed

lemma in_order_release:
  assumes "in_order vs n f" and "repeat_send fifo_send_packet k f = (q', out)"
  shows "in_order (vs @ out) n q'"
proof -
  obtain q where q: "f = Some q" "head q \<le> tail q" using assms(1) by (cases f) (simp_all add: in_order_def)
  from repeat_send_keeps[OF assms(2)[unfolded q(1)] q(2)] obtain h where h: "q' = Some (q\<lparr>head := h\<rparr>)" "h \<le> tail q" by blast
  have t: "out = take k (fifo_calls NF_ACCEPT (Some q))" "fifo_calls NF_ACCEPT q' = drop k (fifo_calls NF_ACCEPT (Some q))"
    using release.repeat_send_take[OF assms(2)] by (simp_all add: q(1))
  have "\<forall>v\<in>set (fifo_calls NF_ACCEPT (Some q)). fst v = qh q" by (auto simp: fifo_calls_def)
  then have "\<forall>v\<in>set out. fst v = qh q" unfolding t(1) by (blast dest: in_set_takeD)
  then have "verdicts_of (qh q) out = out" by (simp add: verdicts_of_def)
  then have "verdicts_of (qh q) (vs @ out) @ fifo_calls NF_ACCEPT q' = verdicts_of (qh q) vs @ fifo_calls NF_ACCEPT (Some q)"
    unfolding t(2) by (simp add: verdicts_of_def t(1))
  with assms(1) h show ?thesis by (simp add: in_order_def q(1))
qed

lemma in_order_arrive:
  assumes "in_order vs n f" and "n < 2 ^ 32 - 1"
  shows "in_order vs (Suc n) (snd (fifo_add_packet f))"
proof -
  obtain q where q: "f = Some q" "head q \<le> tail q" "unat (tail q) = n" using assms(1) by (cases f) (simp_all add: in_order_def)
  have u: "unat (tail q + 1) = Suc n" using assms(2) q(3) by (simp add: unat_word_ariths)
  have h: "unat (head q) \<le> n" using q(2,3) by (simp add: word_le_nat_alt)
  have "fifo_calls NF_ACCEPT (Some (q\<lparr>tail := tail q + 1\<rparr>)) = fifo_calls NF_ACCEPT (Some q) @ [(qh q, of_nat (Suc n), NF_ACCEPT)]"
    using h by (simp add: fifo_calls_def fifo_pending_def u q(3))
  moreover have "head q \<le> tail q + 1" using h by (simp add: word_le_nat_alt u)
  ultimately show ?thesis using assms(1) by (simp add: in_order_def q(1) fifo_add_packet_def u)
qed

definition handles :: "commodity list \<Rightarrow> nat option list" where
  "handles l = map (\<lambda>c. Option.bind (queue c) qh) l"

lemma handles_identity: "map identity l' = map identity l \<Longrightarrow> handles l' = handles l"
proof -
  assume "map identity l' = map identity l"
  then have "map (snd \<circ> snd) (map identity l') = map (snd \<circ> snd) (map identity l)" by (simp only:)
  then show ?thesis by (simp add: handles_def identity_def o_def)
qed

definition ordered :: "verdict_call list \<Rightarrow> event list \<Rightarrow> commodity list \<Rightarrow> bool" where
  "ordered vs es l \<longleftrightarrow> (\<forall>i<length l. in_order vs (count_list es (Arrive i)) (queue (l ! i)))"

lemma ordered_queues: "map queue l' = map queue l \<Longrightarrow> ordered vs es l' \<longleftrightarrow> ordered vs es l"
  unfolding ordered_def by (metis length_map nth_map)

lemma ordered_release:
  assumes "ordered vs es l" and "distinct (handles l)" and "backlogger_packet_release l n = (l', out)"
  shows "ordered (vs @ out) es l'"
  using assms(3)
proof (cases rule: release_takes_front)
  case idle
  with assms(1) show ?thesis by simp
next
  case (sent i q k)
  have "in_order (vs @ out) (count_list es (Arrive j)) (queue (l' ! j))" if j: "j < length l" for j
  proof (cases "j = i")
    case True
    with sent in_order_release[of vs _ "queue (l ! i)" k q out] assms(1) show ?thesis by (simp add: ordered_def)
  next
    case False
    have "out = take k (fifo_calls NF_ACCEPT (queue (l ! i)))" using release.repeat_send_take[OF sent(3)] by simp
    then have "\<forall>v\<in>set out. fst v = Option.bind (queue (l ! i)) qh"
      by (auto simp: fifo_calls_def split: option.splits dest!: in_set_takeD)
    moreover have "Option.bind (queue (l ! i)) qh \<noteq> Option.bind (queue (l ! j)) qh"
      using nth_eq_iff_index_eq[OF assms(2), of i j] sent(1) j False by (simp add: handles_def)
    ultimately show ?thesis using assms(1) j sent(2) False by (intro in_order_others) (auto simp: ordered_def)
  qed
  then show ?thesis unfolding ordered_def sent(2) by simp
qed

lemma ordered_arrive:
  assumes "ordered vs es l" and "i < length l" and "count_list es (Arrive i) < 2 ^ 32 - 1"
  shows "ordered vs (es @ [Arrive i]) (arrive i l)"
  using assms in_order_arrive[of vs "count_list es (Arrive i)" "queue (l ! i)"]
  by (auto simp: ordered_def arrive_def nth_list_update)

lemma ordered_skip [simp]:
  "ordered vs (es @ [Hear buf n]) l \<longleftrightarrow> ordered vs es l" "ordered vs (es @ [Announce]) l \<longleftrightarrow> ordered vs es l"
  "ordered vs (es @ [Route]) l \<longleftrightarrow> ordered vs es l" "ordered vs (es @ [Release]) l \<longleftrightarrow> ordered vs es l"
  by (simp_all add: ordered_def)

lemma step_ordered:
  assumes "run_step env s e s'" and "ordered (rs_verdicts s) es (clist (rs_bprd s))"
    and "distinct (handles (clist (rs_bprd s)))" and "\<forall>i. count_list (es @ [e]) (Arrive i) < 2 ^ 32"
    and "hello_reader_ok (re_hello env) (rs_reader s)" and "nlist_ok (nlist (ntable (rs_bprd s)))"
  shows "ordered (rs_verdicts s') (es @ [e]) (clist (rs_bprd s'))"
  using assms(1)
proof cases
  case (hear buf n r hs m)
  have "nlist_ok (hs_nlist ((rs_hs s)\<lparr>hs_bprd := rs_bprd s\<rparr>))" using assms(6) by simp
  from hello_recv_inv[OF hear(3) assms(5) this] have "clist (hs_bprd hs) = clist (rs_bprd s)" by auto
  with assms(2) hear show ?thesis by simp
next
  case (announce u w hw)
  from hello_round_frame[OF announce(3)] have "clist (hw_bprd hw) = clist (rs_bprd s)" by (auto simp: hello_frame_def)
  with assms(2) announce show ?thesis by simp
next
  case (route u b ops k)
  from router_rounds_frame[OF route(3)] have "map queue (clist b) = map queue (clist (rs_bprd s))" by auto
  with assms(2) route ordered_queues[OF this] show ?thesis by simp
next
  case (release l out)
  with assms(2,3) show ?thesis by (simp add: ordered_release)
next
  case (arrive i)
  have "count_list es (Arrive i) < 2 ^ 32 - 1" using spec[OF assms(4), of i] by (simp add: arrive(1))
  with arrive assms(2) show ?thesis by (simp add: ordered_arrive)
qed

lemma run_ordered:
  assumes "run env s es s'" and "ordered (rs_verdicts s) [] (clist (rs_bprd s))"
    and "distinct (handles (clist (rs_bprd s)))" and "\<forall>i. count_list es (Arrive i) < 2 ^ 32"
    and "hello_reader_ok (re_hello env) (rs_reader s)" and "nlist_ok (nlist (ntable (rs_bprd s)))"
  shows "ordered (rs_verdicts s') es (clist (rs_bprd s'))"
  using assms(1,4)
proof (induction rule: run.induct)
  case start
  show ?case using assms(2) .
next
  case (step es s1 e s2)
  from run_keeps_inv[OF step.hyps(1) assms(5,6)] have i: "run_inv env s s1" .
  then have "map identity (clist (rs_bprd s1)) = map identity (clist (rs_bprd s))" by (auto simp: run_inv_def changes_def)
  from handles_identity[OF this] have d: "distinct (handles (clist (rs_bprd s1)))" using assms(3) by simp
  have "count_list es (Arrive i) < 2 ^ 32" for i using spec[OF step.prems, of i] by simp
  with step.IH have "ordered (rs_verdicts s1) es (clist (rs_bprd s1))" by blast
  from step_ordered[OF step.hyps(2) this d step.prems] i show ?case by (simp add: run_inv_def)
qed

lemma comes_up_state:
  assumes "comes_up se ie pre os mu te env hs hw k m = Inr (Some s)" and "pton_sizes (ie_pton ie)"
  shows "rs_reader s = hello_reader_init (re_hello env) \<and> nlist (ntable (rs_bprd s)) = [] \<and> rs_verdicts s = [] \<and>
    ordered [] [] (clist (rs_bprd s))"
proof -
  obtain d m' where d: "main_init se ie pre os mu m = Inr (Some (d, m'))"
    and t: "threads_init te env hs hw k (d_bprd d) m' = Inr s"
    using assms(1) by (auto simp: comes_up_def rbind_Inr_iff split: option.splits)
  let ?b = "d_bprd d"
  note unf = threads_init_def rbind_Inr_iff Let_def case_prod_beta
  from t obtain l cmds where l: "backlogger_init (te_nfq te) (te_ntop te) (re_local env) (saddr ?b) (clist ?b) = Inr (l, cmds)"
    by (auto simp: unf)
  from t l have s: "rs_bprd s = ?b\<lparr>clist := l\<rparr>" "rs_reader s = hello_reader_init (re_hello env)" "rs_verdicts s = []"
    by (auto simp: unf split: if_splits)
  have "\<exists>h. l = map (\<lambda>c. c\<lparr>queue := Some \<lparr>head = 0, tail = 0, qh = nfq_create_queue (te_nfq te) h (nfq_id c)\<rparr>\<rparr>) (clist ?b)"
    using l by (auto simp: backlogger_init_def Let_def rbind_Inr_iff split: if_splits dest: init_queues_map)
  then have "ordered [] [] l" by (auto simp: ordered_def in_order_def verdicts_of_def fifo_calls_def fifo_pending_def)
  moreover have "nlist (ntable ?b) = []" using main_init_state[OF d assms(2)] by (simp add: started_def)
  ultimately show ?thesis by (simp add: s)
qed

section \<open>A sample run\<close>

text \<open>The daemon 10.0.0.9 with packets for 10.0.0.1, which is heard as a bidirectional neighbor.\<close>

definition sample_threads :: thread_env where
  "sample_threads = \<lparr>te_nfq = \<lparr>nfq_open = Some 1, nfq_unbind_pf = (\<lambda>_ _. 0), nfq_bind_pf = (\<lambda>_ _. 0),
       nfq_create_queue = (\<lambda>_ i. Some (unat i)), nfq_set_mode = (\<lambda>_. 0), system = (\<lambda>_. 0)\<rparr>,
     te_ntop = (\<lambda>f b. ''10.0.0.1''),
     te_router = \<lparr>nl_socket_alloc = Some 1, nl_connect = 0, if_indextoname = (\<lambda>_. Some ''eth0'')\<rparr>, te_fails = (\<lambda>_. False),
     te_static = \<lparr>router_nlsk = None, router_if_index = 0, router_family = 0, router_origfwd = CHR ''x'', router_procfile = []\<rparr>,
     te_procfs = \<lparr>pf_files = [''/proc/sys/net/ipv4/conf/eth0/forwarding'' \<mapsto> CHR ''0''], pf_fds = 0\<rparr>\<rparr>"

definition sample_run :: "(unit, bytes) run_env" where
  "sample_run = \<lparr>re_io = hello_sample_io, re_hello = hello_sample_env, re_hw = send_env, re_nl = sample_netlink, re_lock = Pair 0,
     re_unlock = Pair 0, re_random = (\<lambda>_. 0), re_local = sample_uninit\<rparr>"

definition sample_up :: "unit bprd" where
  "sample_up = sample_started\<lparr>clist := [mk_commodity (ipv4 [10, 0, 0, 1]) 0 0 7 (Some \<lparr>head = 0, tail = 0, qh = Some 7\<rparr>)]\<rparr>"

definition sample_hw :: "unit hw_st" where
  "sample_hw = \<lparr>hw_bprd = sample_started, hw_tick = 0, hw_freed = [], hw_sent = []\<rparr>"

lemma sample_backlogger: "\<exists>cmds. backlogger_init (te_nfq sample_threads) (te_ntop sample_threads) (re_local sample_run) (saddr sample_started) (clist sample_started) =
  Inr (clist sample_up, cmds)"
proof -
  let ?e = "te_nfq sample_threads"
  have "(case backlogger_init (te_nfq sample_threads) (te_ntop sample_threads) (re_local sample_run) (saddr sample_started) (clist sample_started)
     of Inl _ \<Rightarrow> False | Inr (l, _) \<Rightarrow> l = clist sample_up)"
    by code_simp
  then show ?thesis by (auto split: sum.splits)
qed

lemma sample_forwarding:
  "\<exists>st fs. router_init (te_router sample_threads) (te_fails sample_threads) (te_static sample_threads) (te_procfs sample_threads)
     (if_index sample_started) (word_of_int (ipver sample_started)) = (0, st, fs)"
proof -
  have "fst (router_init (te_router sample_threads) (te_fails sample_threads) (te_static sample_threads) (te_procfs sample_threads)
     (if_index sample_started) (word_of_int (ipver sample_started))) = 0" by code_simp
  then show ?thesis by (metis prod.exhaust fst_conv)
qed

definition sample_hello :: bytes where
  "sample_hello = 0 # [1, 0x83, 0, 45, 10, 0, 0, 1, 0, 27, 1, 0x10, 24] @
     [10, 0, 0, 1, 0, 0, 0, 0, 0, 0, 0, 0, 0, 0, 0, 0, 2, 32, 0, 0, 0, 0, 0, 0] @
     [1, 0, 10, 0, 0, 9, 0, 0]"

definition sample_queue :: "u32 \<Rightarrow> u32 \<Rightarrow> fifo option" where
  "sample_queue h t = Some \<lparr>head = h, tail = t, qh = Some 7\<rparr>"

definition sample_heard :: "unit bprd" where
  "sample_heard = sample_up\<lparr>clist := [mk_commodity (ipv4 [10, 0, 0, 1]) 0 0 7 (sample_queue 0 2)],
     ntable := \<lparr>nlist = [\<lparr>n_addr = ipv4 [10, 0, 0, 1], bidir = 1, update_time = \<lparr>tv_sec = 0, tv_usec = 0\<rparr>,
       n_clist = [mk_commodity (ipv4 [10, 0, 0, 1]) 0 0 0 None]\<rparr>], mutex = ()\<rparr>\<rparr>"

definition sample_routed :: "unit bprd" where
  "sample_routed = sample_heard\<lparr>clist := [mk_commodity (ipv4 [10, 0, 0, 1]) 2 2 7 (sample_queue 0 2)],
     ntable := \<lparr>nlist = [\<lparr>n_addr = ipv4 [10, 0, 0, 1], bidir = 1, update_time = \<lparr>tv_sec = 0, tv_usec = 0\<rparr>,
       n_clist = [mk_commodity (ipv4 [10, 0, 0, 1]) 0 2 0 None]\<rparr>], mutex = ()\<rparr>\<rparr>"

lemma sample_hear: "case hello_recv hello_sample_io (hello_reader_init hello_sample_env) sample_hello (length sample_hello)
     (hello_sample_st\<lparr>hs_bprd := sample_up\<lparr>clist := [mk_commodity (ipv4 [10, 0, 0, 1]) 0 0 7 (sample_queue 0 2)]\<rparr>\<rparr>) \<lparr>calls = c, live = l\<rparr> of
   Inl _ \<Rightarrow> False | Inr (r, hs, m) \<Rightarrow> hs_bprd hs = sample_heard"
  by code_simp

lemma sample_route: "case router_rounds sample_netlink (Pair 0) (Pair 0) (\<lambda>_. 0) sample_uninit (Suc 0) sample_heard 0 of
   Inl _ \<Rightarrow> False | Inr (b, ops, k) \<Rightarrow> b = sample_routed"
  by code_simp

lemma sample_release: "backlogger_packet_release (clist sample_routed) 1 =
  ([mk_commodity (ipv4 [10, 0, 0, 1]) 2 2 7 (sample_queue 1 2)], [(Some 7, 1, NF_ACCEPT)])"
  by code_simp

lemma sample_comes_up:
  "\<exists>s. comes_up sample_sock_env sample_init_env [] sample_opts () sample_threads sample_run hello_sample_st sample_hw 0
      \<lparr>calls = 0, live = 0\<rparr> = Inr (Some s) \<and>
     rs_bprd s = sample_up \<and> rs_reader s = hello_reader_init hello_sample_env \<and> rs_hs s = hello_sample_st \<and> rs_draws s = 0 \<and>
     rs_verdicts s = []"
proof -
  obtain d m where d: "main_init sample_sock_env sample_init_env [] sample_opts () \<lparr>calls = 0, live = 0\<rparr> = Inr (Some (d, m))"
    "d_bprd d = sample_started" using sample_main_init by blast
  obtain cmds where b: "backlogger_init (te_nfq sample_threads) (te_ntop sample_threads) (re_local sample_run)
      (saddr sample_started) (clist sample_started) = Inr (clist sample_up, cmds)" using sample_backlogger by blast
  have u: "sample_started\<lparr>clist := clist sample_up\<rparr> = sample_up" by (simp add: sample_up_def)
  have "case hello_writer_init (hw_alloc (re_hw sample_run)) sample_up of Inl _ \<Rightarrow> False | Inr _ \<Rightarrow> True" by code_simp
  then obtain w where w: "hello_writer_init (hw_alloc (re_hw sample_run)) sample_up = Inr w" by (auto split: sum.splits)
  have r: "if_index sample_up = if_index sample_started" "ipver sample_up = ipver sample_started" by (simp_all add: sample_up_def)
  obtain st fs where f: "router_init (te_router sample_threads) (te_fails sample_threads) (te_static sample_threads) (te_procfs sample_threads)
     (if_index sample_started) (word_of_int (ipver sample_started)) = (0, st, fs)" using sample_forwarding by blast
  show ?thesis
    by (simp add: comes_up_def threads_init_def d b u w r f) (simp add: sample_run_def)
qed

lemma sample_arrive:
  "arrive 0 [mk_commodity a x y k (sample_queue h t)] = [mk_commodity a x y k (sample_queue h (t + 1))]"
  by (simp add: arrive_def mk_commodity_def sample_queue_def fifo_add_packet_def)

lemma sample_steps:
  assumes "rs_bprd s = sample_up" and "rs_reader s = hello_reader_init hello_sample_env" and "rs_hs s = hello_sample_st"
    and "rs_draws s = 0" and "rs_verdicts s = []"
  shows "\<exists>s'. run sample_run s [Arrive 0, Arrive 0, Hear sample_hello (length sample_hello), Route, Release] s' \<and>
    rs_verdicts s' = [(Some 7, 1, NF_ACCEPT)] \<and> clist (rs_bprd s') = [mk_commodity (ipv4 [10, 0, 0, 1]) 2 2 7 (sample_queue 1 2)]"
proof -
  let ?l = "\<lambda>t. [mk_commodity (ipv4 [10, 0, 0, 1]) 0 0 7 (sample_queue 0 t)]"
  let ?s1 = "s\<lparr>rs_bprd := sample_up\<lparr>clist := ?l 1\<rparr>\<rparr>" and ?s2 = "s\<lparr>rs_bprd := sample_up\<lparr>clist := ?l 2\<rparr>\<rparr>"
  have l: "clist sample_up = ?l 0" by (simp add: sample_up_def sample_queue_def)
  have 1: "run_step sample_run s (Arrive 0) ?s1"
    using run_step.arrive[of 0 s sample_run] by (simp add: assms(1) l sample_arrive)
  have 2: "run_step sample_run ?s1 (Arrive 0) ?s2"
    using run_step.arrive[of 0 ?s1 sample_run] by (simp add: sample_arrive)
  obtain c lv where m: "rs_mem s = \<lparr>calls = c, live = lv\<rparr>" by (cases "rs_mem s")
  obtain r hs m where h: "hello_recv hello_sample_io (hello_reader_init hello_sample_env) sample_hello (length sample_hello)
      (hello_sample_st\<lparr>hs_bprd := sample_up\<lparr>clist := ?l 2\<rparr>\<rparr>) (rs_mem s) = Inr (r, hs, m)" "hs_bprd hs = sample_heard"
    using sample_hear[of c lv] unfolding m by (auto split: sum.splits)
  let ?s3 = "?s2\<lparr>rs_reader := r, rs_hs := hs, rs_mem := m, rs_bprd := sample_heard\<rparr>"
  have 3: "run_step sample_run ?s2 (Hear sample_hello (length sample_hello)) ?s3"
    using run_step.hear[of sample_run ?s2 sample_hello "length sample_hello" r hs m] h
    by (simp add: assms(2,3) sample_run_def)
  obtain ops k where q: "router_rounds sample_netlink (Pair 0) (Pair 0) (\<lambda>_. 0) sample_uninit (Suc 0) sample_heard 0 =
      Inr (sample_routed, ops, k)"
    using sample_route by (auto split: sum.splits)
  let ?s4 = "?s3\<lparr>rs_bprd := sample_routed, rs_routes := rs_routes s @ ops, rs_draws := k\<rparr>"
  have 4: "run_step sample_run ?s3 Route ?s4"
    using run_step.route[where env = sample_run and u = sample_uninit and s = ?s3 and b = sample_routed and ops = ops and k = k] q
    by (simp add: assms(4) sample_run_def)
  let ?s5 = "?s4\<lparr>rs_bprd := sample_routed\<lparr>clist := [mk_commodity (ipv4 [10, 0, 0, 1]) 2 2 7 (sample_queue 1 2)]\<rparr>,
    rs_verdicts := [(Some 7, 1, NF_ACCEPT)]\<rparr>"
  have 5: "run_step sample_run ?s4 Release ?s5"
    using run_step.release[of ?s4 _ _ sample_run, simplified, OF sample_release] by (simp add: assms(5))
  from run.step[OF run.step[OF run.step[OF run.step[OF run.step[OF run.start 1] 2] 3] 4] 5] show ?thesis by fastforce
qed

lemma sample_whole_run:
  obtains s0 s where "comes_up sample_sock_env sample_init_env [] sample_opts () sample_threads sample_run hello_sample_st sample_hw 0
      \<lparr>calls = 0, live = 0\<rparr> = Inr (Some s0)" and "clist (rs_bprd s0) = clist sample_up"
    and "run sample_run s0 [Arrive 0, Arrive 0, Hear sample_hello (length sample_hello), Route, Release] s"
    and "rs_verdicts s = [(Some 7, 1, NF_ACCEPT)]" and "clist (rs_bprd s) = [mk_commodity (ipv4 [10, 0, 0, 1]) 2 2 7 (sample_queue 1 2)]"
  using sample_comes_up sample_steps by metis

section \<open>Properties\<close>

text \<open>C6: However the activities of a daemon that has come up interleave, whatever it receives and whatever
  uninitialised memory holds, as long as it runs: the neighbor table keeps one entry per neighbor address other
  than those of 16 zero bytes (what the failing conversion of a too short originator leaves behind) and one
  commodity per destination in each entry; of the shared state only the sequence
  number, the neighbor table and the commodities change, and of these neither destination nor queue number nor
  netfilter queue; and the reader holds no more memory than at the start.\<close>

theorem runs_keep_state:
  assumes "comes_up se ie pre os mu te env hs hw k m = Inr (Some s0)" and "pton_sizes (ie_pton ie)"
    and "run env s0 es s"
  shows "nlist_ok (nlist (ntable (rs_bprd s))) \<and> live (rs_mem s) = live (rs_mem s0) \<and>
    (\<exists>sq l t. rs_bprd s = (rs_bprd s0)\<lparr>hello_seqno := sq, clist := l, ntable := t\<rparr> \<and>
       map identity l = map identity (clist (rs_bprd s0)))"
proof -
  note c = comes_up_state[OF assms(1,2)]
  have "run_inv env s0 s"
    by (rule run_keeps_inv[OF assms(3)]) (simp_all add: c hello_reader_init_ok)
  then show ?thesis by (auto simp: run_inv_def changes_def)
qed

theorem runs_keep_state_witness:
  "\<exists>s0 s. comes_up sample_sock_env sample_init_env [] sample_opts () sample_threads sample_run hello_sample_st sample_hw 0
      \<lparr>calls = 0, live = 0\<rparr> = Inr (Some s0) \<and>
    run sample_run s0 [Arrive 0, Arrive 0, Hear sample_hello (length sample_hello), Route, Release] s \<and>
    nlist_ok (nlist (ntable (rs_bprd s))) \<and> live (rs_mem s) = live (rs_mem s0)"
proof (rule sample_whole_run)
  fix s0 s
  assume c: "comes_up sample_sock_env sample_init_env [] sample_opts () sample_threads sample_run hello_sample_st sample_hw 0
      \<lparr>calls = 0, live = 0\<rparr> = Inr (Some s0)"
    and r: "run sample_run s0 [Arrive 0, Arrive 0, Hear sample_hello (length sample_hello), Route, Release] s"
  from runs_keep_state[OF c sample_init_sizes r] c r show ?thesis by blast
qed

text \<open>C5: However the activities of a daemon interleave, each packet that netfilter hands over is released at most
  once and in the order of arrival: as long as fewer than \<open>2 ^ 32\<close> packets have come for each commodity, the accepting
  verdicts given on its queue, followed by those for the packets that still wait, are those for
  \<open>1, 2, \<dots>, n\<close> where \<open>n\<close> is the number of packets that have come. The commodities must have different
  netfilter queues.\<close>

theorem packets_stay_in_order:
  assumes "comes_up se ie pre os mu te env hs hw k m = Inr (Some s0)" and "pton_sizes (ie_pton ie)"
    and "distinct (handles (clist (rs_bprd s0)))"
    and "run env s0 es s" and "\<forall>i. count_list es (Arrive i) < 2 ^ 32" and "i < length (clist (rs_bprd s))"
  shows "\<exists>q. queue (clist (rs_bprd s) ! i) = Some q \<and>
    verdicts_of (qh q) (rs_verdicts s) @ map (\<lambda>k. (qh q, of_nat k, NF_ACCEPT)) (fifo_pending (Some q)) =
      map (\<lambda>k. (qh q, of_nat k, NF_ACCEPT)) [1..<Suc (count_list es (Arrive i))]"
proof -
  note c = comes_up_state[OF assms(1,2)]
  have "ordered (rs_verdicts s) es (clist (rs_bprd s))"
    by (rule run_ordered[OF assms(4) _ assms(3,5)]) (simp_all add: c hello_reader_init_ok)
  then have "in_order (rs_verdicts s) (count_list es (Arrive i)) (queue (clist (rs_bprd s) ! i))"
    using assms(6) by (simp add: ordered_def)
  then show ?thesis by (cases "queue (clist (rs_bprd s) ! i)") (simp_all add: in_order_def fifo_calls_def)
qed

theorem packets_stay_in_order_witness:
  "\<exists>s0 s. comes_up sample_sock_env sample_init_env [] sample_opts () sample_threads sample_run hello_sample_st sample_hw 0
      \<lparr>calls = 0, live = 0\<rparr> = Inr (Some s0) \<and>
    run sample_run s0 [Arrive 0, Arrive 0, Hear sample_hello (length sample_hello), Route, Release] s \<and>
    rs_verdicts s = [(Some 7, 1, NF_ACCEPT)] \<and>
    (\<exists>q. queue (clist (rs_bprd s) ! 0) = Some q \<and>
      verdicts_of (qh q) (rs_verdicts s) @ map (\<lambda>k. (qh q, of_nat k, NF_ACCEPT)) (fifo_pending (Some q)) =
        [(qh q, 1, NF_ACCEPT), (qh q, 2, NF_ACCEPT)])"
proof (rule sample_whole_run)
  fix s0 s
  assume c: "comes_up sample_sock_env sample_init_env [] sample_opts () sample_threads sample_run hello_sample_st sample_hw 0
      \<lparr>calls = 0, live = 0\<rparr> = Inr (Some s0)" and l: "clist (rs_bprd s0) = clist sample_up"
    and r: "run sample_run s0 [Arrive 0, Arrive 0, Hear sample_hello (length sample_hello), Route, Release] s"
    and v: "rs_verdicts s = [(Some 7, 1, NF_ACCEPT)]" and e: "clist (rs_bprd s) = [mk_commodity (ipv4 [10, 0, 0, 1]) 2 2 7 (sample_queue 1 2)]"
  have d: "distinct (handles (clist (rs_bprd s0)))" by (simp add: l sample_up_def handles_def)
  have i: "0 < length (clist (rs_bprd s))" by (simp add: e)
  have "\<forall>i. count_list [Arrive 0, Arrive 0, Hear sample_hello (length sample_hello), Route, Release] (Arrive i) < 2 ^ 32" by simp
  from packets_stay_in_order[OF c sample_init_sizes d r this i] c r v
  show ?thesis by (auto simp: upt_conv_Cons)
qed

end
