(* ===== verification/Util.thy ===== *)
theory Util
  imports NetaddrText Autobuf
begin

text \<open>
  The helpers of \<open>src/util.c\<close> for hardware and host addresses, and \<open>netaddr_to_autobuf\<close> of
  \<open>lib/common/netaddr.c\<close>.
\<close>

section \<open>Hardware addresses as text\<close>

definition ETH_ALEN :: nat where "ETH_ALEN = 6"

text \<open>\<open>%02x\<close> of an octet.\<close>

definition hex2 :: "u8 \<Rightarrow> string" where
  "hex2 b = [hex_char (unat (drop_bit 4 b)), hex_char (unat (b AND 15))]"

definition mac_addr_n2a :: "bytes \<Rightarrow> halt + string" where
  "mac_addr_n2a arg =
     (if length arg < ETH_ALEN then Inl OutOfBounds
      else Inr (concat (map (\<lambda>i. if i = 0 then hex2 (arg ! i) else CHR '':'' # hex2 (arg ! i)) [0..<ETH_ALEN])))"

text \<open>\<open>sscanf(s, "%x", &temp)\<close> for an \<open>int\<close>: white space, a sign, \<open>0x\<close>, digits, which the C library reads with
  \<open>strtoul\<close> and stores cut to 32 bits. \<open>None\<close> are the results other than 1.\<close>

definition sscanf_hex :: "string \<Rightarrow> int option" where
  "sscanf_hex s =
     (let s = dropWhile isspace s;
          neg = (s \<noteq> [] \<and> hd s = CHR ''-'');
          s = (if s \<noteq> [] \<and> hd s \<in> {CHR ''-'', CHR ''+''} then tl s else s);
          s = (if take 2 s \<in> {''0x'', ''0X''} then drop 2 s else s);
          ds = takeWhile (\<lambda>c. read_hexdigit c \<noteq> -1) s;
          v = foldl (\<lambda>v c. v * 16 + read_hexdigit c) 0 ds;
          v = (if v < 2 ^ 64 then if neg then - v else v else 2 ^ 64 - 1)
      in if ds = [] then None else Some (sint (word_of_int v :: u32)))"

text \<open>The loop with the number of octets that are still to come. The second result is the address as far as it has
  been written, the third the argument, in which colons have been overwritten.\<close>

fun mac_addr_loop :: "nat \<Rightarrow> string \<Rightarrow> bytes \<Rightarrow> int \<times> bytes \<times> string" where
  "mac_addr_loop 0 arg mac_addr = (0, mac_addr, arg)"
| "mac_addr_loop (Suc n) arg mac_addr =
     (let piece = takeWhile (\<lambda>c. c \<noteq> CHR '':'') arg; cp = dropWhile (\<lambda>c. c \<noteq> CHR '':'') arg;
          cut = (\<lambda>rest. if cp = [] then piece else piece @ NUL # rest)
      in case sscanf_hex piece of
           None \<Rightarrow> (-1, mac_addr, cut (tl cp))
         | Some temp \<Rightarrow>
             if temp < 0 \<or> 255 < temp then (-1, mac_addr, cut (tl cp))
             else
               let mac_addr = mac_addr[ETH_ALEN - Suc n := word_of_int temp]
               in if cp = [] then (if 0 < n then -1 else 0, mac_addr, cut [])
                  else let (r, mac_addr, rest) = mac_addr_loop n (tl cp) mac_addr in (r, mac_addr, cut rest))"

definition mac_addr_a2n :: "bytes \<Rightarrow> string \<Rightarrow> int \<times> bytes \<times> string" where
  "mac_addr_a2n mac_addr arg = mac_addr_loop ETH_ALEN arg mac_addr"

section \<open>Host addresses as text\<close>

text \<open>\<open>gni\<close> is \<open>getnameinfo\<close> with the two numeric flags; \<open>host\<close> is \<open>None\<close> for the null pointer.\<close>

definition EAI_FAIL :: int where "EAI_FAIL = -4"

definition addr2str :: "(bytes \<Rightarrow> nat \<Rightarrow> nat \<Rightarrow> int \<times> string) \<Rightarrow> u16 \<Rightarrow> bytes \<Rightarrow> string option \<Rightarrow> nat \<Rightarrow> int \<times> string option" where
  "addr2str gni family saddr host hostlen =
     (case host of
        None \<Rightarrow> (- EAI_FAIL, None)
      | Some _ \<Rightarrow>
          if family = 2 then map_prod id Some (gni saddr 16 hostlen)
          else if family = 10 then map_prod id Some (gni saddr 28 hostlen)
          else (0, Some []))"

section \<open>Addresses in a buffer\<close>

definition netaddr_to_autobuf :: "(nat \<Rightarrow> bool) \<Rightarrow> netaddr \<Rightarrow> autobuf \<times> mem \<Rightarrow> halt + int \<times> autobuf \<times> mem" where
  "netaddr_to_autobuf alloc src s =
     (if na_type src = AF_INET then abuf_memcpy alloc (take 4 (na_addr src)) s
      else if na_type src = AF_INET6 then abuf_memcpy alloc (take 16 (na_addr src)) s
      else if na_type src = AF_MAC48 then abuf_memcpy alloc (take 6 (na_addr src)) s
      else if na_type src = AF_EUI64 then abuf_memcpy alloc (take 8 (na_addr src)) s
      else Inr (-1, s))"

section \<open>Round trip\<close>

lemma hex_char_class:
  "n < 16 \<Longrightarrow> \<not> isspace (hex_char n) \<and> hex_char n \<notin> {CHR ''-'', CHR ''+'', CHR ''x'', CHR ''X'', CHR '':''}"
proof -
  have "\<forall>n\<in>set [0..<16]. \<not> isspace (hex_char n) \<and> hex_char n \<notin> {CHR ''-'', CHR ''+'', CHR ''x'', CHR ''X'', CHR '':''}"
    by code_simp
  then show "n < 16 \<Longrightarrow> \<not> isspace (hex_char n) \<and> hex_char n \<notin> {CHR ''-'', CHR ''+'', CHR ''x'', CHR ''X'', CHR '':''}" by simp
qed

lemma hex2_nibbles: "hex2 b = [hex_char (hi4 b), hex_char (lo4 b)]"
  by (simp add: hex2_def hi4_def lo4_def)

lemma sint_small: "0 \<le> v \<Longrightarrow> v < 256 \<Longrightarrow> sint (word_of_int v :: u32) = v"
  by (subst sint_sbintrunc') (simp add: signed_take_bit_int_eq_self)

lemma sscanf_hex2: "sscanf_hex (hex2 b) = Some (uint b)"
proof -
  note h = hex_char_class[OF nibbles_less(1)[of b]] hex_char_class[OF nibbles_less(2)[of b]]
  note r = read_hexdigit_hex_char[OF nibbles_less(1)[of b]] read_hexdigit_hex_char[OF nibbles_less(2)[of b]]
  let ?v = "int (hi4 b) * 16 + int (lo4 b)"
  have "hi4 b * 16 + lo4 b = unat b" by (simp add: hi4_eq lo4_eq)
  then have v: "?v = uint b" by (metis of_nat_add of_nat_mult of_nat_numeral uint_nat)
  have u: "uint b < 256" using uint_lt2p[of b] by simp
  have "sscanf_hex (hex2 b) = Some (sint (word_of_int ?v :: u32))"
    using h r v u by (simp add: sscanf_hex_def hex2_nibbles Let_def)
  also have "\<dots> = Some (uint b)" unfolding v using u sint_small[of "uint b"] by simp
  finally show ?thesis .
qed

lemma mac_addr_loop_step:
  "mac_addr_loop (Suc n) (hex2 b @ CHR '':'' # rest) m =
     (let (r, m, rest) = mac_addr_loop n rest (m[ETH_ALEN - Suc n := b]) in (r, m, hex2 b @ NUL # rest))"
  "mac_addr_loop (Suc n) (hex2 b) m = (if 0 < n then -1 else 0, m[ETH_ALEN - Suc n := b], hex2 b)"
proof -
  have c: "\<forall>c\<in>set (hex2 b). c \<noteq> CHR '':''"
    using hex_char_class[OF nibbles_less(1)[of b]] hex_char_class[OF nibbles_less(2)[of b]] by (simp add: hex2_nibbles)
  have u: "uint b \<le> 255" using uint_lt2p[of b] by simp
  have t: "takeWhile (\<lambda>c. c \<noteq> CHR '':'') (hex2 b @ CHR '':'' # rest) = hex2 b"
    "dropWhile (\<lambda>c. c \<noteq> CHR '':'') (hex2 b @ CHR '':'' # rest) = CHR '':'' # rest"
    "takeWhile (\<lambda>c. c \<noteq> CHR '':'') (hex2 b) = hex2 b" "dropWhile (\<lambda>c. c \<noteq> CHR '':'') (hex2 b) = []"
    using c by (simp_all add: takeWhile_append2 dropWhile_append2)
  show "mac_addr_loop (Suc n) (hex2 b @ CHR '':'' # rest) m =
     (let (r, m, rest) = mac_addr_loop n rest (m[ETH_ALEN - Suc n := b]) in (r, m, hex2 b @ NUL # rest))"
    using u by (simp add: t sscanf_hex2 Let_def)
  show "mac_addr_loop (Suc n) (hex2 b) m = (if 0 < n then -1 else 0, m[ETH_ALEN - Suc n := b], hex2 b)"
    using u by (simp add: t sscanf_hex2 Let_def)
qed

text \<open>Reading what was printed gives the address back.\<close>

lemma mac_addr_roundtrip:
  assumes "length b = 6" and "length m = 6"
  shows "\<exists>txt arg. mac_addr_n2a b = Inr txt \<and> mac_addr_a2n m txt = (0, b, arg)"
proof -
  obtain b0 b1 b2 b3 b4 b5 where b: "b = [b0, b1, b2, b3, b4, b5]"
    using assms(1) by (auto simp: numeral_eq_Suc length_Suc_conv)
  obtain m0 m1 m2 m3 m4 m5 where m: "m = [m0, m1, m2, m3, m4, m5]"
    using assms(2) by (auto simp: numeral_eq_Suc length_Suc_conv)
  let ?c = "CHR '':''"
  let ?t = "hex2 b0 @ ?c # hex2 b1 @ ?c # hex2 b2 @ ?c # hex2 b3 @ ?c # hex2 b4 @ ?c # hex2 b5"
  have "mac_addr_n2a b = Inr ?t" by (simp add: b mac_addr_n2a_def ETH_ALEN_def upt_conv_Cons)
  moreover have "fst (mac_addr_a2n m ?t) = 0 \<and> fst (snd (mac_addr_a2n m ?t)) = b"
    unfolding mac_addr_a2n_def ETH_ALEN_def numeral_eq_Suc pred_numeral_simps BitM.simps
    by (simp add: mac_addr_loop_step m b ETH_ALEN_def Let_def case_prod_beta del: mac_addr_loop.simps)
  ultimately show ?thesis by (metis prod.collapse)
qed

text \<open>A buffer gets the octets of the address.\<close>

lemma netaddr_to_autobuf_appends:
  assumes "abuf_wf b" and "room 16 b" and "na_type a \<in> {AF_INET, AF_INET6, AF_MAC48, AF_EUI64}"
  shows "\<exists>n \<in> {4, 6, 8, 16}. appends alloc (take n (na_addr a)) (b, m) (netaddr_to_autobuf alloc a (b, m))"
proof -
  have "n \<in> {4, 6, 8, 16} \<Longrightarrow> room (length (take n (na_addr a))) b" for n
    using assms(2) by (auto simp: room_def)
  then show ?thesis using assms(3) abuf_memcpy_appends[OF assms(1)]
    by (auto simp: netaddr_to_autobuf_def)
qed

end
