(* ===== verification/Console.thy ===== *)
theory Console
  imports DaemonInit Util
begin

text \<open>
  What the daemon offers and prints on its console: the option tables and the usage text of \<open>src/bprd.c\<close>, and
  \<open>ntable_print\<close> of \<open>src/ntable.c\<close>, \<open>print_addrs\<close> and \<open>print_args\<close> of \<open>src/util.c\<close> as the text they print.
  \<open>asctime(localtime(..))\<close>, \<open>getifaddrs\<close> and \<open>getnameinfo\<close> are parameters.
\<close>

section \<open>Options\<close>

text \<open>The name of an option, whether it takes an argument, and its character.\<close>

definition pre_options :: "(string \<times> bool \<times> char) list" where
  "pre_options = [(''config'', True, CHR ''c''), (''help'', False, CHR ''h'')]"

definition long_options :: "(string \<times> bool \<times> char) list" where
  "long_options =
     [(''v4'', False, CHR ''4''), (''v6'', False, CHR ''6''), (''commodity'', True, CHR ''r''), (''config'', True, CHR ''c''),
      (''daemon'', False, CHR ''d''), (''help'', False, CHR ''h''), (''interface'', True, CHR ''i''), (''pidfile'', True, CHR ''p''),
      (''hello_interval'', True, CHR ''s''), (''release_interval'', True, CHR ''t''), (''update_interval'', True, CHR ''u'')]"

definition usage_lines :: "(string \<times> string) list" where
  "usage_lines =
     [(''  -4, --v4                  '', ''run the protocol using IPv4 (default)''),
      (''  -6, --v6                  '', ''run the protocol using IPv6''),
      (''  -r, --commodity='' @ [CHR 0x22] @ ''ADDR,ID'' @ [CHR 0x22] @ ''     '', ''define a commodity via command-line''),
      (''  -c, --config=FILE         '', ''read configuration parameters from FILE''),
      (''  -d, --daemon              '', ''run the program as a daemon''),
      (''  -h, --help                '', ''print this help message''),
      (''  -i, --interface=IFACE     '', ''run the protocol over interface IFACE (default is eth0)''),
      (''  -p, --pidfile=FILE        '', ''set pid file to FILE (default is /var/run/bprd.pid)''),
      (''  -s, --hello_interval=MS   '', ''set rate to MS (mseconds)''),
      (''  -t, --release_interval=MS '', ''set rate to MS (mseconds)''),
      (''  -u, --update_interval=MS  '', ''set rate to MS (mseconds)'')]"

abbreviation tab :: string where "tab \<equiv> [CHR 0x09]"

definition usage :: "string \<Rightarrow> string" where
  "usage program =
     ''Usage:'' @ tab @ program @ '' [OPTION]...'' @ newline @
     ''Start the backpressure routing protocol with OPTIONs.'' @ newline @ newline @
     ''Mandatory arguments to long options are mandatory for short options too.'' @ newline @
     concat (map (\<lambda>(opt, help). opt @ tab @ help @ newline) usage_lines)"

text \<open>What \<open>getopt_long_only\<close> returns for an option of a table.\<close>

definition offered :: "(string \<times> bool \<times> char) list \<Rightarrow> char \<times> string option \<Rightarrow> bool" where
  "offered options op \<longleftrightarrow> (\<exists>(name, required, val)\<in>set options. fst op = val \<and> (required \<longrightarrow> snd op \<noteq> None))"

text \<open>Every option of the table is handled: only the text of a commodity can end the program.\<close>

lemma main_option_total:
  assumes "offered long_options op"
  shows "(\<exists>s'. main_option env op s = Inr s') \<or> fst op = CHR ''r''"
proof -
  obtain c optarg d m where s: "op = (c, optarg)" "s = (d, m)" by (cases op; cases s) blast
  from assms show ?thesis unfolding s
    by (auto simp: offered_def long_options_def main_option_def interval_arg_def deref_def)
qed

text \<open>The usage text names exactly the options of the table, in its order.\<close>

lemma usage_lists_options:
  "map (\<lambda>(name, _, c). ''  -'' @ [c] @ '', --'' @ name) long_options =
   map (\<lambda>((name, _, _), (opt, _)). take (8 + length name) opt) (zip long_options usage_lines)"
  by (simp add: long_options_def usage_lines_def)

section \<open>The neighbor table\<close>

definition commodity_text :: "inet_ntop \<Rightarrow> commodity \<Rightarrow> string" where
  "commodity_text ntop c =
     tab @ tab @ ''Dest: '' @ fmt_str (netaddr_to_string ntop (cs_addr (cdata c))) @ '' '' @ tab @ '' Backlog: '' @
     show_nat (unat (cs_backlog (cdata c))) @ '' '' @ tab @ '' Differential: '' @ show_nat (unat (backdiff c)) @ newline"

definition neighbor_text :: "inet_ntop \<Rightarrow> (int \<Rightarrow> string) \<Rightarrow> neighbor \<Rightarrow> string" where
  "neighbor_text ntop asctime n =
     tab @ ''Address: '' @ fmt_str (netaddr_to_string ntop (n_addr n)) @ newline @
     tab @ ''Bidir: '' @ show_nat (unat (bidir n)) @ newline @
     tab @ ''Update Time: '' @ asctime (tv_sec (update_time n)) @
     tab @ ''Commodities:'' @ (if n_clist n = [] then '' NONE'' @ newline else newline) @
     concat (map (commodity_text ntop) (n_clist n)) @ newline"

definition ntable_print :: "inet_ntop \<Rightarrow> (int \<Rightarrow> string) \<Rightarrow> int \<Rightarrow> 'm neighbortable \<Rightarrow> string" where
  "ntable_print ntop asctime now nt =
     ''Neighbor Table, Current Time: '' @ asctime now @ newline @
     (if nlist nt = [] then tab @ ''NONE'' @ newline else []) @
     concat (map (neighbor_text ntop asctime) (nlist nt))"

text \<open>A neighbor is printed as it is in every table that holds it.\<close>

lemma ntable_print_append:
  assumes "xs \<noteq> []"
  shows "ntable_print ntop asctime now (t\<lparr>nlist := xs @ ys\<rparr>) =
    ntable_print ntop asctime now (t\<lparr>nlist := xs\<rparr>) @ concat (map (neighbor_text ntop asctime) ys)"
  using assms by (simp add: ntable_print_def)

section \<open>Interfaces and arguments\<close>

text \<open>An entry of \<open>getifaddrs\<close>; the broadcast and the destination address share one field.\<close>

record ifaddr =
  ifa_name :: "string option"
  ifa_flags :: u32
  ifa_addr :: "bytes option"
  ifa_netmask :: "bytes option"
  ifa_ifu :: "bytes option"
  ifa_data :: bool

definition flag_texts :: "(u32 \<times> string) list" where
  "flag_texts = [(1, ''UP ''), (2, ''BCAST ''), (4, ''DBG ''), (8, ''LOOP ''), (16, ''PTP ''), (4096, ''MCAST '')]"

definition family_text :: "u16 \<Rightarrow> string" where
  "family_text family =
     (if family = 17 then '' (AF_PACKET)'' else if family = 2 then '' (AF_INET)''
      else if family = 10 then '' (AF_INET6)'' else '' (other)'')"

text \<open>\<open>getnameinfo\<close> gives its result and what the buffer holds after the call.\<close>

definition addr_line :: "(bytes \<Rightarrow> nat \<Rightarrow> nat \<Rightarrow> int \<times> string) \<Rightarrow> string \<Rightarrow> bytes \<Rightarrow> halt + string" where
  "addr_line gni label a =
     (if length a < 2 then Inl OutOfBounds
      else Inr (tab @ label @ fmt_str (snd (addr2str gni (mk16 (a ! 1) (a ! 0)) a (Some []) 1025)) @ newline))"

definition opt_addr_line :: "(bytes \<Rightarrow> nat \<Rightarrow> nat \<Rightarrow> int \<times> string) \<Rightarrow> string \<Rightarrow> bytes option \<Rightarrow> halt + string" where
  "opt_addr_line gni label a = (case a of None \<Rightarrow> Inr [] | Some a \<Rightarrow> addr_line gni label a)"

text \<open>An IPv4 address is stored as the daemon's own address, without a test of the allocation.\<close>

definition store_saddr :: "(nat \<Rightarrow> bool) \<Rightarrow> bytes \<Rightarrow> 'm bprd \<times> mem \<Rightarrow> halt + 'm bprd \<times> mem" where
  "store_saddr alloc a s =
     (case mem_alloc alloc (snd s) of
        (False, m) \<Rightarrow> Inl NullDeref
      | (True, m) \<Rightarrow> if length a < 16 then Inl OutOfBounds else Inr ((fst s)\<lparr>saddr := take 16 a, saddrlen := 16\<rparr>, m))"

definition print_ifaddr ::
  "(bytes \<Rightarrow> nat \<Rightarrow> nat \<Rightarrow> int \<times> string) \<Rightarrow> (nat \<Rightarrow> bool) \<Rightarrow> ifaddr \<Rightarrow> 'm bprd \<times> mem \<Rightarrow> halt + string \<times> 'm bprd \<times> mem" where
  "print_ifaddr gni alloc i s =
     rbind (deref (ifa_addr i)) (\<lambda>a.
     if length a < 2 then Inl OutOfBounds
     else
       let family = mk16 (a ! 1) (a ! 0) :: u16
       in rbind (if family = 2 \<or> family = 10 then addr_line gni ''address: '' a else Inr []) (\<lambda>address.
          rbind (if family = 2 then store_saddr alloc a s else Inr s) (\<lambda>s.
          rbind (opt_addr_line gni ''netmask: '' (ifa_netmask i)) (\<lambda>netmask.
          rbind (if ifa_flags i AND 2 \<noteq> 0 \<and> ifa_ifu i \<noteq> None then opt_addr_line gni ''broadcast: '' (ifa_ifu i)
                 else if ifa_flags i AND 16 \<noteq> 0 \<and> ifa_ifu i \<noteq> None then opt_addr_line gni ''ptp dest: '' (ifa_ifu i)
                 else Inr []) (\<lambda>peer.
          Inr (fmt_str (ifa_name i) @ '': '' @ ''<'' @
                 concat (map (\<lambda>(flag, line). if ifa_flags i AND flag \<noteq> 0 then line else []) flag_texts) @ ''>'' @ newline @
                 tab @ ''family: '' @ show_nat (unat family) @ family_text family @ newline @ address @ netmask @ peer @
                 (if ifa_data i then tab @ ''...has ida_data!'' @ newline else []), s))))))"

primrec print_ifaddrs ::
  "(bytes \<Rightarrow> nat \<Rightarrow> nat \<Rightarrow> int \<times> string) \<Rightarrow> (nat \<Rightarrow> bool) \<Rightarrow> string \<Rightarrow> ifaddr list \<Rightarrow> 'm bprd \<times> mem \<Rightarrow>
   halt + string \<times> 'm bprd \<times> mem" where
  "print_ifaddrs gni alloc if_name [] s = Inr ([], s)"
| "print_ifaddrs gni alloc if_name (i # ifs) s =
     (if ifa_name i \<noteq> Some if_name then print_ifaddrs gni alloc if_name ifs s
      else
        rbind (print_ifaddr gni alloc i s) (\<lambda>(line, s).
        rbind (print_ifaddrs gni alloc if_name ifs s) (\<lambda>(more, s). Inr (line @ more, s))))"

text \<open>When \<open>getifaddrs\<close> fails its result is read all the same: an uninitialised pointer.\<close>

definition print_addrs ::
  "(bytes \<Rightarrow> nat \<Rightarrow> nat \<Rightarrow> int \<times> string) \<Rightarrow> (nat \<Rightarrow> bool) \<Rightarrow> string \<Rightarrow> ifaddr list option \<Rightarrow> 'm bprd \<times> mem \<Rightarrow>
   halt + string \<times> 'm bprd \<times> mem" where
  "print_addrs gni alloc if_name iflist s =
     (case iflist of
        None \<Rightarrow> Inl OutOfBounds
      | Some ifs \<Rightarrow>
          rbind (print_ifaddrs gni alloc if_name ifs s) (\<lambda>(line, s). Inr (''interfaces: '' @ newline @ line, s)))"

definition print_args :: "string list \<Rightarrow> string" where
  "print_args argv = ''Args:'' @ newline @ concat (map (\<lambda>a. tab @ a @ newline) argv)"

text \<open>The address that \<open>print_addrs\<close> leaves is the last IPv4 address of the interface; \<open>create_primary\<close> takes the
  first one. Nothing else of the daemon's state changes.\<close>

definition ipv4_of :: "string \<Rightarrow> ifaddr \<Rightarrow> bool" where
  "ipv4_of if_name i \<longleftrightarrow> ifa_name i = Some if_name \<and>
     (case ifa_addr i of None \<Rightarrow> False | Some a \<Rightarrow> 2 \<le> length a \<and> mk16 (a ! 1) (a ! 0) = (2 :: u16))"

definition keep_saddr :: "ifaddr list \<Rightarrow> 'm bprd \<Rightarrow> 'm bprd" where
  "keep_saddr ifs b = (if ifs = [] then b else b\<lparr>saddr := take 16 (the (ifa_addr (last ifs))), saddrlen := 16\<rparr>)"

lemma print_ifaddr_saddr:
  assumes "print_ifaddr gni alloc i s = Inr (line, s')" and "ifa_name i = Some if_name"
  shows "fst s' = keep_saddr (filter (ipv4_of if_name) [i]) (fst s)"
proof -
  obtain a where a: "ifa_addr i = Some a" using assms(1) by (auto simp: print_ifaddr_def deref_def split: option.splits)
  with assms show ?thesis
    by (auto simp: print_ifaddr_def deref_def rbind_Inr_iff Let_def store_saddr_def keep_saddr_def ipv4_of_def
        split: if_splits prod.splits bool.splits)
qed

lemma print_ifaddrs_saddr:
  assumes "print_ifaddrs gni alloc if_name ifs s = Inr (line, s')"
  shows "fst s' = keep_saddr (filter (ipv4_of if_name) ifs) (fst s)"
  using assms
proof (induction ifs arbitrary: s line)
  case (Cons i ifs)
  show ?case
  proof (cases "ifa_name i = Some if_name")
    case True
    with Cons.prems obtain t s1 t' where p: "print_ifaddr gni alloc i s = Inr (t, s1)"
      "print_ifaddrs gni alloc if_name ifs s1 = Inr (t', s')"
      by (auto simp: rbind_Inr_iff)
    from Cons.IH[OF p(2)] print_ifaddr_saddr[OF p(1) True] show ?thesis by (auto simp: keep_saddr_def)
  next
    case False
    with Cons show ?thesis by (simp add: ipv4_of_def)
  qed
qed (simp add: keep_saddr_def)

end
