(* ===== verification/Daemonize.thy ===== *)
theory Daemonize
  imports HelloWire
begin

text \<open>
  \<open>lib/common/daemonize.c\<close>: going into the background while the first process waits for the exit code that the
  daemon reports through a pipe. The daemon itself uses \<open>src/daemonizer.c\<close> instead. A call of
  \<open>daemonize_prepare\<close> is seen by up to three processes; the results of \<open>fork\<close> say which one. The pipe is the
  bytes that wait in it.
\<close>

datatype ending = Returns int | Exits u32 | Blocks

record dz_env =
  dz_pipe_fails :: bool
  dz_fork :: "nat \<Rightarrow> int"
  dz_write_end :: int

text \<open>A read from a pipe: the end of file is seen only when no process holds the write end.\<close>

definition pipe_read :: "nat \<Rightarrow> nat \<Rightarrow> bytes \<Rightarrow> (bytes \<times> bytes) option" where
  "pipe_read n writers buf =
     (if buf \<noteq> [] then Some (take n buf, drop n buf) else if writers = 0 then Some ([], []) else None)"

text \<open>While the parent reads it has the write end open itself; \<open>others\<close> are the other processes that have.\<close>

definition daemonize_prepare :: "dz_env \<Rightarrow> nat \<Rightarrow> bytes \<Rightarrow> ending \<times> bytes" where
  "daemonize_prepare env others buf =
     (if dz_pipe_fails env then (Returns (-1), buf)
      else if dz_fork env 0 = -1 then (Returns (-1), buf)
      else if dz_fork env 0 \<noteq> 0
      then case pipe_read 4 (Suc others) buf of
             None \<Rightarrow> (Blocks, buf)
           | Some (rd, buf) \<Rightarrow> (Exits (if length rd = 4 then le32 rd else -1), buf)
      else if dz_fork env 1 = -1 then (Exits 0, buf @ to_le32 (-1))
      else if dz_fork env 1 \<noteq> 0 then (Exits 0, buf)
      else (Returns (dz_write_end env), buf))"

definition daemonize_finish :: "(int \<Rightarrow> bool) \<Rightarrow> int \<Rightarrow> u32 \<Rightarrow> bytes \<Rightarrow> nat list \<Rightarrow> bytes \<times> nat list" where
  "daemonize_finish is_pipe pipe_fd exit_code buf fds =
     (if pipe_fd = 0 then (buf, fds)
      else (if is_pipe pipe_fd then buf @ to_le32 exit_code else buf, filter (\<lambda>fd. 2 < fd) fds))"

lemma to_le32_not_Nil [simp]: "to_le32 w \<noteq> []"
  using length_to_le32[of w] by (metis list.size(3) zero_neq_numeral)

text \<open>The exit code that the daemon reports is the one the first process ends with; a failing second \<open>fork\<close> is
  reported as -1.\<close>

lemma daemonize_handshake:
  assumes "daemonize_prepare daemon k [] = (Returns fd, b)" and "0 < fd" and "is_pipe fd"
    and "\<not> dz_pipe_fails parent" and "0 < dz_fork parent 0"
  shows "daemonize_prepare parent others (fst (daemonize_finish is_pipe fd code b fds)) = (Exits code, [])"
proof -
  have "b = []" using assms(1,2) by (auto simp: daemonize_prepare_def split: if_splits option.splits)
  with assms(2-5) show ?thesis by (simp add: daemonize_finish_def daemonize_prepare_def pipe_read_def)
qed

lemma daemonize_second_fork_fails:
  assumes "\<not> dz_pipe_fails child" and "dz_fork child 0 = 0" and "dz_fork child 1 = -1"
    and "\<not> dz_pipe_fails parent" and "0 < dz_fork parent 0"
  shows "daemonize_prepare parent others (snd (daemonize_prepare child k [])) = (Exits (-1), [])"
  using assms by (simp add: daemonize_prepare_def pipe_read_def)

text \<open>When the daemon ends without a report the first process waits forever: it never sees the end of the file,
  because it has not closed its own write end.\<close>

lemma daemonize_parent_waits:
  "\<not> dz_pipe_fails parent \<Longrightarrow> 0 < dz_fork parent 0 \<Longrightarrow> daemonize_prepare parent others [] = (Blocks, [])"
  by (simp add: daemonize_prepare_def pipe_read_def)

end
