(* ===== verification/Spec2Isabelle.thy ===== *)
theory Spec2Isabelle
  imports Prelude Netaddr CString NetaddrText SimpleList FifoQueue Commodity Ntable DaemonState
    Backlogger Procfile Router PbbContext PbbParse PbbReader ReaderClient ReaderGuarantees HelloWire HelloReader
    HelloMessage AvlContainer AvlLoops TlvWriter PbbWriter PktGenerator MsgGenerator HelloWriter HelloSend HelloParse
    HelloLink HelloPressure ShortHello LinkedList Config Process DaemonInit DaemonStart Autobuf AbufTemplate WriterFrame DaemonRun
    Util Console Daemonize
begin

text \<open>
  A verification development for \<open>bprd\<close>, the BackPressure Routing Daemon. File names are relative to \<open>src/\<close>; the
  daemon is in \<open>src/src\<close>, its libraries are in \<open>src/lib/common\<close> and \<open>src/lib/packetbb\<close>.

  \<^bold>\<open>The program.\<close> Every host runs one daemon. A \<^emph>\<open>commodity\<close> is a destination address with a netfilter queue, in
  which the kernel holds the packets for it. The daemons tell each other the lengths of their queues in hello
  messages, in the packet format PacketBB. Periodically a daemon computes for each commodity the neighbor with the
  largest difference between its own queue and the neighbor's (the back pressure) and installs a route through it;
  and periodically it releases a packet of the commodity with the largest difference. \<open>main\<close> sets up one state
  \<open>bprd\<close> (\<open>bprd.h\<close>) and then runs five activities on it: the hello reader and the hello writer, the router, the
  receive loop of the backlogger, and the release loop.

  \<^bold>\<open>Theories and code.\<close>
  \<^item> \<open>Prelude\<close>: machine integers, byte strings, memory blocks, \<open>rbind\<close> for steps that can end the run, and the contract
    of comparison functions.
  \<^item> The state of the daemon: \<open>SimpleList\<close> is \<open>list.c\<close>; \<open>FifoQueue\<close> is \<open>fifo_queue.c\<close>; \<open>Commodity\<close> is
    \<open>commodity.c\<close> and \<open>neighbor.c\<close>; \<open>Ntable\<close> is \<open>ntable.c\<close>; \<open>DaemonState\<close> is the record of \<open>bprd.h\<close>.
  \<^item> The decisions: \<open>Router\<close> is \<open>router.c\<close> with \<open>Procfile\<close> for \<open>procfile.c\<close>; \<open>Backlogger\<close> is \<open>backlogger.c\<close>.
  \<^item> The hello protocol: \<open>HelloReader\<close> and \<open>HelloWriter\<close> are \<open>hello_reader.c\<close> and \<open>hello_writer.c\<close>; \<open>HelloWire\<close> is
    the wire form of a commodity. \<open>HelloMessage\<close> says what a received message does, \<open>HelloSend\<close> which bytes a
    round sends, \<open>HelloParse\<close> that the parser finds in them what was written, \<open>HelloLink\<close> puts the two daemons
    together, and \<open>HelloPressure\<close> goes on to the differentials of the receiver.
  \<^item> The PacketBB reader: \<open>PbbContext\<close> (\<open>pbb_context.h\<close>), \<open>PbbParse\<close> and \<open>PbbReader\<close> (\<open>pbb_reader.c\<close>, first bytes,
    then consumers); \<open>ReaderClient\<close>, \<open>ReaderSafety\<close> and \<open>ReaderGuarantees\<close> hold what is true for any client.
  \<^item> The PacketBB writer: \<open>TlvWriter\<close>, \<open>PbbWriter\<close>, \<open>PktGenerator\<close> and \<open>MsgGenerator\<close> are \<open>pbb_tlv_writer.c\<close>,
    \<open>pbb_writer.c\<close>, \<open>pbb_pkt_generator.c\<close> and \<open>pbb_msg_generator.c\<close>; \<open>WriterFrame\<close> bounds what a writer does to its
    client.
  \<^item> The libraries: \<open>Netaddr\<close> and \<open>NetaddrText\<close> (\<open>netaddr.c\<close>), \<open>CString\<close> (\<open>string.c\<close>), \<open>Avl\<close>, \<open>AvlBalance\<close>,
    \<open>AvlStore\<close>, \<open>AvlContainer\<close> and \<open>AvlLoops\<close> (\<open>avl.c\<close>, \<open>avl.h\<close>), \<open>SortedStore\<close> (what an AVL tree is for its users, and
    \<open>avl_comp.c\<close>), \<open>LinkedList\<close> (\<open>list.h\<close>), \<open>Autobuf\<close> and \<open>AbufTemplate\<close> (\<open>autobuf.c\<close>), \<open>Daemonize\<close> (\<open>daemonize.c\<close>).
  \<^item> The process: \<open>Config\<close>, \<open>DaemonInit\<close> and \<open>DaemonStart\<close> are \<open>bprd.c\<close> from the configuration file to the start of the
    threads; \<open>Process\<close> is \<open>logger.c\<close>, \<open>pidfile.c\<close> and \<open>daemonizer.c\<close>; \<open>DaemonRun\<close> interleaves the five activities;
    \<open>Util\<close> and \<open>Console\<close> are \<open>util.c\<close> and what the daemon prints.

  \<^bold>\<open>How code becomes definitions.\<close> A structure is a record, a function with side effects takes the state and returns
  the new one. A run can end before its time: \<open>Inl h\<close> with \<open>h :: halt\<close> is the end of the process by \<open>BPRD_LOG_ERR\<close>, a
  failed assertion, or an access the C code must not make (null pointer, outside of a block, division by zero).
  Integers have the width of the C types and wrap as these do. A pointer into a list is a position, a null pointer
  \<open>None\<close>. Allocation is a function that says which calls succeed, with a count of the live blocks. The clock, the
  random numbers, sockets, netlink, netfilter, \<open>inet_ntop\<close>, \<open>getopt_long_only\<close> and the other calls of the system
  are parameters; what a property needs of them is an assumption with a name, such as \<open>pton_sizes\<close>, \<open>env_works\<close> or
  \<open>receives\<close>. What uninitialised variables and fresh memory hold is a parameter too; in the hello reader and in the
  runs of the daemon it may be something else at every call. The trees of the reader and the writer are ordered lists (\<open>SortedStore\<close>); \<open>AvlStore\<close> and
  \<open>AvlContainer\<close> prove that the AVL tree with its rotations, balance factors and leader flags implements these.
  Where pointers themselves matter (\<open>list.h\<close>, the loops of \<open>avl.h\<close>) the model is a heap of next and previous
  pointers. Conditional compilation is as the build has it: the reader may drop contexts, there is no address
  compression, no writer state machine, no clearing of address tails.

  \<^bold>\<open>Contracts.\<close> \<open>comparator\<close> (instances: every comparison function), \<open>keyed_list\<close> (commodity and neighbor lists),
  \<open>packet_source\<close> (releasing and discarding packets of a queue), \<open>ordered_container\<close> (the AVL tree, for every
  comparator), \<open>reader_client\<close> (an invariant that the callbacks keep is kept by a whole packet; instance: the hello
  reader and the neighbor table), \<open>writer_frame\<close> (the same for the writer; instance: the hello writer),
  \<open>registry\<close> (lists of registered objects; instance: the rings of \<open>list.h\<close>), \<open>text_sink\<close> (instance: autobuf).

  \<^bold>\<open>What the lemmas show.\<close> From hello to hello: a round of the writer sends exactly the datagram the state
  determines, the receiver's parser accepts it, its neighbor table then holds what was announced, and the next
  route update computes the differentials from that (\<open>HelloLink.hello_links_daemons\<close>,
  \<open>HelloPressure.hello_makes_pressure\<close>). Decisions: the route goes to a neighbor of largest back pressure, the
  released packets are of the commodity of largest differential. The whole daemon: what \<open>main\<close> sets up is well
  formed, every interleaving of the activities keeps it so (apart from the addresses of 16 zero bytes, which can be
  in the neighbor table more than once), and packets leave each queue in the order in which they
  came. Libraries: trees, lists, buffers and templates refine sequences; encodings are inverse to each other; memory
  is balanced on every path of the reader. Failures that the code has are theorems too: packets that divide by zero
  or write past a buffer, a hello without an originator, hellos with too short an originator (\<open>ShortHello\<close>), an unknown
  commodity, a hello with too many neighbors, a relative pidfile path.

  \<^bold>\<open>Bounds and termination.\<close> No function has fuel. Loops with a bound in their data are structural or have a measure
  (\<open>parse_tlvblock\<close> by the bytes left, the climbs in the AVL tree by the path). Loops over pointers and the template
  loops are \<open>partial_function\<close>s, and their properties state that they end. The threads run for a number of rounds, or for
  a list of received datagrams, that is universally quantified. Datagrams are read into 512 bytes, and a hello has
  room for 509 of them besides the packet header.

  \<^bold>\<open>Not modelled.\<close> The locks are taken and released as in the code, but the steps of two threads are not interleaved
  within one activity. The creation of threads, sleeping and closing at the end of \<open>main\<close> (which is never reached) are
  calls of the system without an effect on the state; \<open>logger_init\<close> and \<open>logger_cleanup\<close> open and close the system
  log; \<open>netif.c\<close> is two calls of the C library; the options are printed while they are parsed, which is left out. The
  WIN32 versions of \<open>inet_ntop\<close> and \<open>inet_pton\<close> and the code under the switches that the build does not set are not
  part of the program. \<open>abuf_set_memory_handler\<close> replaces the allocator, which is a parameter here. The build system
  and the documentation have no program logic.
\<close>

end
